(* ===== verification/Prelude.thy ===== *)
theory Prelude
  imports Main "HOL-Library.Word" "HOL-Library.Multiset" "HOL-Library.Char_ord"
    "HOL-Library.List_Lexorder"
begin

text \<open>
  The vocabulary every theory of the development shares: Rust's \<open>Result\<close> and
  \<open>Option\<close> combinators, its saturating and checked integer operations at their width, and
  the ordered map \<open>BTreeMap\<close> as a list of bindings with strictly increasing keys.
  The generic lemmas are collected in three named collections: \<open>result_simps\<close> (unfolding
  of the combinators), \<open>result_elims\<close> (what a successful chain of fallible steps tells
  about each step) and \<open>int_ops\<close> (the arithmetic of the integer operations on \<open>nat\<close>).
\<close>

named_theorems result_simps \<open>unfolding of the Result and Option combinators\<close>
named_theorems result_elims \<open>inversion of successful Result computations\<close>
named_theorems int_ops \<open>machine integer operations read as natural numbers\<close>

section \<open>Results and options\<close>

text \<open>A \<open>Result<T, E>\<close> is a value of \<open>'e + 't\<close>: \<open>Inl\<close> is \<open>Err\<close>, \<open>Inr\<close> is \<open>Ok\<close>.\<close>

definition and_then :: "'e + 'a \<Rightarrow> ('a \<Rightarrow> 'e + 'b) \<Rightarrow> 'e + 'b" where
  "and_then r f = (case r of Inl e \<Rightarrow> Inl e | Inr x \<Rightarrow> f x)"

definition map_err :: "('e \<Rightarrow> 'f) \<Rightarrow> 'e + 'a \<Rightarrow> 'f + 'a" where
  "map_err f r = (case r of Inl e \<Rightarrow> Inl (f e) | Inr x \<Rightarrow> Inr x)"

definition map_ok :: "('a \<Rightarrow> 'b) \<Rightarrow> 'e + 'a \<Rightarrow> 'e + 'b" where
  "map_ok f r = (case r of Inl e \<Rightarrow> Inl e | Inr x \<Rightarrow> Inr (f x))"

definition ok_or :: "'e \<Rightarrow> 'a option \<Rightarrow> 'e + 'a" where
  "ok_or e v = (case v of None \<Rightarrow> Inl e | Some x \<Rightarrow> Inr x)"

definition ok :: "'e + 'a \<Rightarrow> 'a option" where
  "ok r = (case r of Inl e \<Rightarrow> None | Inr x \<Rightarrow> Some x)"

definition is_ok :: "'e + 'a \<Rightarrow> bool" where
  "is_ok r = (case r of Inl e \<Rightarrow> False | Inr x \<Rightarrow> True)"

definition is_some_and :: "('a \<Rightarrow> bool) \<Rightarrow> 'a option \<Rightarrow> bool" where
  "is_some_and p v = (case v of None \<Rightarrow> False | Some x \<Rightarrow> p x)"

definition is_none_or :: "('a \<Rightarrow> bool) \<Rightarrow> 'a option \<Rightarrow> bool" where
  "is_none_or p v = (case v of None \<Rightarrow> True | Some x \<Rightarrow> p x)"

definition unwrap_or :: "'a \<Rightarrow> 'a option \<Rightarrow> 'a" where
  "unwrap_or d v = (case v of None \<Rightarrow> d | Some x \<Rightarrow> x)"

lemma and_then_simps [simp, result_simps]:
  "and_then (Inl e) f = Inl e" "and_then (Inr x) f = f x"
  by (simp_all add: and_then_def)

lemma map_err_simps [simp, result_simps]:
  "map_err f (Inl e) = Inl (f e)" "map_err f (Inr x) = Inr x"
  by (simp_all add: map_err_def)

lemma map_ok_simps [simp, result_simps]:
  "map_ok f (Inl e) = Inl e" "map_ok f (Inr x) = Inr (f x)"
  by (simp_all add: map_ok_def)

lemma ok_or_simps [simp, result_simps]:
  "ok_or e None = Inl e" "ok_or e (Some x) = Inr x"
  by (simp_all add: ok_or_def)

lemma ok_simps [simp, result_simps]:
  "ok (Inl e) = None" "ok (Inr x) = Some x"
  by (simp_all add: ok_def)

lemma is_ok_simps [simp, result_simps]:
  "is_ok (Inl e) = False" "is_ok (Inr x) = True"
  by (simp_all add: is_ok_def)

lemma is_some_and_simps [simp, result_simps]:
  "is_some_and p None = False" "is_some_and p (Some x) = p x"
  by (simp_all add: is_some_and_def)

lemma is_none_or_simps [simp, result_simps]:
  "is_none_or p None = True" "is_none_or p (Some x) = p x"
  by (simp_all add: is_none_or_def)

lemma unwrap_or_simps [simp, result_simps]:
  "unwrap_or d None = d" "unwrap_or d (Some x) = x"
  by (simp_all add: unwrap_or_def)

lemma and_then_Inr_iff [result_elims]:
  "and_then r f = Inr y \<longleftrightarrow> (\<exists>x. r = Inr x \<and> f x = Inr y)"
  by (cases r) auto

lemma and_then_Inl_iff [result_elims]:
  "and_then r f = Inl e \<longleftrightarrow> r = Inl e \<or> (\<exists>x. r = Inr x \<and> f x = Inl e)"
  by (cases r) auto

lemma map_err_Inr_iff [result_elims]: "map_err f r = Inr y \<longleftrightarrow> r = Inr y"
  by (cases r) auto

lemma map_ok_Inr_iff [result_elims]: "map_ok f r = Inr y \<longleftrightarrow> (\<exists>x. r = Inr x \<and> y = f x)"
  by (cases r) auto

lemma ok_or_Inr_iff [result_elims]: "ok_or e v = Inr y \<longleftrightarrow> v = Some y"
  by (cases v) auto

lemma is_some_and_iff: "is_some_and p v \<longleftrightarrow> (\<exists>x. v = Some x \<and> p x)"
  by (cases v) auto

lemma is_none_or_iff: "is_none_or p v \<longleftrightarrow> (\<forall>x. v = Some x \<longrightarrow> p x)"
  by (cases v) auto

text \<open>\<open>iter().map(f).collect::<Result<Vec<_>, _>>()\<close>: the first error ends the iteration.\<close>

fun collect_results :: "('e + 'a) list \<Rightarrow> 'e + 'a list" where
  "collect_results [] = Inr []"
| "collect_results (r # rs) = and_then r (\<lambda>x. map_ok ((#) x) (collect_results rs))"

lemma collect_results_Inr_iff [result_elims]:
  "collect_results rs = Inr xs \<longleftrightarrow> rs = map Inr xs"
proof (induction rs arbitrary: xs)
  case (Cons r rs)
  show ?case
    by (cases xs) (auto simp: Cons.IH result_elims)
qed auto

section \<open>Machine integers\<close>

type_synonym u8 = "8 word"
type_synonym u16 = "16 word"
type_synonym u32 = "32 word"
type_synonym u64 = "64 word"

text \<open>
  An \<open>i64\<close> is an \<open>int\<close>; the operations that can leave the range of the type check it. A
  \<open>usize\<close> that counts elements of a collection is a \<open>nat\<close>.
\<close>

type_synonym i64 = int
type_synonym byte = u8

definition i64_max :: i64 where
  "i64_max = 9223372036854775807"

definition i64_min :: i64 where
  "i64_min = - 9223372036854775808"

definition checked_add_i64 :: "i64 \<Rightarrow> i64 \<Rightarrow> i64 option" where
  "checked_add_i64 a b = (if i64_min \<le> a + b \<and> a + b \<le> i64_max then Some (a + b) else None)"

text \<open>\<open>i64::try_from\<close> on a \<open>u64\<close>.\<close>

definition i64_of_u64 :: "u64 \<Rightarrow> i64 option" where
  "i64_of_u64 v = (if uint v \<le> i64_max then Some (uint v) else None)"

text \<open>\<open>u64::try_from\<close> on an \<open>i64\<close>.\<close>

definition u64_of_i64 :: "i64 \<Rightarrow> u64 option" where
  "u64_of_i64 v = (if 0 \<le> v then Some (word_of_int v) else None)"

text \<open>\<open>u64::try_from(n).unwrap_or(u64::MAX)\<close> on a \<open>usize\<close>, and its \<open>u32\<close> variant.\<close>

definition word_of_usize :: "nat \<Rightarrow> 'n::len word" where
  "word_of_usize n = (if n < 2 ^ LENGTH('n) then of_nat n else - 1)"

definition saturating_add :: "'n::len word \<Rightarrow> 'n word \<Rightarrow> 'n word" where
  "saturating_add a b = (if unat a + unat b < 2 ^ LENGTH('n) then a + b else - 1)"

definition saturating_sub :: "'n::len word \<Rightarrow> 'n word \<Rightarrow> 'n word" where
  "saturating_sub a b = (if a < b then 0 else a - b)"

definition checked_add :: "'n::len word \<Rightarrow> 'n word \<Rightarrow> 'n word option" where
  "checked_add a b = (if unat a + unat b < 2 ^ LENGTH('n) then Some (a + b) else None)"

definition checked_sub :: "'n::len word \<Rightarrow> 'n word \<Rightarrow> 'n word option" where
  "checked_sub a b = (if a < b then None else Some (a - b))"

lemma unat_saturating_sub [int_ops]: "unat (saturating_sub a b) = unat a - unat b"
  by (simp add: saturating_sub_def word_less_nat_alt unat_sub_if')

lemma unat_saturating_add [int_ops]:
  "unat (saturating_add a (b :: 'n::len word)) = min (unat a + unat b) (2 ^ LENGTH('n) - 1)"
  by (simp add: saturating_add_def unat_word_ariths unsigned_minus_1_eq_mask mask_eq_exp_minus_1)

lemma checked_add_Some_iff [int_ops]:
  "checked_add a b = Some c \<longleftrightarrow> unat c = unat a + unat b"
proof
  assume "checked_add a b = Some c"
  then show "unat c = unat a + unat b"
    by (auto simp: checked_add_def unat_word_ariths split: if_splits)
next
  assume *: "unat c = unat a + unat b"
  then have "unat a + unat b < 2 ^ LENGTH('a)"
    by (metis unsigned_less)
  moreover have "c = a + b"
    using * calculation by (simp add: word_unat_eq_iff unat_word_ariths)
  ultimately show "checked_add a b = Some c"
    by (simp add: checked_add_def)
qed

lemma checked_sub_Some_iff [int_ops]:
  "checked_sub a b = Some c \<longleftrightarrow> unat a = unat b + unat c"
  by (auto simp: checked_sub_def word_less_nat_alt unat_sub_if' word_unat_eq_iff)

lemma saturating_sub_mono: "a \<le> b \<Longrightarrow> saturating_sub a c \<le> saturating_sub b c"
  by (simp add: word_le_nat_alt int_ops)

lemma saturating_sub_0 [simp]: "saturating_sub a 0 = a"
  by (simp add: saturating_sub_def)

lemma saturating_sub_self [simp]: "saturating_sub a a = 0"
  by (simp add: saturating_sub_def)

lemma saturating_add_one_neq:
  "a \<noteq> - 1 \<Longrightarrow> unat (saturating_add a (1 :: 'n::len word)) = Suc (unat a)"
proof -
  assume "a \<noteq> - 1"
  then have "unat a \<noteq> 2 ^ LENGTH('n) - 1"
    by (simp add: word_unat_eq_iff unsigned_minus_1_eq_mask mask_eq_exp_minus_1)
  moreover have "unat a < 2 ^ LENGTH('n)"
    by (rule unsigned_less)
  ultimately have "Suc (unat a) < 2 ^ LENGTH('n)"
    by linarith
  then show ?thesis
    by (simp add: int_ops)
qed

lemma le_saturating_add: "a \<le> saturating_add a (b :: 'n::len word)"
proof -
  have "unat a < 2 ^ LENGTH('n)"
    by (rule unsigned_less)
  then have "unat a \<le> 2 ^ LENGTH('n) - 1"
    by linarith
  then show ?thesis
    by (simp add: word_le_nat_alt int_ops)
qed

section \<open>Ordered maps\<close>

text \<open>
  A \<open>BTreeMap<K, V>\<close> is the list of its bindings in increasing key order, so that
  \<open>iter\<close>, \<open>into_values\<close> and \<open>keys\<close> are the list itself; \<open>get\<close> is \<open>map_of\<close>. Collections that are never
  iterated in order are plain maps or sets.
\<close>

type_synonym ('k, 'v) btree_map = "('k \<times> 'v) list"

fun btree_insert :: "'k::linorder \<Rightarrow> 'v \<Rightarrow> ('k, 'v) btree_map \<Rightarrow> ('k, 'v) btree_map" where
  "btree_insert k v [] = [(k, v)]"
| "btree_insert k v ((k', v') # m) =
     (if k < k' then (k, v) # (k', v') # m
      else if k = k' then (k, v) # m
      else (k', v') # btree_insert k v m)"

definition btree_wf :: "('k::linorder, 'v) btree_map \<Rightarrow> bool" where
  "btree_wf m = (sorted (map fst m) \<and> distinct (map fst m))"

lemma map_of_btree_insert [simp]: "map_of (btree_insert k v m) = (map_of m)(k \<mapsto> v)" if "btree_wf m"
  using that
proof (induction m)
  case (Cons b m)
  obtain k' v' where b: "b = (k', v')" by (cases b)
  have "map_of m k = None" if "k < k'"
    using Cons.prems that by (force simp: b btree_wf_def map_of_eq_None_iff)
  then show ?case
    using Cons by (auto simp: b btree_wf_def)
qed simp

lemma set_fst_btree_insert [simp]: "fst ` set (btree_insert k v m) = insert k (fst ` set m)"
  by (induction k v m rule: btree_insert.induct) auto

lemma set_btree_insert_subset: "set (btree_insert k v m) \<subseteq> insert (k, v) (set m)"
  by (induction k v m rule: btree_insert.induct) auto

lemma btree_wf_insert [intro, simp]: "btree_wf m \<Longrightarrow> btree_wf (btree_insert k v m)"
proof (induction m)
  case (Cons b m)
  obtain k' v' where b: "b = (k', v')" by (cases b)
  have wf: "btree_wf m" and lo: "\<forall>x \<in> fst ` set m. k' < x"
    using Cons.prems by (force simp: b btree_wf_def order_le_less)+
  then show ?case
    using Cons.IH [OF wf] Cons.prems by (force simp: b btree_wf_def)
qed (simp add: btree_wf_def)

lemma btree_wf_Nil [simp]: "btree_wf []"
  by (simp add: btree_wf_def)

text \<open>
  The interface the clients of \<open>BTreeMap\<close> rely on: insertion updates the lookup, keeps the
  representation invariant, and the keys come out sorted.
\<close>

locale ordered_map =
  fixes empty :: "'m"
    and insert_at :: "'k::linorder \<Rightarrow> 'v \<Rightarrow> 'm \<Rightarrow> 'm"
    and get :: "'m \<Rightarrow> 'k \<Rightarrow> 'v option"
    and keys :: "'m \<Rightarrow> 'k list"
    and wf :: "'m \<Rightarrow> bool"
  assumes wf_empty: "wf empty"
    and get_empty: "get empty k = None"
    and wf_insert: "wf m \<Longrightarrow> wf (insert_at k v m)"
    and get_insert: "wf m \<Longrightarrow> get (insert_at k v m) k' = (if k' = k then Some v else get m k')"
    and keys_sorted: "wf m \<Longrightarrow> sorted_wrt (<) (keys m)"
    and keys_get: "wf m \<Longrightarrow> k \<in> set (keys m) \<longleftrightarrow> get m k \<noteq> None"
begin

definition insert_all :: "('k \<times> 'v) list \<Rightarrow> 'm \<Rightarrow> 'm" where
  "insert_all bs m = fold (\<lambda>(k, v). insert_at k v) bs m"

lemma wf_insert_all: "wf m \<Longrightarrow> wf (insert_all bs m)"
  by (induction bs arbitrary: m) (auto simp: insert_all_def wf_insert)

lemma get_insert_all: "wf m \<Longrightarrow> get (insert_all bs m) = get m ++ map_of (rev bs)"
proof (induction bs arbitrary: m)
  case (Cons b bs)
  then show ?case
    by (cases b) (auto simp: insert_all_def wf_insert get_insert map_add_def fun_eq_iff
        split: option.splits)
qed (simp add: insert_all_def)

lemma keys_insert_all:
  "set (keys (insert_all bs empty)) = fst ` set bs"
proof -
  have "k \<in> set (keys (insert_all bs empty)) \<longleftrightarrow> map_of (rev bs) k \<noteq> None" for k
    by (auto simp: keys_get [OF wf_insert_all [OF wf_empty]] get_insert_all [OF wf_empty]
        get_empty map_add_def split: option.splits)
  then show ?thesis
    by (auto simp: map_of_eq_None_iff simp del: not_None_eq)
qed

lemma keys_distinct: "wf m \<Longrightarrow> distinct (keys m)"
  using keys_sorted by (auto dest: strict_sorted_imp_sorted simp: strict_sorted_iff)

end

interpretation btree: ordered_map "[] :: ('k::linorder, 'v) btree_map" btree_insert map_of "map fst" btree_wf
proof unfold_locales
  fix m :: "('k, 'v) btree_map"
  assume wf: "btree_wf m"
  then show "sorted_wrt (<) (map fst m)"
    by (simp add: btree_wf_def strict_sorted_iff)
  show "k \<in> set (map fst m) \<longleftrightarrow> map_of m k \<noteq> None" for k
    by (simp add: map_of_eq_None_iff)
qed auto

end
