(* ===== verification/Rust_Std.thy ===== *)
theory Rust_Std
  imports Prelude
begin

text \<open>
  The part of Rust's standard library on text and paths that the modelled code calls. A
  \<open>str\<close> is the list of its UTF-8 bytes (one \<open>char\<close> each, so \<open>len\<close> is \<open>length\<close>); white space
  and digits are the ASCII ones, which is what the records the code parses with these
  functions (procfs files, version strings, path names) consist of. The theory proves the
  two facts the parsers' correctness rests on: splitting inverts joining, and
  \<open>parse\<close> inverts decimal printing exactly on the values that fit the integer type.
\<close>

named_theorems text_simps \<open>laws of splitting, finding and parsing text\<close>

section \<open>Splitting\<close>

text \<open>\<open>slice::split\<close> and \<open>str::split\<close> on a character class.\<close>

fun split_by :: "('a \<Rightarrow> bool) \<Rightarrow> 'a list \<Rightarrow> 'a list list" where
  "split_by p [] = [[]]"
| "split_by p (x # xs) =
     (if p x then [] # split_by p xs
      else (case split_by p xs of [] \<Rightarrow> [[x]] | s # ss \<Rightarrow> (x # s) # ss))"

fun join_with :: "'a \<Rightarrow> 'a list list \<Rightarrow> 'a list" where
  "join_with c [] = []"
| "join_with c [s] = s"
| "join_with c (s # t # ss) = s @ c # join_with c (t # ss)"

lemma split_by_not_Nil [simp]: "split_by p xs \<noteq> []"
  by (induction xs) (auto split: list.splits)

lemma split_by_no_sep [simp, text_simps]: "\<forall>x \<in> set xs. \<not> p x \<Longrightarrow> split_by p xs = [xs]"
  by (induction xs) auto

lemma split_by_append_sep [simp, text_simps]:
  "p c \<Longrightarrow> \<forall>x \<in> set xs. \<not> p x \<Longrightarrow> split_by p (xs @ c # ys) = xs # split_by p ys"
  by (induction xs) (auto split: list.splits)

lemma split_by_join [text_simps]:
  assumes "p c" and "ss \<noteq> []" and "\<forall>s \<in> set ss. \<forall>x \<in> set s. \<not> p x"
  shows "split_by p (join_with c ss) = ss"
  using assms(2,3)
proof (induction ss rule: induct_list012)
  case (3 s t ss)
  have "\<forall>x \<in> set s. \<not> p x"
    using "3.prems" by simp
  then have "split_by p (join_with c (s # t # ss)) = s # split_by p (join_with c (t # ss))"
    using assms(1) by simp
  then show ?case
    using 3 by simp
qed auto

lemma in_set_join_with: "x \<in> set (join_with c ss) \<Longrightarrow> x = c \<or> (\<exists>s \<in> set ss. x \<in> set s)"
  by (induction c ss rule: join_with.induct) auto

lemma join_split: "join_with c (split_by ((=) c) xs) = xs"
proof (induction xs)
  case (Cons x xs)
  obtain s ss where *: "split_by ((=) c) xs = s # ss"
    by (cases "split_by ((=) c) xs") auto
  then show ?case
    using Cons by (cases ss) auto
qed simp

lemma split_by_pieces: "s \<in> set (split_by p xs) \<Longrightarrow> x \<in> set s \<Longrightarrow> \<not> p x"
proof (induction xs arbitrary: s)
  case (Cons y ys)
  obtain t ts where *: "split_by p ys = t # ts"
    by (cases "split_by p ys") auto
  then have "\<forall>u \<in> set (t # ts). x \<in> set u \<longrightarrow> \<not> p x"
    using Cons.IH by metis
  with * show ?case
    using Cons.prems by (fastforce split: if_splits)
qed simp

text \<open>\<open>iter().position\<close> and \<open>iter().rposition\<close>; \<open>str::find\<close> and \<open>str::rfind\<close> on a character.\<close>

fun position :: "('a \<Rightarrow> bool) \<Rightarrow> 'a list \<Rightarrow> nat option" where
  "position p [] = None"
| "position p (x # xs) = (if p x then Some 0 else map_option Suc (position p xs))"

fun rposition :: "('a \<Rightarrow> bool) \<Rightarrow> 'a list \<Rightarrow> nat option" where
  "rposition p [] = None"
| "rposition p (x # xs) =
     (case rposition p xs of Some i \<Rightarrow> Some (Suc i) | None \<Rightarrow> if p x then Some 0 else None)"

lemma position_append [text_simps]:
  "p c \<Longrightarrow> \<forall>x \<in> set xs. \<not> p x \<Longrightarrow> position p (xs @ c # ys) = Some (length xs)"
  by (induction xs) auto

lemma rposition_None_iff: "rposition p xs = None \<longleftrightarrow> (\<forall>x \<in> set xs. \<not> p x)"
  by (induction xs) (auto split: option.splits)

lemma rposition_append [text_simps]:
  assumes "p c" and "\<forall>y \<in> set ys. \<not> p y"
  shows "rposition p (xs @ c # ys) = Some (length xs)"
proof -
  have "rposition p ys = None"
    using assms(2) by (simp add: rposition_None_iff)
  then show ?thesis
    using assms(1) by (induction xs) auto
qed

lemma rposition_Some:
  "rposition p xs = Some i \<Longrightarrow>
     i < length xs \<and> p (xs ! i) \<and> (\<forall>x \<in> set (drop (Suc i) xs). \<not> p x)"
proof (induction xs arbitrary: i)
  case (Cons x xs)
  show ?case
  proof (cases "rposition p xs")
    case None
    then have "\<forall>y \<in> set xs. \<not> p y"
      by (simp only: rposition_None_iff simp_thms)
    then show ?thesis
      using Cons.prems None by (auto split: if_splits)
  next
    case (Some j)
    then show ?thesis
      using Cons by auto
  qed
qed simp

text \<open>\<open>str::split_once\<close> on a non-empty pattern.\<close>

fun split_once :: "string \<Rightarrow> string \<Rightarrow> (string \<times> string) option" where
  "split_once pat [] = (if pat = [] then Some ([], []) else None)"
| "split_once pat (c # cs) =
     (if take (length pat) (c # cs) = pat then Some ([], drop (length pat) (c # cs))
      else map_option (\<lambda>(a, b). (c # a, b)) (split_once pat cs))"

lemma split_once_Some: "split_once pat s = Some (a, b) \<Longrightarrow> s = a @ pat @ b"
proof (induction pat s arbitrary: a rule: split_once.induct)
  case (2 pat c cs)
  show ?case
  proof (cases "take (length pat) (c # cs) = pat")
    case True
    then show ?thesis
      using "2.prems" by (metis append_Nil append_take_drop_id option.inject prod.inject
          split_once.simps(2))
  next
    case False
    then show ?thesis
      using 2 by auto
  qed
qed (auto split: if_splits)

lemma split_once_char [text_simps]:
  "c \<notin> set a \<Longrightarrow> split_once [c] (a @ c # b) = Some (a, b)"
  by (induction a) auto

section \<open>White space\<close>

definition is_whitespace :: "char \<Rightarrow> bool" where
  "is_whitespace c = (let n = (of_char c :: nat) in n = 32 \<or> (9 \<le> n \<and> n \<le> 13))"

definition split_whitespace :: "string \<Rightarrow> string list" where
  "split_whitespace s = filter (\<lambda>t. t \<noteq> []) (split_by is_whitespace s)"

definition trim_start :: "string \<Rightarrow> string" where
  "trim_start s = dropWhile is_whitespace s"

definition trim_end :: "string \<Rightarrow> string" where
  "trim_end s = rev (dropWhile is_whitespace (rev s))"

definition trim :: "string \<Rightarrow> string" where
  "trim s = trim_end (trim_start s)"

text \<open>\<open>str::lines\<close>: a final line feed ends the last line and \<open>\r\<close> before it is dropped.\<close>

definition strip_cr :: "string \<Rightarrow> string" where
  "strip_cr s = (if s \<noteq> [] \<and> last s = CHR 0x0D then butlast s else s)"

definition text_lines :: "string \<Rightarrow> string list" where
  "text_lines s =
     (let ls = split_by (\<lambda>c. c = CHR 0x0A) s
      in if last ls = [] then map strip_cr (butlast ls)
         else map strip_cr (butlast ls) @ [last ls])"

lemma split_whitespace_join [text_simps]:
  assumes "\<forall>s \<in> set ss. s \<noteq> [] \<and> (\<forall>c \<in> set s. \<not> is_whitespace c)"
  shows "split_whitespace (join_with CHR '' '' ss) = ss"
proof (cases "ss = []")
  case False
  then have "split_by is_whitespace (join_with CHR '' '' ss) = ss"
    using assms by (intro split_by_join) (auto simp: is_whitespace_def)
  then show ?thesis
    using assms by (simp add: split_whitespace_def filter_id_conv)
qed (simp add: split_whitespace_def)

lemma split_whitespace_Cons [simp, text_simps]:
  "is_whitespace c \<Longrightarrow> split_whitespace (c # s) = split_whitespace s"
  by (simp add: split_whitespace_def)

lemma trim_nonspace [text_simps]:
  "\<forall>c \<in> set s. \<not> is_whitespace c \<Longrightarrow> trim s = s"
  "\<forall>c \<in> set s. \<not> is_whitespace c \<Longrightarrow> trim (CHR '' '' # s) = s"
proof -
  assume *: "\<forall>c \<in> set s. \<not> is_whitespace c"
  then have "dropWhile is_whitespace s = s" "dropWhile is_whitespace (rev s) = rev s"
    using hd_in_set [of s] hd_in_set [of "rev s"] by (auto simp: dropWhile_eq_self_iff)
  moreover have "is_whitespace CHR '' ''"
    by (simp add: is_whitespace_def)
  ultimately show "trim s = s" "trim (CHR '' '' # s) = s"
    by (simp_all add: trim_def trim_start_def trim_end_def)
qed

section \<open>UTF-8\<close>

text \<open>\<open>String::from_utf8\<close> and \<open>OsStr::to_str\<close> accept exactly the well-formed UTF-8 byte sequences.\<close>

definition byte_in :: "char \<Rightarrow> nat \<Rightarrow> nat \<Rightarrow> bool" where
  "byte_in c lo hi \<longleftrightarrow> lo \<le> (of_char c :: nat) \<and> (of_char c :: nat) \<le> hi"

fun utf8_valid :: "string \<Rightarrow> bool" where
  "utf8_valid [] = True"
| "utf8_valid (a # s) =
     (if byte_in a 0x00 0x7F then utf8_valid s
      else case s of
        [] \<Rightarrow> False
      | b # t \<Rightarrow>
          if byte_in a 0xC2 0xDF then byte_in b 0x80 0xBF \<and> utf8_valid t
          else case t of
            [] \<Rightarrow> False
          | c # u \<Rightarrow>
              if byte_in a 0xE0 0xEF then
                (if byte_in a 0xE0 0xE0 then byte_in b 0xA0 0xBF
                 else if byte_in a 0xED 0xED then byte_in b 0x80 0x9F
                 else byte_in b 0x80 0xBF) \<and> byte_in c 0x80 0xBF \<and> utf8_valid u
              else case u of
                [] \<Rightarrow> False
              | d # v \<Rightarrow>
                  byte_in a 0xF0 0xF4 \<and>
                  (if byte_in a 0xF0 0xF0 then byte_in b 0x90 0xBF
                   else if byte_in a 0xF4 0xF4 then byte_in b 0x80 0x8F
                   else byte_in b 0x80 0xBF) \<and>
                  byte_in c 0x80 0xBF \<and> byte_in d 0x80 0xBF \<and> utf8_valid v)"

section \<open>Decimal integers\<close>

datatype int_error_kind = IntEmpty | IntInvalidDigit | IntPosOverflow

definition digit_value :: "char \<Rightarrow> nat option" where
  "digit_value c = (let n = (of_char c :: nat) in if 48 \<le> n \<and> n \<le> 57 then Some (n - 48) else None)"

text \<open>\<open>from_str_radix(10)\<close> on an unsigned type with the given largest value, left to right.\<close>

fun parse_digits :: "nat \<Rightarrow> nat \<Rightarrow> string \<Rightarrow> int_error_kind + nat" where
  "parse_digits mx acc [] = Inr acc"
| "parse_digits mx acc (c # cs) =
     (case digit_value c of
        None \<Rightarrow> Inl IntInvalidDigit
      | Some d \<Rightarrow> (let v = acc * 10 + d in
          if v > mx then Inl IntPosOverflow else parse_digits mx v cs))"

definition parse_unsigned :: "string \<Rightarrow> int_error_kind + 'n::len word" where
  "parse_unsigned s =
     (case s of
        [] \<Rightarrow> Inl IntEmpty
      | c # cs \<Rightarrow>
          if cs = [] \<and> (c = CHR ''+'' \<or> c = CHR ''-'') then Inl IntInvalidDigit
          else map_ok of_nat
            (parse_digits (2 ^ LENGTH('n) - 1) 0 (if c = CHR ''+'' then cs else s)))"

definition digit_char :: "nat \<Rightarrow> char" where
  "digit_char d = char_of (48 + d)"

text \<open>\<open>to_string\<close> on an unsigned integer.\<close>

fun print_nat :: "nat \<Rightarrow> string" where
  "print_nat n = (if n < 10 then [digit_char n] else print_nat (n div 10) @ [digit_char (n mod 10)])"

declare print_nat.simps [simp del]

lemma digit_value_char [simp]: "d < 10 \<Longrightarrow> digit_value (digit_char d) = Some d"
  by (simp add: digit_value_def digit_char_def Let_def)

lemma digit_char_props:
  assumes "d < 10"
  shows "digit_char d \<noteq> CHR ''+''" "digit_char d \<noteq> CHR ''-''" "\<not> is_whitespace (digit_char d)"
proof -
  have "(of_char (digit_char d) :: nat) = 48 + d"
    using assms by (simp add: digit_char_def)
  then show "digit_char d \<noteq> CHR ''+''" "digit_char d \<noteq> CHR ''-''" "\<not> is_whitespace (digit_char d)"
    by (auto simp: is_whitespace_def Let_def)
qed

lemma print_nat_not_Nil [simp]: "print_nat n \<noteq> []"
  by (subst print_nat.simps) simp

lemma print_nat_digits: "c \<in> set (print_nat n) \<Longrightarrow> \<exists>d < 10. c = digit_char d"
proof (induction n rule: print_nat.induct)
  case (1 n)
  have "n mod 10 < 10"
    by simp
  with 1 show ?case
    by (cases "n < 10") (auto simp: print_nat.simps [of n] simp del: mod_less_divisor)
qed

lemma print_nat_no_space [simp]: "c \<in> set (print_nat n) \<Longrightarrow> \<not> is_whitespace c"
  using print_nat_digits digit_char_props(3) by blast

lemma parse_digits_append:
  "parse_digits mx acc (s @ t) = and_then (parse_digits mx acc s) (\<lambda>v. parse_digits mx v t)"
  by (induction s arbitrary: acc) (auto simp: Let_def split: option.splits)

lemma parse_digits_print:
  "parse_digits mx 0 (print_nat n) = (if n \<le> mx then Inr n else Inl IntPosOverflow)"
proof (induction n rule: print_nat.induct)
  case (1 n)
  show ?case
  proof (cases "n < 10")
    case True
    then show ?thesis by (simp add: print_nat.simps [of n])
  next
    case False
    moreover have "n div 10 \<le> mx" if "n \<le> mx"
      using that by (meson div_le_dividend le_trans)
    ultimately show ?thesis
      using "1.IH" by (simp add: print_nat.simps [of n] parse_digits_append Let_def)
  qed
qed

lemma parse_unsigned_print [text_simps]:
  "(parse_unsigned (print_nat n) :: int_error_kind + 'n::len word) =
     (if n < 2 ^ LENGTH('n) then Inr (of_nat n) else Inl IntPosOverflow)"
proof -
  obtain c cs where s: "print_nat n = c # cs"
    by (cases "print_nat n") auto
  then obtain d where "d < 10" "c = digit_char d"
    using print_nat_digits [of c n] by auto
  then have "c \<noteq> CHR ''+''" "c \<noteq> CHR ''-''"
    using digit_char_props by auto
  then have "(parse_unsigned (print_nat n) :: int_error_kind + 'n word) =
      map_ok of_nat (parse_digits (2 ^ LENGTH('n) - 1) 0 (print_nat n))"
    by (simp add: parse_unsigned_def s)
  moreover have "n \<le> 2 ^ LENGTH('n) - 1 \<longleftrightarrow> n < 2 ^ LENGTH('n)"
    using zero_less_power [of "2 :: nat" "LENGTH('n)"] by linarith
  ultimately show ?thesis
    by (simp only: parse_digits_print split: if_split) simp
qed

section \<open>Comparison and sorting\<close>

datatype ordering = Less | Equal | Greater

definition cmp :: "'a::linorder \<Rightarrow> 'a \<Rightarrow> ordering" where
  "cmp a b = (if a < b then Less else if a = b then Equal else Greater)"

definition then_with :: "ordering \<Rightarrow> ordering \<Rightarrow> ordering" where
  "then_with a b = (if a = Equal then b else a)"

text \<open>\<open>slice::sort_by\<close> is stable: an element goes in front of the equal ones already behind it.\<close>

fun sort_insert :: "('a \<Rightarrow> 'a \<Rightarrow> ordering) \<Rightarrow> 'a \<Rightarrow> 'a list \<Rightarrow> 'a list" where
  "sort_insert c x [] = [x]"
| "sort_insert c x (y # ys) = (if c x y = Greater then y # sort_insert c x ys else x # y # ys)"

definition sort_by :: "('a \<Rightarrow> 'a \<Rightarrow> ordering) \<Rightarrow> 'a list \<Rightarrow> 'a list" where
  "sort_by c xs = foldr (sort_insert c) xs []"

lemma mset_sort_insert [simp]: "mset (sort_insert c x ys) = add_mset x (mset ys)"
  by (induction ys) auto

lemma mset_sort_by [simp]: "mset (sort_by c xs) = mset xs"
  by (induction xs) (auto simp: sort_by_def)

lemma set_sort_by [simp]: "set (sort_by c xs) = set xs"
  by (metis mset_sort_by set_mset_mset)

lemma length_sort_by [simp]: "length (sort_by c xs) = length xs"
  by (metis mset_sort_by size_mset)

lemma sort_by_eq_Nil [simp]: "sort_by c xs = [] \<longleftrightarrow> xs = []"
  by (metis length_sort_by length_0_conv)

text \<open>The contract a comparator passed to \<open>sort_by\<close> must meet: a total preorder.\<close>

locale comparator =
  fixes c :: "'a \<Rightarrow> 'a \<Rightarrow> ordering"
  assumes flip: "c x y = Greater \<longleftrightarrow> c y x = Less"
    and trans: "c x y \<noteq> Greater \<Longrightarrow> c y z \<noteq> Greater \<Longrightarrow> c x z \<noteq> Greater"
begin

lemma refl: "c x x = Equal"
  using flip [of x x] by (cases "c x x") auto

lemma sym: "c x y = Equal \<longleftrightarrow> c y x = Equal"
  using flip [of x y] flip [of y x] by (cases "c x y"; cases "c y x") auto

lemma not_Greater: "c x y \<noteq> Greater \<longleftrightarrow> c y x = Greater \<or> c x y = Equal"
  using flip [of x y] flip [of y x] by (cases "c x y") auto

lemma sort_insert_sorted:
  "sorted_wrt (\<lambda>x y. c x y \<noteq> Greater) ys \<Longrightarrow>
     sorted_wrt (\<lambda>x y. c x y \<noteq> Greater) (sort_insert c x ys)"
proof (induction ys)
  case (Cons y ys)
  have mem: "set (sort_insert c x ys) = insert x (set ys)"
    by (metis mset_sort_insert set_mset_add_mset_insert set_mset_mset)
  show ?case
  proof (cases "c x y = Greater")
    case True
    then have "c y x \<noteq> Greater"
      by (simp add: flip)
    with True Cons mem show ?thesis
      by auto
  next
    case False
    then show ?thesis
      using Cons.prems trans by fastforce
  qed
qed simp

lemma sort_by_sorted: "sorted_wrt (\<lambda>x y. c x y \<noteq> Greater) (sort_by c xs)"
  by (induction xs) (auto simp: sort_by_def sort_insert_sorted)

text \<open>Where equal elements are identical, the result does not depend on the order of the input.\<close>

lemma sorted_unique:
  assumes "sorted_wrt (\<lambda>x y. c x y \<noteq> Greater) xs" and "sorted_wrt (\<lambda>x y. c x y \<noteq> Greater) ys"
    and "mset xs = mset ys" and "\<forall>x \<in> set xs. \<forall>y \<in> set xs. c x y = Equal \<longrightarrow> x = y"
  shows "xs = ys"
  using assms
proof (induction xs arbitrary: ys)
  case (Cons x xs)
  then obtain y ys' where ys: "ys = y # ys'"
    by (cases ys) auto
  have sets: "set (x # xs) = set ys"
    using Cons.prems(3) by (metis set_mset_mset)
  have "x = y"
  proof (rule ccontr)
    assume ne: "x \<noteq> y"
    then have "y \<in> set xs" "x \<in> set ys'"
      using sets by (auto simp: ys)
    then have "c x y \<noteq> Greater" "c y x \<noteq> Greater"
      using Cons.prems(1,2) by (auto simp: ys)
    then have "c x y = Equal"
      by (meson not_Greater)
    then show False
      using Cons.prems(4) ne \<open>y \<in> set xs\<close> by auto
  qed
  then show ?case
    using Cons by (simp add: ys)
qed simp

lemma sort_by_perm:
  assumes "mset xs = mset ys" and "\<forall>x \<in> set xs. \<forall>y \<in> set xs. c x y = Equal \<longrightarrow> x = y"
  shows "sort_by c xs = sort_by c ys"
  using assms by (intro sorted_unique sort_by_sorted) simp_all

end

lemma comparator_cmp: "comparator (\<lambda>x y. cmp (f x) (f y))"
  by standard (auto simp: cmp_def split: if_splits)

lemma comparator_reverse: "comparator c \<Longrightarrow> comparator (\<lambda>x y. c y x)"
  unfolding comparator_def by blast

lemma comparator_then_with:
  assumes "comparator c" and "comparator d"
  shows "comparator (\<lambda>x y. then_with (c x y) (d x y))"
proof
  fix x y z
  show "then_with (c x y) (d x y) = Greater \<longleftrightarrow> then_with (c y x) (d y x) = Less"
    using comparator.flip [OF assms(1)] comparator.flip [OF assms(2)] comparator.sym [OF assms(1)]
    by (auto simp: then_with_def)
  assume xy: "then_with (c x y) (d x y) \<noteq> Greater" and yz: "then_with (c y z) (d y z) \<noteq> Greater"
  have cle: "c x y \<noteq> Greater" "c y z \<noteq> Greater"
    using xy yz by (auto simp: then_with_def split: if_splits)
  then have cxz: "c x z \<noteq> Greater"
    by (rule comparator.trans [OF assms(1)])
  show "then_with (c x z) (d x z) \<noteq> Greater"
  proof (cases "c x z = Equal")
    case True
    then have "c z x \<noteq> Greater"
      using comparator.sym [OF assms(1)] by (metis ordering.distinct(6))
    then have "c y x \<noteq> Greater" "c z y \<noteq> Greater"
      using cle comparator.trans [OF assms(1)] by blast+
    then have "c x y = Equal" "c y z = Equal"
      using cle comparator.flip [OF assms(1)] by (metis ordering.exhaust)+
    then show ?thesis
      using True xy yz comparator.trans [OF assms(2)] by (auto simp: then_with_def)
  qed (use cxz in \<open>simp add: then_with_def\<close>)
qed

interpretation natural: comparator "cmp :: 'a::linorder \<Rightarrow> 'a \<Rightarrow> ordering"
  using comparator_cmp [of "\<lambda>x. x"] by simp

section \<open>Paths\<close>

text \<open>\<open>Path::components\<close>: repeated and trailing separators and inner \<open>.\<close> are dropped.\<close>

datatype path_component = RootDir | CurDir | ParentDir | NormalComp string

fun component_of :: "string \<Rightarrow> path_component option" where
  "component_of s =
     (if s = [] \<or> s = ''.'' then None
      else if s = ''..'' then Some ParentDir
      else Some (NormalComp s))"

definition path_components :: "string \<Rightarrow> path_component list" where
  "path_components p =
     (let segments = split_by (\<lambda>c. c = CHR ''/'') p;
          lead = (if p \<noteq> [] \<and> hd p = CHR ''/'' then [RootDir]
                  else if hd segments = ''.'' then [CurDir] else [])
      in lead @ List.map_filter component_of segments)"

definition is_absolute :: "string \<Rightarrow> bool" where
  "is_absolute p = (p \<noteq> [] \<and> hd p = CHR ''/'')"

definition file_name :: "string \<Rightarrow> string option" where
  "file_name p =
     (case rev (path_components p) of NormalComp s # _ \<Rightarrow> Some s | _ \<Rightarrow> None)"

text \<open>\<open>Path::starts_with\<close> compares whole components.\<close>

definition path_starts_with :: "string \<Rightarrow> string \<Rightarrow> bool" where
  "path_starts_with p base =
     (let b = path_components base in take (length b) (path_components p) = b)"

lemma file_name_absolute [text_simps]:
  assumes "CHR ''/'' \<notin> set name" and "name \<noteq> []" and "name \<noteq> ''.''" and "name \<noteq> ''..''"
  shows "file_name (dir @ CHR ''/'' # name) = Some name"
proof -
  have split: "\<exists>ss. split_by (\<lambda>c. c = CHR ''/'') (dir @ CHR ''/'' # name) = ss @ [name]"
  proof (induction dir)
    case Nil
    have "split_by (\<lambda>c. c = CHR ''/'') name = [name]"
      using assms(1) by (intro split_by_no_sep) auto
    then have "split_by (\<lambda>c. c = CHR ''/'') ([] @ CHR ''/'' # name) = [[]] @ [name]"
      by simp
    then show ?case by blast
  next
    case (Cons c dir)
    then obtain ss where ss: "split_by (\<lambda>c. c = CHR ''/'') (dir @ CHR ''/'' # name) = ss @ [name]"
      by blast
    have "ss \<noteq> []"
    proof
      assume "ss = []"
      have "(\<lambda>c. c = CHR ''/'') = ((=) CHR ''/'')"
        by auto
      with ss \<open>ss = []\<close>
      have "join_with CHR ''/'' (split_by ((=) CHR ''/'') (dir @ CHR ''/'' # name)) = name"
        by simp
      then have "dir @ CHR ''/'' # name = name"
        by (simp only: join_split)
      then have "length (dir @ CHR ''/'' # name) = length name"
        by simp
      then show False
        by simp
    qed
    then show ?case
      using ss by (cases ss) auto
  qed
  then obtain ss where "split_by (\<lambda>c. c = CHR ''/'') (dir @ CHR ''/'' # name) = ss @ [name]"
    by blast
  then show ?thesis
    using assms(2-4)
    by (simp add: file_name_def path_components_def Let_def List.map_filter_def)
qed

end
