(* ===== verification/Identity.thy ===== *)
theory Identity
  imports Rust_Std
begin

text \<open>
  The validated identifiers of \<open>watchdog-domain\<close>: bounded text (\<open>input.rs\<close>), native and
  derived session identities (\<open>identity.rs\<close>), the role-preserving \<open>SessionIdentity\<close>
  (\<open>session.rs\<close>), process identities (\<open>process.rs\<close>) and clock samples (\<open>time.rs\<close>). The
  \<open>Ord\<close> instances the code derives are \<open>linorder\<close> instances. The main result is that the
  length-prefixed encoding hashed into a derived identifier is injective, so two native
  identities share a session identifier only when the hash itself collides.
\<close>

section \<open>Bounded text\<close>

datatype domain_input_error =
    EmptyField string
  | TooLong string nat nat

definition bounded_text_new :: "nat \<Rightarrow> string \<Rightarrow> string \<Rightarrow> domain_input_error + string" where
  "bounded_text_new max_bytes field v =
     (if length v > max_bytes then Inl (TooLong field max_bytes (length v)) else Inr v)"

lemma bounded_text_new_Inr_iff [result_elims]:
  "bounded_text_new n field v = Inr t \<longleftrightarrow> t = v \<and> length v \<le> n"
  by (auto simp: bounded_text_new_def)

text \<open>
  The pattern every non-empty bounded field is validated with: the budget first, emptiness
  second.
\<close>

definition non_empty_text :: "nat \<Rightarrow> string \<Rightarrow> string \<Rightarrow> domain_input_error + string" where
  "non_empty_text max_bytes field v =
     and_then (bounded_text_new max_bytes field v)
       (\<lambda>t. if t = [] then Inl (EmptyField field) else Inr t)"

lemma non_empty_text_Inr_iff [result_elims]:
  "non_empty_text n field v = Inr t \<longleftrightarrow> t = v \<and> v \<noteq> [] \<and> length v \<le> n"
  by (auto simp: non_empty_text_def result_elims)

section \<open>Native and derived identities\<close>

datatype runtime_kind = ClaudeCode | CodexCli | CodexCompanion | OpenCode

fun runtime_as_str :: "runtime_kind \<Rightarrow> string" where
  "runtime_as_str ClaudeCode = ''claude_code''"
| "runtime_as_str CodexCli = ''codex_cli''"
| "runtime_as_str CodexCompanion = ''codex_companion''"
| "runtime_as_str OpenCode = ''opencode''"

lemma runtime_as_str_inj: "runtime_as_str r = runtime_as_str q \<longleftrightarrow> r = q"
  by (cases r; cases q) simp_all

record native_session_key =
  nk_runtime :: runtime_kind
  nk_native_id :: string

definition MAX_NATIVE_ID_BYTES :: nat where
  "MAX_NATIVE_ID_BYTES = 512"

definition MAX_OBSERVATION_PART_BYTES :: nat where
  "MAX_OBSERVATION_PART_BYTES = 512"

definition native_session_key_new ::
  "runtime_kind \<Rightarrow> string \<Rightarrow> domain_input_error + native_session_key" where
  "native_session_key_new runtime native_id =
     and_then (bounded_text_new MAX_NATIVE_ID_BYTES ''native_id'' native_id) (\<lambda>t.
       if t = [] then Inl (EmptyField ''native_id'')
       else Inr \<lparr>nk_runtime = runtime, nk_native_id = t\<rparr>)"

text \<open>What the constructor establishes of every key in the program.\<close>

definition native_key_wf :: "native_session_key \<Rightarrow> bool" where
  "native_key_wf k \<longleftrightarrow> nk_native_id k \<noteq> [] \<and> length (nk_native_id k) \<le> MAX_NATIVE_ID_BYTES"

lemma native_session_key_new_Inr_iff [result_elims]:
  "native_session_key_new r i = Inr k \<longleftrightarrow>
     k = \<lparr>nk_runtime = r, nk_native_id = i\<rparr> \<and> native_key_wf k"
  by (auto simp: native_session_key_new_def native_key_wf_def result_elims)

text \<open>
  A \<open>Uuid\<close> is its 128 bits; its byte-wise order is the unsigned order of the word. The
  identifier types are wrappers with the derived order.
\<close>

type_synonym uuid = "128 word"

datatype session_id = SessionId (as_uuid: uuid)

datatype observation_id = ObservationId (observation_uuid: uuid)

datatype main_session_id = MainSessionId (main_session: session_id)

datatype child_session_id = ChildSessionId (child_session: session_id)

instantiation session_id :: linorder
begin

definition less_eq_session_id :: "session_id \<Rightarrow> session_id \<Rightarrow> bool" where
  "less_eq_session_id a b \<longleftrightarrow> as_uuid a \<le> as_uuid b"

definition less_session_id :: "session_id \<Rightarrow> session_id \<Rightarrow> bool" where
  "less_session_id a b \<longleftrightarrow> as_uuid a < as_uuid b"

instance
  by standard (auto simp: less_eq_session_id_def less_session_id_def session_id.expand)

end

instantiation main_session_id :: linorder
begin

definition less_eq_main_session_id :: "main_session_id \<Rightarrow> main_session_id \<Rightarrow> bool" where
  "less_eq_main_session_id a b \<longleftrightarrow> main_session a \<le> main_session b"

definition less_main_session_id :: "main_session_id \<Rightarrow> main_session_id \<Rightarrow> bool" where
  "less_main_session_id a b \<longleftrightarrow> main_session a < main_session b"

instance
  by standard
    (auto simp: less_eq_main_session_id_def less_main_session_id_def main_session_id.expand)

end

instantiation child_session_id :: linorder
begin

definition less_eq_child_session_id :: "child_session_id \<Rightarrow> child_session_id \<Rightarrow> bool" where
  "less_eq_child_session_id a b \<longleftrightarrow> child_session a \<le> child_session b"

definition less_child_session_id :: "child_session_id \<Rightarrow> child_session_id \<Rightarrow> bool" where
  "less_child_session_id a b \<longleftrightarrow> child_session a < child_session b"

instance
  by standard
    (auto simp: less_eq_child_session_id_def less_child_session_id_def child_session_id.expand)

end

text \<open>
  \<open>uuid_v5_parts\<close> hashes the concatenation of its parts, each after its length as eight
  big-endian bytes. \<open>Uuid::new_v5\<close> and \<open>Uuid::NAMESPACE_URL\<close> belong to the \<open>uuid\<close> crate and
  are the parameters \<open>new_v5\<close> and \<open>namespace_url\<close>.
\<close>

definition to_be_bytes :: "u64 \<Rightarrow> byte list" where
  "to_be_bytes n = map (\<lambda>i. ucast (drop_bit (8 * i) n)) (rev [0..<8])"

definition as_bytes :: "string \<Rightarrow> byte list" where
  "as_bytes s = map of_char s"

definition length_prefix :: "byte list \<Rightarrow> u64" where
  "length_prefix part = (if length part < 2 ^ 64 then of_nat (length part) else - 1)"

fun encode_parts :: "byte list list \<Rightarrow> byte list" where
  "encode_parts [] = []"
| "encode_parts (part # parts) = to_be_bytes (length_prefix part) @ part @ encode_parts parts"

definition uuid_v5_parts ::
  "(uuid \<Rightarrow> byte list \<Rightarrow> uuid) \<Rightarrow> uuid \<Rightarrow> byte list list \<Rightarrow> uuid" where
  "uuid_v5_parts new_v5 ns parts = new_v5 ns (encode_parts parts)"

definition native_parts :: "native_session_key \<Rightarrow> byte list list" where
  "native_parts native = [as_bytes (runtime_as_str (nk_runtime native)), as_bytes (nk_native_id native)]"

definition session_id_from_native ::
  "(uuid \<Rightarrow> byte list \<Rightarrow> uuid) \<Rightarrow> uuid \<Rightarrow> native_session_key \<Rightarrow> session_id" where
  "session_id_from_native new_v5 namespace_url native =
     SessionId (uuid_v5_parts new_v5 namespace_url (native_parts native))"

definition observation_id_from_native ::
  "(uuid \<Rightarrow> byte list \<Rightarrow> uuid) \<Rightarrow> uuid \<Rightarrow> runtime_kind \<Rightarrow> string \<Rightarrow> string \<Rightarrow>
     domain_input_error + observation_id" where
  "observation_id_from_native new_v5 namespace_url runtime source native_event_id =
     and_then (bounded_text_new MAX_OBSERVATION_PART_BYTES ''source'' source) (\<lambda>source.
     and_then (bounded_text_new MAX_OBSERVATION_PART_BYTES ''native_event_id'' native_event_id)
       (\<lambda>native_event_id.
     if source = [] then Inl (EmptyField ''source'')
     else if native_event_id = [] then Inl (EmptyField ''native_event_id'')
     else
       (let ns = uuid_v5_parts new_v5 namespace_url
                   [as_bytes ''agent-watchdog'', as_bytes ''observations'']
        in Inr (ObservationId (uuid_v5_parts new_v5 ns
             [as_bytes (runtime_as_str runtime), as_bytes source, as_bytes native_event_id])))))"

lemma length_to_be_bytes [simp]: "length (to_be_bytes n) = 8"
  by (simp add: to_be_bytes_def)

lemma to_be_bytes_inj [simp]: "to_be_bytes m = to_be_bytes n \<longleftrightarrow> m = n"
proof
  assume "to_be_bytes m = to_be_bytes n"
  then have bytes: "\<forall>i < 8. (ucast (drop_bit (8 * i) m) :: byte) = ucast (drop_bit (8 * i) n)"
    by (auto simp: to_be_bytes_def)
  show "m = n"
  proof (rule bit_word_eqI)
    fix k :: nat
    assume "k < LENGTH(64)"
    then have "k div 8 < 8" "8 * (k div 8) + k mod 8 = k"
      by auto
    moreover from this bytes
    have "bit (ucast (drop_bit (8 * (k div 8)) m) :: byte) (k mod 8) =
          bit (ucast (drop_bit (8 * (k div 8)) n) :: byte) (k mod 8)"
      by simp
    ultimately show "bit m k = bit n k"
      by (simp add: bit_ucast_iff bit_drop_bit_eq)
  qed
qed simp

lemma unat_of_char: "unat (of_char c :: byte) = (of_char c :: nat)"
  by (rule of_nat_inverse) (simp_all add: of_nat_of_char)

lemma as_bytes_inj [simp]: "as_bytes s = as_bytes t \<longleftrightarrow> s = t"
proof -
  have "inj (of_char :: char \<Rightarrow> byte)"
    by (rule injI) (metis unat_of_char char_of_char)
  then show ?thesis
    by (simp add: as_bytes_def inj_map_eq_map)
qed

lemma length_as_bytes [simp]: "length (as_bytes s) = length s"
  by (simp add: as_bytes_def)

lemma length_prefix_inj:
  assumes "length p < 2 ^ 64" and "length q < 2 ^ 64" and "length_prefix p = length_prefix q"
  shows "length p = length q"
proof -
  have "unat (length_prefix r) = length r" if "length r < 2 ^ 64" for r
    using that by (intro of_nat_inverse) (simp_all add: length_prefix_def)
  then show ?thesis
    using assms by metis
qed

lemma encode_parts_inj:
  assumes "\<forall>p \<in> set ps. length p < 2 ^ 64" and "\<forall>q \<in> set qs. length q < 2 ^ 64"
    and "encode_parts ps = encode_parts qs"
  shows "ps = qs"
  using assms
proof (induction ps arbitrary: qs)
  case Nil
  have "qs = []"
  proof (cases qs)
    case (Cons q qs')
    then have "length (encode_parts qs) \<ge> 8"
      by simp
    then show ?thesis
      using Nil.prems(3) by (metis encode_parts.simps(1) list.size(3) not_numeral_le_zero)
  qed
  then show ?case ..
next
  case (Cons p ps)
  obtain q qs' where qs: "qs = q # qs'"
  proof (cases qs)
    case Nil
    then have "length (encode_parts (p # ps)) = 0"
      using Cons.prems(3) by (simp only: encode_parts.simps list.size)
    then show ?thesis by simp
  qed
  have "to_be_bytes (length_prefix p) = to_be_bytes (length_prefix q)"
    and rest: "p @ encode_parts ps = q @ encode_parts qs'"
    using Cons.prems(3) by (simp_all add: qs)
  then have "length p = length q"
    using Cons.prems(1,2) qs by (intro length_prefix_inj) auto
  then show ?case
    using rest Cons.IH [of qs'] Cons.prems(1,2) by (simp add: qs)
qed

lemma native_parts_inj [simp]: "native_parts a = native_parts b \<longleftrightarrow> a = b"
  by (cases a; cases b) (simp add: native_parts_def runtime_as_str_inj)

lemma native_parts_bounded: "native_key_wf k \<Longrightarrow> \<forall>p \<in> set (native_parts k). length p < 2 ^ 64"
  by (cases "nk_runtime k") (simp_all add: native_parts_def native_key_wf_def MAX_NATIVE_ID_BYTES_def)

text \<open>
  Derived session identifiers are collision-free up to the hash: two different valid
  native keys, whatever bytes their identifiers contain, get the same session identifier only if
  \<open>Uuid::new_v5\<close> itself maps two different names to the same value, because the length-prefixed
  encoding of the runtime name and the native identifier is injective.
\<close>
theorem session_id_collision_free:
  assumes "native_key_wf a" and "native_key_wf b" and "a \<noteq> b"
    and "session_id_from_native new_v5 namespace_url a = session_id_from_native new_v5 namespace_url b"
  shows "\<exists>x y. x \<noteq> y \<and> new_v5 namespace_url x = new_v5 namespace_url y"
proof -
  have "encode_parts (native_parts a) \<noteq> encode_parts (native_parts b)"
    using encode_parts_inj [OF native_parts_bounded native_parts_bounded] assms(1-3) by auto
  then show ?thesis
    using assms(4) by (auto simp: session_id_from_native_def uuid_v5_parts_def)
qed

theorem session_id_collision_free_witness:
  "\<exists>x y :: byte list. x \<noteq> y \<and> (\<lambda>ns nm. ns + of_nat (length nm)) (5 :: uuid) x =
     (\<lambda>ns nm. ns + of_nat (length nm)) 5 y"
  using session_id_collision_free [of "\<lparr>nk_runtime = CodexCli, nk_native_id = ''ab''\<rparr>"
      "\<lparr>nk_runtime = CodexCli, nk_native_id = ''cd''\<rparr>" "\<lambda>ns nm. ns + of_nat (length nm)" 5]
  by (simp add: native_key_wf_def MAX_NATIVE_ID_BYTES_def session_id_from_native_def
      uuid_v5_parts_def native_parts_def)

lemma observation_parts_inj:
  assumes "encode_parts [as_bytes (runtime_as_str r), as_bytes s, as_bytes e] =
      encode_parts [as_bytes (runtime_as_str r'), as_bytes s', as_bytes e']"
    and "length s \<le> MAX_OBSERVATION_PART_BYTES" and "length e \<le> MAX_OBSERVATION_PART_BYTES"
    and "length s' \<le> MAX_OBSERVATION_PART_BYTES" and "length e' \<le> MAX_OBSERVATION_PART_BYTES"
  shows "(r, s, e) = (r', s', e')"
proof -
  have "length (as_bytes (runtime_as_str q)) < 2 ^ 64" for q
    by (cases q) simp_all
  then have "[as_bytes (runtime_as_str r), as_bytes s, as_bytes e] =
      [as_bytes (runtime_as_str r'), as_bytes s', as_bytes e']"
    using assms(2-5) by (intro encode_parts_inj [OF _ _ assms(1)])
      (auto simp: MAX_OBSERVATION_PART_BYTES_def)
  then show ?thesis
    by (simp add: runtime_as_str_inj)
qed

text \<open>
  Observation identifiers separate observations: two native events that are both accepted
  and get the same identifier are the same event of the same source and runtime, unless
  \<open>Uuid::new_v5\<close> maps two different names to the same value in the observations namespace.
\<close>
theorem observation_id_collision_free:
  assumes "observation_id_from_native new_v5 url r s e = Inr oid"
    and "observation_id_from_native new_v5 url r' s' e' = Inr oid"
    and "(r, s, e) \<noteq> (r', s', e')"
  shows "\<exists>ns x y. x \<noteq> y \<and> new_v5 ns x = new_v5 ns y"
proof -
  let ?x = "encode_parts [as_bytes (runtime_as_str r), as_bytes s, as_bytes e]"
  let ?y = "encode_parts [as_bytes (runtime_as_str r'), as_bytes s', as_bytes e']"
  have "?x \<noteq> ?y"
    using observation_parts_inj [of r s e r' s' e'] assms
    by (auto simp: observation_id_from_native_def result_elims split: if_splits)
  moreover have "new_v5 (new_v5 url (encode_parts [as_bytes ''agent-watchdog'', as_bytes ''observations''])) ?x =
      new_v5 (new_v5 url (encode_parts [as_bytes ''agent-watchdog'', as_bytes ''observations''])) ?y"
    using assms(1,2)
    by (auto simp: observation_id_from_native_def result_elims uuid_v5_parts_def Let_def
        simp del: encode_parts.simps split: if_splits)
  ultimately show ?thesis
    by blast
qed

theorem observation_id_collision_free_witness:
  "\<exists>ns :: uuid. \<exists>x y :: byte list. x \<noteq> y \<and> (\<lambda>ns nm. ns + of_nat (length nm)) ns x =
     (\<lambda>ns nm. ns + of_nat (length nm)) ns y"
  by (rule observation_id_collision_free
      [of "\<lambda>ns nm. ns + of_nat (length nm)" 5 CodexCli "''a''" "''bc''" "ObservationId 83"
        CodexCli "''ab''" "''c''"])
    (simp_all add: observation_id_from_native_def bounded_text_new_def MAX_OBSERVATION_PART_BYTES_def
      uuid_v5_parts_def)

section \<open>Session roles\<close>

datatype session_kind = MainKind | ChildKind

datatype session_identity =
    MainIdentity main_session_id
  | ChildIdentity child_session_id

fun session_identity_kind :: "session_identity \<Rightarrow> session_kind" where
  "session_identity_kind (MainIdentity _) = MainKind"
| "session_identity_kind (ChildIdentity _) = ChildKind"

fun identity_session_id :: "session_identity \<Rightarrow> session_id" where
  "identity_session_id (MainIdentity i) = main_session i"
| "identity_session_id (ChildIdentity i) = child_session i"

text \<open>The derived order: every main identity precedes every child identity.\<close>

instantiation session_identity :: linorder
begin

fun less_eq_session_identity :: "session_identity \<Rightarrow> session_identity \<Rightarrow> bool" where
  "less_eq_session_identity (MainIdentity a) (MainIdentity b) \<longleftrightarrow> a \<le> b"
| "less_eq_session_identity (MainIdentity a) (ChildIdentity b) \<longleftrightarrow> True"
| "less_eq_session_identity (ChildIdentity a) (MainIdentity b) \<longleftrightarrow> False"
| "less_eq_session_identity (ChildIdentity a) (ChildIdentity b) \<longleftrightarrow> a \<le> b"

definition less_session_identity :: "session_identity \<Rightarrow> session_identity \<Rightarrow> bool" where
  "less_session_identity a b \<longleftrightarrow> a \<le> b \<and> \<not> b \<le> a"

instance
proof
  fix a b c :: session_identity
  show "a < b \<longleftrightarrow> a \<le> b \<and> \<not> b \<le> a"
    by (simp add: less_session_identity_def)
  show "a \<le> a"
    by (cases a) simp_all
  show "a \<le> b \<Longrightarrow> b \<le> c \<Longrightarrow> a \<le> c"
    by (cases a; cases b; cases c) auto
  show "a \<le> b \<Longrightarrow> b \<le> a \<Longrightarrow> a = b"
    by (cases a; cases b) auto
  show "a \<le> b \<or> b \<le> a"
    by (cases a; cases b) auto
qed

end

lemma session_identity_eq_iff:
  "a = b \<longleftrightarrow> session_identity_kind a = session_identity_kind b \<and>
     identity_session_id a = identity_session_id b"
  by (cases a; cases b) (auto intro: main_session_id.expand child_session_id.expand)

datatype capability =
    ExactHierarchy | NativeEvents | ProcessEvidence | GracefulCancelCap | ForceSignal | PushHint

type_synonym capability_set = "capability set"

definition capability_set_new :: "capability list \<Rightarrow> capability_set" where
  "capability_set_new vs = set vs"

section \<open>Processes\<close>

datatype process_id = ProcessId (process_id_value: u32)

datatype process_id_error = ProcessIdError

instantiation process_id :: linorder
begin

definition less_eq_process_id :: "process_id \<Rightarrow> process_id \<Rightarrow> bool" where
  "less_eq_process_id a b \<longleftrightarrow> process_id_value a \<le> process_id_value b"

definition less_process_id :: "process_id \<Rightarrow> process_id \<Rightarrow> bool" where
  "less_process_id a b \<longleftrightarrow> process_id_value a < process_id_value b"

instance
  by standard (auto simp: less_eq_process_id_def less_process_id_def process_id.expand)

end

definition process_id_new :: "u32 \<Rightarrow> process_id_error + process_id" where
  "process_id_new v = (if v = 0 then Inl ProcessIdError else Inr (ProcessId v))"

lemma process_id_new_Inr_iff [result_elims]:
  "process_id_new v = Inr p \<longleftrightarrow> p = ProcessId v \<and> v \<noteq> 0"
  by (auto simp: process_id_new_def)

record process_identity =
  pi_pid :: process_id
  pi_start_time_ticks :: u64
  pi_executable :: string

section \<open>Time\<close>

type_synonym wall_time_ms = i64

record time_point =
  wall_time :: wall_time_ms
  monotonic_ms :: u64

type_synonym duration_ms = u64

end
