(* ===== verification/Evidence.thy ===== *)
theory Evidence
  imports Identity
begin

text \<open>
  The facts that flow into the reducer and the events that leave it: provenance
  (\<open>evidence.rs\<close>), session states (\<open>state.rs\<close>), timer policies, deadline commands and
  compatibility warnings (\<open>policy.rs\<close>), observation envelopes (\<open>observation.rs\<close>) and domain
  events (\<open>event.rs\<close>, with the saga stages of \<open>safety.rs\<close> they carry). Constructors validate
  as the code does and their inversion lemmas are in \<open>result_elims\<close>.
\<close>

section \<open>Provenance\<close>

datatype evidence_trust = Authoritative | Corroborating | Heuristic | Uncertain

datatype confidence = Confidence (basis_points: u16)

datatype confidence_error = ConfidenceError u16

definition confidence_new :: "u16 \<Rightarrow> confidence_error + confidence" where
  "confidence_new b = (if b > 10000 then Inl (ConfidenceError b) else Inr (Confidence b))"

lemma confidence_new_Inr_iff [result_elims]:
  "confidence_new b = Inr c \<longleftrightarrow> c = Confidence b \<and> b \<le> 10000"
  by (auto simp: confidence_new_def not_less)

definition MAX_ADAPTER_VERSION_BYTES :: nat where
  "MAX_ADAPTER_VERSION_BYTES = 128"

definition MAX_SOURCE_FINGERPRINT_BYTES :: nat where
  "MAX_SOURCE_FINGERPRINT_BYTES = 512"

record adapter_identity =
  ai_runtime :: runtime_kind
  ai_version :: string

definition adapter_identity_new ::
  "runtime_kind \<Rightarrow> string \<Rightarrow> domain_input_error + adapter_identity" where
  "adapter_identity_new runtime version =
     and_then (bounded_text_new MAX_ADAPTER_VERSION_BYTES ''adapter_version'' version) (\<lambda>v.
       if v = [] then Inl (EmptyField ''adapter_version'')
       else Inr \<lparr>ai_runtime = runtime, ai_version = v\<rparr>)"

lemma adapter_identity_new_Inr_iff [result_elims]:
  "adapter_identity_new r v = Inr a \<longleftrightarrow>
     a = \<lparr>ai_runtime = r, ai_version = v\<rparr> \<and> v \<noteq> [] \<and> length v \<le> MAX_ADAPTER_VERSION_BYTES"
  by (auto simp: adapter_identity_new_def result_elims)

record observation_source =
  os_adapter :: adapter_identity
  os_fingerprint :: string
  os_trust :: evidence_trust
  os_confidence :: "confidence option"

definition observation_source_new ::
  "adapter_identity \<Rightarrow> string \<Rightarrow> evidence_trust \<Rightarrow> confidence option \<Rightarrow>
     domain_input_error + observation_source" where
  "observation_source_new adapter fingerprint trust conf =
     map_ok (\<lambda>fp. \<lparr>os_adapter = adapter, os_fingerprint = fp, os_trust = trust, os_confidence = conf\<rparr>)
       (bounded_text_new MAX_SOURCE_FINGERPRINT_BYTES ''source_fingerprint'' fingerprint)"

section \<open>States\<close>

datatype detailed_state =
    Starting | Running | WaitingForAgent | WaitingForTool | WaitingForUser | Idle
  | Stalled | Completed | Failed | Cancelled | Disappeared | Unknown

datatype compact_state =
    CompactActive | CompactWaiting | CompactIdle | CompactStalled | CompactFinished
  | CompactFailed | CompactUnknown

fun compact :: "detailed_state \<Rightarrow> compact_state" where
  "compact Starting = CompactActive"
| "compact Running = CompactActive"
| "compact WaitingForAgent = CompactWaiting"
| "compact WaitingForTool = CompactWaiting"
| "compact WaitingForUser = CompactWaiting"
| "compact Idle = CompactIdle"
| "compact Stalled = CompactStalled"
| "compact Completed = CompactFinished"
| "compact Cancelled = CompactFinished"
| "compact Failed = CompactFailed"
| "compact Disappeared = CompactFailed"
| "compact Unknown = CompactUnknown"

definition stall_timer_runs :: "detailed_state \<Rightarrow> bool" where
  "stall_timer_runs s \<longleftrightarrow>
     \<not> (s = WaitingForUser \<or> s = Completed \<or> s = Failed \<or> s = Cancelled \<or> s = Disappeared \<or>
        s = Unknown)"

definition termination_timer_runs :: "detailed_state \<Rightarrow> bool" where
  "termination_timer_runs s \<longleftrightarrow> s = Stalled"

definition outcome_established :: "detailed_state \<Rightarrow> bool" where
  "outcome_established s \<longleftrightarrow> s = Completed \<or> s = Failed \<or> s = Cancelled"

lemma termination_timer_stall: "termination_timer_runs s \<Longrightarrow> stall_timer_runs s"
  by (simp add: termination_timer_runs_def stall_timer_runs_def)

section \<open>Timer policies and deadline commands\<close>

record deadline_policy =
  dp_stall_after :: duration_ms
  dp_terminate_after_stalled :: duration_ms
  dp_graceful_signal_grace :: duration_ms

datatype policy_error = ZeroStalledTerminationDelay | ZeroGrace

definition deadline_policy_new ::
  "duration_ms \<Rightarrow> duration_ms \<Rightarrow> duration_ms \<Rightarrow> policy_error + deadline_policy" where
  "deadline_policy_new stall_after terminate_after_stalled graceful_signal_grace =
     (if terminate_after_stalled = 0 then Inl ZeroStalledTerminationDelay
      else if graceful_signal_grace = 0 then Inl ZeroGrace
      else Inr \<lparr>dp_stall_after = stall_after,
                dp_terminate_after_stalled = terminate_after_stalled,
                dp_graceful_signal_grace = graceful_signal_grace\<rparr>)"

definition default_deadline_policy :: deadline_policy where
  "default_deadline_policy =
     \<lparr>dp_stall_after = 15 * 60000, dp_terminate_after_stalled = 60 * 60000,
      dp_graceful_signal_grace = 10 * 60000\<rparr>"

lemma default_deadline_policy_valid:
  "deadline_policy_new (15 * 60000) (60 * 60000) (10 * 60000) = Inr default_deadline_policy"
  by (simp add: deadline_policy_new_def default_deadline_policy_def)

datatype deadline_command =
    SetDeadline wall_time_ms
  | PauseTimers
  | ResumeTimers
  | ClearDeadline

section \<open>Compatibility warnings\<close>

datatype warning_kind = Upgrade | Degraded

definition MAX_WARNING_MESSAGE_BYTES :: nat where
  "MAX_WARNING_MESSAGE_BYTES = 1024"

record compatibility_warning =
  cw_kind :: warning_kind
  cw_message :: string
  cw_detected_version :: "string option"

definition compatibility_warning_new ::
  "warning_kind \<Rightarrow> string \<Rightarrow> domain_input_error + compatibility_warning" where
  "compatibility_warning_new kind message =
     and_then (bounded_text_new MAX_WARNING_MESSAGE_BYTES ''warning'' message) (\<lambda>m.
       if m = [] then Inl (EmptyField ''warning'')
       else Inr \<lparr>cw_kind = kind, cw_message = m, cw_detected_version = None\<rparr>)"

definition new_with_detected_version ::
  "warning_kind \<Rightarrow> string \<Rightarrow> string \<Rightarrow> domain_input_error + compatibility_warning" where
  "new_with_detected_version kind message detected_version =
     and_then (compatibility_warning_new kind message) (\<lambda>warning.
     and_then (bounded_text_new MAX_ADAPTER_VERSION_BYTES ''detected_version'' detected_version)
       (\<lambda>v. if v = [] then Inl (EmptyField ''detected_version'')
            else Inr (warning\<lparr>cw_detected_version := Some v\<rparr>)))"

definition has_detected_version :: "compatibility_warning \<Rightarrow> bool" where
  "has_detected_version w \<longleftrightarrow> cw_detected_version w \<noteq> None"

fun badge :: "warning_kind \<Rightarrow> string" where
  "badge Upgrade = ''UPGRADE''"
| "badge Degraded = ''DEGRADED''"

definition legacy_version_after :: "string \<Rightarrow> string \<Rightarrow> string option" where
  "legacy_version_after message prefix =
     Option.bind (split_once prefix message) (\<lambda>(_, suffix).
     Option.bind (split_once '', tested with '' suffix) (\<lambda>(version, _).
       if version \<noteq> [] \<and> length version \<le> MAX_ADAPTER_VERSION_BYTES then Some version else None))"

definition legacy_detected_version :: "string \<Rightarrow> string option" where
  "legacy_detected_version message =
     (case legacy_version_after message ''detected Claude Code '' of
        Some v \<Rightarrow> Some v
      | None \<Rightarrow> legacy_version_after message ''detected Codex CLI '')"

text \<open>\<open>Deserialize for CompatibilityWarning\<close> on the raw fields.\<close>

definition compatibility_warning_deserialize ::
  "warning_kind \<Rightarrow> string \<Rightarrow> string option \<Rightarrow> domain_input_error + compatibility_warning" where
  "compatibility_warning_deserialize kind message detected_version =
     (case (case detected_version of Some v \<Rightarrow> Some v | None \<Rightarrow> legacy_detected_version message) of
        Some version \<Rightarrow> new_with_detected_version kind message version
      | None \<Rightarrow> compatibility_warning_new kind message)"

lemma compatibility_warning_new_Inr_iff [result_elims]:
  "compatibility_warning_new k m = Inr w \<longleftrightarrow>
     w = \<lparr>cw_kind = k, cw_message = m, cw_detected_version = None\<rparr> \<and> m \<noteq> [] \<and>
     length m \<le> MAX_WARNING_MESSAGE_BYTES"
  by (auto simp: compatibility_warning_new_def result_elims)

lemma new_with_detected_version_Inr_iff [result_elims]:
  "new_with_detected_version k m v = Inr w \<longleftrightarrow>
     w = \<lparr>cw_kind = k, cw_message = m, cw_detected_version = Some v\<rparr> \<and> m \<noteq> [] \<and> v \<noteq> [] \<and>
     length m \<le> MAX_WARNING_MESSAGE_BYTES \<and> length v \<le> MAX_ADAPTER_VERSION_BYTES"
  by (auto simp: new_with_detected_version_def result_elims)

section \<open>Observations\<close>

datatype observation_payload =
    NativeState detailed_state
  | ProcessIdentityFact process_identity
  | Progress string
  | DeadlineFact deadline_command
  | IntentionalWait
  | Compatibility compatibility_warning
  | CompatibilityResolved
  | SourceConflict string
  | SourceConflictResolved
  | SchedulerTick

record observation_envelope =
  oe_observation_id :: observation_id
  oe_subject :: native_session_key
  oe_observed_at :: time_point
  oe_source :: observation_source
  oe_payload :: observation_payload

datatype observation_error = RuntimeMismatchError

definition observation_envelope_new ::
  "observation_id \<Rightarrow> native_session_key \<Rightarrow> time_point \<Rightarrow> observation_source \<Rightarrow>
     observation_payload \<Rightarrow> observation_error + observation_envelope" where
  "observation_envelope_new oid subject observed_at source payload =
     (if ai_runtime (os_adapter source) \<noteq> nk_runtime subject then Inl RuntimeMismatchError
      else Inr \<lparr>oe_observation_id = oid, oe_subject = subject, oe_observed_at = observed_at,
                oe_source = source, oe_payload = payload\<rparr>)"

section \<open>Events\<close>

datatype termination_stage =
    WarningGrace | GracefulCancel | Sigterm | Sigkill | StageCompleted | StageAborted

datatype termination_action_outcome =
    WarningScheduled | GracefulRequested | GracefulUnsupported | GracefulFailed | SignalSent
  | ChildExited | SafetyAborted | AutomationDisabled | SigkillDisabled

fun stage_as_str :: "termination_stage \<Rightarrow> string" where
  "stage_as_str WarningGrace = ''warning_grace''"
| "stage_as_str GracefulCancel = ''graceful_cancel''"
| "stage_as_str Sigterm = ''sigterm''"
| "stage_as_str Sigkill = ''sigkill''"
| "stage_as_str StageCompleted = ''completed''"
| "stage_as_str StageAborted = ''aborted''"

type_synonym event_id = u64

datatype domain_event_kind =
    StateChanged detailed_state detailed_state
  | CompatibilityChanged
  | HierarchyChanged
  | Suspect
  | AlertDue
  | ReminderDue
  | DeadlineChanged
  | ConflictChanged bool
  | ReconciliationRequiredEvent
  | TerminationChanged termination_stage termination_action_outcome

record domain_event =
  ev_id :: event_id
  ev_root :: main_session_id
  ev_subject :: session_identity
  ev_occurred_at :: wall_time_ms
  ev_kind :: domain_event_kind

end
