(* ===== verification/Machines.thy ===== *)
theory Machines
  imports Prelude
begin

text \<open>
  Contracts shared by the program's state machines. A machine is a total step function from a
  state and an input to the next state and the outputs the step emits; \<open>run_machine\<close> feeds it a
  list of inputs. \<open>invariant_machine\<close> is a machine whose steps keep an invariant and an
  identity; \<open>revisioned_machine\<close> adds a change counter and an output log from which a view of
  the state can be replayed.
\<close>

fun run_machine :: "('s \<Rightarrow> 'i \<Rightarrow> 's \<times> 'o list) \<Rightarrow> 's \<Rightarrow> 'i list \<Rightarrow> 's \<times> 'o list" where
  "run_machine step s [] = (s, [])"
| "run_machine step s (i # is) =
     (let (s', os) = step s i; (s'', os') = run_machine step s' is in (s'', os @ os'))"

lemma run_machine_append:
  "run_machine step s (is @ js) =
     (let (s', os) = run_machine step s is; (s'', os') = run_machine step s' js in (s'', os @ os'))"
  by (induction "is" arbitrary: s) (auto simp: Let_def split: prod.splits)

lemma run_machine_append_parts:
  "fst (run_machine step s (is @ js)) = fst (run_machine step (fst (run_machine step s is)) js)"
  "snd (run_machine step s (is @ js)) =
     snd (run_machine step s is) @ snd (run_machine step (fst (run_machine step s is)) js)"
  by (simp_all add: run_machine_append case_prod_beta)

lemma run_machine_Cons:
  "fst (run_machine step s (i # is)) = fst (run_machine step (fst (step s i)) is)"
  "snd (run_machine step s (i # is)) =
     snd (step s i) @ snd (run_machine step (fst (step s i)) is)"
  by (simp_all add: Let_def split: prod.splits)

declare run_machine.simps(2) [simp del] and run_machine_Cons [simp]

locale invariant_machine =
  fixes step :: "'s \<Rightarrow> 'i \<Rightarrow> 's \<times> 'o list"
    and inv :: "'s \<Rightarrow> bool"
    and identity :: "'s \<Rightarrow> 'k"
  assumes step_inv: "inv s \<Longrightarrow> inv (fst (step s i))"
    and step_identity: "identity (fst (step s i)) = identity s"
begin

lemma run_inv: "inv s \<Longrightarrow> inv (fst (run_machine step s is))"
  by (induction "is" arbitrary: s) (simp_all add: step_inv)

lemma run_identity: "identity (fst (run_machine step s is)) = identity s"
  by (induction "is" arbitrary: s) (simp_all add: step_identity)

end

locale revisioned_machine = invariant_machine step inv identity
  for step :: "'s \<Rightarrow> 'i \<Rightarrow> 's \<times> 'o list"
    and inv :: "'s \<Rightarrow> bool"
    and identity :: "'s \<Rightarrow> 'k" +
  fixes revision :: "'s \<Rightarrow> u64"
    and view :: "'s \<Rightarrow> 'v"
    and replay :: "'v \<Rightarrow> 'o list \<Rightarrow> 'v option"
  assumes step_revision: "revision (fst (step s i)) =
      (if fst (step s i) = s then revision s else saturating_add (revision s) 1)"
    and step_replay: "replay (view s) (snd (step s i)) = Some (view (fst (step s i)))"
    and replay_Nil: "replay v [] = Some v"
    and replay_append: "replay v (os @ os') = Option.bind (replay v os) (\<lambda>w. replay w os')"
begin

lemma step_revision_mono: "revision s \<le> revision (fst (step s i))"
  by (simp add: step_revision le_saturating_add)

lemma run_revision_mono: "revision s \<le> revision (fst (run_machine step s is))"
proof (induction "is" arbitrary: s)
  case (Cons i "is")
  show ?case
    using order_trans [OF step_revision_mono [of s i] Cons.IH [of "fst (step s i)"]] by simp
qed simp

text \<open>The revision is a version: below saturation, an equal revision means an equal state.\<close>

lemma step_revision_eq:
  assumes "revision (fst (step s i)) = revision s" and "revision s \<noteq> - 1"
  shows "fst (step s i) = s"
proof (rule ccontr)
  assume "fst (step s i) \<noteq> s"
  then have "unat (revision (fst (step s i))) = Suc (unat (revision s))"
    using saturating_add_one_neq [OF assms(2)] by (simp add: step_revision)
  then show False
    using assms(1) by simp
qed

lemma run_revision_version:
  assumes "revision (fst (run_machine step s is)) = revision s" and "revision s \<noteq> - 1"
  shows "fst (run_machine step s is) = s"
  using assms(1)
proof (induction "is")
  case (Cons i "is")
  let ?s' = "fst (step s i)"
  have "revision s \<le> revision ?s'" "revision ?s' \<le> revision (fst (run_machine step ?s' is))"
    by (rule step_revision_mono, rule run_revision_mono)
  then have "revision ?s' = revision s"
    using Cons.prems by simp
  then have "?s' = s"
    using assms(2) by (rule step_revision_eq)
  then show ?case
    using Cons by simp
qed simp

lemma run_replay:
  "replay (view s) (snd (run_machine step s is)) = Some (view (fst (run_machine step s is)))"
  by (induction "is" arbitrary: s) (simp_all add: replay_Nil replay_append step_replay)

end

text \<open>
  A machine with an append-only history: every step of an admitted input extends the state in a
  preorder, so that what one state records is still there after any run.
\<close>

locale extending_machine =
  fixes step :: "'s \<Rightarrow> 'i \<Rightarrow> 's \<times> 'o list"
    and inv :: "'s \<Rightarrow> bool"
    and extends :: "'s \<Rightarrow> 's \<Rightarrow> bool"
    and admitted :: "'i \<Rightarrow> bool"
  assumes step_keeps_inv: "inv s \<Longrightarrow> inv (fst (step s i))"
    and step_extends: "inv s \<Longrightarrow> admitted i \<Longrightarrow> extends s (fst (step s i))"
    and extends_refl: "extends s s"
    and extends_trans: "extends s s' \<Longrightarrow> extends s' s'' \<Longrightarrow> extends s s''"
begin

lemma run_keeps_inv: "inv s \<Longrightarrow> inv (fst (run_machine step s is))"
  by (induction "is" arbitrary: s) (simp_all add: step_keeps_inv)

lemma run_extends:
  "inv s \<Longrightarrow> list_all admitted is \<Longrightarrow> extends s (fst (run_machine step s is))"
proof (induction "is" arbitrary: s)
  case (Cons i "is")
  have "extends s (fst (step s i))"
    using Cons.prems by (simp add: step_extends)
  moreover have "extends (fst (step s i)) (fst (run_machine step (fst (step s i)) is))"
    using Cons by (simp add: step_keeps_inv)
  ultimately show ?case
    using extends_trans by simp
qed (simp add: extends_refl)

end

text \<open>A machine whose invariant relates its state to everything it has emitted so far.\<close>

locale logged_machine =
  fixes step :: "'s \<Rightarrow> 'i \<Rightarrow> 's \<times> 'o list"
    and linv :: "'s \<Rightarrow> 'o list \<Rightarrow> bool"
  assumes step_log: "linv s log \<Longrightarrow> linv (fst (step s i)) (log @ snd (step s i))"
begin

lemma run_log: "linv s log \<Longrightarrow> linv (fst (run_machine step s is)) (log @ snd (run_machine step s is))"
proof (induction "is" arbitrary: s log)
  case (Cons i "is")
  show ?case
    using Cons.IH [OF step_log [OF Cons.prems, of i]] by simp
qed simp

end

end
