(* ===== verification/Reducer.thy ===== *)
theory Reducer
  imports Evidence Machines
begin

text \<open>
  The pure session reducer of \<open>reducer.rs\<close>. A \<open>&mut SessionSnapshot\<close> and a
  \<open>&mut Vec<DomainEventKind>\<close> are passed and returned; every function of the file is one
  definition. The contract the rest of the program relies on (a reduction keeps the session's
  identity and invariant, and numbers exactly the changes) is the locale
  \<open>revisioned_machine\<close>, interpreted on \<open>reduce\<close> as \<open>session\<close>.
\<close>

named_theorems reducer_simps \<open>unfolding of the reducer's helper operations\<close>

section \<open>Policy\<close>

record reducer_policy =
  rp_suspect_after :: duration_ms
  rp_stall_after :: duration_ms
  rp_reminder_every :: duration_ms

datatype reducer_policy_error = SuspectAfterStall | ZeroReminder

definition reducer_policy_new ::
  "duration_ms \<Rightarrow> duration_ms \<Rightarrow> duration_ms \<Rightarrow> reducer_policy_error + reducer_policy" where
  "reducer_policy_new suspect_after stall_after reminder_every =
     (if suspect_after > stall_after then Inl SuspectAfterStall
      else if reminder_every = 0 then Inl ZeroReminder
      else Inr \<lparr>rp_suspect_after = suspect_after, rp_stall_after = stall_after,
                rp_reminder_every = reminder_every\<rparr>)"

definition default_reducer_policy :: reducer_policy where
  "default_reducer_policy =
     \<lparr>rp_suspect_after = 5 * 60000, rp_stall_after = 15 * 60000, rp_reminder_every = 5 * 60000\<rparr>"

definition policy_wf :: "reducer_policy \<Rightarrow> bool" where
  "policy_wf p \<longleftrightarrow> rp_suspect_after p \<le> rp_stall_after p \<and> rp_reminder_every p \<noteq> 0"

lemma reducer_policy_new_wf: "reducer_policy_new a b c = Inr p \<Longrightarrow> policy_wf p"
  by (auto simp: reducer_policy_new_def policy_wf_def split: if_splits)

lemma default_reducer_policy_wf: "policy_wf default_reducer_policy"
  by (simp add: policy_wf_def default_reducer_policy_def)

section \<open>Snapshots\<close>

record session_snapshot =
  ss_session :: session_identity
  ss_root :: main_session_id
  ss_revision :: u64
  ss_state :: detailed_state
  ss_updated_at :: time_point
  ss_last_activity :: time_point
  ss_last_trusted_transition :: "time_point option"
  ss_explicit_deadline :: "wall_time_ms option"
  ss_pause_started :: "u64 option"
  ss_paused_elapsed_ms :: u64
  ss_suspect_emitted :: bool
  ss_stalled_since :: "u64 option"
  ss_last_reminder :: "u64 option"
  ss_last_observation_id :: "observation_id option"
  ss_last_observation_ms :: "u64 option"
  ss_process_identity :: "process_identity option"
  ss_last_progress_summary :: "string option"
  ss_compatibility_warning :: "compatibility_warning option"
  ss_source_conflict :: bool
  ss_state_before_conflict :: "detailed_state option"
  ss_reconciliation_required :: bool

definition session_snapshot_new ::
  "session_identity \<Rightarrow> main_session_id \<Rightarrow> time_point \<Rightarrow> session_snapshot" where
  "session_snapshot_new session root now =
     \<lparr>ss_session = session, ss_root = root, ss_revision = 0, ss_state = Starting,
      ss_updated_at = now, ss_last_activity = now, ss_last_trusted_transition = None,
      ss_explicit_deadline = None, ss_pause_started = None, ss_paused_elapsed_ms = 0,
      ss_suspect_emitted = False, ss_stalled_since = None, ss_last_reminder = None,
      ss_last_observation_id = None, ss_last_observation_ms = None, ss_process_identity = None,
      ss_last_progress_summary = None, ss_compatibility_warning = None,
      ss_source_conflict = False, ss_state_before_conflict = None,
      ss_reconciliation_required = False\<rparr>"

definition timers_paused :: "session_snapshot \<Rightarrow> bool" where
  "timers_paused s \<longleftrightarrow> ss_pause_started s \<noteq> None"

datatype reducer_input =
    Observation observation_envelope
  | Tick time_point
  | Restarted time_point
  | Reconciled time_point

record reducer_output =
  ro_snapshot :: session_snapshot
  ro_events :: "domain_event_kind list"

section \<open>Helper operations\<close>

definition pause_clock :: "session_snapshot \<Rightarrow> time_point \<Rightarrow> session_snapshot" where
  "pause_clock s now =
     (if ss_pause_started s = None then s\<lparr>ss_pause_started := Some (monotonic_ms now)\<rparr> else s)"

definition resume_clock :: "session_snapshot \<Rightarrow> time_point \<Rightarrow> session_snapshot" where
  "resume_clock s now =
     (case ss_pause_started s of
        Some started \<Rightarrow>
          s\<lparr>ss_pause_started := None,
            ss_paused_elapsed_ms :=
              saturating_add (ss_paused_elapsed_ms s) (saturating_sub (monotonic_ms now) started)\<rparr>
      | None \<Rightarrow> s)"

text \<open>\<open>transition\<close> reports whether the state changed.\<close>

definition transition ::
  "session_snapshot \<Rightarrow> detailed_state \<Rightarrow> time_point \<Rightarrow> domain_event_kind list \<Rightarrow>
     bool \<times> session_snapshot \<times> domain_event_kind list" where
  "transition s state now events =
     (if ss_state s = state then (False, s, events)
      else
        (let from = ss_state s;
             s = s\<lparr>ss_state := state\<rparr>;
             s = (if state = Stalled then
                    s\<lparr>ss_stalled_since := Some (monotonic_ms now),
                      ss_last_reminder := Some (monotonic_ms now)\<rparr>
                  else if from = Stalled then
                    s\<lparr>ss_stalled_since := None, ss_last_reminder := None\<rparr>
                  else s);
             s = s\<lparr>ss_updated_at := now, ss_last_trusted_transition := Some now\<rparr>
         in (True, s, events @ [StateChanged from state])))"

definition record_activity ::
  "session_snapshot \<Rightarrow> time_point \<Rightarrow> domain_event_kind list \<Rightarrow>
     session_snapshot \<times> domain_event_kind list" where
  "record_activity s now events =
     (let s = s\<lparr>ss_last_activity := now, ss_paused_elapsed_ms := 0, ss_suspect_emitted := False,
                ss_stalled_since := None, ss_last_reminder := None\<rparr>
      in if ss_state s = Stalled then snd (transition s Running now events) else (s, events))"

definition active_elapsed :: "session_snapshot \<Rightarrow> time_point \<Rightarrow> u64" where
  "active_elapsed s now =
     saturating_sub (saturating_sub (monotonic_ms now) (monotonic_ms (ss_last_activity s)))
       (ss_paused_elapsed_ms s)"

definition apply_progress ::
  "session_snapshot \<Rightarrow> string \<Rightarrow> time_point \<Rightarrow> domain_event_kind list \<Rightarrow>
     session_snapshot \<times> domain_event_kind list" where
  "apply_progress s summary now events =
     (let s = s\<lparr>ss_last_progress_summary := Some summary\<rparr>;
          (s, events) =
            (if ss_state s \<in> {WaitingForAgent, WaitingForTool, WaitingForUser, Idle, Stalled}
             then snd (transition (resume_clock s now) Running now events)
             else (s, events))
      in record_activity s now events)"

definition apply_intentional_wait ::
  "session_snapshot \<Rightarrow> time_point \<Rightarrow> domain_event_kind list \<Rightarrow>
     session_snapshot \<times> domain_event_kind list" where
  "apply_intentional_wait s now events =
     (let (_, s, events) = transition s WaitingForAgent now events;
          s = s\<lparr>ss_last_activity := now, ss_paused_elapsed_ms := 0, ss_suspect_emitted := False,
                ss_pause_started := Some (monotonic_ms now)\<rparr>
      in (s, events @ [DeadlineChanged]))"

fun apply_deadline :: "session_snapshot \<Rightarrow> deadline_command \<Rightarrow> time_point \<Rightarrow> session_snapshot" where
  "apply_deadline s (SetDeadline deadline) now = s\<lparr>ss_explicit_deadline := Some deadline\<rparr>"
| "apply_deadline s PauseTimers now = pause_clock s now"
| "apply_deadline s ResumeTimers now = resume_clock s now"
| "apply_deadline s ClearDeadline now = s\<lparr>ss_explicit_deadline := None\<rparr>"

definition apply_compatibility_warning ::
  "session_snapshot \<Rightarrow> compatibility_warning \<Rightarrow> domain_event_kind list \<Rightarrow>
     session_snapshot \<times> domain_event_kind list" where
  "apply_compatibility_warning s incoming events =
     (if ss_compatibility_warning s \<noteq> Some incoming \<and>
         \<not> is_some_and (\<lambda>w. has_detected_version w \<and> \<not> has_detected_version incoming)
             (ss_compatibility_warning s)
      then (s\<lparr>ss_compatibility_warning := Some incoming\<rparr>, events @ [CompatibilityChanged])
      else (s, events))"

fun observation_clears_reconciliation :: "observation_payload \<Rightarrow> bool" where
  "observation_clears_reconciliation (Compatibility _) = False"
| "observation_clears_reconciliation CompatibilityResolved = False"
| "observation_clears_reconciliation SchedulerTick = False"
| "observation_clears_reconciliation _ = True"

section \<open>Observations and ticks\<close>

definition apply_native_state ::
  "session_snapshot \<Rightarrow> detailed_state \<Rightarrow> time_point \<Rightarrow> domain_event_kind list \<Rightarrow>
     session_snapshot \<times> domain_event_kind list" where
  "apply_native_state s state now events =
     (let prior_state = ss_state s;
          s = (if prior_state = WaitingForUser \<and> state \<noteq> WaitingForUser then resume_clock s now
               else if prior_state \<noteq> WaitingForUser \<and> state = WaitingForUser then pause_clock s now
               else s);
          (state_changed, s, events) = transition s state now events;
          s = (if state \<in> {Starting, Running, WaitingForAgent, WaitingForTool}
               then s\<lparr>ss_last_activity := now, ss_paused_elapsed_ms := 0,
                      ss_suspect_emitted := False\<rparr>
               else s);
          events = (if state_changed \<and> state \<in> {Stalled, Failed, Disappeared}
                    then events @ [AlertDue] else events)
      in (s, events))"

definition apply_source_conflict ::
  "session_snapshot \<Rightarrow> time_point \<Rightarrow> domain_event_kind list \<Rightarrow>
     session_snapshot \<times> domain_event_kind list" where
  "apply_source_conflict s now events =
     (let (s, events) =
        (if \<not> ss_source_conflict s
         then (s\<lparr>ss_source_conflict := True, ss_state_before_conflict := Some (ss_state s)\<rparr>,
               events @ [ConflictChanged True])
         else (s, events))
      in snd (transition s Unknown now events))"

definition apply_conflict_resolved ::
  "session_snapshot \<Rightarrow> time_point \<Rightarrow> domain_event_kind list \<Rightarrow>
     session_snapshot \<times> domain_event_kind list" where
  "apply_conflict_resolved s now events =
     (if ss_source_conflict s then
        (let restored = unwrap_or Unknown (ss_state_before_conflict s);
             s = s\<lparr>ss_source_conflict := False, ss_state_before_conflict := None\<rparr>;
             events = events @ [ConflictChanged False]
         in if ss_state s = Unknown then snd (transition s restored now events) else (s, events))
      else (s, events))"

fun apply_payload ::
  "session_snapshot \<Rightarrow> observation_payload \<Rightarrow> time_point \<Rightarrow> domain_event_kind list \<Rightarrow>
     session_snapshot \<times> domain_event_kind list" where
  "apply_payload s (NativeState state) now events = apply_native_state s state now events"
| "apply_payload s (Progress summary) now events = apply_progress s summary now events"
| "apply_payload s (ProcessIdentityFact identity) now events =
     (s\<lparr>ss_process_identity := Some identity\<rparr>, events)"
| "apply_payload s (DeadlineFact command) now events =
     (apply_deadline s command now, events @ [DeadlineChanged])"
| "apply_payload s IntentionalWait now events = apply_intentional_wait s now events"
| "apply_payload s (Compatibility warning) now events = apply_compatibility_warning s warning events"
| "apply_payload s CompatibilityResolved now events =
     (s\<lparr>ss_compatibility_warning := None\<rparr>,
      if ss_compatibility_warning s \<noteq> None then events @ [CompatibilityChanged] else events)"
| "apply_payload s (SourceConflict _) now events = apply_source_conflict s now events"
| "apply_payload s SourceConflictResolved now events = apply_conflict_resolved s now events"
| "apply_payload s SchedulerTick now events = (s, events)"

definition is_duplicate_or_stale :: "session_snapshot \<Rightarrow> observation_envelope \<Rightarrow> bool" where
  "is_duplicate_or_stale s obs \<longleftrightarrow>
     ss_last_observation_id s = Some (oe_observation_id obs) \<or>
     is_some_and (\<lambda>last. monotonic_ms (oe_observed_at obs) < last) (ss_last_observation_ms s)"

definition note_observation :: "session_snapshot \<Rightarrow> observation_envelope \<Rightarrow> session_snapshot" where
  "note_observation s obs =
     s\<lparr>ss_last_observation_id := Some (oe_observation_id obs),
       ss_last_observation_ms := Some (monotonic_ms (oe_observed_at obs)),
       ss_updated_at := oe_observed_at obs\<rparr>"

definition apply_observation ::
  "session_snapshot \<Rightarrow> observation_envelope \<Rightarrow> domain_event_kind list \<Rightarrow>
     session_snapshot \<times> domain_event_kind list" where
  "apply_observation s obs events =
     (if is_duplicate_or_stale s obs then (s, events)
      else
        (let s = note_observation s obs
         in if os_trust (oe_source obs) = Uncertain then (s, events)
            else
              (let s = (if observation_clears_reconciliation (oe_payload obs)
                        then s\<lparr>ss_reconciliation_required := False\<rparr> else s)
               in apply_payload s (oe_payload obs) (oe_observed_at obs) events)))"

definition tick_gated :: "session_snapshot \<Rightarrow> bool" where
  "tick_gated s \<longleftrightarrow>
     ss_reconciliation_required s \<or> ss_pause_started s \<noteq> None \<or> \<not> stall_timer_runs (ss_state s)"

definition apply_tick ::
  "session_snapshot \<Rightarrow> time_point \<Rightarrow> reducer_policy \<Rightarrow> domain_event_kind list \<Rightarrow>
     session_snapshot \<times> domain_event_kind list" where
  "apply_tick s now policy events =
     (if tick_gated s then (s, events)
      else
        (let deadline_expired =
               is_some_and (\<lambda>deadline. wall_time now \<ge> deadline) (ss_explicit_deadline s);
             elapsed = active_elapsed s now;
             uses_fallback = (ss_explicit_deadline s = None);
             (s, events) =
               (if uses_fallback \<and> elapsed \<ge> rp_suspect_after policy \<and> \<not> ss_suspect_emitted s
                then (s\<lparr>ss_suspect_emitted := True\<rparr>, events @ [Suspect])
                else (s, events))
         in if (deadline_expired \<or> (uses_fallback \<and> elapsed \<ge> rp_stall_after policy)) \<and>
               ss_state s \<noteq> Stalled
            then
              (let (_, s, events) = transition s Stalled now events;
                   s = s\<lparr>ss_stalled_since := Some (monotonic_ms now),
                         ss_last_reminder := Some (monotonic_ms now)\<rparr>
               in (s, events @ [AlertDue]))
            else if ss_state s = Stalled \<and>
                    is_some_and (\<lambda>last. saturating_sub (monotonic_ms now) last \<ge>
                                         rp_reminder_every policy) (ss_last_reminder s)
            then (s\<lparr>ss_last_reminder := Some (monotonic_ms now), ss_updated_at := now\<rparr>,
                  events @ [ReminderDue])
            else (s, events)))"

definition apply_restarted :: "session_snapshot \<Rightarrow> time_point \<Rightarrow> session_snapshot" where
  "apply_restarted s now =
     s\<lparr>ss_reconciliation_required := True, ss_last_observation_id := None,
       ss_last_observation_ms := None, ss_last_activity := now, ss_paused_elapsed_ms := 0,
       ss_pause_started := None, ss_updated_at := now\<rparr>"

fun apply_reducer_input ::
  "session_snapshot \<Rightarrow> reducer_input \<Rightarrow> reducer_policy \<Rightarrow>
     session_snapshot \<times> domain_event_kind list" where
  "apply_reducer_input s (Observation obs) policy = apply_observation s obs []"
| "apply_reducer_input s (Tick now) policy = apply_tick s now policy []"
| "apply_reducer_input s (Restarted now) policy =
     (apply_restarted s now, [ReconciliationRequiredEvent])"
| "apply_reducer_input s (Reconciled now) policy =
     (s\<lparr>ss_reconciliation_required := False, ss_updated_at := now\<rparr>, [])"

definition reduce :: "session_snapshot \<Rightarrow> reducer_input \<Rightarrow> reducer_policy \<Rightarrow> reducer_output" where
  "reduce prior input policy =
     (let (s, events) = apply_reducer_input prior input policy;
          s = (if s \<noteq> prior then s\<lparr>ss_revision := saturating_add (ss_revision prior) 1\<rparr> else s)
      in \<lparr>ro_snapshot = s, ro_events = events\<rparr>)"

definition aggregate_main_state :: "detailed_state \<Rightarrow> detailed_state list \<Rightarrow> detailed_state" where
  "aggregate_main_state main children =
     (if outcome_established main \<and>
         list_ex (\<lambda>child. \<not> outcome_established child \<and> child \<noteq> Disappeared) children
      then Unknown else main)"

section \<open>The contract of one reduction\<close>

text \<open>The snapshot's invariant: the stall clock and the conflict memo exist exactly when needed.\<close>

definition snapshot_inv :: "session_snapshot \<Rightarrow> bool" where
  "snapshot_inv s \<longleftrightarrow>
     (ss_stalled_since s \<noteq> None \<longleftrightarrow> ss_state s = Stalled) \<and>
     (ss_last_reminder s \<noteq> None \<longleftrightarrow> ss_state s = Stalled) \<and>
     (ss_state_before_conflict s \<noteq> None \<longleftrightarrow> ss_source_conflict s) \<and>
     (ss_last_observation_id s \<noteq> None \<longleftrightarrow> ss_last_observation_ms s \<noteq> None)"

text \<open>
  Replaying the \<open>StateChanged\<close> events from a state: each must leave the state reached so far
  and must change it.
\<close>

fun replay_state :: "detailed_state \<Rightarrow> domain_event_kind list \<Rightarrow> detailed_state option" where
  "replay_state st [] = Some st"
| "replay_state st (StateChanged from to # es) =
     (if from = st \<and> to \<noteq> st then replay_state to es else None)"
| "replay_state st (e # es) = replay_state st es"

lemma replay_state_append:
  "replay_state st (es @ fs) = Option.bind (replay_state st es) (\<lambda>u. replay_state u fs)"
  by (induction st es rule: replay_state.induct) auto

definition snapshot_identity :: "session_snapshot \<Rightarrow> session_identity \<times> main_session_id" where
  "snapshot_identity s = (ss_session s, ss_root s)"

text \<open>What every helper does to a snapshot and the events it appends.\<close>

definition effect_ok ::
  "session_snapshot \<Rightarrow> session_snapshot \<times> domain_event_kind list \<Rightarrow> bool" where
  "effect_ok s r \<longleftrightarrow>
     snapshot_identity (fst r) = snapshot_identity s \<and> ss_revision (fst r) = ss_revision s \<and>
     (snapshot_inv s \<longrightarrow> snapshot_inv (fst r)) \<and>
     replay_state (ss_state s) (snd r) = Some (ss_state (fst r))"

lemmas effect_defs =
  effect_ok_def snapshot_inv_def snapshot_identity_def transition_def pause_clock_def
  resume_clock_def record_activity_def Let_def

lemma effect_native_state: "effect_ok s (apply_native_state s st now [])"
  by (auto simp: effect_defs apply_native_state_def split: option.splits)

lemma effect_progress: "effect_ok s (apply_progress s summary now [])"
  by (auto simp: effect_defs apply_progress_def split: option.splits)

lemma effect_deadline: "effect_ok s (apply_deadline s c now, [DeadlineChanged])"
  by (cases c) (auto simp: effect_defs split: option.splits)

lemma effect_intentional_wait: "effect_ok s (apply_intentional_wait s now [])"
  by (auto simp: effect_defs apply_intentional_wait_def)

lemma effect_source_conflict: "effect_ok s (apply_source_conflict s now [])"
  by (auto simp: effect_defs apply_source_conflict_def)

lemma effect_conflict_resolved: "effect_ok s (apply_conflict_resolved s now [])"
  by (auto simp: effect_defs apply_conflict_resolved_def split: option.splits)

lemma effect_tick: "effect_ok s (apply_tick s now p [])"
  by (auto simp: effect_defs apply_tick_def)

lemma effect_payload: "effect_ok s (apply_payload s payload now [])"
proof (cases payload)
  case (Compatibility w)
  then show ?thesis
    by (auto simp: effect_defs apply_compatibility_warning_def)
qed (simp_all add: effect_native_state effect_progress effect_deadline effect_intentional_wait
      effect_source_conflict effect_conflict_resolved,
     simp_all add: effect_ok_def snapshot_inv_def snapshot_identity_def)

lemma effect_prefix:
  assumes "effect_ok s' r"
    and "snapshot_identity s' = snapshot_identity s" and "ss_revision s' = ss_revision s"
    and "ss_state s' = ss_state s" and "snapshot_inv s \<Longrightarrow> snapshot_inv s'"
  shows "effect_ok s r"
  using assms by (auto simp: effect_ok_def)

lemma effect_observation: "effect_ok s (apply_observation s obs [])"
proof -
  have "effect_ok s (apply_payload s' (oe_payload obs) (oe_observed_at obs) [])"
    if "s' = note_observation s obs \<or>
        s' = (note_observation s obs)\<lparr>ss_reconciliation_required := False\<rparr>" for s'
    using that by (intro effect_prefix [OF effect_payload])
      (auto simp: note_observation_def snapshot_inv_def snapshot_identity_def)
  moreover have "effect_ok s (note_observation s obs, [])" "effect_ok s (s, [])"
    by (simp_all add: effect_ok_def snapshot_identity_def snapshot_inv_def note_observation_def)
  ultimately show ?thesis
    by (simp add: apply_observation_def Let_def)
qed

lemma effect_input: "effect_ok s (apply_reducer_input s i p)"
  by (cases i)
    (simp_all add: effect_observation effect_tick,
     simp_all add: effect_ok_def snapshot_inv_def snapshot_identity_def apply_restarted_def)

text \<open>The reducer as a machine over its inputs.\<close>

definition reduce_step ::
  "reducer_policy \<Rightarrow> session_snapshot \<Rightarrow> reducer_input \<Rightarrow>
     session_snapshot \<times> domain_event_kind list" where
  "reduce_step p s i = (let r = reduce s i p in (ro_snapshot r, ro_events r))"

lemma reduce_step_def2:
  "reduce_step p s i =
     (let (s', es) = apply_reducer_input s i p
      in (if s' \<noteq> s then s'\<lparr>ss_revision := saturating_add (ss_revision s) 1\<rparr> else s', es))"
  by (auto simp: reduce_step_def reduce_def Let_def split: prod.splits)

lemma revision_update_neq:
  "s' \<noteq> s \<Longrightarrow> ss_revision s' = ss_revision s \<Longrightarrow> s'\<lparr>ss_revision := v\<rparr> \<noteq> s"
  by (metis session_snapshot.surjective session_snapshot.update_convs(3) session_snapshot.select_convs(3))

interpretation session: revisioned_machine "reduce_step p" snapshot_inv snapshot_identity
    ss_revision ss_state replay_state
  for p
proof unfold_locales
  fix s :: session_snapshot and i :: reducer_input and v :: detailed_state and es fs
  obtain s' evs where r: "apply_reducer_input s i p = (s', evs)"
    by fastforce
  then have ok: "effect_ok s (s', evs)"
    using effect_input [of s i p] by simp
  show "snapshot_inv s \<Longrightarrow> snapshot_inv (fst (reduce_step p s i))"
    using ok by (auto simp: reduce_step_def2 r effect_ok_def snapshot_inv_def)
  show "snapshot_identity (fst (reduce_step p s i)) = snapshot_identity s"
    using ok by (auto simp: reduce_step_def2 r effect_ok_def snapshot_identity_def)
  show "ss_revision (fst (reduce_step p s i)) =
      (if fst (reduce_step p s i) = s then ss_revision s else saturating_add (ss_revision s) 1)"
    using ok by (auto simp: reduce_step_def2 r effect_ok_def revision_update_neq)
  show "replay_state (ss_state s) (snd (reduce_step p s i)) = Some (ss_state (fst (reduce_step p s i)))"
    using ok by (auto simp: reduce_step_def2 r effect_ok_def)
  show "replay_state v [] = Some v"
    by simp
  show "replay_state v (es @ fs) = Option.bind (replay_state v es) (\<lambda>w. replay_state w fs)"
    by (rule replay_state_append)
qed

section \<open>Runs of the reducer\<close>

text \<open>
  C29. Whatever inputs a session receives, its snapshot keeps its identity and root and its
  invariant: a stall clock and a reminder clock exist exactly while the session is stalled, and
  a state is remembered exactly while a source conflict is active.
\<close>
theorem reducer_run_invariant:
  "let s = fst (run_machine (reduce_step p) (session_snapshot_new session root now) inputs)
   in snapshot_inv s \<and> ss_session s = session \<and> ss_root s = root"
proof -
  let ?new = "session_snapshot_new session root now"
  have "snapshot_inv (fst (run_machine (reduce_step p) ?new inputs))"
    by (rule session.run_inv) (simp add: snapshot_inv_def session_snapshot_new_def)
  then show ?thesis
    using session.run_identity [of p ?new inputs]
    by (simp add: snapshot_identity_def session_snapshot_new_def)
qed

text \<open>
  C28. The event log determines the state: replaying the \<open>StateChanged\<close> events emitted by a run
  from \<open>Starting\<close> gives the state of the final snapshot, every event starting where the previous
  one ended and none of them a self-transition.
\<close>
theorem reducer_events_replay:
  "replay_state Starting
     (snd (run_machine (reduce_step p) (session_snapshot_new session root now) inputs)) =
   Some (ss_state (fst (run_machine (reduce_step p) (session_snapshot_new session root now) inputs)))"
  using session.run_replay [of "session_snapshot_new session root now" p inputs]
  by (simp add: session_snapshot_new_def)

text \<open>
  The revision is a sound version stamp: revisions never decrease over a run, and below
  saturation a run that ends with the revision it started with has not changed the snapshot.
\<close>
theorem reducer_revision_versions:
  assumes "ss_revision s \<noteq> - 1"
  shows "ss_revision s \<le> ss_revision (fst (run_machine (reduce_step p) s inputs)) \<and>
    (ss_revision (fst (run_machine (reduce_step p) s inputs)) = ss_revision s \<longleftrightarrow>
       fst (run_machine (reduce_step p) s inputs) = s)"
  using session.run_revision_mono session.run_revision_version assms by metis

section \<open>Single reductions\<close>

lemma reduce_snapshot: "ro_snapshot (reduce s i p) = fst (reduce_step p s i)"
  and reduce_events: "ro_events (reduce s i p) = snd (apply_reducer_input s i p)"
  by (auto simp: reduce_step_def reduce_def Let_def split: prod.splits)

lemma reduce_field:
  "ss_state (ro_snapshot (reduce s i p)) = ss_state (fst (apply_reducer_input s i p))"
  "ss_pause_started (ro_snapshot (reduce s i p)) = ss_pause_started (fst (apply_reducer_input s i p))"
  "ss_stalled_since (ro_snapshot (reduce s i p)) = ss_stalled_since (fst (apply_reducer_input s i p))"
  "ss_last_reminder (ro_snapshot (reduce s i p)) = ss_last_reminder (fst (apply_reducer_input s i p))"
  "ss_source_conflict (ro_snapshot (reduce s i p)) = ss_source_conflict (fst (apply_reducer_input s i p))"
  "ss_state_before_conflict (ro_snapshot (reduce s i p)) =
     ss_state_before_conflict (fst (apply_reducer_input s i p))"
  "ss_last_observation_id (ro_snapshot (reduce s i p)) =
     ss_last_observation_id (fst (apply_reducer_input s i p))"
  "ss_last_observation_ms (ro_snapshot (reduce s i p)) =
     ss_last_observation_ms (fst (apply_reducer_input s i p))"
  by (auto simp: reduce_def Let_def split: prod.splits)

lemma reduce_unchanged:
  "apply_reducer_input s i p = (s, []) \<Longrightarrow> reduce s i p = \<lparr>ro_snapshot = s, ro_events = []\<rparr>"
  by (simp add: reduce_def)

lemmas payload_defs =
  apply_native_state_def apply_progress_def apply_intentional_wait_def apply_source_conflict_def
  apply_conflict_resolved_def apply_compatibility_warning_def transition_def record_activity_def
  pause_clock_def resume_clock_def Let_def

lemma apply_payload_observation_fields [reducer_simps]:
  "ss_last_observation_id (fst (apply_payload s payload now es)) = ss_last_observation_id s"
  "ss_last_observation_ms (fst (apply_payload s payload now es)) = ss_last_observation_ms s"
proof -
  have "ss_last_observation_id (apply_deadline s c now) = ss_last_observation_id s"
    "ss_last_observation_ms (apply_deadline s c now) = ss_last_observation_ms s" for c
    by (cases c; simp add: pause_clock_def resume_clock_def split: option.split)+
  then show
    "ss_last_observation_id (fst (apply_payload s payload now es)) = ss_last_observation_id s"
    "ss_last_observation_ms (fst (apply_payload s payload now es)) = ss_last_observation_ms s"
    by (cases payload; auto simp: payload_defs split: option.split)+
qed

lemma accepted_observation_fields [reducer_simps]:
  "\<not> is_duplicate_or_stale s obs \<Longrightarrow>
     ss_last_observation_id (fst (apply_observation s obs [])) = Some (oe_observation_id obs)"
  "\<not> is_duplicate_or_stale s obs \<Longrightarrow>
     ss_last_observation_ms (fst (apply_observation s obs [])) =
       Some (monotonic_ms (oe_observed_at obs))"
  by (simp_all add: apply_observation_def Let_def reducer_simps, simp_all add: note_observation_def)

text \<open>
  Observations are idempotent: reducing the same observation a second time, immediately
  after the first, changes nothing and emits nothing.
\<close>
theorem reduce_observation_idempotent:
  "reduce (ro_snapshot (reduce s (Observation obs) p)) (Observation obs) p =
     \<lparr>ro_snapshot = ro_snapshot (reduce s (Observation obs) p), ro_events = []\<rparr>"
proof -
  let ?s' = "ro_snapshot (reduce s (Observation obs) p)"
  have "is_duplicate_or_stale ?s' obs"
  proof (cases "is_duplicate_or_stale s obs")
    case True
    then have "?s' = s"
      by (simp add: reduce_def apply_observation_def)
    with True show ?thesis by simp
  next
    case False
    then have "ss_last_observation_id ?s' = Some (oe_observation_id obs)"
      by (simp add: reduce_field reducer_simps)
    then show ?thesis
      by (simp add: is_duplicate_or_stale_def)
  qed
  then show ?thesis
    by (intro reduce_unchanged) (simp add: apply_observation_def)
qed

text \<open>
  Evidence of uncertain trust cannot influence a session: it emits no event and changes
  nothing but the observation bookkeeping and the revision.
\<close>
theorem uncertain_evidence_inert:
  assumes "os_trust (oe_source obs) = Uncertain"
  shows "ro_events (reduce s (Observation obs) p) = [] \<and>
    (\<exists>oid ms at rev. ro_snapshot (reduce s (Observation obs) p) =
       s\<lparr>ss_last_observation_id := oid, ss_last_observation_ms := ms, ss_updated_at := at,
         ss_revision := rev\<rparr>)"
proof (cases "is_duplicate_or_stale s obs")
  case True
  have "\<exists>oid ms at rev. s = s\<lparr>ss_last_observation_id := oid, ss_last_observation_ms := ms,
      ss_updated_at := at, ss_revision := rev\<rparr>"
    by (rule exI [of _ "ss_last_observation_id s"], rule exI [of _ "ss_last_observation_ms s"],
        rule exI [of _ "ss_updated_at s"], rule exI [of _ "ss_revision s"]) simp
  with True show ?thesis
    by (simp add: reduce_def apply_observation_def)
next
  case False
  then have "s \<noteq> note_observation s obs"
    by (auto simp: note_observation_def is_duplicate_or_stale_def
        dest: arg_cong [where f = ss_last_observation_id])
  with False assms show ?thesis
    by (auto simp: reduce_def apply_observation_def Let_def note_observation_def)
qed

text \<open>
  The timer rule the tick implements: an explicit deadline replaces the inactivity threshold.
\<close>

definition stall_due :: "session_snapshot \<Rightarrow> time_point \<Rightarrow> reducer_policy \<Rightarrow> bool" where
  "stall_due s now p \<longleftrightarrow>
     (case ss_explicit_deadline s of
        Some deadline \<Rightarrow> deadline \<le> wall_time now
      | None \<Rightarrow> rp_stall_after p \<le> active_elapsed s now)"

text \<open>
  A tick stalls a session exactly when it should: a session that is not stalled becomes
  stalled iff its timers run (no reconciliation pending, no pause, a state the stall timer
  applies to) and its deadline or inactivity threshold is reached; then the alert is emitted
  last, after the transition, and the stall and reminder clocks start at the tick.
\<close>
theorem tick_stalls_iff:
  assumes "ss_state s \<noteq> Stalled"
  shows "(ss_state (ro_snapshot (reduce s (Tick now) p)) = Stalled \<longleftrightarrow>
      \<not> tick_gated s \<and> stall_due s now p) \<and>
    (ss_state (ro_snapshot (reduce s (Tick now) p)) = Stalled \<longrightarrow>
      (\<exists>es. ro_events (reduce s (Tick now) p) = es @ [StateChanged (ss_state s) Stalled, AlertDue]) \<and>
      ss_stalled_since (ro_snapshot (reduce s (Tick now) p)) = Some (monotonic_ms now) \<and>
      ss_last_reminder (ro_snapshot (reduce s (Tick now) p)) = Some (monotonic_ms now))"
  using assms
  by (cases "ss_explicit_deadline s")
    (auto simp: reduce_field reduce_events apply_tick_def stall_due_def transition_def Let_def)

lemma gated_ticks_run:
  assumes "tick_gated s"
  shows "run_machine (reduce_step p) s (map Tick ts) = (s, [])"
proof (induction ts)
  case (Cons t ts)
  have "reduce_step p s (Tick t) = (s, [])"
    using assms by (simp add: reduce_step_def reduce_def apply_tick_def)
  with Cons show ?case
    by (simp add: run_machine.simps)
qed simp

text \<open>
  While its timers are gated (restart reconciliation pending, timers paused, or a state
  the stall timer does not apply to) no sequence of ticks changes a session or emits an event.
\<close>
theorem gated_ticks_inert:
  assumes "ss_reconciliation_required s \<or> timers_paused s \<or>
    ss_state s \<in> {WaitingForUser, Completed, Failed, Cancelled, Disappeared, Unknown}"
  shows "run_machine (reduce_step p) s (map Tick ts) = (s, [])"
  using assms
  by (intro gated_ticks_run) (auto simp: tick_gated_def timers_paused_def stall_timer_runs_def)

text \<open>Every effective input other than a restart leaves a durable trace.\<close>

lemma tick_event_changes:
  assumes "policy_wf p" and "snd (apply_tick s now p []) \<noteq> []"
  shows "fst (apply_tick s now p []) \<noteq> s"
proof
  let ?r = "fst (apply_tick s now p [])"
  assume eq: "?r = s"
  have every: "\<not> rp_reminder_every p \<le> 0"
    using assms(1) by (simp add: policy_wf_def)
  have "ss_suspect_emitted ?r = ss_suspect_emitted s" "ss_state ?r = ss_state s"
    "ss_last_reminder ?r = ss_last_reminder s"
    by (simp_all only: eq)
  then show False
    using assms(2) every
    by (auto simp: apply_tick_def transition_def Let_def is_some_and_iff split: if_splits)
qed

text \<open>
  No event without a durable change: an input other than a restart notification that
  emits an event also changes the snapshot (so its revision advances and it is persisted).
\<close>
theorem event_implies_change:
  assumes "policy_wf p" and "ro_events (reduce s i p) \<noteq> []"
    and "\<And>now. i \<noteq> Restarted now"
  shows "ro_snapshot (reduce s i p) \<noteq> s"
proof -
  have "fst (apply_reducer_input s i p) \<noteq> s"
  proof (cases i)
    case (Observation obs)
    have "\<not> is_duplicate_or_stale s obs"
      using assms(2) Observation by (auto simp: reduce_events apply_observation_def)
    moreover from this have "ss_last_observation_id s \<noteq> Some (oe_observation_id obs)"
      by (simp add: is_duplicate_or_stale_def)
    ultimately show ?thesis
      using Observation by (auto simp: reducer_simps dest!: arg_cong [where f = ss_last_observation_id])
  next
    case (Tick now)
    then show ?thesis
      using assms(1,2) tick_event_changes by (simp add: reduce_events)
  qed (use assms in \<open>auto simp: reduce_events\<close>)
  moreover have "ss_revision (fst (apply_reducer_input s i p)) = ss_revision s"
    using effect_input [of s i p] by (simp add: effect_ok_def)
  ultimately show ?thesis
    by (auto simp: reduce_def Let_def revision_update_neq split: prod.splits)
qed

section \<open>Timers over several steps\<close>

text \<open>A tick on a stalled session either emits one reminder, at least one period later, or none.\<close>

lemma stalled_tick:
  assumes "ss_state s = Stalled" and "ss_last_reminder s = Some t" and "policy_wf p"
  shows "ss_state (fst (reduce_step p s (Tick now))) = Stalled \<and>
    (\<exists>t'. ss_last_reminder (fst (reduce_step p s (Tick now))) = Some t' \<and>
       unat t + length (filter ((=) ReminderDue) (snd (reduce_step p s (Tick now)))) *
         unat (rp_reminder_every p) \<le> unat t')"
proof -
  have pos: "0 < unat (rp_reminder_every p)"
    using assms(3) by (simp add: policy_wf_def unat_gt_0)
  have due: "unat t + unat (rp_reminder_every p) \<le> unat (monotonic_ms now)"
    if "rp_reminder_every p \<le> saturating_sub (monotonic_ms now) t"
    using that pos by (simp add: word_le_nat_alt int_ops)
  have "ss_state (fst (apply_tick s now p [])) = Stalled"
    "ss_last_reminder (fst (apply_tick s now p [])) =
       (if ReminderDue \<in> set (snd (apply_tick s now p [])) then Some (monotonic_ms now) else Some t)"
    "ReminderDue \<in> set (snd (apply_tick s now p [])) \<Longrightarrow>
       rp_reminder_every p \<le> saturating_sub (monotonic_ms now) t"
    "length (filter ((=) ReminderDue) (snd (apply_tick s now p []))) =
       (if ReminderDue \<in> set (snd (apply_tick s now p [])) then 1 else 0)"
    using assms(1,2) by (simp_all add: apply_tick_def Let_def split: if_splits)
  moreover have "fst (reduce_step p s (Tick now)) = ro_snapshot (reduce s (Tick now) p)"
    "snd (reduce_step p s (Tick now)) = snd (apply_tick s now p [])"
    by (simp_all add: reduce_step_def reduce_events Let_def)
  ultimately show ?thesis
    using due
    by (cases "ReminderDue \<in> set (snd (apply_tick s now p []))") (simp_all add: reduce_field)
qed

text \<open>
  Reminder cadence: however often the scheduler ticks a stalled session, the reminders it
  emits are at least one reminder period apart, so their number times the period never exceeds
  the time between the start of the count and the last reminder; the session stays stalled.
\<close>
theorem reminder_cadence:
  assumes "ss_state s = Stalled" and "ss_last_reminder s = Some t0" and "policy_wf p"
  shows "ss_state (fst (run_machine (reduce_step p) s (map Tick ts))) = Stalled \<and>
    (\<exists>t1. ss_last_reminder (fst (run_machine (reduce_step p) s (map Tick ts))) = Some t1 \<and>
       unat t0 + length (filter ((=) ReminderDue) (snd (run_machine (reduce_step p) s (map Tick ts)))) *
         unat (rp_reminder_every p) \<le> unat t1)"
  using assms(1,2)
proof (induction ts arbitrary: s t0)
  case (Cons now ts)
  let ?s' = "fst (reduce_step p s (Tick now))"
  obtain t' where t': "ss_state ?s' = Stalled" "ss_last_reminder ?s' = Some t'"
    "unat t0 + length (filter ((=) ReminderDue) (snd (reduce_step p s (Tick now)))) *
       unat (rp_reminder_every p) \<le> unat t'"
    using stalled_tick [OF Cons.prems assms(3), of now] by blast
  from Cons.IH [OF t'(1,2)] t'(3) show ?case
    by (auto simp: algebra_simps)
qed simp

text \<open>
  Paused time never counts as inactivity: pausing at one instant and resuming at a later one
  removes exactly the interval between them from the elapsed time of every later tick.
\<close>
theorem pause_excludes_interval:
  assumes "ss_pause_started s = None"
    and "unat (ss_paused_elapsed_ms s) + (unat (monotonic_ms t2) - unat (monotonic_ms t1)) < 2 ^ 64"
  shows "unat (active_elapsed (apply_deadline (apply_deadline s PauseTimers t1) ResumeTimers t2) now) =
    unat (active_elapsed s now) - (unat (monotonic_ms t2) - unat (monotonic_ms t1))"
  using assms by (simp add: active_elapsed_def pause_clock_def resume_clock_def int_ops)

section \<open>Conflicts\<close>

text \<open>An observation that reaches the payload: new, not stale, and of usable trust.\<close>

definition accepted :: "session_snapshot \<Rightarrow> observation_envelope \<Rightarrow> bool" where
  "accepted s obs \<longleftrightarrow> \<not> is_duplicate_or_stale s obs \<and> os_trust (oe_source obs) \<noteq> Uncertain"

lemma accepted_apply:
  assumes "accepted s obs"
  obtains s' where "apply_observation s obs [] = apply_payload s' (oe_payload obs) (oe_observed_at obs) []"
    and "ss_state s' = ss_state s" and "ss_source_conflict s' = ss_source_conflict s"
    and "ss_state_before_conflict s' = ss_state_before_conflict s"
    and "ss_pause_started s' = ss_pause_started s"
    and "ss_paused_elapsed_ms s' = ss_paused_elapsed_ms s"
proof -
  let ?s' = "if observation_clears_reconciliation (oe_payload obs)
    then (note_observation s obs)\<lparr>ss_reconciliation_required := False\<rparr> else note_observation s obs"
  have "apply_observation s obs [] = apply_payload ?s' (oe_payload obs) (oe_observed_at obs) []"
    using assms by (simp add: apply_observation_def accepted_def Let_def)
  then show ?thesis
    by (rule that) (simp_all add: note_observation_def)
qed

lemma reduce_conflict:
  assumes "accepted s obs" and "oe_payload obs = SourceConflict why" and "\<not> ss_source_conflict s"
  shows "ss_state (ro_snapshot (reduce s (Observation obs) p)) = Unknown"
    and "ss_source_conflict (ro_snapshot (reduce s (Observation obs) p))"
    and "ss_state_before_conflict (ro_snapshot (reduce s (Observation obs) p)) = Some (ss_state s)"
    and "ss_pause_started (ro_snapshot (reduce s (Observation obs) p)) = ss_pause_started s"
proof -
  obtain s' where "apply_observation s obs [] = apply_source_conflict s' (oe_observed_at obs) []"
    "ss_state s' = ss_state s" "ss_source_conflict s' = ss_source_conflict s"
    "ss_pause_started s' = ss_pause_started s"
    using accepted_apply [OF assms(1)] assms(2) by (metis apply_payload.simps(8))
  then show "ss_state (ro_snapshot (reduce s (Observation obs) p)) = Unknown"
    and "ss_source_conflict (ro_snapshot (reduce s (Observation obs) p))"
    and "ss_state_before_conflict (ro_snapshot (reduce s (Observation obs) p)) = Some (ss_state s)"
    and "ss_pause_started (ro_snapshot (reduce s (Observation obs) p)) = ss_pause_started s"
    using assms(3) by (auto simp: reduce_field apply_source_conflict_def transition_def Let_def)
qed

text \<open>
  A source conflict is reversible: a conflict observation followed by its resolution, both
  accepted, restores the state held before the conflict and clears the conflict and its memo.
\<close>
theorem conflict_roundtrip:
  assumes "\<not> ss_source_conflict s"
    and "accepted s o1" and "oe_payload o1 = SourceConflict why"
    and "accepted (ro_snapshot (reduce s (Observation o1) p)) o2"
    and "oe_payload o2 = SourceConflictResolved"
  shows "let r = reduce (ro_snapshot (reduce s (Observation o1) p)) (Observation o2) p
    in ss_state (ro_snapshot r) = ss_state s \<and> \<not> ss_source_conflict (ro_snapshot r) \<and>
       ss_state_before_conflict (ro_snapshot r) = None \<and> ConflictChanged False \<in> set (ro_events r)"
proof -
  let ?s1 = "ro_snapshot (reduce s (Observation o1) p)"
  obtain s' where "apply_observation ?s1 o2 [] = apply_conflict_resolved s' (oe_observed_at o2) []"
    "ss_state s' = ss_state ?s1" "ss_source_conflict s' = ss_source_conflict ?s1"
    "ss_state_before_conflict s' = ss_state_before_conflict ?s1"
    using accepted_apply [OF assms(4)] assms(5) by (metis apply_payload.simps(9))
  then show ?thesis
    using reduce_conflict [OF assms(2,3,1), of p]
    by (auto simp: Let_def reduce_field reduce_events apply_conflict_resolved_def transition_def)
qed

text \<open>
  C39. The pause taken on entering \<open>WaitingForUser\<close> leaks through a conflict: if the session is
  waiting for the user with its clock paused, a source conflict is observed, and the runtime then
  reports \<open>Running\<close>, the session is shown as running but its clock stays paused, and no sequence
  of ticks whatever will ever mark it stalled or emit an alert.
\<close>
theorem pause_leaks_through_conflict:
  assumes "ss_state s = WaitingForUser" and "ss_pause_started s = Some t" and "\<not> ss_source_conflict s"
    and "accepted s o1" and "oe_payload o1 = SourceConflict why"
    and "accepted (ro_snapshot (reduce s (Observation o1) p)) o2"
    and "oe_payload o2 = NativeState Running"
  shows "let r = ro_snapshot (reduce (ro_snapshot (reduce s (Observation o1) p)) (Observation o2) p)
    in ss_state r = Running \<and> timers_paused r \<and> run_machine (reduce_step p) r (map Tick ts) = (r, [])"
proof -
  let ?s1 = "ro_snapshot (reduce s (Observation o1) p)"
  let ?s2 = "ro_snapshot (reduce ?s1 (Observation o2) p)"
  obtain s' where "apply_observation ?s1 o2 [] = apply_native_state s' Running (oe_observed_at o2) []"
    "ss_state s' = ss_state ?s1" "ss_pause_started s' = ss_pause_started ?s1"
    using accepted_apply [OF assms(6)] assms(7) by (metis apply_payload.simps(1))
  then have s2: "ss_state ?s2 = Running" "ss_pause_started ?s2 = Some t"
    using reduce_conflict [OF assms(4,5,3), of p] assms(2)
    by (auto simp: reduce_field apply_native_state_def transition_def Let_def)
  then have "tick_gated ?s2"
    by (simp add: tick_gated_def)
  then have "run_machine (reduce_step p) ?s2 (map Tick ts) = (?s2, [])"
    by (rule gated_ticks_run)
  with s2 show ?thesis
    by (simp add: Let_def timers_paused_def)
qed

section \<open>Hierarchy aggregation\<close>

text \<open>
  Child states never invent a main state: the aggregate is the main state itself, or
  \<open>Unknown\<close>; an established outcome is shown exactly when the main session has it and no child
  is still live (neither established nor disappeared), so a stalled child never stalls its main.
\<close>
theorem aggregate_main_state_sound:
  "aggregate_main_state main children \<in> {main, Unknown} \<and>
   (outcome_established (aggregate_main_state main children) \<longleftrightarrow>
      outcome_established main \<and>
      list_all (\<lambda>child. outcome_established child \<or> child = Disappeared) children) \<and>
   (aggregate_main_state main children = Stalled \<longleftrightarrow> main = Stalled)"
  by (auto simp: aggregate_main_state_def outcome_established_def list_ex_iff list_all_iff)

section \<open>Concrete runs\<close>

text \<open>A session, an observation source and observations at which the properties are instantiated.\<close>

definition sample_session :: session_identity where
  "sample_session = ChildIdentity (ChildSessionId (SessionId 7))"

definition sample_root :: main_session_id where
  "sample_root = MainSessionId (SessionId 1)"

definition sample_time :: "u64 \<Rightarrow> time_point" where
  "sample_time ms = \<lparr>wall_time = uint ms, monotonic_ms = ms\<rparr>"

definition sample_observation ::
  "uuid \<Rightarrow> evidence_trust \<Rightarrow> u64 \<Rightarrow> observation_payload \<Rightarrow> observation_envelope" where
  "sample_observation oid trust ms payload =
     \<lparr>oe_observation_id = ObservationId oid,
      oe_subject = \<lparr>nk_runtime = ClaudeCode, nk_native_id = ''s''\<rparr>,
      oe_observed_at = sample_time ms,
      oe_source = \<lparr>os_adapter = \<lparr>ai_runtime = ClaudeCode, ai_version = ''1''\<rparr>,
                   os_fingerprint = ''f'', os_trust = trust, os_confidence = None\<rparr>,
      oe_payload = payload\<rparr>"

definition sample_snapshot :: session_snapshot where
  "sample_snapshot = session_snapshot_new sample_session sample_root (sample_time 0)"

definition waiting_snapshot :: session_snapshot where
  "waiting_snapshot =
     ro_snapshot (reduce sample_snapshot
       (Observation (sample_observation 1 Authoritative 10 (NativeState WaitingForUser)))
       default_reducer_policy)"

definition stalled_snapshot :: session_snapshot where
  "stalled_snapshot =
     ro_snapshot (reduce sample_snapshot (Tick (sample_time 900000)) default_reducer_policy)"

lemmas sample_defs =
  sample_session_def sample_root_def sample_time_def sample_observation_def sample_snapshot_def
  session_snapshot_new_def default_reducer_policy_def

lemma sample_snapshot_fields [simp]:
  "ss_state sample_snapshot = Starting" "ss_pause_started sample_snapshot = None"
  "ss_paused_elapsed_ms sample_snapshot = 0" "ss_source_conflict sample_snapshot = False"
  "ss_last_observation_id sample_snapshot = None" "ss_last_observation_ms sample_snapshot = None"
  "ss_revision sample_snapshot = 0" "ss_reconciliation_required sample_snapshot = False"
  "ss_explicit_deadline sample_snapshot = None" "ss_last_activity sample_snapshot = sample_time 0"
  by (simp_all add: sample_snapshot_def session_snapshot_new_def)

lemma waiting_snapshot_fields [simp]:
  "ss_state waiting_snapshot = WaitingForUser" "ss_pause_started waiting_snapshot = Some 10"
  "ss_source_conflict waiting_snapshot = False"
  "ss_last_observation_id waiting_snapshot = Some (ObservationId 1)"
  "ss_last_observation_ms waiting_snapshot = Some 10"
  by (simp_all add: waiting_snapshot_def reduce_field apply_observation_def is_duplicate_or_stale_def
      note_observation_def apply_native_state_def transition_def pause_clock_def Let_def
      sample_observation_def sample_time_def)

lemma stalled_snapshot_fields [simp]:
  "ss_state stalled_snapshot = Stalled" "ss_last_reminder stalled_snapshot = Some 900000"
  by (simp_all add: stalled_snapshot_def reduce_field apply_tick_def tick_gated_def
      stall_timer_runs_def active_elapsed_def saturating_sub_def transition_def Let_def
      sample_time_def default_reducer_policy_def)

lemma sample_observation_fields [simp]:
  "oe_observation_id (sample_observation oid trust ms payload) = ObservationId oid"
  "oe_observed_at (sample_observation oid trust ms payload) = sample_time ms"
  "os_trust (oe_source (sample_observation oid trust ms payload)) = trust"
  "oe_payload (sample_observation oid trust ms payload) = payload"
  "monotonic_ms (sample_time ms) = ms"
  by (simp_all add: sample_observation_def sample_time_def)

lemma conflict_accepted:
  "accepted waiting_snapshot (sample_observation 2 Authoritative 20 (SourceConflict ''c''))"
  by (simp add: accepted_def is_duplicate_or_stale_def)

lemma after_conflict_accepted:
  "accepted (ro_snapshot (reduce waiting_snapshot
      (Observation (sample_observation 2 Authoritative 20 (SourceConflict ''c''))) p))
    (sample_observation 3 Authoritative 30 payload)"
  using conflict_accepted
  by (simp add: accepted_def reduce_field reducer_simps is_duplicate_or_stale_def)

theorem reducer_revision_versions_witness:
  "ss_revision sample_snapshot
     \<le> ss_revision (fst (run_machine (reduce_step default_reducer_policy) sample_snapshot
          [Tick (sample_time 900000)]))"
  using reducer_revision_versions [of sample_snapshot default_reducer_policy] by simp

theorem uncertain_evidence_inert_witness:
  "ro_events (reduce sample_snapshot
     (Observation (sample_observation 1 Uncertain 5 (NativeState Failed))) default_reducer_policy) = []"
  using uncertain_evidence_inert [of "sample_observation 1 Uncertain 5 (NativeState Failed)"] by simp

theorem tick_stalls_iff_witness:
  "ss_state (ro_snapshot (reduce sample_snapshot (Tick (sample_time 900000)) default_reducer_policy)) =
     Stalled"
  using tick_stalls_iff [of sample_snapshot "sample_time 900000" default_reducer_policy]
  by (simp add: tick_gated_def stall_timer_runs_def stall_due_def active_elapsed_def
      saturating_sub_def default_reducer_policy_def)

theorem gated_ticks_inert_witness:
  "run_machine (reduce_step default_reducer_policy) waiting_snapshot
     (map Tick [sample_time 900000, sample_time 9000000]) = (waiting_snapshot, [])"
  by (rule gated_ticks_inert) simp

theorem event_implies_change_witness:
  "ro_snapshot (reduce sample_snapshot (Tick (sample_time 900000)) default_reducer_policy) \<noteq>
     sample_snapshot"
proof (rule event_implies_change)
  show "policy_wf default_reducer_policy"
    by (rule default_reducer_policy_wf)
  show "ro_events (reduce sample_snapshot (Tick (sample_time 900000)) default_reducer_policy) \<noteq> []"
    by (simp add: reduce_events apply_tick_def tick_gated_def stall_timer_runs_def active_elapsed_def
        saturating_sub_def transition_def Let_def default_reducer_policy_def)
qed simp

theorem reminder_cadence_witness:
  "ss_state (fst (run_machine (reduce_step default_reducer_policy) stalled_snapshot
     (map Tick [sample_time 1200000, sample_time 1300000]))) = Stalled"
  using reminder_cadence [of stalled_snapshot 900000 default_reducer_policy
      "[sample_time 1200000, sample_time 1300000]"]
  by (simp add: default_reducer_policy_wf del: list.map)

theorem pause_excludes_interval_witness:
  "unat (active_elapsed
      (apply_deadline (apply_deadline sample_snapshot PauseTimers (sample_time 100)) ResumeTimers
        (sample_time 400)) (sample_time 1000)) = 700"
  by (subst pause_excludes_interval) (simp_all add: active_elapsed_def saturating_sub_def)

theorem conflict_roundtrip_witness:
  "ss_state (ro_snapshot (reduce
     (ro_snapshot (reduce waiting_snapshot
        (Observation (sample_observation 2 Authoritative 20 (SourceConflict ''c'')))
        default_reducer_policy))
     (Observation (sample_observation 3 Authoritative 30 SourceConflictResolved))
     default_reducer_policy)) = WaitingForUser"
  using conflict_roundtrip [OF _ conflict_accepted _ after_conflict_accepted]
  by (simp add: Let_def)

theorem pause_leaks_through_conflict_witness:
  "run_machine (reduce_step default_reducer_policy)
     (ro_snapshot (reduce
       (ro_snapshot (reduce waiting_snapshot
          (Observation (sample_observation 2 Authoritative 20 (SourceConflict ''c'')))
          default_reducer_policy))
       (Observation (sample_observation 3 Authoritative 30 (NativeState Running)))
       default_reducer_policy)) (map Tick [sample_time 9000000]) =
   (ro_snapshot (reduce
       (ro_snapshot (reduce waiting_snapshot
          (Observation (sample_observation 2 Authoritative 20 (SourceConflict ''c'')))
          default_reducer_policy))
       (Observation (sample_observation 3 Authoritative 30 (NativeState Running)))
       default_reducer_policy), [])"
  using pause_leaks_through_conflict [OF _ _ _ conflict_accepted _ after_conflict_accepted]
  by (simp add: Let_def del: list.map)

end
