(* ===== verification/Safety.thy ===== *)
theory Safety
  imports Reducer
begin

text \<open>
  The pure child-termination gate of \<open>safety.rs\<close>. \<open>assess_termination\<close> collects the gates an
  immutable set of facts passes and the blockers that forbid escalation; the facts are a record
  with the fields of \<open>TerminationFacts\<close>, the two \<open>BTreeSet\<close>s are sets. The theory shows what
  an eligible assessment proves of the facts, and that no main session can ever be eligible.
\<close>

section \<open>Model\<close>

datatype termination_candidate = TerminationCandidate (candidate_session: child_session_id)

datatype termination_gate =
    TrustworthyChild | ContinuousStall | NoSourceConflict | NoActiveOperation | NotWaitingForUser
  | DeadlineAllows | TimersRunning | GateReconciled | ComponentsHealthy | ProcessVerified
  | RuntimeMatches

datatype termination_blocker =
    UntrustedChild | InsufficientStall | BlockedSourceConflict | ActiveOperation
  | BlockedWaitingForUser | DeadlineExtension | TimersPaused | BlockedReconciliation
  | ComponentUnhealthy | MissingProcess | BlockedRuntimeMismatch | ProcessIdentityChanged
  | ProcessControlFailure

datatype termination_component = StoreComponent | QueueComponent | AdapterComponent | ProcessComponent

datatype termination_health = TerminationHealth (health_bits: u8)

definition health_healthy :: termination_health where
  "health_healthy = TerminationHealth 0"

fun component_bit :: "termination_component \<Rightarrow> u8" where
  "component_bit StoreComponent = 1"
| "component_bit QueueComponent = push_bit 1 1"
| "component_bit AdapterComponent = push_bit 2 1"
| "component_bit ProcessComponent = push_bit 3 1"

definition with_unhealthy :: "termination_health \<Rightarrow> termination_component \<Rightarrow> termination_health" where
  "with_unhealthy h c = TerminationHealth (or (health_bits h) (component_bit c))"

definition all_healthy :: "termination_health \<Rightarrow> bool" where
  "all_healthy h \<longleftrightarrow> health_bits h = 0"

record termination_facts =
  tf_snapshot :: session_snapshot
  tf_runtime :: runtime_kind
  tf_trustworthy_relation :: bool
  tf_active_operation :: bool
  tf_fresh_process :: "process_identity option"
  tf_health :: termination_health
  tf_now :: time_point
  tf_terminate_after_stalled :: duration_ms

record termination_assessment =
  ta_passed :: "termination_gate set"
  ta_blockers :: "termination_blocker set"

definition eligible :: "termination_assessment \<Rightarrow> bool" where
  "eligible a \<longleftrightarrow> ta_blockers a = {}"

text \<open>\<open>gate\<close> inserts into one of the two sets.\<close>

definition gate ::
  "bool \<Rightarrow> termination_gate \<Rightarrow> termination_blocker \<Rightarrow> termination_assessment \<Rightarrow>
     termination_assessment" where
  "gate condition success failure a =
     (if condition then a\<lparr>ta_passed := insert success (ta_passed a)\<rparr>
      else a\<lparr>ta_blockers := insert failure (ta_blockers a)\<rparr>)"

definition executable_matches_runtime :: "runtime_kind \<Rightarrow> string \<Rightarrow> bool" where
  "executable_matches_runtime runtime executable =
     (case file_name executable of
        None \<Rightarrow> False
      | Some name \<Rightarrow>
          (case runtime of
             ClaudeCode \<Rightarrow> name = ''claude'' \<or> name = ''claude-code''
           | CodexCli \<Rightarrow> name = ''codex''
           | CodexCompanion \<Rightarrow> name = ''codex'' \<or> name = ''codex-companion''
           | OpenCode \<Rightarrow> name = ''opencode''))"

definition stalled_long_enough :: "termination_facts \<Rightarrow> bool" where
  "stalled_long_enough f \<longleftrightarrow>
     ss_state (tf_snapshot f) = Stalled \<and>
     is_some_and (\<lambda>since. saturating_sub (monotonic_ms (tf_now f)) since \<ge>
                           tf_terminate_after_stalled f)
       (ss_stalled_since (tf_snapshot f))"

definition assess_termination ::
  "termination_candidate \<Rightarrow> termination_facts \<Rightarrow> termination_assessment" where
  "assess_termination candidate f =
     (let s = tf_snapshot f;
          a = \<lparr>ta_passed = {}, ta_blockers = {}\<rparr>;
          a = gate ((case ss_session s of ChildIdentity child \<Rightarrow> child = candidate_session candidate
                                        | MainIdentity _ \<Rightarrow> False) \<and> tf_trustworthy_relation f)
                TrustworthyChild UntrustedChild a;
          a = gate (stalled_long_enough f) ContinuousStall InsufficientStall a;
          a = gate (\<not> ss_source_conflict s) NoSourceConflict BlockedSourceConflict a;
          a = gate (\<not> tf_active_operation f) NoActiveOperation ActiveOperation a;
          a = gate (ss_state s \<noteq> WaitingForUser) NotWaitingForUser BlockedWaitingForUser a;
          a = gate (is_none_or (\<lambda>deadline. deadline \<le> wall_time (tf_now f)) (ss_explicit_deadline s))
                DeadlineAllows DeadlineExtension a;
          a = gate (\<not> timers_paused s) TimersRunning TimersPaused a;
          a = gate (\<not> ss_reconciliation_required s) GateReconciled BlockedReconciliation a;
          a = gate (all_healthy (tf_health f)) ComponentsHealthy ComponentUnhealthy a;
          a = gate (tf_fresh_process f \<noteq> None) ProcessVerified MissingProcess a
      in case tf_fresh_process f of
           Some process \<Rightarrow>
             gate (executable_matches_runtime (tf_runtime f) (pi_executable process))
               RuntimeMatches BlockedRuntimeMismatch a
         | None \<Rightarrow> a)"

section \<open>Eligibility\<close>

lemma gate_sets:
  "ta_passed (gate c g b a) = (if c then insert g (ta_passed a) else ta_passed a)"
  "ta_blockers (gate c g b a) = (if c then ta_blockers a else insert b (ta_blockers a))"
  by (simp_all add: gate_def)

lemma in_gate_blockers: "x \<in> ta_blockers (gate c g b a) \<longleftrightarrow> x \<in> ta_blockers a \<or> (\<not> c \<and> x = b)"
  by (auto simp: gate_sets)

text \<open>The conjunction of conditions the assessment decides.\<close>

definition termination_permitted :: "termination_candidate \<Rightarrow> termination_facts \<Rightarrow> bool" where
  "termination_permitted candidate f \<longleftrightarrow>
     (let s = tf_snapshot f in
      ss_session s = ChildIdentity (candidate_session candidate) \<and>
      tf_trustworthy_relation f \<and>
      ss_state s = Stalled \<and>
      (\<exists>since. ss_stalled_since s = Some since \<and>
         unat (tf_terminate_after_stalled f) \<le> unat (monotonic_ms (tf_now f)) - unat since) \<and>
      \<not> ss_source_conflict s \<and>
      \<not> tf_active_operation f \<and>
      (\<forall>deadline. ss_explicit_deadline s = Some deadline \<longrightarrow> deadline \<le> wall_time (tf_now f)) \<and>
      ss_pause_started s = None \<and>
      \<not> ss_reconciliation_required s \<and>
      all_healthy (tf_health f) \<and>
      (\<exists>process. tf_fresh_process f = Some process \<and>
         executable_matches_runtime (tf_runtime f) (pi_executable process)))"

lemma eligible_iff_permitted:
  "eligible (assess_termination c f) \<longleftrightarrow> termination_permitted c f"
  by (auto simp: eligible_def assess_termination_def termination_permitted_def gate_sets Let_def
      stalled_long_enough_def timers_paused_def is_some_and_iff is_none_or_iff word_le_nat_alt int_ops
      split: option.split session_identity.split if_splits)




text \<open>
  Main sessions are never terminated: whatever the other facts, an assessment whose
  snapshot is a main session, or another child than the candidate, is not eligible.
\<close>
theorem main_session_never_eligible:
  assumes "ss_session (tf_snapshot facts) \<noteq> ChildIdentity (candidate_session candidate)"
  shows "\<not> eligible (assess_termination candidate facts) \<and>
    UntrustedChild \<in> ta_blockers (assess_termination candidate facts)"
proof
  show "\<not> eligible (assess_termination candidate facts)"
    using assms by (simp add: eligible_iff_permitted termination_permitted_def Let_def)
  show "UntrustedChild \<in> ta_blockers (assess_termination candidate facts)"
    using assms
    by (cases "ss_session (tf_snapshot facts)"; cases "tf_fresh_process facts")
      (simp_all add: assess_termination_def Let_def in_gate_blockers)
qed

theorem main_session_never_eligible_witness:
  "\<not> eligible (assess_termination (TerminationCandidate (ChildSessionId (SessionId 1)))
     \<lparr>tf_snapshot = sample_snapshot\<lparr>ss_session := MainIdentity sample_root\<rparr>, tf_runtime = ClaudeCode,
      tf_trustworthy_relation = True, tf_active_operation = False, tf_fresh_process = None,
      tf_health = health_healthy, tf_now = sample_time 10, tf_terminate_after_stalled = 5\<rparr>)"
  using main_session_never_eligible
    [of "\<lparr>tf_snapshot = sample_snapshot\<lparr>ss_session := MainIdentity sample_root\<rparr>, tf_runtime = ClaudeCode,
      tf_trustworthy_relation = True, tf_active_operation = False, tf_fresh_process = None,
      tf_health = health_healthy, tf_now = sample_time 10, tf_terminate_after_stalled = 5\<rparr>"]
  by simp

section \<open>Health bits and executables\<close>

lemma component_bit_nonzero: "component_bit c \<noteq> 0"
  by (cases c) simp_all

lemma or_eq_0_word: "or a b = 0 \<longleftrightarrow> a = 0 \<and> b = (0 :: u8)"
  by (auto simp: bit_eq_iff bit_or_iff)

text \<open>
  The health bit set forgets nothing: after any sequence of components is marked unhealthy,
  in any order and with repetitions, the set is all-healthy iff it was and none was marked.
\<close>
theorem health_remembers:
  "all_healthy (foldl with_unhealthy h components) \<longleftrightarrow> all_healthy h \<and> components = []"
  by (induction components arbitrary: h)
    (auto simp: all_healthy_def with_unhealthy_def or_eq_0_word component_bit_nonzero)

fun runtime_executables :: "runtime_kind \<Rightarrow> string list" where
  "runtime_executables ClaudeCode = [''claude'', ''claude-code'']"
| "runtime_executables CodexCli = [''codex'']"
| "runtime_executables CodexCompanion = [''codex'', ''codex-companion'']"
| "runtime_executables OpenCode = [''opencode'']"

text \<open>
  Executable matching looks at the whole base name only: for every directory, a path
  \<open>dir/name\<close> matches a runtime iff \<open>name\<close> is one of that runtime's executables, so neither a
  directory called like the runtime nor a longer file name is accepted.
\<close>
theorem executable_match_basename:
  assumes "CHR ''/'' \<notin> set name" and "name \<noteq> []" and "name \<noteq> ''.''" and "name \<noteq> ''..''"
  shows "executable_matches_runtime runtime (dir @ CHR ''/'' # name) \<longleftrightarrow>
    name \<in> set (runtime_executables runtime)"
  using file_name_absolute [OF assms]
  by (cases runtime) (simp_all add: executable_matches_runtime_def)

theorem executable_match_basename_witness:
  "\<not> executable_matches_runtime ClaudeCode (''/opt/claude'' @ CHR ''/'' # ''claude-evil'')"
  by (subst executable_match_basename) simp_all

end
