(* ===== verification/Correlation.thy ===== *)
theory Correlation
  imports Evidence
begin

text \<open>
  Parent correlation, \<open>correlation.rs\<close>: candidates are ranked by a comparator, reduced to the
  best one per parent in a \<open>BTreeMap\<close>, ranked again, and a parent is selected only if no
  explicit evidence disagrees and an inferred winner is confident enough and far enough ahead.
  The comparator is shown to meet the \<open>comparator\<close> contract that \<open>sort_by\<close> relies on.
\<close>

section \<open>Model\<close>

datatype correlation_basis =
    WeakHeuristic | TranscriptReference | UniqueWorktree | ProcessAncestry | McpRegistration
  | ExactNative

fun basis_rank :: "correlation_basis \<Rightarrow> u8" where
  "basis_rank WeakHeuristic = 1"
| "basis_rank TranscriptReference = 2"
| "basis_rank UniqueWorktree = 3"
| "basis_rank ProcessAncestry = 4"
| "basis_rank McpRegistration = 5"
| "basis_rank ExactNative = 6"

definition is_explicit :: "correlation_basis \<Rightarrow> bool" where
  "is_explicit b \<longleftrightarrow> b = ExactNative \<or> b = McpRegistration"

fun trust_rank :: "evidence_trust \<Rightarrow> u8" where
  "trust_rank Uncertain = 0"
| "trust_rank Heuristic = 1"
| "trust_rank Corroborating = 2"
| "trust_rank Authoritative = 3"

record correlation_candidate =
  cc_parent :: session_identity
  cc_basis :: correlation_basis
  cc_trust :: evidence_trust
  cc_confidence :: confidence
  cc_evidence :: string

definition correlation_candidate_new ::
  "session_identity \<Rightarrow> correlation_basis \<Rightarrow> evidence_trust \<Rightarrow> confidence \<Rightarrow> string \<Rightarrow>
     domain_input_error + correlation_candidate" where
  "correlation_candidate_new parent basis trust conf evidence =
     and_then (bounded_text_new 1024 ''correlation_evidence'' evidence) (\<lambda>e.
       if e = [] then Inl (EmptyField ''correlation_evidence'')
       else Inr \<lparr>cc_parent = parent, cc_basis = basis, cc_trust = trust, cc_confidence = conf,
                 cc_evidence = e\<rparr>)"

record correlation_policy =
  cp_minimum_confidence :: confidence
  cp_minimum_gap :: u16

datatype correlation_policy_error = ZeroGap | GapOutOfRange

definition correlation_policy_new ::
  "confidence \<Rightarrow> u16 \<Rightarrow> correlation_policy_error + correlation_policy" where
  "correlation_policy_new minimum_confidence minimum_gap =
     (if minimum_gap = 0 then Inl ZeroGap
      else if minimum_gap > 10000 then Inl GapOutOfRange
      else Inr \<lparr>cp_minimum_confidence = minimum_confidence, cp_minimum_gap = minimum_gap\<rparr>)"

definition default_correlation_policy :: correlation_policy where
  "default_correlation_policy = \<lparr>cp_minimum_confidence = Confidence 6000, cp_minimum_gap = 1000\<rparr>"

record correlation_selection =
  cs_selected :: correlation_candidate
  cs_supporting :: "correlation_candidate list"
  cs_rejected :: "correlation_candidate list"

datatype correlation_decision =
    Selected correlation_selection
  | Ambiguous "correlation_candidate list"
  | Unassigned "correlation_candidate list"

definition compare_candidate :: "correlation_candidate \<Rightarrow> correlation_candidate \<Rightarrow> ordering" where
  "compare_candidate left right =
     then_with (cmp (basis_rank (cc_basis left)) (basis_rank (cc_basis right)))
      (then_with (cmp (trust_rank (cc_trust left)) (trust_rank (cc_trust right)))
        (then_with (cmp (basis_points (cc_confidence left)) (basis_points (cc_confidence right)))
          (then_with (cmp (identity_session_id (cc_parent right)) (identity_session_id (cc_parent left)))
            (cmp (cc_evidence left) (cc_evidence right)))))"

text \<open>\<open>entry(..).and_modify(..).or_insert_with(..)\<close> for one candidate.\<close>

definition note_best ::
  "correlation_candidate \<Rightarrow> (session_identity, correlation_candidate) btree_map \<Rightarrow>
     (session_identity, correlation_candidate) btree_map" where
  "note_best candidate best =
     (case map_of best (cc_parent candidate) of
        Some existing \<Rightarrow>
          if compare_candidate candidate existing = Greater
          then btree_insert (cc_parent candidate) candidate best else best
      | None \<Rightarrow> btree_insert (cc_parent candidate) candidate best)"

definition correlate ::
  "correlation_candidate list \<Rightarrow> correlation_policy \<Rightarrow> correlation_decision" where
  "correlate candidates policy =
     (let all_ranked = sort_by (\<lambda>left right. compare_candidate right left) candidates;
          best_by_parent = fold note_best all_ranked [];
          ranked = sort_by (\<lambda>left right. compare_candidate right left) (map snd best_by_parent)
      in case ranked of
           [] \<Rightarrow> Unassigned all_ranked
         | selected # others \<Rightarrow>
             if card (set (map cc_parent (filter (\<lambda>c. is_explicit (cc_basis c)) ranked))) > 1
             then Ambiguous all_ranked
             else if \<not> is_explicit (cc_basis selected) \<and>
                     basis_points (cc_confidence selected) <
                       basis_points (cp_minimum_confidence policy)
             then Unassigned all_ranked
             else if \<not> is_explicit (cc_basis selected) \<and>
                     (case others of
                        [] \<Rightarrow> False
                      | runner_up # _ \<Rightarrow>
                          cc_basis selected = cc_basis runner_up \<and>
                          saturating_sub (basis_points (cc_confidence selected))
                            (basis_points (cc_confidence runner_up)) < cp_minimum_gap policy)
             then Ambiguous all_ranked
             else
               Selected
                 \<lparr>cs_selected = selected,
                  cs_supporting =
                    filter (\<lambda>c. cc_parent c = cc_parent selected \<and> c \<noteq> selected) all_ranked,
                  cs_rejected = filter (\<lambda>c. cc_parent c \<noteq> cc_parent selected) all_ranked\<rparr>)"

section \<open>The ranking\<close>

lemma comparator_candidate: "comparator compare_candidate"
  unfolding compare_candidate_def
  by (intro comparator_then_with comparator_cmp
      comparator_reverse [OF comparator_cmp, of "\<lambda>c. identity_session_id (cc_parent c)"])

interpretation ascending: comparator compare_candidate
  by (rule comparator_candidate)

interpretation descending: comparator "\<lambda>left right. compare_candidate right left"
  by (rule comparator_reverse [OF comparator_candidate])

lemma basis_rank_inj: "basis_rank a = basis_rank b \<longleftrightarrow> a = b"
  by (cases a; cases b) simp_all

lemma trust_rank_inj: "trust_rank a = trust_rank b \<longleftrightarrow> a = b"
  by (cases a; cases b) simp_all

lemma compare_candidate_Equal_iff:
  "compare_candidate a b = Equal \<longleftrightarrow>
     cc_basis a = cc_basis b \<and> cc_trust a = cc_trust b \<and> cc_confidence a = cc_confidence b \<and>
     identity_session_id (cc_parent a) = identity_session_id (cc_parent b) \<and>
     cc_evidence a = cc_evidence b"
  by (auto simp: compare_candidate_def then_with_def cmp_def basis_rank_inj trust_rank_inj
      intro: confidence.expand split: if_splits)

text \<open>A candidate ranked no higher has a basis, then a trust, then a confidence no higher.\<close>

lemma compare_candidate_le:
  assumes "compare_candidate a b \<noteq> Greater"
  shows "basis_rank (cc_basis a) \<le> basis_rank (cc_basis b)"
    and "cc_basis a = cc_basis b \<Longrightarrow> trust_rank (cc_trust a) \<le> trust_rank (cc_trust b)"
    and "cc_basis a = cc_basis b \<Longrightarrow> cc_trust a = cc_trust b \<Longrightarrow>
      basis_points (cc_confidence a) \<le> basis_points (cc_confidence b)"
  using assms by (auto simp: compare_candidate_def then_with_def cmp_def split: if_splits)

lemma is_explicit_mono:
  "basis_rank a \<le> basis_rank b \<Longrightarrow> is_explicit a \<Longrightarrow> is_explicit b"
  by (cases a; cases b) (simp_all add: is_explicit_def word_le_nat_alt)

text \<open>
  The map of best candidates: one binding per parent, each an input candidate no input candidate
  of that parent beats.
\<close>

definition best_of ::
  "correlation_candidate set \<Rightarrow> (session_identity, correlation_candidate) btree_map \<Rightarrow> bool" where
  "best_of C m \<longleftrightarrow>
     btree_wf m \<and> (\<forall>k c. map_of m k = Some c \<longrightarrow> c \<in> C \<and> cc_parent c = k) \<and>
     (\<forall>d \<in> C. \<exists>c. map_of m (cc_parent d) = Some c \<and> compare_candidate d c \<noteq> Greater)"

lemma best_of_note:
  assumes "best_of C m"
  shows "best_of (insert c C) (note_best c m)"
proof -
  have wf: "btree_wf m" and keys: "\<And>k c. map_of m k = Some c \<Longrightarrow> c \<in> C \<and> cc_parent c = k"
    and best: "\<And>d. d \<in> C \<Longrightarrow> \<exists>c. map_of m (cc_parent d) = Some c \<and> compare_candidate d c \<noteq> Greater"
    using assms by (auto simp: best_of_def)
  have better: "compare_candidate d c \<noteq> Greater"
    if "compare_candidate c e = Greater" "compare_candidate d e \<noteq> Greater" for d e
  proof -
    have "compare_candidate e c \<noteq> Greater"
      using that(1) by (simp add: ascending.flip)
    with that(2) show ?thesis
      by (rule ascending.trans)
  qed
  show ?thesis
  proof (cases "map_of m (cc_parent c)")
    case None
    then show ?thesis
      using wf keys best by (fastforce simp: best_of_def note_best_def ascending.refl)
  next
    case (Some e)
    have "\<exists>b. map_of (note_best c m) (cc_parent d) = Some b \<and> compare_candidate d b \<noteq> Greater"
      if "d \<in> insert c C" for d
      using that Some wf best [of d] better [of e d]
      by (auto simp: note_best_def ascending.refl)
    then show ?thesis
      using Some wf keys by (auto simp: best_of_def note_best_def split: if_splits)
  qed
qed

lemma best_of_fold: "best_of C m \<Longrightarrow> best_of (C \<union> set cs) (fold note_best cs m)"
proof (induction cs arbitrary: C m)
  case (Cons c cs)
  from Cons.IH [OF best_of_note [OF Cons.prems]] show ?case
    by simp
qed simp

lemma best_of_empty: "best_of {} []"
  by (simp add: best_of_def)

text \<open>The list \<open>ranked\<close> of the function: the best candidate of every parent, best first.\<close>

definition ranked_parents :: "correlation_candidate list \<Rightarrow> correlation_candidate list" where
  "ranked_parents cs =
     sort_by (\<lambda>left right. compare_candidate right left)
       (map snd (fold note_best (sort_by (\<lambda>left right. compare_candidate right left) cs) []))"

lemma ranked_sorted:
  "sorted_wrt (\<lambda>left right. compare_candidate right left \<noteq> Greater) (ranked_parents cs)"
  unfolding ranked_parents_def by (rule descending.sort_by_sorted)

lemma ranked_best:
  shows ranked_mem: "c \<in> set (ranked_parents cs) \<Longrightarrow> c \<in> set cs"
    and ranked_covers: "d \<in> set cs \<Longrightarrow>
      \<exists>c \<in> set (ranked_parents cs). cc_parent c = cc_parent d \<and> compare_candidate d c \<noteq> Greater"
    and ranked_distinct: "distinct (map cc_parent (ranked_parents cs))"
proof -
  let ?m = "fold note_best (sort_by (\<lambda>left right. compare_candidate right left) cs) []"
  have best: "best_of (set cs) ?m"
    using best_of_fold [OF best_of_empty, of "sort_by (\<lambda>left right. compare_candidate right left) cs"]
    by simp
  then have wf: "btree_wf ?m"
    by (simp add: best_of_def)
  have keys: "map_of ?m k = Some c \<longleftrightarrow> (k, c) \<in> set ?m" for k c
    using wf by (simp add: btree_wf_def)
  have parents: "cc_parent c = k" if "(k, c) \<in> set ?m" for k c
    using best keys that by (simp add: best_of_def)
  show "c \<in> set cs" if "c \<in> set (ranked_parents cs)"
    using best keys that by (auto simp: ranked_parents_def best_of_def)
  show "\<exists>c \<in> set (ranked_parents cs). cc_parent c = cc_parent d \<and> compare_candidate d c \<noteq> Greater"
    if "d \<in> set cs"
    using best keys that parents by (force simp: ranked_parents_def best_of_def)
  have "map cc_parent (map snd ?m) = map fst ?m"
    using parents by (auto simp: map_eq_conv)
  then have "distinct (map cc_parent (map snd ?m))"
    using wf by (simp only: btree_wf_def)
  then have "inj_on cc_parent (set (map snd ?m))" "distinct (map snd ?m)"
    unfolding distinct_map by simp_all
  moreover have "distinct (ranked_parents cs)"
    using \<open>distinct (map snd ?m)\<close> unfolding ranked_parents_def
    by (metis mset_eq_imp_distinct_iff mset_sort_by)
  ultimately show "distinct (map cc_parent (ranked_parents cs))"
    by (simp add: distinct_map ranked_parents_def)
qed

lemma ranked_Nil [simp]: "ranked_parents cs = [] \<longleftrightarrow> cs = []"
  using ranked_covers [of _ cs] ranked_mem [of _ cs]
  by (metis empty_iff list.set(1) list.set_intros(1) list.exhaust)

text \<open>The first of the ranked candidates beats or equals every candidate.\<close>

lemma top_is_best:
  assumes "ranked_parents cs = best # others" and "d \<in> set cs"
  shows "compare_candidate d best \<noteq> Greater"
proof -
  obtain c where c: "c \<in> set (ranked_parents cs)" "compare_candidate d c \<noteq> Greater"
    using ranked_covers assms(2) by blast
  then have "compare_candidate c best \<noteq> Greater"
    using ranked_sorted [of cs] assms(1) by (auto simp: ascending.refl)
  with c(2) show ?thesis
    by (rule ascending.trans)
qed

text \<open>Every candidate of another parent than the first is beaten by the runner-up or equals it.\<close>

lemma runner_up_is_best:
  assumes "ranked_parents cs = best # others" and "d \<in> set cs" and "cc_parent d \<noteq> cc_parent best"
  obtains runner_up rest where "others = runner_up # rest" and "compare_candidate d runner_up \<noteq> Greater"
proof -
  obtain c where c: "c \<in> set (ranked_parents cs)" "cc_parent c = cc_parent d"
    "compare_candidate d c \<noteq> Greater"
    using ranked_covers assms(2) by blast
  then have "c \<in> set others"
    using assms(1,3) by auto
  then obtain runner_up rest where others: "others = runner_up # rest"
    by (cases others) auto
  have "compare_candidate c runner_up \<noteq> Greater"
    using ranked_sorted [of cs] \<open>c \<in> set others\<close> by (auto simp: assms(1) others ascending.refl)
  with c(3) have "compare_candidate d runner_up \<noteq> Greater"
    by (rule ascending.trans)
  with others show thesis by (rule that)
qed

definition explicit_parents :: "correlation_candidate list \<Rightarrow> session_identity set" where
  "explicit_parents cs = cc_parent ` {c \<in> set cs. is_explicit (cc_basis c)}"

lemma explicit_ranked:
  "set (map cc_parent (filter (\<lambda>c. is_explicit (cc_basis c)) (ranked_parents cs))) = explicit_parents cs"
proof -
  have "\<exists>c \<in> set (ranked_parents cs). is_explicit (cc_basis c) \<and> cc_parent c = cc_parent d"
    if "d \<in> set cs" "is_explicit (cc_basis d)" for d
    using ranked_covers [OF that(1)] compare_candidate_le(1) is_explicit_mono that(2) by metis
  then have "explicit_parents cs \<subseteq>
      cc_parent ` {c \<in> set (ranked_parents cs). is_explicit (cc_basis c)}"
    unfolding explicit_parents_def by (auto simp: image_iff) metis
  then show ?thesis
    by (auto simp: explicit_parents_def dest: ranked_mem)
qed

lemma card_gt_1_iff: "finite S \<Longrightarrow> card S > 1 \<longleftrightarrow> (\<exists>x \<in> S. \<exists>y \<in> S. x \<noteq> y)"
  by (metis One_nat_def card_le_Suc0_iff_eq linorder_not_less)

lemma finite_explicit_parents [simp]: "finite (explicit_parents cs)"
  by (simp add: explicit_parents_def)

lemma correlate_alt:
  "correlate cs p =
     (let all_ranked = sort_by (\<lambda>left right. compare_candidate right left) cs
      in case ranked_parents cs of
           [] \<Rightarrow> Unassigned all_ranked
         | selected # others \<Rightarrow>
             if card (explicit_parents cs) > 1 then Ambiguous all_ranked
             else if \<not> is_explicit (cc_basis selected) \<and>
                     basis_points (cc_confidence selected) < basis_points (cp_minimum_confidence p)
             then Unassigned all_ranked
             else if \<not> is_explicit (cc_basis selected) \<and>
                     (case others of
                        [] \<Rightarrow> False
                      | runner_up # _ \<Rightarrow>
                          cc_basis selected = cc_basis runner_up \<and>
                          saturating_sub (basis_points (cc_confidence selected))
                            (basis_points (cc_confidence runner_up)) < cp_minimum_gap p)
             then Ambiguous all_ranked
             else
               Selected
                 \<lparr>cs_selected = selected,
                  cs_supporting =
                    filter (\<lambda>c. cc_parent c = cc_parent selected \<and> c \<noteq> selected) all_ranked,
                  cs_rejected = filter (\<lambda>c. cc_parent c \<noteq> cc_parent selected) all_ranked\<rparr>)"
  unfolding correlate_def Let_def
  by (simp only: explicit_ranked flip: ranked_parents_def)

lemma selected_lead:
  assumes "ranked_parents cs = best # others" and "c \<in> set cs" and "cc_parent c \<noteq> cc_parent best"
    and "cc_basis c = cc_basis best" and "cc_trust c = cc_trust best"
    and "\<And>runner_up rest. others = runner_up # rest \<Longrightarrow> cc_basis best = cc_basis runner_up \<Longrightarrow>
      gap \<le> saturating_sub (basis_points (cc_confidence best)) (basis_points (cc_confidence runner_up))"
  shows "unat (basis_points (cc_confidence c)) + unat gap \<le> unat (basis_points (cc_confidence best))"
proof -
  obtain runner_up rest where others: "others = runner_up # rest"
    and le: "compare_candidate c runner_up \<noteq> Greater"
    using runner_up_is_best [OF assms(1-3)] by blast
  have "runner_up \<in> set cs"
    using ranked_mem [of runner_up cs] by (simp add: assms(1) others)
  then have le': "compare_candidate runner_up best \<noteq> Greater"
    by (rule top_is_best [OF assms(1)])
  have basis: "cc_basis runner_up = cc_basis best"
    using compare_candidate_le(1) [OF le] compare_candidate_le(1) [OF le'] assms(4)
    by (metis basis_rank_inj order_antisym)
  then have trust: "cc_trust runner_up = cc_trust best"
    using compare_candidate_le(2) [OF le] compare_candidate_le(2) [OF le'] assms(4,5)
    by (metis trust_rank_inj order_antisym)
  have "basis_points (cc_confidence c) \<le> basis_points (cc_confidence runner_up)"
    "basis_points (cc_confidence runner_up) \<le> basis_points (cc_confidence best)"
    using compare_candidate_le(3) [OF le] compare_candidate_le(3) [OF le'] basis trust assms(4,5)
    by simp_all
  moreover have "gap \<le> saturating_sub (basis_points (cc_confidence best))
      (basis_points (cc_confidence runner_up))"
    using assms(6) others basis by simp
  ultimately show ?thesis
    by (simp add: word_le_nat_alt int_ops)
qed

section \<open>Decisions\<close>

text \<open>
  A selection is justified. The selected candidate is one of the inputs and no input
  outranks it; every candidate with explicit evidence names the selected parent; an inferred
  winner reaches the minimum confidence and leads every candidate for another parent with the
  same basis and trust by at least the minimum gap. No evidence is lost: the selection, its
  support and the rejected candidates are together exactly the candidates given.
\<close>
theorem correlate_selected_justified:
  assumes "correlate cs p = Selected sel"
  shows "cs_selected sel \<in> set cs \<and>
    (\<forall>c \<in> set cs. compare_candidate c (cs_selected sel) \<noteq> Greater) \<and>
    (\<forall>c \<in> set cs. is_explicit (cc_basis c) \<longrightarrow> cc_parent c = cc_parent (cs_selected sel)) \<and>
    (\<not> is_explicit (cc_basis (cs_selected sel)) \<longrightarrow>
       basis_points (cp_minimum_confidence p) \<le> basis_points (cc_confidence (cs_selected sel)) \<and>
       (\<forall>c \<in> set cs. cc_parent c \<noteq> cc_parent (cs_selected sel) \<and>
            cc_basis c = cc_basis (cs_selected sel) \<and> cc_trust c = cc_trust (cs_selected sel) \<longrightarrow>
          unat (basis_points (cc_confidence c)) + unat (cp_minimum_gap p)
            \<le> unat (basis_points (cc_confidence (cs_selected sel))))) \<and>
    insert (cs_selected sel) (set (cs_supporting sel) \<union> set (cs_rejected sel)) = set cs"
proof -
  obtain best others where ranked: "ranked_parents cs = best # others"
    using assms by (cases "ranked_parents cs") (auto simp: correlate_alt Let_def)
  have sel: "cs_selected sel = best"
    and one: "\<not> card (explicit_parents cs) > 1"
    and conf: "\<not> is_explicit (cc_basis best) \<Longrightarrow>
      basis_points (cp_minimum_confidence p) \<le> basis_points (cc_confidence best)"
    and gap: "\<And>runner_up rest. \<not> is_explicit (cc_basis best) \<Longrightarrow> others = runner_up # rest \<Longrightarrow>
      cc_basis best = cc_basis runner_up \<Longrightarrow>
      cp_minimum_gap p \<le> saturating_sub (basis_points (cc_confidence best))
        (basis_points (cc_confidence runner_up))"
    and parts: "set (cs_supporting sel) = {c \<in> set cs. cc_parent c = cc_parent best \<and> c \<noteq> best}"
      "set (cs_rejected sel) = {c \<in> set cs. cc_parent c \<noteq> cc_parent best}"
    using assms by (auto simp: correlate_alt Let_def ranked not_less split: if_splits list.splits)
  have mem: "best \<in> set cs"
    using ranked_mem [of best cs] by (simp add: ranked)
  have explicit: "cc_parent c = cc_parent best" if "c \<in> set cs" "is_explicit (cc_basis c)" for c
  proof -
    have "is_explicit (cc_basis best)"
      using top_is_best [OF ranked that(1)] compare_candidate_le(1) is_explicit_mono that(2) by blast
    then have "cc_parent c \<in> explicit_parents cs" "cc_parent best \<in> explicit_parents cs"
      using that mem by (auto simp: explicit_parents_def)
    then show ?thesis
      using one card_gt_1_iff [of "explicit_parents cs"] by auto
  qed
  have lead: "unat (basis_points (cc_confidence c)) + unat (cp_minimum_gap p)
      \<le> unat (basis_points (cc_confidence best))"
    if "\<not> is_explicit (cc_basis best)" "c \<in> set cs" "cc_parent c \<noteq> cc_parent best"
      "cc_basis c = cc_basis best" "cc_trust c = cc_trust best" for c
    using selected_lead [OF ranked that(2-5)] gap that(1) by blast
  show ?thesis
    using mem explicit conf lead top_is_best [OF ranked] by (auto simp: sel parts)
qed

text \<open>
  Explicit evidence decides: if some candidate is explicit (native or registered), the
  result is a selection of its parent when all explicit candidates agree, and an ambiguity that
  keeps every candidate otherwise, whatever the confidences and the policy.
\<close>
theorem correlate_explicit_decides:
  assumes "c \<in> set cs" and "is_explicit (cc_basis c)"
  shows "if \<forall>d \<in> set cs. is_explicit (cc_basis d) \<longrightarrow> cc_parent d = cc_parent c
    then \<exists>sel. correlate cs p = Selected sel \<and> cc_parent (cs_selected sel) = cc_parent c
    else \<exists>kept. correlate cs p = Ambiguous kept \<and> mset kept = mset cs"
proof -
  obtain best others where ranked: "ranked_parents cs = best # others"
    using assms(1) by (cases "ranked_parents cs") auto
  have best: "is_explicit (cc_basis best)" "best \<in> set cs"
    using top_is_best [OF ranked assms(1)] compare_candidate_le(1) is_explicit_mono assms(2)
      ranked_mem [of best cs] by (blast, simp add: ranked)
  have "card (explicit_parents cs) > 1 \<longleftrightarrow>
      \<not> (\<forall>d \<in> set cs. is_explicit (cc_basis d) \<longrightarrow> cc_parent d = cc_parent c)"
    using assms by (auto simp: card_gt_1_iff explicit_parents_def simp del: One_nat_def) metis
  then show ?thesis
    using best by (auto simp: correlate_alt Let_def ranked)
qed

text \<open>
  The decision does not depend on the order in which evidence arrives: permuting the
  candidates does not change it, as long as no two of them give one session two different roles.
\<close>
theorem correlate_order_independent:
  assumes "mset cs = mset ds"
    and "\<forall>c \<in> set cs. \<forall>d \<in> set cs.
      identity_session_id (cc_parent c) = identity_session_id (cc_parent d) \<longrightarrow> cc_parent c = cc_parent d"
  shows "correlate cs p = correlate ds p"
proof -
  have "\<forall>c \<in> set cs. \<forall>d \<in> set cs. compare_candidate d c = Equal \<longrightarrow> c = d"
    using assms(2) by (auto simp: compare_candidate_Equal_iff)
  then have "sort_by (\<lambda>left right. compare_candidate right left) cs =
      sort_by (\<lambda>left right. compare_candidate right left) ds"
    using assms(1) by (intro descending.sort_by_perm) auto
  then show ?thesis
    by (simp add: correlate_def)
qed

section \<open>Concrete decisions\<close>

definition sample_candidate ::
  "uuid \<Rightarrow> correlation_basis \<Rightarrow> u16 \<Rightarrow> correlation_candidate" where
  "sample_candidate parent basis points =
     \<lparr>cc_parent = MainIdentity (MainSessionId (SessionId parent)), cc_basis = basis,
      cc_trust = Corroborating, cc_confidence = Confidence points, cc_evidence = ''e''\<rparr>"

lemma sample_selection:
  "correlate [sample_candidate 1 UniqueWorktree 7000, sample_candidate 2 UniqueWorktree 9000]
     default_correlation_policy =
   Selected \<lparr>cs_selected = sample_candidate 2 UniqueWorktree 9000, cs_supporting = [],
     cs_rejected = [sample_candidate 1 UniqueWorktree 7000]\<rparr>"
  by (simp add: correlate_def sort_by_def compare_candidate_def sample_candidate_def then_with_def
      cmp_def note_best_def less_session_id_def less_session_identity_def less_eq_main_session_id_def
      less_eq_session_id_def less_main_session_id_def default_correlation_policy_def is_explicit_def
      saturating_sub_def Let_def)

theorem correlate_selected_justified_witness:
  "sample_candidate 2 UniqueWorktree 9000 \<in>
     set [sample_candidate 1 UniqueWorktree 7000, sample_candidate 2 UniqueWorktree 9000]"
  using correlate_selected_justified [OF sample_selection] by simp

theorem correlate_explicit_decides_witness:
  "\<exists>kept. correlate [sample_candidate 1 ExactNative 10, sample_candidate 2 McpRegistration 10000]
     default_correlation_policy = Ambiguous kept"
  using correlate_explicit_decides [of "sample_candidate 1 ExactNative 10"
      "[sample_candidate 1 ExactNative 10, sample_candidate 2 McpRegistration 10000]"
      default_correlation_policy]
  by (auto simp: is_explicit_def sample_candidate_def)

theorem correlate_order_independent_witness:
  "correlate [sample_candidate 2 UniqueWorktree 9000, sample_candidate 1 UniqueWorktree 7000]
     default_correlation_policy =
   correlate [sample_candidate 1 UniqueWorktree 7000, sample_candidate 2 UniqueWorktree 9000]
     default_correlation_policy"
  by (rule correlate_order_independent) (auto simp: sample_candidate_def)

end
