(* ===== verification/Session_Queue.thy ===== *)
theory Session_Queue
  imports Rust_Std Machines
begin

text \<open>
  The bounded per-session admission queue of \<open>queue.rs\<close>. Activity evidence coalesces to its
  newest value, durable evidence is refused with backpressure when the queue is full. The
  locale \<open>fifo_machine\<close> is the contract producers and the consumer rely on (what is held, plus
  what a call lets in, is what it lets out, followed by what is held then); interpreted on the
  queue it gives that durable evidence leaves in the order it was accepted and is never dropped.
\<close>

section \<open>Model\<close>

datatype observation_class = Activity | Durable

record 'v queue_entry =
  qe_class :: observation_class
  qe_value :: 'v

datatype 'v admission_error = Backpressure 'v | ActivitySaturated 'v

datatype queue_capacity_error = QueueCapacityError

record 'v session_queue =
  sq_capacity :: nat
  sq_entries :: "'v queue_entry list"
  sq_degraded :: bool

definition session_queue_new :: "nat \<Rightarrow> queue_capacity_error + 'v session_queue" where
  "session_queue_new capacity =
     (if capacity = 0 then Inl QueueCapacityError
      else Inr \<lparr>sq_capacity = capacity, sq_entries = [], sq_degraded = False\<rparr>)"

text \<open>\<open>VecDeque::remove\<close> on an index of the queue.\<close>

definition remove_at :: "nat \<Rightarrow> 'a list \<Rightarrow> 'a list" where
  "remove_at i xs = take i xs @ drop (Suc i) xs"

definition try_push_replacing ::
  "'v session_queue \<Rightarrow> observation_class \<Rightarrow> 'v \<Rightarrow>
     'v session_queue \<times> ('v admission_error + 'v option)" where
  "try_push_replacing q cls v =
     (case (if cls = Activity then rposition (\<lambda>e. qe_class e = Activity) (sq_entries q) else None) of
        Some index \<Rightarrow>
          (q\<lparr>sq_entries := remove_at index (sq_entries q) @ [\<lparr>qe_class = cls, qe_value = v\<rparr>]\<rparr>,
           Inr (Some (qe_value (sq_entries q ! index))))
      | None \<Rightarrow>
          if length (sq_entries q) = sq_capacity q then
            (q\<lparr>sq_degraded := True\<rparr>,
             Inl (case cls of Activity \<Rightarrow> ActivitySaturated v | Durable \<Rightarrow> Backpressure v))
          else (q\<lparr>sq_entries := sq_entries q @ [\<lparr>qe_class = cls, qe_value = v\<rparr>]\<rparr>, Inr None))"

definition try_push ::
  "'v session_queue \<Rightarrow> observation_class \<Rightarrow> 'v \<Rightarrow> 'v session_queue \<times> ('v admission_error + unit)" where
  "try_push q cls v =
     (case try_push_replacing q cls v of (q', r) \<Rightarrow> (q', map_ok (\<lambda>_. ()) r))"

definition queue_pop :: "'v session_queue \<Rightarrow> 'v session_queue \<times> 'v option" where
  "queue_pop q =
     (case sq_entries q of
        [] \<Rightarrow> (q, None)
      | e # es \<Rightarrow> (q\<lparr>sq_entries := es\<rparr>, Some (qe_value e)))"

definition mark_reconciled :: "'v session_queue \<Rightarrow> 'v session_queue" where
  "mark_reconciled q = q\<lparr>sq_degraded := False\<rparr>"

section \<open>Contract\<close>

text \<open>The values of one class, in queue order.\<close>

definition of_class :: "observation_class \<Rightarrow> 'v queue_entry list \<Rightarrow> 'v list" where
  "of_class cls es = map qe_value (filter (\<lambda>e. qe_class e = cls) es)"

definition queue_inv :: "'v session_queue \<Rightarrow> bool" where
  "queue_inv q \<longleftrightarrow> 0 < sq_capacity q \<and> length (sq_entries q) \<le> sq_capacity q \<and>
     length (of_class Activity (sq_entries q)) \<le> 1"

text \<open>One call of a client, and what it observably does to the evidence.\<close>

datatype 'v queue_call = Push observation_class 'v | Pop | MarkReconciled

datatype 'v queue_event =
    Accepted observation_class 'v
  | Displaced 'v
  | Refused "'v admission_error"
  | Taken observation_class 'v

fun queue_step :: "'v session_queue \<Rightarrow> 'v queue_call \<Rightarrow> 'v session_queue \<times> 'v queue_event list" where
  "queue_step q (Push cls v) =
     (case try_push_replacing q cls v of
        (q', Inl e) \<Rightarrow> (q', [Refused e])
      | (q', Inr None) \<Rightarrow> (q', [Accepted cls v])
      | (q', Inr (Some old)) \<Rightarrow> (q', [Accepted cls v, Displaced old]))"
| "queue_step q Pop =
     (case queue_pop q of
        (q', None) \<Rightarrow> (q', [])
      | (q', Some v) \<Rightarrow> (q', [Taken (qe_class (hd (sq_entries q))) v]))"
| "queue_step q MarkReconciled = (mark_reconciled q, [])"

fun accepted_of :: "observation_class \<Rightarrow> 'v queue_event list \<Rightarrow> 'v list" where
  "accepted_of cls [] = []"
| "accepted_of cls (Accepted c v # es) = (if c = cls then v # accepted_of cls es else accepted_of cls es)"
| "accepted_of cls (e # es) = accepted_of cls es"

fun taken_of :: "observation_class \<Rightarrow> 'v queue_event list \<Rightarrow> 'v list" where
  "taken_of cls [] = []"
| "taken_of cls (Taken c v # es) = (if c = cls then v # taken_of cls es else taken_of cls es)"
| "taken_of cls (e # es) = taken_of cls es"

fun displaced_of :: "'v queue_event list \<Rightarrow> 'v list" where
  "displaced_of [] = []"
| "displaced_of (Displaced v # es) = v # displaced_of es"
| "displaced_of (e # es) = displaced_of es"

lemma accepted_of_append [simp]: "accepted_of c (es @ fs) = accepted_of c es @ accepted_of c fs"
  by (induction c es rule: accepted_of.induct) auto

lemma taken_of_append [simp]: "taken_of c (es @ fs) = taken_of c es @ taken_of c fs"
  by (induction c es rule: taken_of.induct) auto

lemma displaced_of_append [simp]: "displaced_of (es @ fs) = displaced_of es @ displaced_of fs"
  by (induction es rule: displaced_of.induct) auto

locale fifo_machine = invariant_machine step inv identity
  for step :: "'s \<Rightarrow> 'i \<Rightarrow> 's \<times> 'o list"
    and inv :: "'s \<Rightarrow> bool"
    and identity :: "'s \<Rightarrow> 'k" +
  fixes held :: "'s \<Rightarrow> 'v list"
    and entered :: "'o list \<Rightarrow> 'v list"
    and left :: "'o list \<Rightarrow> 'v list"
  assumes step_held:
      "held s @ entered (snd (step s i)) = left (snd (step s i)) @ held (fst (step s i))"
    and entered_Nil: "entered [] = []"
    and left_Nil: "left [] = []"
    and entered_append: "entered (os @ os') = entered os @ entered os'"
    and left_append: "left (os @ os') = left os @ left os'"
begin

lemma run_fifo:
  "held s @ entered (snd (run_machine step s is)) =
     left (snd (run_machine step s is)) @ held (fst (run_machine step s is))"
proof (induction "is" arbitrary: s)
  case (Cons i "is")
  have "held s @ entered (snd (run_machine step s (i # is))) =
      left (snd (step s i)) @ held (fst (step s i)) @ entered (snd (run_machine step (fst (step s i)) is))"
    using step_held [of s i] by (simp add: entered_append)
  then show ?case
    by (simp add: Cons.IH left_append)
qed (simp add: entered_Nil left_Nil)

end

lemma of_class_append [simp]: "of_class c (es @ fs) = of_class c es @ of_class c fs"
  by (simp add: of_class_def)

lemma of_class_Cons [simp]:
  "of_class c (e # es) = (if qe_class e = c then qe_value e # of_class c es else of_class c es)"
  "of_class c [] = []"
  by (simp_all add: of_class_def)

text \<open>Splitting the entries at the activity the coalescing replaces.\<close>

lemma rposition_split:
  assumes "rposition p xs = Some i"
  shows "xs = take i xs @ xs ! i # drop (Suc i) xs" and "p (xs ! i)"
  using rposition_Some [OF assms] by (simp_all add: id_take_nth_drop [symmetric])

lemma remove_at_class:
  assumes "rposition (\<lambda>e. qe_class e = Activity) es = Some i"
  shows "of_class Durable (remove_at i es) = of_class Durable es"
    and "mset (of_class Activity es) =
      add_mset (qe_value (es ! i)) (mset (of_class Activity (remove_at i es)))"
    and "Suc (length (remove_at i es)) = length es"
proof -
  note split = rposition_split [OF assms]
  show "of_class Durable (remove_at i es) = of_class Durable es"
    using split(2) by (subst (2) split(1)) (simp add: remove_at_def)
  show "mset (of_class Activity es) =
      add_mset (qe_value (es ! i)) (mset (of_class Activity (remove_at i es)))"
    using split(2) by (subst split(1)) (simp add: remove_at_def)
  have "i < length es"
    using rposition_Some [OF assms] by simp
  then show "Suc (length (remove_at i es)) = length es"
    by (simp add: remove_at_def)
qed

lemma queue_step_inv: "queue_inv q \<Longrightarrow> queue_inv (fst (queue_step q c))"
proof (cases c)
  case (Push cls v)
  assume inv: "queue_inv q"
  show ?thesis
  proof (cases "if cls = Activity then rposition (\<lambda>e. qe_class e = Activity) (sq_entries q) else None")
    case None
    have "of_class Activity (sq_entries q) = []" if "cls = Activity"
      using None that by (auto simp: rposition_None_iff of_class_def filter_empty_conv)
    with None inv show ?thesis
      by (auto simp: Push try_push_replacing_def queue_inv_def)
  next
    case (Some i)
    then have pos: "cls = Activity" "rposition (\<lambda>e. qe_class e = Activity) (sq_entries q) = Some i"
      by (simp_all split: if_splits)
    have "length (of_class Activity (sq_entries q)) =
        Suc (length (of_class Activity (remove_at i (sq_entries q))))"
      using remove_at_class(2) [OF pos(2)] by (metis size_add_mset size_mset)
    with Some inv remove_at_class(3) [OF pos(2)] show ?thesis
      by (simp add: Push try_push_replacing_def queue_inv_def)
  qed
next
  case Pop
  assume "queue_inv q"
  then show ?thesis
    by (cases "sq_entries q") (auto simp: Pop queue_pop_def queue_inv_def split: if_splits)
qed (simp add: mark_reconciled_def queue_inv_def)

lemma queue_step_capacity: "sq_capacity (fst (queue_step q c)) = sq_capacity q"
  by (cases c) (auto simp: try_push_replacing_def queue_pop_def mark_reconciled_def
      split: option.splits list.splits if_splits)

lemma queue_step_durable:
  "of_class Durable (sq_entries q) @ accepted_of Durable (snd (queue_step q c)) =
     taken_of Durable (snd (queue_step q c)) @ of_class Durable (sq_entries (fst (queue_step q c)))"
proof (cases c)
  case (Push cls v)
  then show ?thesis
    by (auto simp: try_push_replacing_def remove_at_class(1) split: option.splits if_splits)
next
  case Pop
  then show ?thesis
    by (cases "sq_entries q") (auto simp: queue_pop_def)
qed (simp add: mark_reconciled_def)

interpretation durable: fifo_machine queue_step queue_inv sq_capacity
    "\<lambda>q. of_class Durable (sq_entries q)" "accepted_of Durable" "taken_of Durable"
  by unfold_locales (simp_all add: queue_step_inv queue_step_capacity queue_step_durable)

section \<open>Properties\<close>

text \<open>
  Durable evidence is never lost, reordered or duplicated: over any sequence of admissions,
  removals and reconciliations on a new queue, the durable values accepted so far are exactly the
  durable values taken so far followed by those still queued; and the queue never holds more than
  its capacity, nor more than one activity value.
\<close>
theorem queue_durable_fifo:
  assumes "session_queue_new capacity = Inr q"
  shows "let (q', events) = run_machine queue_step q calls
    in accepted_of Durable events = taken_of Durable events @ of_class Durable (sq_entries q') \<and>
       length (sq_entries q') \<le> capacity \<and> length (of_class Activity (sq_entries q')) \<le> 1"
proof -
  have new: "sq_entries q = []" "sq_capacity q = capacity" "queue_inv q"
    using assms by (auto simp: session_queue_new_def queue_inv_def split: if_splits)
  show ?thesis
    using durable.run_fifo [of q calls] durable.run_inv [OF new(3), of calls]
      durable.run_identity [of q calls] new
    by (auto simp: queue_inv_def split: prod.splits)
qed

theorem queue_durable_fifo_witness:
  "accepted_of Durable (snd (run_machine queue_step
       \<lparr>sq_capacity = 2, sq_entries = [], sq_degraded = False\<rparr>
       [Push Durable (1 :: int), Push Activity 2, Push Durable 3, Pop])) = [1]"
  using queue_durable_fifo [of 2 "\<lparr>sq_capacity = 2, sq_entries = [], sq_degraded = False\<rparr>"
      "[Push Durable (1 :: int), Push Activity 2, Push Durable 3, Pop]"]
  by (simp add: session_queue_new_def run_machine.simps try_push_replacing_def queue_pop_def)

text \<open>
  Every value offered is accounted for: a push either refuses the very value, marking the
  queue degraded and leaving its entries alone, or accepts it at the back; a refusal happens
  exactly when the queue is full and the value cannot replace a queued activity, and what is
  displaced by coalescing is one activity value, handed back to the producer.
\<close>
theorem push_accounts_for_values:
  assumes "try_push_replacing q cls v = (q', r)" and "queue_inv q"
  shows "case r of
      Inl e \<Rightarrow> e = (if cls = Activity then ActivitySaturated v else Backpressure v) \<and>
        q' = q\<lparr>sq_degraded := True\<rparr> \<and> length (sq_entries q) = sq_capacity q \<and>
        (cls = Activity \<longrightarrow> of_class Activity (sq_entries q) = [])
    | Inr None \<Rightarrow> sq_entries q' = sq_entries q @ [\<lparr>qe_class = cls, qe_value = v\<rparr>] \<and>
        length (sq_entries q) < sq_capacity q
    | Inr (Some old) \<Rightarrow> cls = Activity \<and> of_class Activity (sq_entries q) = [old] \<and>
        of_class Activity (sq_entries q') = [v] \<and>
        of_class Durable (sq_entries q') = of_class Durable (sq_entries q)"
proof (cases "if cls = Activity then rposition (\<lambda>e. qe_class e = Activity) (sq_entries q) else None")
  case None
  have "of_class Activity (sq_entries q) = []" if "cls = Activity"
    using None that by (auto simp: rposition_None_iff of_class_def filter_empty_conv)
  with None assms show ?thesis
    by (cases cls) (auto simp: try_push_replacing_def queue_inv_def split: if_splits)
next
  case (Some i)
  then have pos: "cls = Activity" "rposition (\<lambda>e. qe_class e = Activity) (sq_entries q) = Some i"
    by (simp_all split: if_splits)
  let ?old = "qe_value (sq_entries q ! i)"
  have acts: "mset (of_class Activity (sq_entries q)) =
      add_mset ?old (mset (of_class Activity (remove_at i (sq_entries q))))"
    by (rule remove_at_class(2) [OF pos(2)])
  then have "length (of_class Activity (sq_entries q)) =
      Suc (length (of_class Activity (remove_at i (sq_entries q))))"
    by (metis size_add_mset size_mset)
  then have "of_class Activity (remove_at i (sq_entries q)) = []"
    using assms(2) by (simp add: queue_inv_def)
  moreover from this acts have "of_class Activity (sq_entries q) = [?old]"
    by simp
  ultimately show ?thesis
    using assms(1) Some pos(1) remove_at_class(1) [OF pos(2)]
    by (auto simp: try_push_replacing_def)
qed

theorem push_accounts_for_values_witness:
  "of_class Activity (sq_entries (fst (try_push_replacing
      \<lparr>sq_capacity = 1, sq_entries = [\<lparr>qe_class = Activity, qe_value = 5 :: int\<rparr>], sq_degraded = False\<rparr>
      Activity 6))) = [6]"
  using push_accounts_for_values [of
      "\<lparr>sq_capacity = 1, sq_entries = [\<lparr>qe_class = Activity, qe_value = 5 :: int\<rparr>], sq_degraded = False\<rparr>"
      Activity 6]
  by (simp add: try_push_replacing_def queue_inv_def split: prod.splits)

end
