(* ===== verification/Health.thy ===== *)
theory Health
  imports Identity "HOL-Library.AList"
begin

text \<open>
  The component health registry of \<open>health.rs\<close>: the latest status per component and scope, the
  readiness predicate and the gate that every destructive action asks. The registry is an
  association list with one binding per key; its iteration order is never observable. The theory
  shows that the gate fails closed.
\<close>

section \<open>Model\<close>

datatype component_id =
    AdapterId runtime_kind | ProcessSampler | StoreId | ReducerId | Authorization | WatcherId
  | FilesystemReconciliation | ObservationQueue | DashboardDelivery | Notifications
  | TerminationAutomation

fun is_critical :: "component_id \<Rightarrow> bool" where
  "is_critical ProcessSampler = True"
| "is_critical StoreId = True"
| "is_critical ReducerId = True"
| "is_critical Authorization = True"
| "is_critical _ = False"

datatype component_status = Healthy | DegradedStatus | FailedStatus

text \<open>The derived order of the statuses, by severity.\<close>

fun severity :: "component_status \<Rightarrow> nat" where
  "severity Healthy = 0"
| "severity DegradedStatus = 1"
| "severity FailedStatus = 2"

instantiation component_status :: linorder
begin

definition less_eq_component_status :: "component_status \<Rightarrow> component_status \<Rightarrow> bool" where
  "less_eq_component_status a b \<longleftrightarrow> severity a \<le> severity b"

definition less_component_status :: "component_status \<Rightarrow> component_status \<Rightarrow> bool" where
  "less_component_status a b \<longleftrightarrow> severity a < severity b"

instance
proof
  fix a b :: component_status
  show "a \<le> b \<Longrightarrow> b \<le> a \<Longrightarrow> a = b"
    by (cases a; cases b) (simp_all add: less_eq_component_status_def)
qed (auto simp: less_eq_component_status_def less_component_status_def)

end

datatype health_scope = Global | RuntimeScope runtime_kind | SessionScope session_identity

record component_health =
  ch_component :: component_id
  ch_status :: component_status
  ch_scope :: health_scope

type_synonym health_registry = "((component_id \<times> health_scope) \<times> component_status) list"

definition health_record :: "health_registry \<Rightarrow> component_health \<Rightarrow> health_registry" where
  "health_record reports h = AList.update (ch_component h, ch_scope h) (ch_status h) reports"

definition health_status :: "health_registry \<Rightarrow> component_id \<Rightarrow> health_scope \<Rightarrow> component_status option" where
  "health_status reports component scope = map_of reports (component, scope)"

definition is_ready :: "health_registry \<Rightarrow> bool" where
  "is_ready reports =
     (\<not> list_ex (\<lambda>((component, scope), status).
        is_critical component \<and> scope = Global \<and> status = FailedStatus) reports)"

fun scope_applies :: "health_scope \<Rightarrow> runtime_kind \<Rightarrow> session_identity \<Rightarrow> bool" where
  "scope_applies Global runtime session = True"
| "scope_applies (RuntimeScope affected) runtime session = (affected = runtime)"
| "scope_applies (SessionScope affected) runtime session = (affected = session)"

definition required_components :: "runtime_kind \<Rightarrow> component_id list" where
  "required_components runtime =
     [StoreId, WatcherId, FilesystemReconciliation, ObservationQueue, ProcessSampler,
      AdapterId runtime]"

text \<open>\<open>Iterator::max\<close>.\<close>

fun iter_max :: "'a::linorder list \<Rightarrow> 'a option" where
  "iter_max [] = None"
| "iter_max (x # xs) = Some (case iter_max xs of None \<Rightarrow> x | Some y \<Rightarrow> max x y)"

definition destructive_automation_allowed ::
  "health_registry \<Rightarrow> runtime_kind \<Rightarrow> session_identity \<Rightarrow> bool" where
  "destructive_automation_allowed reports runtime session =
     list_all (\<lambda>required.
       iter_max (map snd (filter (\<lambda>((component, scope), status).
         component = required \<and> scope_applies scope runtime session) reports)) = Some Healthy)
       (required_components runtime)"

section \<open>The gate fails closed\<close>

definition registry_wf :: "health_registry \<Rightarrow> bool" where
  "registry_wf reports \<longleftrightarrow> distinct (map fst reports)"

lemma registry_wf_record: "registry_wf r \<Longrightarrow> registry_wf (health_record r h)"
  by (simp add: registry_wf_def health_record_def distinct_update)

lemma health_status_record:
  "health_status (health_record r h) c s =
     (if c = ch_component h \<and> s = ch_scope h then Some (ch_status h) else health_status r c s)"
  by (auto simp: health_status_def health_record_def update_conv')

lemma registry_wf_records: "registry_wf r \<Longrightarrow> registry_wf (foldl health_record r hs)"
  by (induction hs arbitrary: r) (simp_all add: registry_wf_record)

lemma registry_lookup: "registry_wf r \<Longrightarrow> ((c, s), st) \<in> set r \<longleftrightarrow> health_status r c s = Some st"
  by (simp add: registry_wf_def health_status_def)

lemma iter_max_least:
  "(\<And>x. least \<le> x) \<Longrightarrow> iter_max xs = Some least \<longleftrightarrow> xs \<noteq> [] \<and> (\<forall>x \<in> set xs. x = least)"
proof (induction xs)
  case (Cons x xs)
  have le: "max a b = least \<longleftrightarrow> a = least \<and> b = least" for a b
    using Cons.prems by (metis max.absorb2 max.cobounded1 max.cobounded2 order_antisym)
  show ?case
    using Cons le by (cases "iter_max xs"; cases xs) (auto split: option.splits)
qed simp

lemma Healthy_least: "Healthy \<le> x"
  by (simp add: less_eq_component_status_def)

lemma allowed_iff:
  assumes "registry_wf r"
  shows "destructive_automation_allowed r runtime session \<longleftrightarrow>
    (\<forall>c \<in> set (required_components runtime).
       (\<exists>scope. scope_applies scope runtime session \<and> health_status r c scope = Some Healthy) \<and>
       (\<forall>scope st. scope_applies scope runtime session \<and> health_status r c scope = Some st \<longrightarrow> st = Healthy))"
proof -
  have "iter_max (map snd (filter (\<lambda>((component, scope), status).
         component = c \<and> scope_applies scope runtime session) r)) = Some Healthy \<longleftrightarrow>
      (\<exists>scope. scope_applies scope runtime session \<and> health_status r c scope = Some Healthy) \<and>
      (\<forall>scope st. scope_applies scope runtime session \<and> health_status r c scope = Some st \<longrightarrow> st = Healthy)"
    (is "?max c \<longleftrightarrow> ?all c") for c
  proof -
    have "?max c \<longleftrightarrow>
        (\<exists>scope st. scope_applies scope runtime session \<and> ((c, scope), st) \<in> set r) \<and>
        (\<forall>scope st. scope_applies scope runtime session \<and> ((c, scope), st) \<in> set r \<longrightarrow> st = Healthy)"
      by (subst iter_max_least [OF Healthy_least]) (force simp: filter_empty_conv)
    then show ?thesis
      unfolding registry_lookup [OF assms] by metis
  qed
  then show ?thesis
    by (simp add: destructive_automation_allowed_def list_all_iff)
qed

text \<open>
  The latest report for a key in a history of reports.
\<close>

definition latest :: "component_health list \<Rightarrow> component_id \<Rightarrow> health_scope \<Rightarrow> component_status option" where
  "latest hs c s =
     map_option ch_status (List.find (\<lambda>h. ch_component h = c \<and> ch_scope h = s) (rev hs))"

lemma health_status_records: "health_status (foldl health_record [] hs) c s = latest hs c s"
  by (induction hs rule: rev_induct) (auto simp: latest_def health_status_record, simp add: health_status_def)

text \<open>
  C31. The destructive-automation gate fails closed: after any history of health reports it
  permits an action on a session iff every one of the six required components (store, watcher,
  filesystem reconciliation, observation queue, process sampler, the session's adapter) has
  reported for a scope covering the session, and the latest report of each such scope is healthy.
  A component that never reported, or any degraded or failed covering scope, blocks the action.
\<close>
theorem destructive_gate_fails_closed:
  "destructive_automation_allowed (foldl health_record [] history) runtime session \<longleftrightarrow>
    (\<forall>c \<in> {StoreId, WatcherId, FilesystemReconciliation, ObservationQueue, ProcessSampler,
            AdapterId runtime}.
       (\<exists>scope. scope_applies scope runtime session \<and> latest history c scope = Some Healthy) \<and>
       (\<forall>scope. scope_applies scope runtime session \<longrightarrow>
          latest history c scope \<in> {None, Some Healthy}))"
proof -
  have "registry_wf (foldl health_record [] history)"
    by (rule registry_wf_records) (simp add: registry_wf_def)
  then have "destructive_automation_allowed (foldl health_record [] history) runtime session \<longleftrightarrow>
    (\<forall>c \<in> set (required_components runtime).
       (\<exists>scope. scope_applies scope runtime session \<and> latest history c scope = Some Healthy) \<and>
       (\<forall>scope st. scope_applies scope runtime session \<and> latest history c scope = Some st \<longrightarrow> st = Healthy))"
    by (simp only: allowed_iff health_status_records)
  moreover have "(\<forall>st. A \<and> x = Some st \<longrightarrow> st = Healthy) \<longleftrightarrow> (A \<longrightarrow> x \<in> {None, Some Healthy})" for A x
    by (cases x) auto
  ultimately show ?thesis
    by (simp only: required_components_def list.set)
qed

definition sample_healthy :: "runtime_kind \<Rightarrow> component_health list" where
  "sample_healthy runtime =
     map (\<lambda>c. \<lparr>ch_component = c, ch_status = Healthy, ch_scope = Global\<rparr>) (required_components runtime)"

theorem destructive_gate_fails_closed_witness:
  "\<not> destructive_automation_allowed
      (foldl health_record [] (sample_healthy CodexCli @
         [\<lparr>ch_component = WatcherId, ch_status = DegradedStatus, ch_scope = RuntimeScope CodexCli\<rparr>]))
      CodexCli (MainIdentity (MainSessionId (SessionId 1)))"
    (is "\<not> destructive_automation_allowed (foldl health_record [] ?history) _ ?session")
proof
  assume "destructive_automation_allowed (foldl health_record [] ?history) CodexCli ?session"
  then have "latest ?history WatcherId (RuntimeScope CodexCli) \<in> {None, Some Healthy}"
    unfolding destructive_gate_fails_closed by (drule_tac bspec [of _ _ WatcherId]) simp_all
  then show False
    by (simp add: latest_def)
qed

text \<open>
  Readiness is lost exactly by a failed critical component: the service is ready iff no
  store, reducer, authorization or process-sampler report with global scope is currently failed;
  failures of adapters or of single sessions never make it unready.
\<close>
theorem readiness_iff_no_critical_failure:
  "is_ready (foldl health_record [] history) \<longleftrightarrow>
     (\<forall>c. is_critical c \<longrightarrow> latest history c Global \<noteq> Some FailedStatus)"
proof -
  have wf: "registry_wf (foldl health_record [] history)"
    by (rule registry_wf_records) (simp add: registry_wf_def)
  have "is_ready (foldl health_record [] history) \<longleftrightarrow>
      (\<forall>c s st. ((c, s), st) \<in> set (foldl health_record [] history) \<longrightarrow>
         \<not> (is_critical c \<and> s = Global \<and> st = FailedStatus))"
    by (fastforce simp: is_ready_def list_ex_iff)
  then show ?thesis
    unfolding registry_lookup [OF wf] health_status_records by blast
qed

theorem readiness_iff_no_critical_failure_witness:
  "is_ready (foldl health_record []
     [\<lparr>ch_component = AdapterId CodexCli, ch_status = FailedStatus, ch_scope = Global\<rparr>])"
proof (subst readiness_iff_no_critical_failure, intro allI impI)
  fix c
  assume "is_critical c"
  then have "c \<noteq> AdapterId CodexCli"
    by auto
  then show "latest [\<lparr>ch_component = AdapterId CodexCli, ch_status = FailedStatus, ch_scope = Global\<rparr>]
      c Global \<noteq> Some FailedStatus"
    by (simp add: latest_def eq_commute)
qed

end
