(* ===== verification/Incremental.thy ===== *)
theory Incremental
  imports Rust_Std "HOL-Library.Sublist"
begin

text \<open>
  The cursor-based reader of append-only record files, \<open>incremental.rs\<close>. What the capability
  root, the metadata call and the read return is the argument \<open>opened\<close>: an error, or the
  file's identity, length and bytes at the time of the call. The theory shows that successive
  reads deliver every complete record after the starting boundary exactly once and in order,
  within their budgets, and that reading a file that stops growing comes to an end.
\<close>

section \<open>Model\<close>

record file_identity =
  fi_device :: u64
  fi_inode :: u64

record file_cursor =
  fc_identity :: file_identity
  fc_read_offset :: u64
  fc_complete_offset :: u64
  fc_partial :: "byte list"
  fc_parser_version :: u32

definition resume_from_complete :: "file_identity \<Rightarrow> u64 \<Rightarrow> u32 \<Rightarrow> file_cursor" where
  "resume_from_complete identity complete_offset parser_version =
     \<lparr>fc_identity = identity, fc_read_offset = complete_offset, fc_complete_offset = complete_offset,
      fc_partial = [], fc_parser_version = parser_version\<rparr>"

record read_budget =
  rb_max_bytes :: nat
  rb_max_partial_bytes :: nat
  rb_max_records :: nat

datatype read_budget_error = ReadBudgetError

definition read_budget_new :: "nat \<Rightarrow> nat \<Rightarrow> nat \<Rightarrow> read_budget_error + read_budget" where
  "read_budget_new max_bytes max_partial_bytes max_records =
     (if max_bytes = 0 \<or> max_partial_bytes = 0 \<or> max_records = 0 then Inl ReadBudgetError
      else Inr \<lparr>rb_max_bytes = max_bytes, rb_max_partial_bytes = max_partial_bytes,
                rb_max_records = max_records\<rparr>)"

datatype reconcile_reason = Replaced | Truncated | PartialRecordTooLarge

record appended_records =
  ar_records :: "byte list list"
  ar_cursor :: file_cursor
  ar_bytes_read :: u64
  ar_continuation_required :: bool

datatype read_outcome = Records appended_records | ReconcileRequired reconcile_reason

datatype incremental_read_error = PathError | IoError

record file_view =
  fv_identity :: file_identity
  fv_len :: u64
  fv_bytes :: "byte list"

definition cursor_at ::
  "incremental_read_error + file_view \<Rightarrow> u32 \<Rightarrow> bool \<Rightarrow> incremental_read_error + file_cursor" where
  "cursor_at opened parser_version at_end =
     map_ok (\<lambda>v. let offset = (if at_end then fv_len v else 0) in
       \<lparr>fc_identity = fv_identity v, fc_read_offset = offset, fc_complete_offset = offset,
        fc_partial = [], fc_parser_version = parser_version\<rparr>) opened"

definition newline :: byte where
  "newline = 10"

text \<open>
  The loop over \<open>buffer.iter().enumerate()\<close>; \<open>record_start\<close> and \<open>consumed\<close> are equal at every
  iteration and are one argument.
\<close>

fun record_loop ::
  "nat \<Rightarrow> byte list \<Rightarrow> nat \<Rightarrow> byte list list \<Rightarrow> nat \<Rightarrow> byte list \<Rightarrow> byte list list \<times> nat" where
  "record_loop max_records buffer index records consumed [] = (records, consumed)"
| "record_loop max_records buffer index records consumed (b # rest) =
     (if b \<noteq> newline then record_loop max_records buffer (Suc index) records consumed rest
      else
        (let records = records @ [drop consumed (take index buffer)];
             consumed = Suc index
         in if length records = max_records then (records, consumed)
            else record_loop max_records buffer (Suc index) records consumed rest))"

text \<open>The bounded read after the seek, and whether more than the budget was available.\<close>

definition read_appended :: "read_budget \<Rightarrow> file_view \<Rightarrow> file_cursor \<Rightarrow> byte list \<times> bool" where
  "read_appended budget file cursor =
     (let read_limit = unat (saturating_add (word_of_usize (rb_max_bytes budget)) (1 :: u64));
          appended = take read_limit (drop (unat (fc_read_offset cursor)) (fv_bytes file));
          exceeded_byte_budget = (length appended > rb_max_bytes budget)
      in (if exceeded_byte_budget then take (rb_max_bytes budget) appended else appended,
          exceeded_byte_budget))"

text \<open>From the bytes read to the records and the next cursor.\<close>

definition digest_appended ::
  "read_budget \<Rightarrow> file_view \<Rightarrow> file_cursor \<Rightarrow> byte list \<times> bool \<Rightarrow> read_outcome" where
  "digest_appended budget file cursor input =
     (let (appended, exceeded_byte_budget) = input;
          bytes_read = length appended;
          previous_partial_len = length (fc_partial cursor);
          buffer = fc_partial cursor @ appended;
          (records, consumed) = record_loop (rb_max_records budget) buffer 0 [] 0 buffer;
          record_budget_exhausted =
            (length records = rb_max_records budget \<and> newline \<in> set (drop consumed buffer))
      in if \<not> record_budget_exhausted \<and>
            length (drop consumed buffer) > rb_max_partial_bytes budget
         then ReconcileRequired PartialRecordTooLarge
         else
           (let (file_bytes_consumed, partial) =
                  (if record_budget_exhausted then (consumed - previous_partial_len, [])
                   else (bytes_read, drop consumed buffer));
                read_offset =
                  saturating_add (fc_read_offset cursor) (word_of_usize file_bytes_consumed);
                complete_offset =
                  saturating_sub read_offset (word_of_usize (length partial));
                continuation_required =
                  (exceeded_byte_budget \<or> record_budget_exhausted \<or> read_offset < fv_len file)
            in Records
                 \<lparr>ar_records = records,
                  ar_cursor =
                    \<lparr>fc_identity = fv_identity file, fc_read_offset = read_offset,
                     fc_complete_offset = complete_offset, fc_partial = partial,
                     fc_parser_version = fc_parser_version cursor\<rparr>,
                  ar_bytes_read = word_of_usize bytes_read,
                  ar_continuation_required = continuation_required\<rparr>))"

definition incremental_read ::
  "read_budget \<Rightarrow> incremental_read_error + file_view \<Rightarrow> file_cursor \<Rightarrow>
     incremental_read_error + read_outcome" where
  "incremental_read budget opened cursor =
     and_then opened (\<lambda>file.
       if fv_identity file \<noteq> fc_identity cursor then Inr (ReconcileRequired Replaced)
       else if fv_len file < fc_read_offset cursor then Inr (ReconcileRequired Truncated)
       else Inr (digest_appended budget file cursor (read_appended budget file cursor)))"

section \<open>The record loop\<close>

text \<open>The bytes a list of records stands for in the file.\<close>

definition record_bytes :: "byte list list \<Rightarrow> byte list" where
  "record_bytes rs = concat (map (\<lambda>r. r @ [newline]) rs)"

lemma record_bytes_append [simp]: "record_bytes (rs @ ss) = record_bytes rs @ record_bytes ss"
  by (simp add: record_bytes_def)

lemma record_bytes_simps [simp]:
  "record_bytes [] = []" "record_bytes (r # rs) = r @ newline # record_bytes rs"
  by (simp_all add: record_bytes_def)

definition loop_post :: "nat \<Rightarrow> byte list \<Rightarrow> byte list list \<times> nat \<Rightarrow> bool" where
  "loop_post max_records buffer r \<longleftrightarrow>
     (case r of (records, consumed) \<Rightarrow>
        consumed \<le> length buffer \<and> record_bytes records = take consumed buffer \<and>
        (\<forall>s \<in> set records. newline \<notin> set s) \<and> length records \<le> max_records \<and>
        (length records = max_records \<or> newline \<notin> set (drop consumed buffer)))"

lemma record_loop_post:
  assumes "rest = drop index buffer" and "index \<le> length buffer" and "consumed \<le> index"
    and "record_bytes records = take consumed buffer" and "\<forall>s \<in> set records. newline \<notin> set s"
    and "newline \<notin> set (drop consumed (take index buffer))" and "length records < max_records"
  shows "loop_post max_records buffer (record_loop max_records buffer index records consumed rest)"
  using assms
proof (induction max_records buffer index records consumed rest rule: record_loop.induct)
  case (1 max_records buffer index records consumed)
  then have "index = length buffer"
    by simp
  with 1 show ?case
    by (simp add: loop_post_def)
next
  case (2 max_records buffer index records consumed b rest)
  have ix: "index < length buffer" and b: "b = buffer ! index" and rest: "rest = drop (Suc index) buffer"
    using "2.prems"(1) by (cases "index < length buffer"; simp add: Cons_nth_drop_Suc [symmetric])+
  have grow: "drop consumed (take (Suc index) buffer) = drop consumed (take index buffer) @ [b]"
    using ix "2.prems"(3) b by (simp add: take_Suc_conv_app_nth)
  show ?case
  proof (cases "b = newline")
    case False
    then show ?thesis
      using "2.IH"(1) "2.prems"(2-7) ix rest grow by simp
  next
    case True
    let ?records = "records @ [drop consumed (take index buffer)]"
    have bytes: "record_bytes ?records = take (Suc index) buffer"
    proof -
      have "take consumed buffer @ drop consumed (take index buffer) = take index buffer"
        using "2.prems"(3) by (metis append_take_drop_id min.absorb1 take_take)
      then show ?thesis
        using "2.prems"(4) ix b True by (simp add: take_Suc_conv_app_nth)
    qed
    have clean: "\<forall>s \<in> set ?records. newline \<notin> set s"
      using "2.prems"(5,6) by simp
    show ?thesis
    proof (cases "length ?records = max_records")
      case False
      then have "length ?records < max_records"
        using "2.prems"(7) by simp
      then show ?thesis
        using "2.IH"(2) True False bytes clean ix rest by (simp add: Let_def)
    qed (use True bytes clean ix in \<open>simp add: loop_post_def Let_def\<close>)
  qed
qed

lemma record_loop_start:
  "0 < max_records \<Longrightarrow> loop_post max_records buffer (record_loop max_records buffer 0 [] 0 buffer)"
  by (rule record_loop_post) simp_all

section \<open>One read\<close>

text \<open>
  A cursor agrees with a file: its partial record is the bytes between the two offsets and
  contains no record end.
\<close>

definition cursor_ok :: "byte list \<Rightarrow> file_cursor \<Rightarrow> bool" where
  "cursor_ok content c \<longleftrightarrow>
     unat (fc_complete_offset c) + length (fc_partial c) = unat (fc_read_offset c) \<and>
     unat (fc_read_offset c) \<le> length content \<and>
     fc_partial c = drop (unat (fc_complete_offset c)) (take (unat (fc_read_offset c)) content) \<and>
     newline \<notin> set (fc_partial c)"

definition budget_wf :: "read_budget \<Rightarrow> bool" where
  "budget_wf b \<longleftrightarrow> 0 < rb_max_bytes b \<and> 0 < rb_max_partial_bytes b \<and> 0 < rb_max_records b"

lemma read_budget_new_wf: "read_budget_new a b c = Inr budget \<Longrightarrow> budget_wf budget"
  by (auto simp: read_budget_new_def budget_wf_def split: if_splits)

text \<open>A file whose length and bytes were read consistently.\<close>

definition view_of :: "file_identity \<Rightarrow> byte list \<Rightarrow> file_view" where
  "view_of identity content =
     \<lparr>fv_identity = identity, fv_len = word_of_usize (length content), fv_bytes = content\<rparr>"

lemma unat_word_of_usize [int_ops]:
  "n < 2 ^ LENGTH('n) \<Longrightarrow> unat (word_of_usize n :: 'n::len word) = n"
  unfolding word_of_usize_def by (simp add: of_nat_inverse)

lemma word_of_usize_0 [simp]: "word_of_usize 0 = 0"
  by (simp add: word_of_usize_def)

lemma unat_saturating_add_fits:
  "unat a + unat b < 2 ^ LENGTH('n) \<Longrightarrow> unat (saturating_add a (b :: 'n::len word)) = unat a + unat b"
  by (simp add: int_ops)

text \<open>
  The slice a read sees, without its byte arithmetic: at most \<open>max_bytes\<close> bytes after the
  read offset, and whether more were available.
\<close>

lemma read_appended_slice:
  assumes "length content < 2 ^ 64" and "fv_bytes file = content"
  shows "read_appended b file c =
    (take (rb_max_bytes b) (drop (unat (fc_read_offset c)) content),
     rb_max_bytes b < length content - unat (fc_read_offset c))"
proof -
  let ?max = "rb_max_bytes b" and ?xs = "drop (unat (fc_read_offset c)) content"
  let ?limit = "unat (saturating_add (word_of_usize ?max) (1 :: u64))"
  have "?limit \<ge> min (Suc ?max) (length ?xs)"
  proof (cases "Suc ?max < 2 ^ 64")
    case True
    then have "unat (word_of_usize ?max :: u64) = ?max"
      by (simp add: int_ops)
    then have "?limit = Suc ?max"
      using True by (subst unat_saturating_add_fits) simp_all
    then show ?thesis by simp
  next
    case False
    then have "?limit = 2 ^ 64 - 1"
      by (cases "?max < 2 ^ 64")
        (simp add: int_ops,
         simp add: int_ops word_of_usize_def unsigned_minus_1_eq_mask mask_eq_exp_minus_1)
    then show ?thesis
      using assms(1) by simp
  qed
  then have "(if length (take ?limit ?xs) > ?max then take ?max (take ?limit ?xs) else take ?limit ?xs) =
      take ?max ?xs"
    and "length (take ?limit ?xs) > ?max \<longleftrightarrow> length ?xs > ?max"
    by (auto simp: min_def split: if_splits)
  then show ?thesis
    by (simp only: read_appended_def Let_def assms(2) length_drop)
qed

text \<open>Everything one successful read guarantees.\<close>

definition read_post ::
  "read_budget \<Rightarrow> byte list \<Rightarrow> file_cursor \<Rightarrow> appended_records \<Rightarrow> bool" where
  "read_post b content c a \<longleftrightarrow>
     (let c' = ar_cursor a in
      cursor_ok content c' \<and> fc_identity c' = fc_identity c \<and>
      record_bytes (ar_records a) =
        drop (unat (fc_complete_offset c)) (take (unat (fc_complete_offset c')) content) \<and>
      unat (fc_complete_offset c) \<le> unat (fc_complete_offset c') \<and>
      (\<forall>r \<in> set (ar_records a). newline \<notin> set r) \<and>
      length (ar_records a) \<le> rb_max_records b \<and> length (fc_partial c') \<le> rb_max_partial_bytes b \<and>
      unat (ar_bytes_read a) \<le> rb_max_bytes b \<and> fc_read_offset c \<le> fc_read_offset c' \<and>
      (unat (fc_read_offset c) < length content \<longrightarrow> fc_read_offset c < fc_read_offset c') \<and>
      (ar_continuation_required a \<longleftrightarrow> unat (fc_read_offset c') < length content))"

lemma slice_concat:
  assumes "i \<le> j" and "j \<le> length xs"
  shows "drop i (take j xs) @ take m (drop j xs) = drop i (take (j + m) xs)"
  using assms by (simp add: take_add)

lemma take_slice: "take m (drop i (take j xs)) = drop i (take (min (i + m) j) xs)"
  by (simp add: take_drop take_take min_def add.commute)

lemma read_postI:
  assumes "ar_cursor a = \<lparr>fc_identity = fc_identity c, fc_read_offset = ro, fc_complete_offset = co,
      fc_partial = p, fc_parser_version = v\<rparr>"
    and "unat ro = r'" and "unat co = k'" and "k' \<le> r'" and "r' \<le> length content"
    and "p = drop k' (take r' content)" and "newline \<notin> set p"
    and "length p \<le> rb_max_partial_bytes b"
    and "record_bytes (ar_records a) = drop (unat (fc_complete_offset c)) (take k' content)"
    and "unat (fc_complete_offset c) \<le> k'" and "\<forall>r \<in> set (ar_records a). newline \<notin> set r"
    and "length (ar_records a) \<le> rb_max_records b" and "unat (ar_bytes_read a) \<le> rb_max_bytes b"
    and "unat (fc_read_offset c) < length content \<Longrightarrow> unat (fc_read_offset c) < r'"
    and "ar_continuation_required a \<longleftrightarrow> r' < length content" and "unat (fc_read_offset c) \<le> r'"
  shows "read_post b content c a"
  unfolding read_post_def Let_def cursor_ok_def
  using assms(7-13,15,16) assms(14) by (simp add: assms(1-6) word_less_nat_alt word_le_nat_alt)

text \<open>The read on a consistent file, with the word arithmetic resolved.\<close>

lemma incremental_read_post:
  assumes read: "incremental_read b (Inr (view_of identity content)) c = Inr (Records a)"
    and b: "budget_wf b" and c: "cursor_ok content c" and fits: "length content < 2 ^ 64"
  shows "read_post b content c a"
proof -
  define r where "r = unat (fc_read_offset c)"
  define k where "k = unat (fc_complete_offset c)"
  define n where "n = min (rb_max_bytes b) (length content - r)"
  define buf where "buf = fc_partial c @ take (rb_max_bytes b) (drop r content)"
  obtain records consumed where
    loop: "record_loop (rb_max_records b) buf 0 [] 0 buf = (records, consumed)"
    by fastforce
  have post: "loop_post (rb_max_records b) buf (records, consumed)"
    using record_loop_start [of "rb_max_records b" buf] b loop by (simp add: budget_wf_def)
  have rk: "k + length (fc_partial c) = r" "r \<le> length content"
    and partial: "fc_partial c = drop k (take r content)" "newline \<notin> set (fc_partial c)"
    using c unfolding cursor_ok_def r_def k_def by blast+
  have "take (rb_max_bytes b) (drop r content) = take n (drop r content)"
    by (simp add: n_def min_def)
  then have buf: "buf = drop k (take (r + n) content)"
    using slice_concat [of k r content n] rk partial(1) by (simp add: buf_def)
  have len: "length buf = r + n - k" "r + n \<le> length content"
    using rk by (auto simp: buf n_def)
  have ident: "identity = fc_identity c"
    using read by (auto simp: incremental_read_def view_of_def split: if_splits)
  have dig: "digest_appended b (view_of identity content) c
      (take (rb_max_bytes b) (drop r content), rb_max_bytes b < length content - r) = Records a"
    using read read_appended_slice [OF fits, of "view_of identity content" b c]
    by (auto simp: incremental_read_def view_of_def r_def split: if_splits)
  note dig' = dig [unfolded digest_appended_def Let_def prod.case, folded buf_def, unfolded loop prod.case]
  have offs: "unat (saturating_add (fc_read_offset c) (word_of_usize m :: u64)) = r + m"
    if "r + m \<le> length content" for m
    using that fits by (subst unat_saturating_add_fits) (simp_all add: int_ops r_def)
  have lenw: "unat (word_of_usize (length content) :: u64) = length content"
    using fits by (simp add: int_ops)
  have kc: "k + consumed \<le> r + n"
    using post len(1) rk(1) unfolding loop_post_def by auto
  then have bytes: "record_bytes records = drop k (take (k + consumed) content)"
    using post take_slice [of consumed k "r + n" content] by (simp add: loop_post_def buf min_absorb1)
  have nw: "unat (word_of_usize n :: u64) \<le> rb_max_bytes b"
    using fits by (subst unat_word_of_usize) (simp_all add: n_def)
  show ?thesis
  proof (cases "length records = rb_max_records b \<and> newline \<in> set (drop consumed buf)")
    case True
    then have more: "consumed < length buf"
      by (metis drop_all empty_iff list.set(1) not_less)
    have "newline \<in> set (record_bytes records)"
      using True b by (cases records) (simp_all add: budget_wf_def)
    then have "newline \<in> set (take consumed buf)"
      using post by (simp add: loop_post_def)
    have past: "length (fc_partial c) < consumed"
    proof (rule ccontr)
      assume "\<not> length (fc_partial c) < consumed"
      then have "take consumed buf = take consumed (fc_partial c)"
        by (simp add: buf_def)
      then show False
        using \<open>newline \<in> set (take consumed buf)\<close> partial(2) by (metis in_set_takeD)
    qed
    let ?ro = "saturating_add (fc_read_offset c) (word_of_usize (consumed - length (fc_partial c)))"
    have ro: "unat ?ro = k + consumed"
      using offs [of "consumed - length (fc_partial c)"] past more len rk by simp
    have a: "a = \<lparr>ar_records = records,
        ar_cursor = \<lparr>fc_identity = identity, fc_read_offset = ?ro,
          fc_complete_offset = saturating_sub ?ro (word_of_usize 0), fc_partial = [],
          fc_parser_version = fc_parser_version c\<rparr>,
        ar_bytes_read = word_of_usize n, ar_continuation_required = True\<rparr>"
      using dig' True by (auto simp: view_of_def n_def min.commute)
    have inside: "k + consumed < length content"
      using more len rk by linarith
    show ?thesis
      by (rule read_postI [where r' = "k + consumed" and k' = "k + consumed"])
        (use ro bytes past inside rk post nw in
          \<open>auto simp: a ident loop_post_def simp flip: k_def r_def\<close>)
  next
    case False
    let ?ro = "saturating_add (fc_read_offset c) (word_of_usize n)"
    have ro: "unat ?ro = r + n"
      using offs len by simp
    have a: "a = \<lparr>ar_records = records,
        ar_cursor = \<lparr>fc_identity = identity, fc_read_offset = ?ro,
          fc_complete_offset = saturating_sub ?ro (word_of_usize (length (drop consumed buf))),
          fc_partial = drop consumed buf, fc_parser_version = fc_parser_version c\<rparr>,
        ar_bytes_read = word_of_usize n,
        ar_continuation_required =
          (rb_max_bytes b < length content - r \<or> ?ro < word_of_usize (length content))\<rparr>"
      and small: "length (drop consumed buf) \<le> rb_max_partial_bytes b"
      using dig' False by (auto simp: view_of_def n_def min.commute split: if_splits)
    have co: "unat (saturating_sub ?ro (word_of_usize (length (drop consumed buf)))) = k + consumed"
    proof -
      have "unat (word_of_usize (length (drop consumed buf)) :: u64) = r + n - (k + consumed)"
        using len fits by (subst unat_word_of_usize) auto
      then show ?thesis
        using ro kc by (simp add: unat_saturating_sub)
    qed
    have clean: "newline \<notin> set (drop consumed buf)"
      using False post by (auto simp: loop_post_def)
    have rest: "drop consumed buf = drop (k + consumed) (take (r + n) content)"
      by (simp add: buf add.commute)
    have more: "ar_continuation_required a \<longleftrightarrow> r + n < length content"
      using ro lenw by (auto simp: a word_less_nat_alt n_def)
    have n: "r < length content \<Longrightarrow> 0 < n"
      using b by (simp add: n_def budget_wf_def)
    show ?thesis
      by (rule read_postI [where r' = "r + n" and k' = "k + consumed" and p = "drop consumed buf"])
        (use ro co bytes post nw len rest clean small kc more n in
          \<open>simp_all add: a ident loop_post_def flip: k_def r_def\<close>)
  qed
qed

section \<open>Successive reads\<close>

lemma cursor_ok_mono: "cursor_ok content c \<Longrightarrow> prefix content content' \<Longrightarrow> cursor_ok content' c"
  by (auto simp: cursor_ok_def prefix_def)

lemma resume_cursor_ok:
  "unat offset \<le> length content \<Longrightarrow> cursor_ok content (resume_from_complete identity offset version)"
  by (simp add: cursor_ok_def resume_from_complete_def)

text \<open>
  Reading successive versions of a file, each read continuing at the cursor of the one before;
  \<open>None\<close> when a read asks for reconciliation.
\<close>

fun read_versions ::
  "read_budget \<Rightarrow> file_cursor \<Rightarrow> byte list list \<Rightarrow> (byte list list \<times> file_cursor) option" where
  "read_versions b c [] = Some ([], c)"
| "read_versions b c (content # rest) =
     (case incremental_read b (Inr (view_of (fc_identity c) content)) c of
        Inr (Records a) \<Rightarrow>
          map_option (\<lambda>(rs, c'). (ar_records a @ rs, c')) (read_versions b (ar_cursor a) rest)
      | _ \<Rightarrow> None)"

lemma read_versions_exact:
  assumes "budget_wf b" and "cursor_ok content c" and "sorted_wrt prefix (content # contents)"
    and "\<forall>v \<in> set contents. length v < 2 ^ 64" and "read_versions b c contents = Some (rs, c')"
  shows "cursor_ok (last (content # contents)) c' \<and>
    unat (fc_complete_offset c) \<le> unat (fc_complete_offset c') \<and>
    record_bytes rs = drop (unat (fc_complete_offset c))
      (take (unat (fc_complete_offset c')) (last (content # contents))) \<and>
    (\<forall>r \<in> set rs. newline \<notin> set r)"
  using assms(2-5)
proof (induction contents arbitrary: content c rs)
  case (Cons v contents)
  obtain a rs' where a: "incremental_read b (Inr (view_of (fc_identity c) v)) c = Inr (Records a)"
    and rest: "read_versions b (ar_cursor a) contents = Some (rs', c')" and rs: "rs = ar_records a @ rs'"
    using Cons.prems(4) by (auto split: sum.splits read_outcome.splits)
  have "cursor_ok v c"
    using Cons.prems(1,2) by (auto intro: cursor_ok_mono)
  then have post: "read_post b v c a"
    using a assms(1) Cons.prems(3) by (intro incremental_read_post) auto
  let ?k = "unat (fc_complete_offset c)" and ?m = "unat (fc_complete_offset (ar_cursor a))"
  let ?n = "unat (fc_complete_offset c')" and ?last = "last (v # contents)"
  have IH: "cursor_ok ?last c' \<and> ?m \<le> ?n \<and> record_bytes rs' = drop ?m (take ?n ?last) \<and>
      (\<forall>r \<in> set rs'. newline \<notin> set r)"
    using Cons.prems(2,3) rest post by (intro Cons.IH) (auto simp: read_post_def Let_def)
  have "prefix v ?last"
    using Cons.prems(2) by (cases contents) auto
  then have "take ?m v = take ?m ?last"
    using post by (auto simp: read_post_def Let_def cursor_ok_def prefix_def)
  then have "record_bytes rs = drop ?k (take ?m ?last) @ drop ?m (take ?n ?last)"
    using post IH by (simp add: rs read_post_def Let_def)
  also have "\<dots> = drop ?k (take ?n ?last)"
  proof -
    have mn: "?m \<le> ?n" "?k \<le> ?m" "?m \<le> length ?last"
      using IH post by (auto simp: read_post_def Let_def cursor_ok_def)
    have "take ?n ?last = take ?m ?last @ drop ?m (take ?n ?last)"
      using mn(1) by (metis append_take_drop_id min.absorb1 take_take)
    then show ?thesis
      using mn by (metis append_take_drop_id drop_append drop_0 diff_is_0_eq length_take min.absorb2)
  qed
  finally show ?case
    using IH post by (auto simp: rs read_post_def Let_def)
qed simp

text \<open>
  C40. The incremental reader loses and repeats nothing: over successive reads of a file that
  only grows, from any consistent cursor, the records delivered, put back together with their
  line ends, are exactly the bytes between the first and the last complete-record offset; every
  delivered record is a single line, and the final cursor is consistent again.
\<close>
theorem incremental_reads_exact:
  assumes "read_budget_new max_bytes max_partial max_records = Inr b"
    and "cursor_ok content c" and "sorted_wrt prefix (content # contents)"
    and "\<forall>v \<in> set contents. length v < 2 ^ 64" and "read_versions b c contents = Some (rs, c')"
  shows "record_bytes rs = drop (unat (fc_complete_offset c))
      (take (unat (fc_complete_offset c')) (last (content # contents))) \<and>
    (\<forall>r \<in> set rs. newline \<notin> set r) \<and> cursor_ok (last (content # contents)) c'"
  using read_versions_exact [OF read_budget_new_wf [OF assms(1)] assms(2-5)] by blast

definition sample_cursor :: file_cursor where
  "sample_cursor = resume_from_complete \<lparr>fi_device = 1, fi_inode = 2\<rparr> 0 1"

lemma sample_read:
  "read_versions \<lparr>rb_max_bytes = 4, rb_max_partial_bytes = 3, rb_max_records = 2\<rparr> sample_cursor
     [[65, 10, 66], [65, 10, 66, 67, 10]] =
   Some ([[65], [66, 67]],
     \<lparr>fc_identity = \<lparr>fi_device = 1, fi_inode = 2\<rparr>, fc_read_offset = 5, fc_complete_offset = 5,
      fc_partial = [], fc_parser_version = 1\<rparr>)"
  by (simp add: sample_cursor_def resume_from_complete_def incremental_read_def view_of_def
      read_appended_def digest_appended_def word_of_usize_def saturating_add_def saturating_sub_def
      newline_def Let_def)

theorem incremental_reads_exact_witness:
  "record_bytes [[65], [66, 67]] = [65, 10, 66, 67, 10]"
  using incremental_reads_exact [OF _ _ _ _ sample_read, of 4 3 2 "[]"]
  by (simp add: read_budget_new_def sample_cursor_def resume_from_complete_def cursor_ok_def)

text \<open>Reading a file that does not change until no continuation is required.\<close>

fun drain ::
  "nat \<Rightarrow> read_budget \<Rightarrow> byte list \<Rightarrow> file_cursor \<Rightarrow>
     (reconcile_reason + byte list list \<times> file_cursor) option" where
  "drain fuel b content c =
     (case incremental_read b (Inr (view_of (fc_identity c) content)) c of
        Inr (Records a) \<Rightarrow>
          if ar_continuation_required a then
            (case fuel of
               0 \<Rightarrow> None
             | Suc n \<Rightarrow> map_option (map_ok (\<lambda>(rs, c'). (ar_records a @ rs, c')))
                 (drain n b content (ar_cursor a)))
          else Some (Inr (ar_records a, ar_cursor a))
      | Inr (ReconcileRequired why) \<Rightarrow> Some (Inl why)
      | Inl e \<Rightarrow> None)"

declare drain.simps [simp del]

lemma incremental_read_outcome:
  assumes "cursor_ok content c" and "length content < 2 ^ 64"
  shows "incremental_read b (Inr (view_of (fc_identity c) content)) c \<in>
    Inr ` (range Records \<union> {ReconcileRequired PartialRecordTooLarge})"
proof -
  have "\<not> (word_of_usize (length content) :: u64) < fc_read_offset c"
    using assms by (simp add: word_less_nat_alt int_ops cursor_ok_def)
  then show ?thesis
    by (auto simp: incremental_read_def view_of_def digest_appended_def Let_def split: prod.splits if_splits)
qed

lemma drain_progress:
  assumes "read_post b content c a" and "ar_continuation_required a"
  shows "unat (fc_read_offset c) < length content"
    and "unat (fc_read_offset c) < unat (fc_read_offset (ar_cursor a))"
proof -
  have "unat (fc_read_offset (ar_cursor a)) < length content"
    "unat (fc_read_offset c) \<le> unat (fc_read_offset (ar_cursor a))"
    using assms by (simp_all add: read_post_def Let_def word_le_nat_alt)
  then show "unat (fc_read_offset c) < length content"
    by simp
  then show "unat (fc_read_offset c) < unat (fc_read_offset (ar_cursor a))"
    using assms(1) by (simp add: read_post_def Let_def word_less_nat_alt)
qed

text \<open>One round of draining: a report, the end of the file, or progress towards it.\<close>

lemma drain_cases:
  assumes "budget_wf b" and "cursor_ok content c" and "length content < 2 ^ 64"
  shows "drain fuel b content c = Some (Inl PartialRecordTooLarge) \<or>
    (\<exists>rs c'. drain fuel b content c = Some (Inr (rs, c')) \<and> unat (fc_read_offset c') = length content \<and>
       record_bytes rs @ fc_partial c' = drop (unat (fc_complete_offset c)) content) \<or>
    (\<exists>a. read_post b content c a \<and> unat (fc_read_offset c) < length content \<and>
       unat (fc_read_offset c) < unat (fc_read_offset (ar_cursor a)) \<and>
       drain fuel b content c =
         (case fuel of
            0 \<Rightarrow> None
          | Suc n \<Rightarrow> map_option (map_ok (\<lambda>(rs, c'). (ar_records a @ rs, c')))
              (drain n b content (ar_cursor a))))"
proof -
  consider "incremental_read b (Inr (view_of (fc_identity c) content)) c =
      Inr (ReconcileRequired PartialRecordTooLarge)"
    | a where "incremental_read b (Inr (view_of (fc_identity c) content)) c = Inr (Records a)"
    using incremental_read_outcome [OF assms(2,3), of b] by auto
  then show ?thesis
  proof cases
    case (2 a)
    then have post: "read_post b content c a"
      using assms by (intro incremental_read_post)
    let ?k = "unat (fc_complete_offset c)" and ?m = "unat (fc_complete_offset (ar_cursor a))"
    show ?thesis
    proof (cases "ar_continuation_required a")
      case True
      moreover have "unat (fc_read_offset c) < length content"
        "unat (fc_read_offset c) < unat (fc_read_offset (ar_cursor a))"
        using post True drain_progress by blast+
      ultimately show ?thesis
        using 2 post by (auto simp: drain.simps [of fuel])
    next
      case False
      have ok: "cursor_ok content (ar_cursor a)" and le: "?k \<le> ?m"
        and bytes: "record_bytes (ar_records a) = drop ?k (take ?m content)"
        and "\<not> unat (fc_read_offset (ar_cursor a)) < length content"
        using post False by (auto simp: read_post_def Let_def)
      then have end_: "unat (fc_read_offset (ar_cursor a)) = length content"
        and partial: "fc_partial (ar_cursor a) = drop ?m content" and "?m \<le> length content"
        by (auto simp: cursor_ok_def)
      then have "record_bytes (ar_records a) @ fc_partial (ar_cursor a) = drop ?k content"
        using slice_concat [of ?k ?m content "length content - ?m"] le bytes by simp
      then show ?thesis
        using 2 False end_ by (simp add: drain.simps [of fuel])
    qed
  qed (simp add: drain.simps [of fuel])
qed

text \<open>
  Reading terminates: on a file that has stopped growing, from a consistent cursor, at most
  one read per unread byte (plus one) suffices to reach the end of the file; then the records
  delivered followed by the retained partial record are exactly the rest of the file, unless a
  record longer than the partial budget is met, which is reported and never skipped.
\<close>
theorem drain_reaches_end:
  assumes "budget_wf b" and "cursor_ok content c" and "length content < 2 ^ 64"
    and "length content - unat (fc_read_offset c) \<le> fuel"
  shows "drain fuel b content c = Some (Inl PartialRecordTooLarge) \<or>
    (\<exists>rs c'. drain fuel b content c = Some (Inr (rs, c')) \<and>
       unat (fc_read_offset c') = length content \<and>
       record_bytes rs @ fc_partial c' = drop (unat (fc_complete_offset c)) content)"
  using assms(2,4)
proof (induction fuel arbitrary: c)
  case 0
  then have "unat (fc_read_offset c) = length content"
    by (simp add: cursor_ok_def)
  then show ?case
    using drain_cases [OF assms(1) "0.prems"(1) assms(3), of 0] by auto
next
  case (Suc fuel)
  consider "drain (Suc fuel) b content c = Some (Inl PartialRecordTooLarge)"
    | rs c' where "drain (Suc fuel) b content c = Some (Inr (rs, c'))"
      "unat (fc_read_offset c') = length content"
      "record_bytes rs @ fc_partial c' = drop (unat (fc_complete_offset c)) content"
    | a where "read_post b content c a" "unat (fc_read_offset c) < unat (fc_read_offset (ar_cursor a))"
      "drain (Suc fuel) b content c =
         map_option (map_ok (\<lambda>(rs, c'). (ar_records a @ rs, c'))) (drain fuel b content (ar_cursor a))"
    using drain_cases [OF assms(1) Suc.prems(1) assms(3), of "Suc fuel"] by auto
  then show ?case
  proof cases
    case (3 a)
    let ?k = "unat (fc_complete_offset c)" and ?m = "unat (fc_complete_offset (ar_cursor a))"
    have ok: "cursor_ok content (ar_cursor a)" and le: "?k \<le> ?m" "?m \<le> length content"
      and bytes: "record_bytes (ar_records a) = drop ?k (take ?m content)"
      using 3(1) by (auto simp: read_post_def Let_def cursor_ok_def)
    have "drop ?k content = drop ?k (take ?m content) @ drop ?m content"
      using slice_concat [of ?k ?m content "length content - ?m"] le by simp
    moreover have "length content - unat (fc_read_offset (ar_cursor a)) \<le> fuel"
      using Suc.prems(2) 3(2) by linarith
    note Suc.IH [OF ok this]
    ultimately show ?thesis
      using 3(3) bytes by auto
  qed auto
qed

theorem drain_reaches_end_witness:
  "\<exists>r. drain 3 \<lparr>rb_max_bytes = 4, rb_max_partial_bytes = 3, rb_max_records = 2\<rparr> [65, 10, 66]
     sample_cursor = Some r"
  using drain_reaches_end [of "\<lparr>rb_max_bytes = 4, rb_max_partial_bytes = 3, rb_max_records = 2\<rparr>"
      "[65, 10, 66]" sample_cursor 3]
  by (auto simp: budget_wf_def sample_cursor_def resume_from_complete_def cursor_ok_def)

end
