(* ===== verification/Worktree.thy ===== *)
theory Worktree
  imports Identity "HOL-Library.AList"
begin

text \<open>
  Attribution of filesystem changes to child sessions, \<open>worktree.rs\<close>. A \<open>PathBuf\<close> key is its
  list of components, which is what \<open>PathBuf\<close> equality compares; the map of owners is an
  association list and a \<open>BTreeSet\<close> of owners a set.
\<close>

section \<open>Model\<close>

type_synonym worktree_owners = "(path_component list \<times> child_session_id set) list"

datatype attribution = AttributedTo child_session_id | AmbiguousOwner | Unowned

definition worktree_register ::
  "worktree_owners \<Rightarrow> string \<Rightarrow> child_session_id \<Rightarrow> worktree_owners" where
  "worktree_register owners worktree child =
     (let key = path_components worktree in
      AList.update key (insert child (unwrap_or {} (map_of owners key))) owners)"

text \<open>\<open>Iterator::max_by_key\<close> returns the last of several maximal elements.\<close>

fun max_by_key :: "('a \<Rightarrow> nat) \<Rightarrow> 'a list \<Rightarrow> 'a option" where
  "max_by_key f [] = None"
| "max_by_key f (x # xs) =
     (case max_by_key f xs of None \<Rightarrow> Some x | Some y \<Rightarrow> if f x > f y then Some x else Some y)"

definition components_start_with :: "path_component list \<Rightarrow> path_component list \<Rightarrow> bool" where
  "components_start_with p base \<longleftrightarrow> take (length base) p = base"

definition attribute_change ::
  "worktree_owners \<Rightarrow> string \<Rightarrow> child_session_id option \<Rightarrow> attribution" where
  "attribute_change owners changed_path process_evidence =
     (case max_by_key (\<lambda>(worktree, _). length worktree)
             (filter (\<lambda>(worktree, _). components_start_with (path_components changed_path) worktree)
               owners) of
        None \<Rightarrow> Unowned
      | Some (_, children) \<Rightarrow>
          if card children = 1 then
            (if children = {} then Unowned else AttributedTo (Min children))
          else
            (case process_evidence of
               Some child \<Rightarrow> if child \<in> children then AttributedTo child else AmbiguousOwner
             | None \<Rightarrow> AmbiguousOwner))"

section \<open>Attribution is justified\<close>

lemma max_by_key_Some:
  "max_by_key f xs = Some x \<Longrightarrow> x \<in> set xs \<and> (\<forall>y \<in> set xs. f y \<le> f x)"
proof (induction xs arbitrary: x)
  case (Cons a xs)
  show ?case
  proof (cases "max_by_key f xs")
    case None
    then have "xs = []"
      by (cases xs) (auto split: option.splits if_splits)
    then show ?thesis
      using Cons.prems by auto
  next
    case (Some y)
    then show ?thesis
      using Cons.IH [OF Some] Cons.prems by (auto split: if_splits)
  qed
qed simp

lemma max_by_key_None_iff: "max_by_key f xs = None \<longleftrightarrow> xs = []"
  by (cases xs) (auto split: option.splits)

definition owners_of :: "(string \<times> child_session_id) list \<Rightarrow> path_component list \<Rightarrow> child_session_id set" where
  "owners_of regs key = {c. \<exists>w. (w, c) \<in> set regs \<and> path_components w = key}"

definition register_all :: "(string \<times> child_session_id) list \<Rightarrow> worktree_owners" where
  "register_all regs = foldl (\<lambda>owners (w, c). worktree_register owners w c) [] regs"

lemma register_all_lookup:
  "distinct (map fst (register_all regs)) \<and>
   map_of (register_all regs) key =
     (if owners_of regs key = {} then None else Some (owners_of regs key))"
proof (induction regs arbitrary: key rule: rev_induct)
  case (snoc r regs)
  obtain w c where r: "r = (w, c)" by (cases r)
  have "owners_of (regs @ [r]) key =
      (if key = path_components w then insert c (owners_of regs key) else owners_of regs key)"
    by (auto simp: owners_of_def r)
  then show ?case
    using snoc by (auto simp: register_all_def r worktree_register_def Let_def update_conv'
        distinct_update)
qed (simp add: register_all_def owners_of_def)

lemma register_all_mem: "(key, children) \<in> set (register_all regs) \<Longrightarrow>
    children = owners_of regs key \<and> children \<noteq> {}"
  using register_all_lookup [of regs key]
  by (metis map_of_is_SomeI option.distinct(1) option.inject)

lemma finite_owners_of [simp]: "finite (owners_of regs key)"
proof -
  have "owners_of regs key \<subseteq> snd ` set regs"
    by (force simp: owners_of_def)
  then show ?thesis
    by (rule finite_subset) simp
qed

text \<open>
  A filesystem change is attributed only on sound evidence: after any sequence of
  registrations, a change credited to a child lies under a worktree registered for that child,
  no deeper registered worktree contains it, and the child is either the only owner of that
  worktree or the one the process evidence names; and a change is unowned exactly when no
  registered worktree contains it.
\<close>
theorem attribution_justified:
  "(attribute_change (register_all regs) path evidence = AttributedTo child \<longrightarrow>
     (\<exists>w. (w, child) \<in> set regs \<and>
        components_start_with (path_components path) (path_components w) \<and>
        (\<forall>(w', c') \<in> set regs. components_start_with (path_components path) (path_components w') \<longrightarrow>
           length (path_components w') \<le> length (path_components w)) \<and>
        (owners_of regs (path_components w) = {child} \<or> evidence = Some child))) \<and>
   (attribute_change (register_all regs) path evidence = Unowned \<longleftrightarrow>
     (\<forall>(w, c) \<in> set regs. \<not> components_start_with (path_components path) (path_components w)))"
proof -
  let ?p = "path_components path"
  let ?hits = "filter (\<lambda>(worktree, _). components_start_with ?p worktree) (register_all regs)"
  have hit: "\<exists>children. (path_components w, children) \<in> set ?hits"
    if "(w, c) \<in> set regs" "components_start_with ?p (path_components w)" for w c
  proof -
    have "owners_of regs (path_components w) \<noteq> {}"
      using that(1) by (auto simp: owners_of_def)
    then have "map_of (register_all regs) (path_components w) \<noteq> None"
      using register_all_lookup [of regs "path_components w"] by simp
    then show ?thesis
      using that(2) by (auto dest: map_of_SomeD)
  qed
  show ?thesis
  proof (cases "max_by_key (\<lambda>(worktree, _). length worktree) ?hits")
    case None
    then have "?hits = []"
      by (simp only: max_by_key_None_iff)
    then have "\<not> components_start_with ?p (path_components w)" if "(w, c) \<in> set regs" for w c
      using hit [OF that] by auto
    with None show ?thesis
      by (auto simp: attribute_change_def)
  next
    case (Some best)
    obtain key children where best: "best = (key, children)" by (cases best)
    have mem: "(key, children) \<in> set (register_all regs)" "components_start_with ?p key"
      and deepest: "\<forall>(k, c) \<in> set ?hits. length k \<le> length key"
      using max_by_key_Some [OF Some] by (auto simp: best)
    have children: "children = owners_of regs key" "children \<noteq> {}"
      using register_all_mem [OF mem(1)] by blast+
    have depth: "length (path_components w) \<le> length key"
      if "(w, c) \<in> set regs" "components_start_with ?p (path_components w)" for w c
      using hit [OF that] deepest by blast
    have owner: "\<exists>w. (w, c) \<in> set regs \<and> path_components w = key" if "c \<in> children" for c
      using that children by (simp add: owners_of_def)
    have single: "children = {Min children}" if "card children = 1"
      using that by (metis Min_singleton card_1_singletonE)
    have outcome: "attribute_change (register_all regs) path evidence =
        (if card children = 1 then AttributedTo (Min children)
         else case evidence of
           Some child \<Rightarrow> if child \<in> children then AttributedTo child else AmbiguousOwner
         | None \<Rightarrow> AmbiguousOwner)"
      using Some children(2) by (simp add: attribute_change_def best)
    have owned: "attribute_change (register_all regs) path evidence \<noteq> Unowned"
      by (simp add: outcome split: option.split)
    obtain w0 c0 where w0: "(w0, c0) \<in> set regs" "path_components w0 = key"
      using owner children(2) by blast
    have credited: "child \<in> children \<and> (children = {child} \<or> evidence = Some child)"
      if "attribute_change (register_all regs) path evidence = AttributedTo child"
      using that single by (auto simp: outcome split: if_splits option.splits)
    have "\<exists>w. (w, child) \<in> set regs \<and> components_start_with ?p (path_components w) \<and>
        (\<forall>(w', c') \<in> set regs. components_start_with ?p (path_components w') \<longrightarrow>
           length (path_components w') \<le> length (path_components w)) \<and>
        (owners_of regs (path_components w) = {child} \<or> evidence = Some child)"
      if attributed: "attribute_change (register_all regs) path evidence = AttributedTo child"
    proof -
      obtain w where w: "(w, child) \<in> set regs" "path_components w = key"
        using owner credited [OF attributed] by blast
      then show ?thesis
        using depth credited [OF attributed] mem(2) children(1) by (intro exI [of _ w]) auto
    qed
    moreover have "\<not> (\<forall>(w, c) \<in> set regs. \<not> components_start_with ?p (path_components w))"
      using w0 mem(2) by auto
    ultimately show ?thesis
      using owned by blast
  qed
qed

theorem attribution_justified_witness:
  "attribute_change (register_all [(''/w/a'', ChildSessionId (SessionId 1))]) ''/other/x'' None = Unowned"
  using attribution_justified [of "[(''/w/a'', ChildSessionId (SessionId 1))]" "''/other/x''" None]
  by (simp add: components_start_with_def path_components_def Let_def List.map_filter_def)

end
