(* ===== verification/Process_Model.thy ===== *)
theory Process_Model
  imports Identity
begin

text \<open>
  Process evidence, \<open>model.rs\<close> of \<open>watchdog-process\<close>: cumulative CPU and I/O counters with
  checked arithmetic, process samples, tree snapshots and their comparison. A \<open>BTreeMap\<close> by
  process identifier is a \<open>btree_map\<close>; the uncertainty set is a set. The theory shows that a
  comparison never turns missing or inconsistent evidence into inactivity.
\<close>

section \<open>Counters\<close>

record cpu_counters =
  user_ticks :: u64
  system_ticks :: u64
  children_user_ticks :: u64
  children_system_ticks :: u64

definition cpu_zero :: cpu_counters where
  "cpu_zero = \<lparr>user_ticks = 0, system_ticks = 0, children_user_ticks = 0, children_system_ticks = 0\<rparr>"

definition cpu_zip ::
  "(u64 \<Rightarrow> u64 \<Rightarrow> u64 option) \<Rightarrow> cpu_counters \<Rightarrow> cpu_counters \<Rightarrow> cpu_counters option" where
  "cpu_zip f a b =
     Option.bind (f (user_ticks a) (user_ticks b)) (\<lambda>u.
     Option.bind (f (system_ticks a) (system_ticks b)) (\<lambda>s.
     Option.bind (f (children_user_ticks a) (children_user_ticks b)) (\<lambda>cu.
     Option.bind (f (children_system_ticks a) (children_system_ticks b)) (\<lambda>cs.
       Some \<lparr>user_ticks = u, system_ticks = s, children_user_ticks = cu,
             children_system_ticks = cs\<rparr>))))"

definition cpu_checked_delta :: "cpu_counters \<Rightarrow> cpu_counters \<Rightarrow> cpu_counters option" where
  "cpu_checked_delta current previous = cpu_zip checked_sub current previous"

definition cpu_checked_add :: "cpu_counters \<Rightarrow> cpu_counters \<Rightarrow> cpu_counters option" where
  "cpu_checked_add a b = cpu_zip checked_add a b"

definition cpu_any_grew :: "cpu_counters \<Rightarrow> bool" where
  "cpu_any_grew c \<longleftrightarrow> user_ticks c > 0 \<or> system_ticks c > 0 \<or> children_user_ticks c > 0 \<or>
     children_system_ticks c > 0"

definition cpu_all_four_grew :: "cpu_counters \<Rightarrow> bool" where
  "cpu_all_four_grew c \<longleftrightarrow> user_ticks c > 0 \<and> system_ticks c > 0 \<and> children_user_ticks c > 0 \<and>
     children_system_ticks c > 0"

record io_counters =
  read_bytes :: u64
  write_bytes :: u64

definition io_zero :: io_counters where
  "io_zero = \<lparr>read_bytes = 0, write_bytes = 0\<rparr>"

definition io_checked_delta :: "io_counters \<Rightarrow> io_counters \<Rightarrow> io_counters option" where
  "io_checked_delta current previous =
     Option.bind (checked_sub (read_bytes current) (read_bytes previous)) (\<lambda>r.
     Option.bind (checked_sub (write_bytes current) (write_bytes previous)) (\<lambda>w.
       Some \<lparr>read_bytes = r, write_bytes = w\<rparr>))"

definition io_checked_add :: "io_counters \<Rightarrow> io_counters \<Rightarrow> io_counters option" where
  "io_checked_add a b =
     Option.bind (checked_add (read_bytes a) (read_bytes b)) (\<lambda>r.
     Option.bind (checked_add (write_bytes a) (write_bytes b)) (\<lambda>w.
       Some \<lparr>read_bytes = r, write_bytes = w\<rparr>))"

definition io_any_grew :: "io_counters \<Rightarrow> bool" where
  "io_any_grew c \<longleftrightarrow> read_bytes c > 0 \<or> write_bytes c > 0"

section \<open>Samples and trees\<close>

datatype process_state =
    ProcRunning | Sleeping | DiskSleep | Stopped | Zombie | ProcIdle | OtherState char

definition process_state_from_code :: "char \<Rightarrow> process_state" where
  "process_state_from_code code =
     (if code = CHR ''R'' then ProcRunning
      else if code = CHR ''S'' then Sleeping
      else if code = CHR ''D'' then DiskSleep
      else if code = CHR ''T'' \<or> code = CHR ''t'' then Stopped
      else if code = CHR ''Z'' then Zombie
      else if code = CHR ''I'' then ProcIdle
      else OtherState code)"

record command_fingerprint =
  cf_argument_count :: u32
  cf_observed_bytes :: u64
  cf_truncated :: bool

definition from_redacted_cmdline :: "byte list \<Rightarrow> bool \<Rightarrow> command_fingerprint" where
  "from_redacted_cmdline command truncated =
     \<lparr>cf_argument_count =
        word_of_usize (length (filter (\<lambda>argument. argument \<noteq> []) (split_by (\<lambda>b. b = 0) command))),
      cf_observed_bytes = word_of_usize (length command), cf_truncated = truncated\<rparr>"

record process_sample =
  smp_identity :: process_identity
  smp_parent_pid :: "process_id option"
  smp_state :: process_state
  smp_cpu :: cpu_counters
  smp_io :: "io_counters option"
  smp_command :: command_fingerprint

datatype sample_uncertainty =
    ProcessVanished process_id
  | IdentityChanged process_id
  | CounterReset process_id
  | CounterOverflow process_id
  | IoUnavailable process_id
  | EnumerationIncomplete

datatype process_tree_error = MissingRoot | RootIdentityMismatch | DuplicatePid process_id

record process_tree_snapshot =
  pts_root :: process_identity
  pts_processes :: "(process_id, process_sample) btree_map"
  pts_uncertainties :: "sample_uncertainty set"

fun collect_samples ::
  "process_sample list \<Rightarrow> (process_id, process_sample) btree_map \<Rightarrow>
     process_tree_error + (process_id, process_sample) btree_map" where
  "collect_samples [] m = Inr m"
| "collect_samples (sample # samples) m =
     (let pid = pi_pid (smp_identity sample) in
      if map_of m pid \<noteq> None then Inl (DuplicatePid pid)
      else collect_samples samples (btree_insert pid sample m))"

definition process_tree_snapshot_new ::
  "process_identity \<Rightarrow> process_sample list \<Rightarrow> sample_uncertainty set \<Rightarrow>
     process_tree_error + process_tree_snapshot" where
  "process_tree_snapshot_new root samples uncertainties =
     and_then (collect_samples samples []) (\<lambda>processes.
     and_then (ok_or MissingRoot (map_of processes (pi_pid root))) (\<lambda>root_sample.
       if smp_identity root_sample \<noteq> root then Inl RootIdentityMismatch
       else Inr \<lparr>pts_root = root, pts_processes = processes,
                 pts_uncertainties = uncertainties\<rparr>))"

section \<open>Activity between two snapshots\<close>

datatype activity_strength = Neutral | ActivityEvidence | StrongCpu

record process_activity =
  pa_strength :: activity_strength
  pa_cpu :: cpu_counters
  pa_io :: io_counters
  pa_new_processes :: u32
  pa_uncertainties :: "sample_uncertainty set"

text \<open>The accumulators of the loop over the current processes.\<close>

record activity_acc =
  acc_cpu :: cpu_counters
  acc_io :: io_counters
  acc_new :: u32
  acc_unc :: "sample_uncertainty set"

definition note_cpu ::
  "process_id \<Rightarrow> process_sample \<Rightarrow> process_sample \<Rightarrow> activity_acc \<Rightarrow> activity_acc" where
  "note_cpu pid current before acc =
     (case cpu_checked_delta (smp_cpu current) (smp_cpu before) of
        Some delta \<Rightarrow>
          (case cpu_checked_add (acc_cpu acc) delta of
             Some tot \<Rightarrow> acc\<lparr>acc_cpu := tot\<rparr>
           | None \<Rightarrow> acc\<lparr>acc_unc := insert (CounterOverflow pid) (acc_unc acc)\<rparr>)
      | None \<Rightarrow> acc\<lparr>acc_unc := insert (CounterReset pid) (acc_unc acc)\<rparr>)"

definition note_io ::
  "process_id \<Rightarrow> process_sample \<Rightarrow> process_sample \<Rightarrow> activity_acc \<Rightarrow> activity_acc" where
  "note_io pid current before acc =
     (case (smp_io current, smp_io before) of
        (Some current_io, Some before_io) \<Rightarrow>
          (case io_checked_delta current_io before_io of
             Some delta \<Rightarrow>
               (case io_checked_add (acc_io acc) delta of
                  Some tot \<Rightarrow> acc\<lparr>acc_io := tot\<rparr>
                | None \<Rightarrow> acc\<lparr>acc_unc := insert (CounterOverflow pid) (acc_unc acc)\<rparr>)
           | None \<Rightarrow> acc\<lparr>acc_unc := insert (CounterReset pid) (acc_unc acc)\<rparr>)
      | _ \<Rightarrow> acc\<lparr>acc_unc := insert (IoUnavailable pid) (acc_unc acc)\<rparr>)"

definition compare_process ::
  "(process_id, process_sample) btree_map \<Rightarrow> process_id \<times> process_sample \<Rightarrow> activity_acc \<Rightarrow>
     activity_acc" where
  "compare_process previous entry acc =
     (let (pid, current) = entry in
      case map_of previous pid of
        None \<Rightarrow> acc\<lparr>acc_new := saturating_add (acc_new acc) 1\<rparr>
      | Some before \<Rightarrow>
          if pi_start_time_ticks (smp_identity current) \<noteq> pi_start_time_ticks (smp_identity before) \<or>
             pi_executable (smp_identity current) \<noteq> pi_executable (smp_identity before)
          then acc\<lparr>acc_unc := insert (IdentityChanged pid) (acc_unc acc)\<rparr>
          else note_io pid current before (note_cpu pid current before acc))"

definition activity_since ::
  "process_tree_snapshot \<Rightarrow> process_tree_snapshot \<Rightarrow> process_activity" where
  "activity_since current previous =
     (let acc = \<lparr>acc_cpu = cpu_zero, acc_io = io_zero, acc_new = 0,
                 acc_unc = pts_uncertainties previous \<union> pts_uncertainties current\<rparr>;
          acc = fold (compare_process (pts_processes previous)) (pts_processes current) acc;
          uncertainties =
            fold (\<lambda>(pid, _) unc. if map_of (pts_processes current) pid = None
                                then insert (ProcessVanished pid) unc else unc)
              (pts_processes previous) (acc_unc acc);
          strength = (if cpu_all_four_grew (acc_cpu acc) then StrongCpu
                      else if cpu_any_grew (acc_cpu acc) \<or> io_any_grew (acc_io acc) \<or> acc_new acc > 0
                      then ActivityEvidence else Neutral)
      in \<lparr>pa_strength = strength, pa_cpu = acc_cpu acc, pa_io = acc_io acc,
          pa_new_processes = acc_new acc, pa_uncertainties = uncertainties\<rparr>)"

section \<open>Counter arithmetic\<close>

lemma cpu_zip_Some_iff:
  "cpu_zip f a b = Some c \<longleftrightarrow>
     f (user_ticks a) (user_ticks b) = Some (user_ticks c) \<and>
     f (system_ticks a) (system_ticks b) = Some (system_ticks c) \<and>
     f (children_user_ticks a) (children_user_ticks b) = Some (children_user_ticks c) \<and>
     f (children_system_ticks a) (children_system_ticks b) = Some (children_system_ticks c)"
  by (cases c) (auto simp: cpu_zip_def bind_eq_Some_conv)

lemma checked_add_zero_iff: "checked_add a b = Some 0 \<longleftrightarrow> a = 0 \<and> b = 0"
  by (auto simp: checked_add_Some_iff word_unat_eq_iff)

lemma checked_sub_zero_iff: "checked_sub a b = Some 0 \<longleftrightarrow> a = b"
  by (auto simp: checked_sub_Some_iff word_unat_eq_iff)

lemma cpu_add_zero_iff: "cpu_checked_add a b = Some cpu_zero \<longleftrightarrow> a = cpu_zero \<and> b = cpu_zero"
  by (cases a; cases b) (auto simp: cpu_checked_add_def cpu_zip_Some_iff checked_add_zero_iff cpu_zero_def)

lemma cpu_delta_zero_iff: "cpu_checked_delta a b = Some cpu_zero \<longleftrightarrow> a = b"
  by (cases a; cases b) (auto simp: cpu_checked_delta_def cpu_zip_Some_iff checked_sub_zero_iff cpu_zero_def)

lemma io_add_zero_iff: "io_checked_add a b = Some io_zero \<longleftrightarrow> a = io_zero \<and> b = io_zero"
  by (cases a; cases b)
    (auto simp: io_checked_add_def io_zero_def bind_eq_Some_conv checked_add_zero_iff)

lemma io_delta_zero_iff: "io_checked_delta a b = Some io_zero \<longleftrightarrow> a = b"
  by (cases a; cases b)
    (auto simp: io_checked_delta_def io_zero_def bind_eq_Some_conv checked_sub_zero_iff)

lemma cpu_none_grew_iff: "\<not> cpu_any_grew c \<longleftrightarrow> c = cpu_zero"
  by (cases c) (auto simp: cpu_any_grew_def cpu_zero_def word_gt_0)

lemma io_none_grew_iff: "\<not> io_any_grew c \<longleftrightarrow> c = io_zero"
  by (cases c) (auto simp: io_any_grew_def io_zero_def word_gt_0)

section \<open>Neutral evidence\<close>

text \<open>A process compares equal: same identity facts and counters, with I/O readable both times.\<close>

definition unchanged_process :: "process_sample \<Rightarrow> process_sample \<Rightarrow> bool" where
  "unchanged_process current before \<longleftrightarrow>
     pi_start_time_ticks (smp_identity current) = pi_start_time_ticks (smp_identity before) \<and>
     pi_executable (smp_identity current) = pi_executable (smp_identity before) \<and>
     smp_cpu current = smp_cpu before \<and> smp_io current \<noteq> None \<and> smp_io current = smp_io before"

definition acc_quiet :: "activity_acc \<Rightarrow> bool" where
  "acc_quiet acc \<longleftrightarrow> acc_cpu acc = cpu_zero \<and> acc_io acc = io_zero \<and> acc_new acc = 0 \<and> acc_unc acc = {}"

lemma note_cpu_quiet:
  "acc_quiet (note_cpu pid cur before acc) \<longleftrightarrow> acc_quiet acc \<and> smp_cpu cur = smp_cpu before"
  by (auto simp: note_cpu_def acc_quiet_def cpu_add_zero_iff cpu_delta_zero_iff split: option.splits)
    (metis cpu_add_zero_iff cpu_delta_zero_iff option.distinct(1) option.inject)+

lemma note_io_quiet:
  "acc_quiet (note_io pid cur before acc) \<longleftrightarrow>
     acc_quiet acc \<and> smp_io cur \<noteq> None \<and> smp_io cur = smp_io before"
  by (auto simp: note_io_def acc_quiet_def split: option.splits)
    (metis io_add_zero_iff io_delta_zero_iff option.distinct(1) option.inject)+

lemma compare_quiet:
  "acc_quiet (compare_process previous (pid, cur) acc) \<longleftrightarrow>
     acc_quiet acc \<and> (\<exists>before. map_of previous pid = Some before \<and> unchanged_process cur before)"
proof -
  have "saturating_add (acc_new acc) 1 \<noteq> (0 :: u32)"
    using unat_saturating_add [of "acc_new acc" 1] by (auto simp: unat_eq_zero)
  then show ?thesis
    by (auto simp: compare_process_def unchanged_process_def note_io_quiet note_cpu_quiet
        split: option.split) (auto simp: acc_quiet_def)
qed

lemma fold_compare_quiet:
  "acc_quiet (fold (compare_process previous) entries acc) \<longleftrightarrow>
     acc_quiet acc \<and>
     (\<forall>(pid, cur) \<in> set entries. \<exists>before. map_of previous pid = Some before \<and> unchanged_process cur before)"
proof (induction entries arbitrary: acc)
  case (Cons e entries)
  then show ?case
    by (cases e) (simp add: compare_quiet conj_assoc)
qed simp

lemma fold_vanished:
  "fold (\<lambda>(pid, _) unc. if map_of cur pid = None then insert (ProcessVanished pid) unc else unc) entries unc =
     unc \<union> {ProcessVanished pid |pid. pid \<in> fst ` set entries \<and> map_of cur pid = None}"
  by (induction entries arbitrary: unc) (auto split: prod.splits)

text \<open>
  Neutral process evidence is never a guess: the comparison of two snapshots is neutral and
  free of uncertainty exactly when both snapshots were sampled without uncertainty, they contain
  the same processes, and every process has the same identity, the same four CPU counters and
  the same, readable, I/O counters. A vanished, replaced, new or unreadable process, or a counter
  that ran backwards or overflowed, always shows up as activity or as an uncertainty.
\<close>
theorem neutral_activity_iff_unchanged:
  "pa_strength (activity_since current previous) = Neutral \<and>
     pa_uncertainties (activity_since current previous) = {} \<longleftrightarrow>
   pts_uncertainties previous = {} \<and> pts_uncertainties current = {} \<and>
   (\<forall>pid \<in> fst ` set (pts_processes previous). map_of (pts_processes current) pid \<noteq> None) \<and>
   (\<forall>(pid, cur) \<in> set (pts_processes current).
      \<exists>before. map_of (pts_processes previous) pid = Some before \<and> unchanged_process cur before)"
proof -
  define acc0 where "acc0 = \<lparr>acc_cpu = cpu_zero, acc_io = io_zero, acc_new = 0,
    acc_unc = pts_uncertainties previous \<union> pts_uncertainties current\<rparr>"
  define acc where "acc = fold (compare_process (pts_processes previous)) (pts_processes current) acc0"
  let ?vanished = "{ProcessVanished pid |pid. pid \<in> fst ` set (pts_processes previous) \<and>
    map_of (pts_processes current) pid = None}"
  have "pa_strength (activity_since current previous) = Neutral \<longleftrightarrow>
      acc_cpu acc = cpu_zero \<and> acc_io acc = io_zero \<and> acc_new acc = 0"
    using cpu_none_grew_iff [of "acc_cpu acc"] io_none_grew_iff [of "acc_io acc"]
    by (auto simp: activity_since_def acc_def acc0_def Let_def word_gt_0 cpu_all_four_grew_def
        cpu_zero_def)
  moreover have "pa_uncertainties (activity_since current previous) = acc_unc acc \<union> ?vanished"
    by (simp add: activity_since_def acc_def acc0_def Let_def fold_vanished)
  ultimately have "pa_strength (activity_since current previous) = Neutral \<and>
      pa_uncertainties (activity_since current previous) = {} \<longleftrightarrow> acc_quiet acc \<and> ?vanished = {}"
    by (auto simp: acc_quiet_def)
  also have "\<dots> \<longleftrightarrow> acc_quiet acc0 \<and> ?vanished = {} \<and>
      (\<forall>(pid, cur) \<in> set (pts_processes current).
        \<exists>before. map_of (pts_processes previous) pid = Some before \<and> unchanged_process cur before)"
    by (auto simp: acc_def fold_compare_quiet)
  finally show ?thesis
    by (auto simp: acc_quiet_def acc0_def)
qed

definition sample_process_of :: "u64 \<Rightarrow> io_counters option \<Rightarrow> process_sample" where
  "sample_process_of ticks io =
     \<lparr>smp_identity = \<lparr>pi_pid = ProcessId 10, pi_start_time_ticks = 5, pi_executable = ''/bin/codex''\<rparr>,
      smp_parent_pid = None, smp_state = Sleeping,
      smp_cpu = \<lparr>user_ticks = ticks, system_ticks = 0, children_user_ticks = 0, children_system_ticks = 0\<rparr>,
      smp_io = io, smp_command = from_redacted_cmdline [] False\<rparr>"

definition sample_tree_of :: "process_sample \<Rightarrow> process_tree_snapshot" where
  "sample_tree_of smp = \<lparr>pts_root = smp_identity smp, pts_processes = [(ProcessId 10, smp)],
     pts_uncertainties = {}\<rparr>"

theorem neutral_activity_iff_unchanged_witness:
  "\<not> (pa_strength (activity_since (sample_tree_of (sample_process_of 7 None))
        (sample_tree_of (sample_process_of 7 None))) = Neutral \<and>
      pa_uncertainties (activity_since (sample_tree_of (sample_process_of 7 None))
        (sample_tree_of (sample_process_of 7 None))) = {})"
  by (subst neutral_activity_iff_unchanged)
    (simp add: sample_tree_of_def sample_process_of_def unchanged_process_def)

text \<open>Trees contain only the samples given, each under its own process identifier.\<close>

lemma collect_samples_Inr:
  "collect_samples samples m = Inr m' \<Longrightarrow> btree_wf m \<Longrightarrow>
     btree_wf m' \<and>
     (\<forall>k v. map_of m' k = Some v \<longrightarrow>
        map_of m k = Some v \<or> (v \<in> set samples \<and> pi_pid (smp_identity v) = k))"
proof (induction samples arbitrary: m)
  case (Cons s samples)
  let ?m = "btree_insert (pi_pid (smp_identity s)) s m"
  have "collect_samples samples ?m = Inr m'"
    using Cons.prems(1) by (auto simp: Let_def split: if_splits)
  from Cons.IH [OF this] Cons.prems(2) show ?case
    by (auto split: if_splits)
qed simp

lemma process_tree_snapshot_new_Inr:
  assumes "process_tree_snapshot_new root samples uncertainties = Inr tree"
  shows "pts_root tree = root" and "pts_uncertainties tree = uncertainties"
    and "\<exists>smp. map_of (pts_processes tree) (pi_pid root) = Some smp \<and> smp_identity smp = root"
    and "map_of (pts_processes tree) k = Some v \<Longrightarrow> v \<in> set samples \<and> pi_pid (smp_identity v) = k"
proof -
  obtain m smp where m: "collect_samples samples [] = Inr m" "map_of m (pi_pid root) = Some smp"
    "smp_identity smp = root"
    and tree: "tree = \<lparr>pts_root = root, pts_processes = m, pts_uncertainties = uncertainties\<rparr>"
    using assms by (auto simp: process_tree_snapshot_new_def result_elims split: if_splits)
  show "pts_root tree = root" "pts_uncertainties tree = uncertainties"
    by (simp_all add: tree)
  show "\<exists>smp. map_of (pts_processes tree) (pi_pid root) = Some smp \<and> smp_identity smp = root"
    using m by (simp add: tree)
  show "v \<in> set samples \<and> pi_pid (smp_identity v) = k" if "map_of (pts_processes tree) k = Some v"
    using collect_samples_Inr [OF m(1)] that by (simp add: tree)
qed

end
