(* ===== verification/Procfs.thy ===== *)
theory Procfs
  imports Process_Model
begin

text \<open>
  Reading Linux process evidence, \<open>procfs.rs\<close> and \<open>linux.rs\<close>: the \<open>stat\<close> and \<open>io\<close> record
  parsers, the bounded sampler and the verified pidfd control. What the kernel returns is the
  record \<open>procfs\<close> of a moment (directory entries, file contents, links); operations that read
  at several moments take one such record per moment. Main results: the \<open>stat\<close> parser is immune
  to the command text, \<open>descendant_ids\<close> is exactly the process tree, and a handle is opened only
  between two matching identity checks.
\<close>

section \<open>Record parsers\<close>

datatype proc_stat_parse_error =
    MissingCommandBoundary
  | MissingStatField string
  | InvalidStatField string int_error_kind
  | ZeroPid

datatype io_parse_error = MissingIoField string | InvalidIoField string int_error_kind

record proc_stat =
  ps_pid :: process_id
  ps_parent_pid :: "process_id option"
  ps_state :: process_state
  ps_start_time_ticks :: u64
  ps_cpu :: cpu_counters

definition required :: "string list \<Rightarrow> nat \<Rightarrow> string \<Rightarrow> proc_stat_parse_error + string" where
  "required cols index field =
     (if index < length cols then Inr (cols ! index) else Inl (MissingStatField field))"

definition parse_stat_int :: "string \<Rightarrow> string \<Rightarrow> proc_stat_parse_error + 'n::len word" where
  "parse_stat_int v field = map_err (InvalidStatField field) (parse_unsigned v)"

definition parse_pid :: "string \<Rightarrow> string \<Rightarrow> proc_stat_parse_error + process_id" where
  "parse_pid v field =
     and_then (parse_stat_int v field) (\<lambda>n. map_err (\<lambda>_. ZeroPid) (process_id_new n))"

definition required_int ::
  "string list \<Rightarrow> nat \<Rightarrow> string \<Rightarrow> proc_stat_parse_error + 'n::len word" where
  "required_int cols index field =
     and_then (required cols index field) (\<lambda>v. parse_stat_int v field)"

text \<open>The first character of a field, as \<open>chars().next()\<close> returns it for ASCII text.\<close>

definition proc_stat_parse :: "string \<Rightarrow> proc_stat_parse_error + proc_stat" where
  "proc_stat_parse rec =
     and_then (ok_or MissingCommandBoundary (rposition (\<lambda>c. c = CHR '')'') rec)) (\<lambda>command_end.
     and_then (ok_or (MissingStatField ''pid'') (position (\<lambda>c. c = CHR '' '') rec)) (\<lambda>pid_end.
     and_then (parse_pid (take pid_end rec) ''pid'') (\<lambda>pid.
     let cols = split_whitespace (drop (Suc command_end) rec) in
     and_then (required cols 0 ''state'') (\<lambda>state_field.
     and_then (ok_or (MissingStatField ''state'')
                 (case state_field of [] \<Rightarrow> None | c # _ \<Rightarrow> Some c)) (\<lambda>state.
     and_then (required_int cols 1 ''parent_pid'') (\<lambda>parent_raw.
     and_then (required_int cols 19 ''start_time_ticks'') (\<lambda>start_time_ticks.
     and_then (required_int cols 11 ''user_ticks'') (\<lambda>user.
     and_then (required_int cols 12 ''system_ticks'') (\<lambda>system.
     and_then (required_int cols 13 ''children_user_ticks'') (\<lambda>children_user.
     and_then (required_int cols 14 ''children_system_ticks'') (\<lambda>children_system.
       Inr \<lparr>ps_pid = pid, ps_parent_pid = ok (process_id_new parent_raw),
            ps_state = process_state_from_code state, ps_start_time_ticks = start_time_ticks,
            ps_cpu = \<lparr>user_ticks = user, system_ticks = system,
                      children_user_ticks = children_user,
                      children_system_ticks = children_system\<rparr>\<rparr>)))))))))))"

definition parse_io :: "string \<Rightarrow> string \<Rightarrow> io_parse_error + u64" where
  "parse_io v field = map_err (InvalidIoField field) (parse_unsigned (trim v))"

fun io_lines ::
  "string list \<Rightarrow> u64 option \<Rightarrow> u64 option \<Rightarrow> io_parse_error + u64 option \<times> u64 option" where
  "io_lines [] r w = Inr (r, w)"
| "io_lines (line # rest) r w =
     (case split_once '':'' line of
        None \<Rightarrow> io_lines rest r w
      | Some (key, raw_value) \<Rightarrow>
          if key = ''read_bytes''
          then and_then (parse_io raw_value ''read_bytes'') (\<lambda>v. io_lines rest (Some v) w)
          else if key = ''write_bytes''
          then and_then (parse_io raw_value ''write_bytes'') (\<lambda>v. io_lines rest r (Some v))
          else io_lines rest r w)"

definition io_counters_parse :: "string \<Rightarrow> io_parse_error + io_counters" where
  "io_counters_parse rec =
     and_then (io_lines (text_lines rec) None None) (\<lambda>(r, w).
     and_then (ok_or (MissingIoField ''read_bytes'') r) (\<lambda>r.
     and_then (ok_or (MissingIoField ''write_bytes'') w) (\<lambda>w.
       Inr \<lparr>read_bytes = r, write_bytes = w\<rparr>)))"

section \<open>Bounded reads\<close>

datatype io_error = OsError int | InvalidData

record procfs =
  pf_dir :: "io_error + (io_error + string) list"
  pf_file :: "string \<Rightarrow> io_error + string"
  pf_link :: "string \<Rightarrow> io_error + string"

datatype process_read_error =
    InvalidBudget
  | EnumerateError io_error
  | ReadError process_id io_error
  | ParseStatError process_id proc_stat_parse_error
  | NonUtf8Executable process_id
  | ExecutableBound process_id domain_input_error
  | ReadIdentityMismatch process_id
  | TreeError process_tree_error

definition MAX_STAT_BYTES :: nat where "MAX_STAT_BYTES = 64 * 1024"
definition MAX_IO_BYTES :: nat where "MAX_IO_BYTES = 64 * 1024"
definition MAX_COMMAND_BYTES :: nat where "MAX_COMMAND_BYTES = 16 * 1024"
definition MAX_COMM_BYTES :: nat where "MAX_COMM_BYTES = 512"

definition proc_path :: "process_id \<Rightarrow> string \<Rightarrow> string" where
  "proc_path pid rec = ''/proc/'' @ print_nat (unat (process_id_value pid)) @ CHR ''/'' # rec"

definition read_bounded_bytes :: "procfs \<Rightarrow> string \<Rightarrow> nat \<Rightarrow> io_error + string \<times> bool" where
  "read_bounded_bytes fs path max_bytes =
     map_ok (\<lambda>content.
       let bytes = take (max_bytes + 1) content;
           truncated = (length bytes > max_bytes)
       in (if truncated then take max_bytes bytes else bytes, truncated)) (pf_file fs path)"

definition read_bounded :: "procfs \<Rightarrow> string \<Rightarrow> nat \<Rightarrow> io_error + string" where
  "read_bounded fs path max_bytes =
     and_then (read_bounded_bytes fs path max_bytes) (\<lambda>(bytes, truncated).
       if truncated then Inl InvalidData
       else if utf8_valid bytes then Inr bytes else Inl InvalidData)"

definition read_stat :: "procfs \<Rightarrow> process_id \<Rightarrow> process_read_error + proc_stat" where
  "read_stat fs pid =
     and_then (map_err (ReadError pid) (read_bounded fs (proc_path pid ''stat'') MAX_STAT_BYTES))
       (\<lambda>rec. map_err (ParseStatError pid) (proc_stat_parse rec))"

definition read_executable :: "procfs \<Rightarrow> process_id \<Rightarrow> process_read_error + string" where
  "read_executable fs pid =
     and_then
       (case pf_link fs (proc_path pid ''exe'') of
          Inr executable \<Rightarrow>
            if utf8_valid executable then Inr executable else Inl (NonUtf8Executable pid)
        | Inl _ \<Rightarrow>
            map_ok (\<lambda>comm. ''comm:'' @ trim_end comm)
              (map_err (ReadError pid) (read_bounded fs (proc_path pid ''comm'') MAX_COMM_BYTES)))
       (\<lambda>executable. map_err (ExecutableBound pid)
          (bounded_text_new 512 ''process_executable'' executable))"

definition read_identity :: "procfs \<Rightarrow> process_id \<Rightarrow> process_read_error + process_identity" where
  "read_identity fs pid =
     and_then (read_stat fs pid) (\<lambda>stat.
     and_then (read_executable fs pid) (\<lambda>executable.
       Inr \<lparr>pi_pid = ps_pid stat, pi_start_time_ticks = ps_start_time_ticks stat,
            pi_executable = executable\<rparr>))"

definition sample_process :: "procfs \<Rightarrow> proc_stat \<Rightarrow> process_read_error + process_sample" where
  "sample_process fs stat =
     (let pid = ps_pid stat in
      and_then (read_executable fs pid) (\<lambda>executable.
        let io = (case ok (read_bounded fs (proc_path pid ''io'') MAX_IO_BYTES) of
                    None \<Rightarrow> None | Some rec \<Rightarrow> ok (io_counters_parse rec));
            (command, truncated) =
              (case read_bounded_bytes fs (proc_path pid ''cmdline'') MAX_COMMAND_BYTES of
                 Inl _ \<Rightarrow> ([], True) | Inr r \<Rightarrow> r)
        in Inr \<lparr>smp_identity = \<lparr>pi_pid = pid, pi_start_time_ticks = ps_start_time_ticks stat,
                                pi_executable = executable\<rparr>,
                smp_parent_pid = ps_parent_pid stat, smp_state = ps_state stat,
                smp_cpu = ps_cpu stat, smp_io = io,
                smp_command = from_redacted_cmdline (as_bytes command) truncated\<rparr>))"

section \<open>The sampler\<close>

record linux_process_sampler =
  lps_max_processes :: nat

definition linux_process_sampler_new :: "nat \<Rightarrow> process_read_error + linux_process_sampler" where
  "linux_process_sampler_new max_processes =
     (if max_processes = 0 then Inl InvalidBudget else Inr \<lparr>lps_max_processes = max_processes\<rparr>)"

definition entry_pid :: "string \<Rightarrow> process_id option" where
  "entry_pid name =
     (if utf8_valid name then
        Option.bind (ok (parse_unsigned name :: int_error_kind + u32)) (\<lambda>n. ok (process_id_new n))
      else None)"

fun enumerate_entries ::
  "nat \<Rightarrow> procfs \<Rightarrow> (io_error + string) list \<Rightarrow> nat \<Rightarrow> (process_id, proc_stat) btree_map \<Rightarrow>
     sample_uncertainty set \<Rightarrow> (process_id, proc_stat) btree_map \<times> sample_uncertainty set" where
  "enumerate_entries max_processes fs [] inspected stats unc = (stats, unc)"
| "enumerate_entries max_processes fs (entry # entries) inspected stats unc =
     (if inspected \<ge> max_processes then (stats, insert EnumerationIncomplete unc)
      else case entry of
        Inl _ \<Rightarrow> enumerate_entries max_processes fs entries inspected stats
                 (insert EnumerationIncomplete unc)
      | Inr name \<Rightarrow>
          (case entry_pid name of
             None \<Rightarrow> enumerate_entries max_processes fs entries inspected stats unc
           | Some pid \<Rightarrow>
               (let stats' =
                      (if map_of stats pid \<noteq> None then stats
                       else case read_stat fs pid of
                              Inr stat \<Rightarrow> btree_insert pid stat stats
                            | Inl _ \<Rightarrow> stats)
                in enumerate_entries max_processes fs entries (Suc inspected) stats' unc)))"

definition enumerate_stats ::
  "linux_process_sampler \<Rightarrow> procfs \<Rightarrow>
     process_read_error + (process_id, proc_stat) btree_map \<times> sample_uncertainty set" where
  "enumerate_stats sampler fs =
     and_then (map_err EnumerateError (pf_dir fs)) (\<lambda>entries.
       Inr (enumerate_entries (lps_max_processes sampler) fs entries 0 [] {}))"

text \<open>The inner loop of \<open>descendant_ids\<close>: select and queue the unselected children of a parent.\<close>

fun queue_children ::
  "process_id \<Rightarrow> (process_id, proc_stat) btree_map \<Rightarrow> process_id set \<Rightarrow> process_id list \<Rightarrow>
     process_id set \<times> process_id list" where
  "queue_children parent [] selected queue = (selected, queue)"
| "queue_children parent ((pid, stat) # stats) selected queue =
     (if ps_parent_pid stat = Some parent \<and> pid \<notin> selected
      then queue_children parent stats (insert pid selected) (queue @ [pid])
      else queue_children parent stats selected queue)"

lemma queue_children_result:
  assumes "queue_children parent stats selected queue = (selected', queue')"
  shows "\<exists>new. queue' = queue @ new \<and> distinct new \<and> set new \<inter> selected = {} \<and>
      selected' = selected \<union> set new \<and> set new \<subseteq> fst ` set stats \<and>
      set new \<subseteq> {pid. \<exists>stat. (pid, stat) \<in> set stats \<and> ps_parent_pid stat = Some parent} \<and>
      (\<forall>(pid, stat) \<in> set stats. ps_parent_pid stat = Some parent \<longrightarrow> pid \<in> selected')"
  using assms
proof (induction parent stats selected queue arbitrary: selected' queue' rule: queue_children.induct)
  case (2 parent pid stat stats selected queue)
  show ?case
  proof (cases "ps_parent_pid stat = Some parent \<and> pid \<notin> selected")
    case True
    then have "queue_children parent stats (insert pid selected) (queue @ [pid]) = (selected', queue')"
      using "2.prems" by simp
    from "2.IH"(1) [OF True this] obtain new where
      "queue' = (queue @ [pid]) @ new" "distinct new" "set new \<inter> insert pid selected = {}"
      "selected' = insert pid selected \<union> set new" "set new \<subseteq> fst ` set stats"
      "set new \<subseteq> {pid. \<exists>stat. (pid, stat) \<in> set stats \<and> ps_parent_pid stat = Some parent}"
      "\<forall>(pid, stat) \<in> set stats. ps_parent_pid stat = Some parent \<longrightarrow> pid \<in> selected'"
      by blast
    then show ?thesis
      using True by (intro exI [of _ "pid # new"]) auto
  next
    case False
    then have "queue_children parent stats selected queue = (selected', queue')"
      using "2.prems" by auto
    from "2.IH"(2) [OF False this] obtain new where
      "queue' = queue @ new" "distinct new" "set new \<inter> selected = {}"
      "selected' = selected \<union> set new" "set new \<subseteq> fst ` set stats"
      "set new \<subseteq> {pid. \<exists>stat. (pid, stat) \<in> set stats \<and> ps_parent_pid stat = Some parent}"
      "\<forall>(pid, stat) \<in> set stats. ps_parent_pid stat = Some parent \<longrightarrow> pid \<in> selected'"
      by blast
    then show ?thesis
      using False by (intro exI [of _ new]) auto
  qed
qed simp

function descend ::
  "(process_id, proc_stat) btree_map \<Rightarrow> process_id set \<Rightarrow> process_id list \<Rightarrow> process_id set" where
  "descend stats selected [] = selected"
| "descend stats selected (parent # queue) =
     (case queue_children parent stats selected queue of
        (selected', queue') \<Rightarrow> descend stats selected' queue')"
  by pat_completeness auto

termination
proof (relation "measure (\<lambda>(stats, selected, queue).
    2 * card (fst ` set stats - selected) + length queue)")
  fix stats :: "(process_id, proc_stat) btree_map" and selected parent queue selected' queue'
  assume "(selected', queue') = queue_children parent stats selected queue"
  then obtain new where new: "queue' = queue @ new" "distinct new" "set new \<inter> selected = {}"
    "selected' = selected \<union> set new" "set new \<subseteq> fst ` set stats"
    using queue_children_result [of parent stats selected queue selected' queue'] by auto
  have sub: "set new \<subseteq> fst ` set stats - selected"
    using new(3,5) by auto
  have "fst ` set stats - selected' = (fst ` set stats - selected) - set new"
    using new(4) by auto
  then have "card (fst ` set stats - selected') = card (fst ` set stats - selected) - length new"
    using card_Diff_subset [OF _ sub] distinct_card [OF new(2)] by simp
  moreover have "length new \<le> card (fst ` set stats - selected)"
    using card_mono [OF _ sub] distinct_card [OF new(2)] by simp
  ultimately show "((stats, selected', queue'), (stats, selected, parent # queue))
      \<in> measure (\<lambda>(stats, selected, queue). 2 * card (fst ` set stats - selected) + length queue)"
    using new(1) by simp
qed simp

definition descendant_ids :: "process_id \<Rightarrow> (process_id, proc_stat) btree_map \<Rightarrow> process_id list" where
  "descendant_ids root stats = sorted_list_of_set (descend stats {root} [root])"

fun sample_selected ::
  "procfs \<Rightarrow> process_id \<Rightarrow> (process_id, proc_stat) btree_map \<Rightarrow> process_id list \<Rightarrow>
     process_sample list \<Rightarrow> sample_uncertainty set \<Rightarrow>
     process_read_error + process_sample list \<times> sample_uncertainty set" where
  "sample_selected fs root stats [] samples unc = Inr (samples, unc)"
| "sample_selected fs root stats (pid # pids) samples unc =
     (case map_of stats pid of
        None \<Rightarrow> sample_selected fs root stats pids samples (insert (ProcessVanished pid) unc)
      | Some stat \<Rightarrow>
          (case sample_process fs stat of
             Inr smp \<Rightarrow> sample_selected fs root stats pids (samples @ [smp]) unc
           | Inl error \<Rightarrow>
               if pid = root then Inl error
               else sample_selected fs root stats pids samples (insert (ProcessVanished pid) unc)))"

text \<open>The identity of the root is read at one moment, the selected processes at another.\<close>

definition sample_tree_from_stats ::
  "procfs \<Rightarrow> procfs \<Rightarrow> process_identity \<Rightarrow> (process_id, proc_stat) btree_map \<Rightarrow>
     sample_uncertainty set \<Rightarrow> process_read_error + process_tree_snapshot" where
  "sample_tree_from_stats fs_root fs expected_root stats shared_uncertainties =
     and_then (read_identity fs_root (pi_pid expected_root)) (\<lambda>fresh_root.
       if fresh_root \<noteq> expected_root then Inl (ReadIdentityMismatch (pi_pid expected_root))
       else
         and_then (sample_selected fs (pi_pid expected_root) stats
                     (descendant_ids (pi_pid expected_root) stats) [] shared_uncertainties)
           (\<lambda>(samples, uncertainties).
              map_err TreeError (process_tree_snapshot_new fresh_root samples uncertainties)))"

definition sample_tree ::
  "linux_process_sampler \<Rightarrow> procfs \<Rightarrow> procfs \<Rightarrow> procfs \<Rightarrow> process_identity \<Rightarrow>
     process_read_error + process_tree_snapshot" where
  "sample_tree sampler fs_table fs_root fs expected_root =
     and_then (enumerate_stats sampler fs_table) (\<lambda>(stats, uncertainties).
       sample_tree_from_stats fs_root fs expected_root stats uncertainties)"

definition sample_trees ::
  "linux_process_sampler \<Rightarrow> procfs \<Rightarrow> (process_identity \<Rightarrow> procfs) \<Rightarrow> (process_identity \<Rightarrow> procfs) \<Rightarrow>
     process_identity list \<Rightarrow>
     process_read_error + (process_id, process_read_error + process_tree_snapshot) btree_map" where
  "sample_trees sampler fs_table fs_root fs expected_roots =
     and_then (enumerate_stats sampler fs_table) (\<lambda>(stats, uncertainties).
       Inr (fold (\<lambda>root m. btree_insert (pi_pid root)
                    (sample_tree_from_stats (fs_root root) (fs root) root stats uncertainties) m)
             expected_roots []))"

section \<open>Verified control\<close>

datatype process_signal = Terminate | Kill

type_synonym errno = int

datatype process_control_error =
    ControlRead process_read_error
  | ControlIdentityMismatch process_id
  | InvalidPid process_id
  | OpenPidFd process_id errno
  | SendSignal errno

record 'fd linux_pid_fd =
  fd_descriptor :: 'fd
  fd_identity :: process_identity

definition verify_identity ::
  "process_identity \<Rightarrow> process_identity \<Rightarrow> process_control_error + unit" where
  "verify_identity expected actual =
     (if expected \<noteq> actual then Inl (ControlIdentityMismatch (pi_pid expected)) else Inr ())"

text \<open>
  \<open>i32::try_from(..).ok().and_then(Pid::from_raw)\<close>: the positive \<open>i32\<close> values. The system call
  \<open>pidfd_open\<close> is a parameter; \<open>before\<close> and \<open>after\<close> are procfs around it.
\<close>

definition raw_pid :: "process_id \<Rightarrow> int option" where
  "raw_pid pid =
     (let v = uint (process_id_value pid) in if 0 < v \<and> v \<le> 2147483647 then Some v else None)"

definition open_verified ::
  "procfs \<Rightarrow> (int \<Rightarrow> errno + 'fd) \<Rightarrow> procfs \<Rightarrow> process_identity \<Rightarrow>
     process_control_error + 'fd linux_pid_fd" where
  "open_verified before pidfd_open after expected =
     and_then (map_err ControlRead (read_identity before (pi_pid expected))) (\<lambda>actual.
     and_then (verify_identity expected actual) (\<lambda>_.
     and_then (ok_or (InvalidPid (pi_pid expected)) (raw_pid (pi_pid expected))) (\<lambda>raw.
     and_then (map_err (OpenPidFd (pi_pid expected)) (pidfd_open raw)) (\<lambda>descriptor.
     and_then (map_err ControlRead (read_identity after (pi_pid expected))) (\<lambda>actual.
     and_then (verify_identity expected actual) (\<lambda>_.
       Inr \<lparr>fd_descriptor = descriptor, fd_identity = expected\<rparr>))))))"

definition pid_fd_signal ::
  "('fd \<Rightarrow> process_signal \<Rightarrow> errno + unit) \<Rightarrow> 'fd linux_pid_fd \<Rightarrow> process_signal \<Rightarrow>
     process_control_error + unit" where
  "pid_fd_signal pidfd_send_signal handle signal =
     map_err SendSignal (pidfd_send_signal (fd_descriptor handle) signal)"

section \<open>The process tree\<close>

definition parent_relation :: "(process_id, proc_stat) btree_map \<Rightarrow> (process_id \<times> process_id) set" where
  "parent_relation stats = {(a, b). \<exists>stat. (b, stat) \<in> set stats \<and> ps_parent_pid stat = Some a}"

lemma descend_reachable:
  assumes "set queue \<subseteq> selected"
    and "\<forall>a \<in> selected - set queue. \<forall>b. (a, b) \<in> parent_relation stats \<longrightarrow> b \<in> selected"
  shows "descend stats selected queue = (parent_relation stats)\<^sup>* `` selected"
  using assms
proof (induction stats selected queue rule: descend.induct)
  case (1 stats selected)
  have "b \<in> selected" if "(a, b) \<in> (parent_relation stats)\<^sup>*" "a \<in> selected" for a b
    using that by induction (use "1.prems" in auto)
  then show ?case
    by auto
next
  case (2 stats selected parent queue)
  obtain selected' queue' where q: "queue_children parent stats selected queue = (selected', queue')"
    by fastforce
  obtain new where new: "queue' = queue @ new" "selected' = selected \<union> set new"
    "set new \<subseteq> {pid. \<exists>stat. (pid, stat) \<in> set stats \<and> ps_parent_pid stat = Some parent}"
    "\<forall>(pid, stat) \<in> set stats. ps_parent_pid stat = Some parent \<longrightarrow> pid \<in> selected'"
    using queue_children_result [OF q] by blast
  have parent: "parent \<in> selected"
    using "2.prems"(1) by simp
  have closed: "b \<in> selected'" if "a \<in> selected' - set queue'" "(a, b) \<in> parent_relation stats" for a b
  proof (cases "a = parent")
    case True
    then show ?thesis
      using that(2) new(4) by (auto simp: parent_relation_def)
  next
    case False
    then have "a \<in> selected - set (parent # queue)"
      using that(1) new(1,2) by auto
    then have "b \<in> selected"
      using "2.prems"(2) that(2) by blast
    then show ?thesis
      using new(2) by simp
  qed
  have "descend stats selected' queue' = (parent_relation stats)\<^sup>* `` selected'"
    using closed "2.prems"(1) new(1,2) by (intro "2.IH" [OF q [symmetric]]) auto
  moreover have "set new \<subseteq> parent_relation stats `` selected"
    using new(3) parent by (fastforce simp: parent_relation_def)
  then have "(parent_relation stats)\<^sup>* `` selected' = (parent_relation stats)\<^sup>* `` selected"
    unfolding new(2) by (auto intro: converse_rtrancl_into_rtrancl)
  ultimately show ?case
    by (simp add: q)
qed

lemma descendant_ids_set: "set (descendant_ids root stats) = (parent_relation stats)\<^sup>* `` {root}"
proof -
  have "descend stats {root} [root] = (parent_relation stats)\<^sup>* `` {root}"
    by (rule descend_reachable) auto
  moreover have "(parent_relation stats)\<^sup>* `` {root} \<subseteq> insert root (fst ` set stats)"
  proof
    fix b
    assume "b \<in> (parent_relation stats)\<^sup>* `` {root}"
    then have "(root, b) \<in> (parent_relation stats)\<^sup>*"
      by simp
    then show "b \<in> insert root (fst ` set stats)"
      by (cases rule: rtranclE) (force simp: parent_relation_def)+
  qed
  then have "finite ((parent_relation stats)\<^sup>* `` {root})"
    by (rule finite_subset) simp
  ultimately show ?thesis
    by (simp add: descendant_ids_def)
qed

text \<open>
  The sampled process tree is exact: \<open>descendant_ids\<close> terminates for every process table,
  even one whose parent links form a cycle, and returns exactly the root and every process
  reachable from it through the parent links of the table, each once.
\<close>
theorem descendant_ids_exact:
  "set (descendant_ids root stats) = (parent_relation stats)\<^sup>* `` {root} \<and>
   distinct (descendant_ids root stats)"
  by (simp add: descendant_ids_set) (simp add: descendant_ids_def)

lemma sample_selected_samples:
  assumes "sample_selected fs root stats pids samples unc = Inr (samples', unc')"
    and "smp \<in> set samples'"
  shows "smp \<in> set samples \<or>
    (\<exists>pid stat. pid \<in> set pids \<and> map_of stats pid = Some stat \<and> sample_process fs stat = Inr smp)"
  using assms(1)
proof (induction pids arbitrary: samples unc)
  case Nil
  then show ?case
    using assms(2) by simp
next
  case (Cons pid pids)
  consider (skip) unc'' where "sample_selected fs root stats pids samples unc'' = Inr (samples', unc')"
    | (take) stat s where "map_of stats pid = Some stat" "sample_process fs stat = Inr s"
        "sample_selected fs root stats pids (samples @ [s]) unc = Inr (samples', unc')"
    using Cons.prems by (auto split: option.splits sum.splits if_splits)
  then show ?case
  proof cases
    case skip
    then show ?thesis
      using Cons.IH by fastforce
  next
    case take
    then show ?thesis
      using Cons.IH [OF take(3)] by auto
  qed
qed

lemma sample_process_identity:
  "sample_process fs stat = Inr smp \<Longrightarrow>
     pi_pid (smp_identity smp) = ps_pid stat \<and> smp_cpu smp = ps_cpu stat"
  by (auto simp: sample_process_def Let_def result_elims case_prod_beta)

text \<open>A table whose records belong to the processes they are stored under.\<close>

definition table_ok :: "(process_id, proc_stat) btree_map \<Rightarrow> bool" where
  "table_ok stats \<longleftrightarrow> (\<forall>(pid, stat) \<in> set stats. ps_pid stat = pid)"

text \<open>
  A sampled tree is the verified tree of its root: if sampling succeeds, the root's identity
  was freshly read and equals the expected one, the root's sample carries that identity, and every
  process in the snapshot is a descendant of the root in the captured process table.
\<close>
theorem sample_tree_verified:
  assumes "sample_tree_from_stats fs_root fs expected stats unc = Inr tree"
    and "table_ok stats"
  shows "read_identity fs_root (pi_pid expected) = Inr expected \<and> pts_root tree = expected \<and>
    (\<exists>smp. map_of (pts_processes tree) (pi_pid expected) = Some smp \<and> smp_identity smp = expected) \<and>
    (\<forall>pid smp. map_of (pts_processes tree) pid = Some smp \<longrightarrow>
       pid \<in> (parent_relation stats)\<^sup>* `` {pi_pid expected})"
proof -
  obtain samples unc' where
    fresh: "read_identity fs_root (pi_pid expected) = Inr expected"
    and sel: "sample_selected fs (pi_pid expected) stats (descendant_ids (pi_pid expected) stats) [] unc =
      Inr (samples, unc')"
    and tree: "process_tree_snapshot_new expected samples unc' = Inr tree"
    using assms(1) by (auto simp: sample_tree_from_stats_def result_elims split: if_splits)
  have "pid \<in> (parent_relation stats)\<^sup>* `` {pi_pid expected}"
    if "map_of (pts_processes tree) pid = Some smp" for pid smp
  proof -
    have smp: "smp \<in> set samples" "pi_pid (smp_identity smp) = pid"
      using process_tree_snapshot_new_Inr(4) [OF tree that] by simp_all
    obtain pid' stat where "pid' \<in> set (descendant_ids (pi_pid expected) stats)"
      "map_of stats pid' = Some stat" "sample_process fs stat = Inr smp"
      using sample_selected_samples [OF sel smp(1)] by auto
    moreover from this have "pid = pid'"
      using assms(2) smp(2) sample_process_identity
      by (auto simp: table_ok_def dest: map_of_SomeD)
    ultimately show ?thesis
      using descendant_ids_set by simp
  qed
  then show ?thesis
    using fresh process_tree_snapshot_new_Inr [OF tree] by blast
qed

text \<open>
  C38. Signals go only to the verified process: a control handle exists only if the process read
  immediately before the pidfd was opened and the process read immediately after are both exactly
  the expected one (same identifier, start time and executable), and it carries that identity.
\<close>
theorem open_verified_sound:
  assumes "open_verified before pidfd_open after expected = Inr handle"
  shows "fd_identity handle = expected \<and>
    read_identity before (pi_pid expected) = Inr expected \<and>
    read_identity after (pi_pid expected) = Inr expected \<and>
    pidfd_open (uint (process_id_value (pi_pid expected))) = Inr (fd_descriptor handle)"
  using assms
  by (auto simp: open_verified_def verify_identity_def raw_pid_def Let_def result_elims split: if_splits)

section \<open>The stat record\<close>

text \<open>
  A record as the kernel writes it: the identifier, the command in parentheses, and the other
  columns separated by single spaces.
\<close>

definition print_stat :: "nat \<Rightarrow> string \<Rightarrow> string list \<Rightarrow> string" where
  "print_stat pid command columns =
     print_nat pid @ '' ('' @ command @ '') '' @ join_with CHR '' '' columns"

lemma required_int_print:
  fixes n :: nat
  assumes "i < length cols" and "cols ! i = print_nat n" and "n < 2 ^ LENGTH('n)"
  shows "required_int cols i field = Inr (of_nat n :: 'n::len word)"
  using assms parse_unsigned_print [of n, where 'n = 'n]
  by (simp add: required_int_def required_def parse_stat_int_def)

lemma print_nat_no_blank: "CHR '' '' \<notin> set (print_nat n)"
  using print_nat_no_space [of "CHR '' ''" n] by (auto simp: is_whitespace_def)

text \<open>
  Command text cannot forge process facts: for every command string, with any blanks,
  parentheses or line breaks in it, parsing a kernel \<open>stat\<close> record recovers exactly the printed
  identifier, parent, state, start time and CPU counters.
\<close>
theorem proc_stat_parse_print:
  assumes "0 < pid" and "pid < 2 ^ 32" and "20 \<le> length columns"
    and "\<forall>col \<in> set columns. col \<noteq> [] \<and> (\<forall>c \<in> set col. \<not> is_whitespace c \<and> c \<noteq> CHR '')'')"
    and "columns ! 0 = [state]" and "columns ! 1 = print_nat parent" and "parent < 2 ^ 32"
    and "columns ! 11 = print_nat user" and "user < 2 ^ 64"
    and "columns ! 12 = print_nat system" and "system < 2 ^ 64"
    and "columns ! 13 = print_nat cuser" and "cuser < 2 ^ 64"
    and "columns ! 14 = print_nat csystem" and "csystem < 2 ^ 64"
    and "columns ! 19 = print_nat start" and "start < 2 ^ 64"
  shows "proc_stat_parse (print_stat pid command columns) =
    Inr \<lparr>ps_pid = ProcessId (of_nat pid),
         ps_parent_pid = (if parent = 0 then None else Some (ProcessId (of_nat parent))),
         ps_state = process_state_from_code state, ps_start_time_ticks = of_nat start,
         ps_cpu = \<lparr>user_ticks = of_nat user, system_ticks = of_nat system,
                   children_user_ticks = of_nat cuser, children_system_ticks = of_nat csystem\<rparr>\<rparr>"
proof -
  have drop_past: "drop (Suc (length h)) (h @ x # t) = t" for h t :: string and x
    by simp
  let ?tail = "CHR '' '' # join_with CHR '' '' columns"
  let ?head = "print_nat pid @ '' ('' @ command"
  have rec: "print_stat pid command columns = ?head @ CHR '')'' # ?tail"
    by (simp add: print_stat_def)
  define k where "k = length ?head"
  have tail: "\<forall>c \<in> set ?tail. \<not> c = CHR '')''"
    using assms(4) by (auto dest: in_set_join_with)
  have close: "rposition (\<lambda>c. c = CHR '')'') (print_stat pid command columns) = Some k"
    unfolding rec k_def by (rule rposition_append) (use tail in auto)
  have blank: "position (\<lambda>c. c = CHR '' '') (print_stat pid command columns) = Some (length (print_nat pid))"
    unfolding print_stat_def using print_nat_no_blank
    by (simp only: append.assoc append_Cons) (rule position_append, auto)
  have "take (length (print_nat pid)) (print_stat pid command columns) = print_nat pid"
    by (simp add: print_stat_def)
  moreover have "of_nat pid \<noteq> (0 :: u32)"
    using assms(1,2) of_nat_inverse [of pid "0 :: u32"] by auto
  ultimately have pid: "parse_pid (take (length (print_nat pid)) (print_stat pid command columns)) ''pid'' =
      Inr (ProcessId (of_nat pid))"
    using assms(2) by (simp add: parse_pid_def parse_stat_int_def parse_unsigned_print process_id_new_def)
  have "drop (Suc k) (print_stat pid command columns) = ?tail"
    unfolding rec k_def by (rule drop_past)
  moreover have "split_whitespace ?tail = columns"
    using assms(4) split_whitespace_join [of columns] by (simp add: is_whitespace_def)
  ultimately have cols: "split_whitespace (drop (Suc k) (print_stat pid command columns)) = columns"
    by simp
  have "parent \<noteq> 0 \<Longrightarrow> of_nat parent \<noteq> (0 :: u32)"
    using assms(7) of_nat_inverse [of parent "0 :: u32"] by auto
  then have parent: "ok (process_id_new (of_nat parent)) =
      (if parent = 0 then None else Some (ProcessId (of_nat parent)))"
    by (simp add: process_id_new_def)
  have ints: "required_int columns (Suc 0) f = Inr (of_nat parent :: u32)"
    "required_int columns 19 f = Inr (of_nat start :: u64)"
    "required_int columns 11 f = Inr (of_nat user :: u64)"
    "required_int columns 12 f = Inr (of_nat system :: u64)"
    "required_int columns 13 f = Inr (of_nat cuser :: u64)"
    "required_int columns 14 f = Inr (of_nat csystem :: u64)" for f
    using assms(3,6-) by (simp_all add: required_int_print)
  have "required columns 0 ''state'' = Inr [state]"
    using assms(3,5) by (auto simp: required_def)
  then show ?thesis
    by (simp add: proc_stat_parse_def close blank pid cols ints parent Let_def)
qed

section \<open>Concrete evidence\<close>

definition sample_columns :: "string list" where
  "sample_columns = [''S'', ''1'', ''0'', ''0'', ''0'', ''0'', ''0'', ''0'', ''0'', ''0'', ''0'', ''5'', ''6'',
     ''7'', ''8'', ''0'', ''0'', ''0'', ''0'', ''99'']"

lemma print_nat_samples:
  "print_nat 0 = ''0''" "print_nat (Suc 0) = ''1''" "print_nat 5 = ''5''" "print_nat 6 = ''6''" "print_nat 7 = ''7''"
  "print_nat 8 = ''8''" "print_nat 10 = ''10''" "print_nat 99 = ''99''"
  by code_simp+

theorem proc_stat_parse_print_witness:
  "proc_stat_parse (''10 (evil) S 2 ) '' @ join_with CHR '' '' sample_columns) =
    Inr \<lparr>ps_pid = ProcessId 10, ps_parent_pid = Some (ProcessId 1), ps_state = Sleeping,
         ps_start_time_ticks = 99,
         ps_cpu = \<lparr>user_ticks = 5, system_ticks = 6, children_user_ticks = 7,
                   children_system_ticks = 8\<rparr>\<rparr>"
  using proc_stat_parse_print [of 10 sample_columns "CHR ''S''" 1 5 6 7 8 99 "''evil) S 2 ''"]
  by (simp add: print_nat_samples sample_columns_def is_whitespace_def print_stat_def
      process_state_from_code_def)

definition sample_procfs :: procfs where
  "sample_procfs =
     \<lparr>pf_dir = Inr [],
      pf_file = (\<lambda>path. Inr (print_stat 10 ''codex'' sample_columns)),
      pf_link = (\<lambda>path. Inr ''/usr/bin/codex'')\<rparr>"

definition sample_identity :: process_identity where
  "sample_identity =
     \<lparr>pi_pid = ProcessId 10, pi_start_time_ticks = 99, pi_executable = ''/usr/bin/codex''\<rparr>"

lemma sample_stat_record:
  "print_stat 10 ''codex'' sample_columns = ''10 (codex) S 1 0 0 0 0 0 0 0 0 0 5 6 7 8 0 0 0 0 99''"
  by (simp add: print_stat_def sample_columns_def print_nat_samples)

lemma sample_read_stat:
  "read_stat sample_procfs (ProcessId 10) =
    Inr \<lparr>ps_pid = ProcessId 10, ps_parent_pid = Some (ProcessId 1), ps_state = Sleeping,
         ps_start_time_ticks = 99,
         ps_cpu = \<lparr>user_ticks = 5, system_ticks = 6, children_user_ticks = 7,
                   children_system_ticks = 8\<rparr>\<rparr>"
proof -
  have "read_bounded sample_procfs (proc_path (ProcessId 10) ''stat'') MAX_STAT_BYTES =
      Inr (print_stat 10 ''codex'' sample_columns)"
    by (simp add: read_bounded_def read_bounded_bytes_def sample_procfs_def sample_stat_record
        MAX_STAT_BYTES_def byte_in_def)
  moreover have "proc_stat_parse (print_stat 10 ''codex'' sample_columns) =
      Inr \<lparr>ps_pid = ProcessId 10, ps_parent_pid = Some (ProcessId 1), ps_state = Sleeping,
         ps_start_time_ticks = 99,
         ps_cpu = \<lparr>user_ticks = 5, system_ticks = 6, children_user_ticks = 7,
                   children_system_ticks = 8\<rparr>\<rparr>"
    unfolding sample_stat_record
    by (simp add: proc_stat_parse_def Let_def required_int_def required_def parse_stat_int_def
        parse_pid_def parse_unsigned_def digit_value_def split_whitespace_def is_whitespace_def
        process_id_new_def process_state_from_code_def)
  ultimately show ?thesis
    by (simp add: read_stat_def)
qed

lemma sample_read_identity: "read_identity sample_procfs (ProcessId 10) = Inr sample_identity"
  by (simp add: read_identity_def sample_read_stat read_executable_def)
    (simp add: sample_procfs_def sample_identity_def bounded_text_new_def byte_in_def)

theorem open_verified_sound_witness:
  "read_identity sample_procfs (ProcessId 10) = Inr sample_identity"
  using open_verified_sound [of sample_procfs "\<lambda>raw. Inr raw" sample_procfs sample_identity
      "\<lparr>fd_descriptor = 10, fd_identity = sample_identity\<rparr>"]
  by (simp add: open_verified_def sample_read_identity sample_identity_def verify_identity_def raw_pid_def)

definition sample_stat :: proc_stat where
  "sample_stat =
     \<lparr>ps_pid = ProcessId 10, ps_parent_pid = Some (ProcessId 1), ps_state = Sleeping,
      ps_start_time_ticks = 99,
      ps_cpu = \<lparr>user_ticks = 5, system_ticks = 6, children_user_ticks = 7, children_system_ticks = 8\<rparr>\<rparr>"

lemma sample_tree_exists:
  "\<exists>tree. sample_tree_from_stats sample_procfs sample_procfs sample_identity
     [(ProcessId 10, sample_stat)] {} = Inr tree"
proof -
  have "read_executable sample_procfs (ProcessId 10) = Inr ''/usr/bin/codex''"
    by (simp add: read_executable_def sample_procfs_def bounded_text_new_def byte_in_def)
  then obtain smp where smp: "sample_process sample_procfs sample_stat = Inr smp"
    "smp_identity smp = sample_identity"
    by (simp add: sample_process_def sample_stat_def sample_identity_def Let_def case_prod_beta)
  have "descendant_ids (ProcessId 10) [(ProcessId 10, sample_stat)] = [ProcessId 10]"
    by (simp add: descendant_ids_def sample_stat_def)
  then show ?thesis
    using smp
    by (simp add: sample_tree_from_stats_def sample_read_identity sample_identity_def
        process_tree_snapshot_new_def)
qed

theorem sample_tree_verified_witness:
  "\<exists>tree. pts_root tree = sample_identity \<and>
     sample_tree_from_stats sample_procfs sample_procfs sample_identity
       [(ProcessId 10, sample_stat)] {} = Inr tree"
proof -
  obtain tree where tree: "sample_tree_from_stats sample_procfs sample_procfs sample_identity
      [(ProcessId 10, sample_stat)] {} = Inr tree"
    using sample_tree_exists by blast
  moreover have "table_ok [(ProcessId 10, sample_stat)]"
    by (simp add: table_ok_def sample_stat_def)
  ultimately show ?thesis
    using sample_tree_verified by blast
qed

end
