(* ===== verification/Store.thy ===== *)
theory Store
  imports Safety Machines "HOL-Library.AList"
begin

text \<open>
  The durable store of \<open>crates/watchdog-store\<close>: the transactional core of \<open>src/lib.rs\<close> and the
  readers and savers of \<open>src/repositories.rs\<close> that the coordinator and the termination engine
  use. The database is a record of its tables with the constraints of the migrations (primary
  keys, \<open>UNIQUE\<close>, \<open>CHECK\<close>, foreign keys) written out at each statement.

  Three pieces of foreign code are parameters: SQLite's failures (\<open>sqlite\<close>: which statement of a
  call fails), \<open>serde_json\<close> (encoders, decoders and the byte length of a document of type \<open>'j\<close>)
  and the UUID hash. A transaction that fails anywhere is rolled back.
\<close>

section \<open>Inputs and errors\<close>

datatype store_input_error = ZeroField string | IntegerRange string | ZeroLimit

datatype store_error =
    Sqlx
  | Migration
  | InputError store_input_error
  | RecordTooLarge string
  | Serialization
  | StaleSnapshot
  | ObservationIdentityConflict
  | RelationIdentityConflict
  | WatchPathIdentityConflict
  | WatchPathAlreadyRegistered
  | IdentityMismatch
  | CorruptValue string

definition MAX_RECORD_BYTES :: nat where
  "MAX_RECORD_BYTES = 16 * 1024"

definition sqlite_integer :: "string \<Rightarrow> u64 \<Rightarrow> store_input_error + i64" where
  "sqlite_integer field v = ok_or (IntegerRange field) (i64_of_u64 v)"

definition positive_sqlite_integer :: "string \<Rightarrow> u64 \<Rightarrow> store_input_error + i64" where
  "positive_sqlite_integer field v =
     (if v = 0 then Inl (ZeroField field) else sqlite_integer field v)"

record snapshot_update =
  su_session :: session_identity
  su_root :: main_session_id
  su_revision :: u64
  su_state :: detailed_state
  su_updated_at :: wall_time_ms
  su_reducer_snapshot :: "session_snapshot option"

definition snapshot_update_new ::
  "session_identity \<Rightarrow> main_session_id \<Rightarrow> u64 \<Rightarrow> detailed_state \<Rightarrow> wall_time_ms \<Rightarrow>
     store_input_error + snapshot_update" where
  "snapshot_update_new session root revision state updated_at =
     and_then (positive_sqlite_integer ''snapshot revision'' revision) (\<lambda>_.
       Inr \<lparr>su_session = session, su_root = root, su_revision = revision, su_state = state,
            su_updated_at = updated_at, su_reducer_snapshot = None\<rparr>)"

definition from_reducer :: "session_snapshot \<Rightarrow> store_input_error + snapshot_update" where
  "from_reducer snapshot =
     map_ok (\<lambda>update. update\<lparr>su_reducer_snapshot := Some snapshot\<rparr>)
       (snapshot_update_new (ss_session snapshot) (ss_root snapshot) (ss_revision snapshot)
          (ss_state snapshot) (wall_time (ss_updated_at snapshot)))"

text \<open>
  \<open>SnapshotUpdate::deserialize\<close> after the derived parser produced the raw fields. Every error of
  the deserializer is one \<open>serde_json::Error\<close>, here \<open>None\<close>.
\<close>

definition snapshot_update_deserialize :: "snapshot_update \<Rightarrow> snapshot_update option" where
  "snapshot_update_deserialize raw =
     Option.bind
       (ok (snapshot_update_new (su_session raw) (su_root raw) (su_revision raw) (su_state raw)
              (su_updated_at raw)))
       (\<lambda>snapshot. case su_reducer_snapshot raw of
          None \<Rightarrow> Some snapshot
        | Some reducer_snapshot \<Rightarrow>
            if ss_session reducer_snapshot \<noteq> su_session snapshot \<or>
               ss_root reducer_snapshot \<noteq> su_root snapshot \<or>
               ss_revision reducer_snapshot \<noteq> su_revision snapshot \<or>
               ss_state reducer_snapshot \<noteq> su_state snapshot \<or>
               wall_time (ss_updated_at reducer_snapshot) \<noteq> su_updated_at snapshot
            then None
            else Some (snapshot\<lparr>su_reducer_snapshot := Some reducer_snapshot\<rparr>))"

datatype outbox_destination = ParentInbox | Sse | Browser | HomeAssistant | Webhook

fun destination_as_str :: "outbox_destination \<Rightarrow> string" where
  "destination_as_str ParentInbox = ''parent_inbox''"
| "destination_as_str Sse = ''sse''"
| "destination_as_str Browser = ''browser''"
| "destination_as_str HomeAssistant = ''home_assistant''"
| "destination_as_str Webhook = ''webhook''"

record routed_event =
  re_event :: domain_event
  re_destinations :: "outbox_destination list"

record observation_unit =
  ap_observation :: observation_envelope
  ap_snapshot :: snapshot_update
  ap_events :: "routed_event list"

record termination_safety_record =
  sf_passed_gates :: "termination_gate set"
  sf_blockers :: "termination_blocker set"
  sf_process :: "process_identity option"

record termination_saga_record =
  sg_child :: child_session_id
  sg_stage :: termination_stage
  sg_revision :: u64
  sg_next_action_at :: "wall_time_ms option"
  sg_safety :: termination_safety_record
  sg_last_outcome :: "termination_action_outcome option"

record termination_advance =
  ad_saga :: termination_saga_record
  ad_event :: domain_event
  ad_destinations :: "outbox_destination list"

record inbox_offset_record =
  io_parent :: main_session_id
  io_last_event_id :: event_id
  io_last_delivered_event_id :: event_id
  io_updated_at :: wall_time_ms

datatype apply_result = Applied | Duplicate | NoChange

section \<open>Tables and foreign code\<close>

record session_row =
  sr_kind :: string
  sr_root :: session_id
  sr_runtime :: string
  sr_native_id :: string
  sr_created_at :: wall_time_ms
  sr_updated_at :: wall_time_ms

record 'j observation_row =
  or_runtime :: string
  or_native_id :: string
  or_observed_at :: wall_time_ms
  or_monotonic :: i64
  or_envelope :: 'j

record 'j snapshot_row =
  sn_root :: session_id
  sn_revision :: i64
  sn_detailed_state :: string
  sn_compact_state :: string
  sn_updated_at :: wall_time_ms
  sn_json :: 'j

record 'j transition_row =
  tr_root :: session_id
  tr_subject :: session_id
  tr_occurred_at :: wall_time_ms
  tr_json :: 'j

record 'j saga_row =
  gr_stage :: string
  gr_revision :: i64
  gr_next_action_at :: "wall_time_ms option"
  gr_json :: 'j

record 'j outbox_row =
  ob_outbox_id :: i64
  ob_event_id :: i64
  ob_destination :: string
  ob_payload :: 'j
  ob_delivered_at :: "wall_time_ms option"

record inbox_row =
  in_last_event_id :: i64
  in_last_delivered_event_id :: i64
  in_updated_at :: wall_time_ms

text \<open>
  A table is the list of its rows by primary key; \<open>state_transitions\<close> is in key order, the order
  of its \<open>INTEGER PRIMARY KEY\<close>. \<open>outbox\<close> is in the order of its \<open>AUTOINCREMENT\<close> key, whose highest
  value ever given out is \<open>db_outbox_seq\<close>.
\<close>

record 'j db =
  db_sessions :: "(session_id \<times> session_row) list"
  db_observations :: "(observation_id \<times> 'j observation_row) list"
  db_snapshots :: "(session_id \<times> 'j snapshot_row) list"
  db_transitions :: "(i64, 'j transition_row) btree_map"
  db_sagas :: "(session_id \<times> 'j saga_row) list"
  db_outbox :: "'j outbox_row list"
  db_outbox_seq :: i64
  db_inbox :: "(session_id \<times> inbox_row) list"

definition empty_db :: "'j db" where
  "empty_db = \<lparr>db_sessions = [], db_observations = [], db_snapshots = [], db_transitions = [],
     db_sagas = [], db_outbox = [], db_outbox_seq = 0, db_inbox = []\<rparr>"

datatype statement =
    BeginTx | CommitTx | InsertObservation | SelectObservation | UpsertSession | UpsertSnapshot
  | InsertTransition i64 | InsertOutbox i64 string | UpsertSaga | SelectSaga | SelectSnapshot
  | SelectMaxEvent | SelectEvents | SelectOutbox | UpdateOutbox | UpsertInbox | SelectInbox
  | DeleteAll | Statement string

type_synonym sqlite = "statement \<Rightarrow> bool"

definition run_sql :: "sqlite \<Rightarrow> statement \<Rightarrow> store_error + unit" where
  "run_sql fails st = (if fails st then Inl Sqlx else Inr ())"

record 'j foreign_code =
  xf_new_v5 :: "uuid \<Rightarrow> byte list \<Rightarrow> uuid"
  xf_namespace_url :: uuid
  xf_json_len :: "'j \<Rightarrow> nat"
  xf_observation_to_vec :: "observation_envelope \<Rightarrow> 'j option"
  xf_snapshot_to_vec :: "snapshot_update \<Rightarrow> 'j option"
  xf_event_to_vec :: "domain_event \<Rightarrow> 'j option"
  xf_saga_to_vec :: "termination_saga_record \<Rightarrow> 'j option"
  xf_snapshot_from_slice :: "'j \<Rightarrow> snapshot_update option"
  xf_event_from_slice :: "'j \<Rightarrow> domain_event option"
  xf_saga_from_slice :: "'j \<Rightarrow> termination_saga_record option"

definition bounded_json ::
  "'j foreign_code \<Rightarrow> ('j foreign_code \<Rightarrow> 'a \<Rightarrow> 'j option) \<Rightarrow> 'a \<Rightarrow> string \<Rightarrow> store_error + 'j" where
  "bounded_json fc to_vec x kind =
     and_then (ok_or Serialization (to_vec fc x)) (\<lambda>serialized.
       if xf_json_len fc serialized > MAX_RECORD_BYTES then Inl (RecordTooLarge kind)
       else Inr serialized)"

definition decode_json ::
  "'j foreign_code \<Rightarrow> ('j \<Rightarrow> 'a option) \<Rightarrow> 'j \<Rightarrow> store_error + 'a" where
  "decode_json fc from_slice payload =
     (if xf_json_len fc payload > MAX_RECORD_BYTES then Inl (RecordTooLarge ''stored record'')
      else ok_or Serialization (from_slice payload))"

definition load_optional_json ::
  "'j foreign_code \<Rightarrow> ('j \<Rightarrow> 'a option) \<Rightarrow> 'j option \<Rightarrow> store_error + 'a option" where
  "load_optional_json fc from_slice row =
     (case row of None \<Rightarrow> Inr None | Some payload \<Rightarrow> map_ok Some (decode_json fc from_slice payload))"

section \<open>The statements of a transaction\<close>

fun session_kind_name :: "session_identity \<Rightarrow> string" where
  "session_kind_name (MainIdentity _) = ''main''"
| "session_kind_name (ChildIdentity _) = ''child''"

fun detailed_state_name :: "detailed_state \<Rightarrow> string" where
  "detailed_state_name Starting = ''starting''"
| "detailed_state_name Running = ''running''"
| "detailed_state_name WaitingForAgent = ''waiting_for_agent''"
| "detailed_state_name WaitingForTool = ''waiting_for_tool''"
| "detailed_state_name WaitingForUser = ''waiting_for_user''"
| "detailed_state_name Idle = ''idle''"
| "detailed_state_name Stalled = ''stalled''"
| "detailed_state_name Completed = ''completed''"
| "detailed_state_name Failed = ''failed''"
| "detailed_state_name Cancelled = ''cancelled''"
| "detailed_state_name Disappeared = ''disappeared''"
| "detailed_state_name Unknown = ''unknown''"

fun compact_state_name :: "compact_state \<Rightarrow> string" where
  "compact_state_name CompactActive = ''active''"
| "compact_state_name CompactWaiting = ''waiting''"
| "compact_state_name CompactIdle = ''idle''"
| "compact_state_name CompactStalled = ''stalled''"
| "compact_state_name CompactFinished = ''finished''"
| "compact_state_name CompactFailed = ''failed''"
| "compact_state_name CompactUnknown = ''unknown''"

text \<open>
  \<open>CHECK (length(native_id) BETWEEN 1 AND 512)\<close>: SQLite counts the characters of a text before
  its first NUL.
\<close>

definition native_id_check :: "string \<Rightarrow> bool" where
  "native_id_check s =
     (let n = length (filter (\<lambda>c. \<not> byte_in c 128 191) (takeWhile (\<lambda>c. c \<noteq> CHR 0x00) s))
      in 1 \<le> n \<and> n \<le> 512)"

text \<open>
  \<open>INSERT OR IGNORE\<close> skips the row on a key or \<open>CHECK\<close> violation; \<open>fetch_one\<close> then fails when no row
  has the key.
\<close>

definition insert_observation ::
  "sqlite \<Rightarrow> 'j foreign_code \<Rightarrow> 'j db \<Rightarrow> observation_envelope \<Rightarrow> store_error + 'j db \<times> bool" where
  "insert_observation fails fc db observation =
     and_then (bounded_json fc xf_observation_to_vec observation ''observation'') (\<lambda>json.
     and_then (map_err InputError
         (sqlite_integer ''observation monotonic time'' (monotonic_ms (oe_observed_at observation))))
       (\<lambda>monotonic.
     and_then (run_sql fails InsertObservation) (\<lambda>_.
       let key = oe_observation_id observation;
           native_id = nk_native_id (oe_subject observation)
       in if map_of (db_observations db) key = None \<and> native_id_check native_id
          then Inr (db\<lparr>db_observations := db_observations db @
                  [(key, \<lparr>or_runtime = runtime_as_str (nk_runtime (oe_subject observation)),
                          or_native_id = native_id,
                          or_observed_at = wall_time (oe_observed_at observation),
                          or_monotonic = monotonic, or_envelope = json\<rparr>)]\<rparr>, True)
          else
            and_then (run_sql fails SelectObservation) (\<lambda>_.
            and_then (ok_or Sqlx (map_of (db_observations db) key)) (\<lambda>row.
              if or_envelope row \<noteq> json then Inl ObservationIdentityConflict
              else Inr (db, False))))))"

definition upsert_session ::
  "sqlite \<Rightarrow> 'j db \<Rightarrow> observation_unit \<Rightarrow> store_error + 'j db" where
  "upsert_session fails db unit =
     and_then (run_sql fails UpsertSession) (\<lambda>_.
       let snapshot = ap_snapshot unit;
           session = identity_session_id (su_session snapshot);
           root = main_session (su_root snapshot);
           runtime = runtime_as_str (nk_runtime (oe_subject (ap_observation unit)));
           native_id = nk_native_id (oe_subject (ap_observation unit));
           taken = list_ex (\<lambda>(k, row). k \<noteq> session \<and> sr_runtime row = runtime \<and>
                     sr_native_id row = native_id) (db_sessions db)
       in if \<not> native_id_check native_id \<or> taken then Inl Sqlx
          else case map_of (db_sessions db) session of
            None \<Rightarrow> Inr (db\<lparr>db_sessions := db_sessions db @
              [(session, \<lparr>sr_kind = session_kind_name (su_session snapshot), sr_root = root,
                          sr_runtime = runtime, sr_native_id = native_id,
                          sr_created_at = su_updated_at snapshot,
                          sr_updated_at = su_updated_at snapshot\<rparr>)]\<rparr>)
          | Some row \<Rightarrow> Inr (db\<lparr>db_sessions := AList.update session
              (row\<lparr>sr_root := root, sr_runtime := runtime, sr_native_id := native_id,
                   sr_updated_at := su_updated_at snapshot\<rparr>) (db_sessions db)\<rparr>))"

definition upsert_snapshot ::
  "sqlite \<Rightarrow> 'j foreign_code \<Rightarrow> 'j db \<Rightarrow> snapshot_update \<Rightarrow> store_error + 'j db" where
  "upsert_snapshot fails fc db snapshot =
     and_then (bounded_json fc xf_snapshot_to_vec snapshot ''snapshot'') (\<lambda>json.
     and_then (map_err InputError (sqlite_integer ''snapshot revision'' (su_revision snapshot)))
       (\<lambda>revision.
     and_then (run_sql fails UpsertSnapshot) (\<lambda>_.
       let session = identity_session_id (su_session snapshot);
           row = \<lparr>sn_root = main_session (su_root snapshot), sn_revision = revision,
                  sn_detailed_state = detailed_state_name (su_state snapshot),
                  sn_compact_state = compact_state_name (compact (su_state snapshot)),
                  sn_updated_at = su_updated_at snapshot, sn_json = json\<rparr>
       in if revision \<le> 0 \<or> map_of (db_sessions db) session = None then Inl Sqlx
          else if is_some_and (\<lambda>stored. \<not> revision > sn_revision stored)
                    (map_of (db_snapshots db) session)
          then Inl StaleSnapshot
          else Inr (db\<lparr>db_snapshots := AList.update session row (db_snapshots db)\<rparr>))))"

fun insert_outbox ::
  "sqlite \<Rightarrow> i64 \<Rightarrow> 'j \<Rightarrow> outbox_destination list \<Rightarrow> 'j db \<Rightarrow> store_error + 'j db" where
  "insert_outbox fails event_id json [] db = Inr db"
| "insert_outbox fails event_id json (destination # destinations) db =
     and_then (run_sql fails (InsertOutbox event_id (destination_as_str destination))) (\<lambda>_.
       if db_outbox_seq db \<ge> i64_max \<or> map_of (db_transitions db) event_id = None \<or>
          list_ex (\<lambda>row. ob_event_id row = event_id \<and>
            ob_destination row = destination_as_str destination) (db_outbox db)
       then Inl Sqlx
       else insert_outbox fails event_id json destinations
         (db\<lparr>db_outbox_seq := db_outbox_seq db + 1,
             db_outbox := db_outbox db @
               [\<lparr>ob_outbox_id = db_outbox_seq db + 1, ob_event_id = event_id,
                 ob_destination = destination_as_str destination, ob_payload = json,
                 ob_delivered_at = None\<rparr>]\<rparr>))"

definition insert_event ::
  "sqlite \<Rightarrow> 'j foreign_code \<Rightarrow> domain_event \<Rightarrow> outbox_destination list \<Rightarrow> 'j db \<Rightarrow>
     store_error + 'j db" where
  "insert_event fails fc event destinations db =
     and_then (bounded_json fc xf_event_to_vec event ''event'') (\<lambda>json.
     and_then (map_err InputError (sqlite_integer ''event ID'' (ev_id event))) (\<lambda>event_id.
     and_then (run_sql fails (InsertTransition event_id)) (\<lambda>_.
       let subject = identity_session_id (ev_subject event)
       in if map_of (db_transitions db) event_id \<noteq> None \<or> map_of (db_sessions db) subject = None
          then Inl Sqlx
          else insert_outbox fails event_id json destinations
            (db\<lparr>db_transitions := btree_insert event_id
                  \<lparr>tr_root = main_session (ev_root event), tr_subject = subject,
                   tr_occurred_at = ev_occurred_at event, tr_json = json\<rparr>
                  (db_transitions db)\<rparr>))))"

text \<open>Each call of \<open>insert_events\<close> passes one event; the loop over the routed events is here.\<close>

fun insert_routed_events ::
  "sqlite \<Rightarrow> 'j foreign_code \<Rightarrow> routed_event list \<Rightarrow> 'j db \<Rightarrow> store_error + 'j db" where
  "insert_routed_events fails fc [] db = Inr db"
| "insert_routed_events fails fc (routed # events) db =
     and_then (insert_event fails fc (re_event routed) (re_destinations routed) db)
       (insert_routed_events fails fc events)"

definition validate_apply :: "'j foreign_code \<Rightarrow> observation_unit \<Rightarrow> store_error + unit" where
  "validate_apply fc unit =
     (let observed_session =
        session_id_from_native (xf_new_v5 fc) (xf_namespace_url fc) (oe_subject (ap_observation unit))
      in if observed_session \<noteq> identity_session_id (su_session (ap_snapshot unit)) \<or>
            list_ex (\<lambda>routed. ev_root (re_event routed) \<noteq> su_root (ap_snapshot unit) \<or>
              ev_subject (re_event routed) \<noteq> su_session (ap_snapshot unit)) (ap_events unit)
         then Inl IdentityMismatch else Inr ())"

section \<open>Operations of the store\<close>

text \<open>
  \<open>begin\<close>, the body, \<open>commit\<close>; dropping an uncommitted transaction rolls it back. Calls return
  the database after the call and their result.
\<close>

definition in_transaction ::
  "sqlite \<Rightarrow> ('d \<Rightarrow> store_error + 'd \<times> 'a) \<Rightarrow> 'd \<Rightarrow> 'd \<times> (store_error + 'a)" where
  "in_transaction fails body db =
     (case and_then (run_sql fails BeginTx) (\<lambda>_. and_then (body db) (\<lambda>r.
             and_then (run_sql fails CommitTx) (\<lambda>_. Inr r))) of
        Inl e \<Rightarrow> (db, Inl e)
      | Inr (db', x) \<Rightarrow> (db', Inr x))"

definition observation_body ::
  "sqlite \<Rightarrow> 'j foreign_code \<Rightarrow> observation_unit \<Rightarrow> 'j db \<Rightarrow> store_error + 'j db \<times> apply_result" where
  "observation_body fails fc unit db =
     and_then (insert_observation fails fc db (ap_observation unit)) (\<lambda>(db, inserted).
       if \<not> inserted then Inr (db, Duplicate)
       else
         and_then (upsert_session fails db unit) (\<lambda>db.
         and_then (upsert_snapshot fails fc db (ap_snapshot unit)) (\<lambda>db.
         and_then (insert_routed_events fails fc (ap_events unit) db) (\<lambda>db.
           Inr (db, Applied)))))"

definition store_apply_observation ::
  "sqlite \<Rightarrow> 'j foreign_code \<Rightarrow> 'j db \<Rightarrow> observation_unit \<Rightarrow> 'j db \<times> (store_error + apply_result)" where
  "store_apply_observation fails fc db unit =
     (case validate_apply fc unit of
        Inl e \<Rightarrow> (db, Inl e)
      | Inr _ \<Rightarrow> in_transaction fails (observation_body fails fc unit) db)"

definition upsert_saga ::
  "sqlite \<Rightarrow> i64 \<Rightarrow> 'j \<Rightarrow> termination_saga_record \<Rightarrow> 'j db \<Rightarrow> store_error + 'j db" where
  "upsert_saga fails revision payload saga db =
     and_then (run_sql fails UpsertSaga) (\<lambda>_.
       let child = child_session (sg_child saga);
           row = \<lparr>gr_stage = stage_as_str (sg_stage saga), gr_revision = revision,
                  gr_next_action_at = sg_next_action_at saga, gr_json = payload\<rparr>
       in if map_of (db_sessions db) child = None then Inl Sqlx
          else if is_some_and (\<lambda>stored. \<not> revision > gr_revision stored) (map_of (db_sagas db) child)
          then Inl StaleSnapshot
          else Inr (db\<lparr>db_sagas := AList.update child row (db_sagas db)\<rparr>))"

definition apply_termination_advance ::
  "sqlite \<Rightarrow> 'j foreign_code \<Rightarrow> 'j db \<Rightarrow> termination_advance \<Rightarrow> 'j db \<times> (store_error + unit)" where
  "apply_termination_advance fails fc db advance =
     (if ev_subject (ad_event advance) \<noteq> ChildIdentity (sg_child (ad_saga advance))
      then (db, Inl IdentityMismatch)
      else case and_then (map_err InputError
            (positive_sqlite_integer ''termination saga revision'' (sg_revision (ad_saga advance))))
          (\<lambda>revision. map_ok (\<lambda>payload. (revision, payload))
            (bounded_json fc xf_saga_to_vec (ad_saga advance) ''termination saga'')) of
        Inl e \<Rightarrow> (db, Inl e)
      | Inr (revision, payload) \<Rightarrow>
          in_transaction fails (\<lambda>db.
            and_then (upsert_saga fails revision payload (ad_saga advance) db) (\<lambda>db.
            map_ok (\<lambda>db. (db, ()))
              (insert_event fails fc (ad_event advance) (ad_destinations advance) db))) db)"

definition max_event_id :: "'j db \<Rightarrow> i64 option" where
  "max_event_id db =
     (if db_transitions db = [] then None else Some (fst (last (db_transitions db))))"

definition first_unallocated_event_id :: "sqlite \<Rightarrow> 'j db \<Rightarrow> store_error + u64" where
  "first_unallocated_event_id fails db =
     and_then (run_sql fails SelectMaxEvent) (\<lambda>_.
       let highest = unwrap_or 0 (max_event_id db)
       in if highest < 0 then Inl (CorruptValue ''negative event ID'')
          else and_then (ok_or (InputError (IntegerRange ''event ID'')) (checked_add_i64 highest 1))
            (\<lambda>following. ok_or (CorruptValue ''negative event ID'') (u64_of_i64 following)))"

definition latest_event_id :: "sqlite \<Rightarrow> 'j db \<Rightarrow> store_error + event_id" where
  "latest_event_id fails db =
     and_then (run_sql fails SelectMaxEvent) (\<lambda>_.
       ok_or (CorruptValue ''negative event ID'') (u64_of_i64 (unwrap_or 0 (max_event_id db))))"

record 'j pending_outbox_entry =
  pe_outbox_id :: i64
  pe_event_id :: event_id
  pe_destination :: string
  pe_payload :: 'j

definition pending_outbox_matching ::
  "sqlite \<Rightarrow> 'j db \<Rightarrow> outbox_destination option \<Rightarrow> u32 \<Rightarrow> store_error + 'j pending_outbox_entry list" where
  "pending_outbox_matching fails db destination limit =
     (if limit = 0 then Inl (InputError ZeroLimit)
      else and_then (run_sql fails SelectOutbox) (\<lambda>_.
        collect_results (map (\<lambda>row.
            map_ok (\<lambda>event_id. \<lparr>pe_outbox_id = ob_outbox_id row, pe_event_id = event_id,
                pe_destination = ob_destination row, pe_payload = ob_payload row\<rparr>)
              (ok_or (CorruptValue ''negative event ID'') (u64_of_i64 (ob_event_id row))))
          (take (unat limit) (filter (\<lambda>row. ob_delivered_at row = None \<and>
             is_none_or (\<lambda>d. ob_destination row = destination_as_str d) destination)
             (db_outbox db))))))"

definition acknowledge_outbox ::
  "sqlite \<Rightarrow> 'j db \<Rightarrow> i64 \<Rightarrow> wall_time_ms \<Rightarrow> 'j db \<times> (store_error + bool)" where
  "acknowledge_outbox fails db outbox_id delivered_at =
     (case run_sql fails UpdateOutbox of
        Inl e \<Rightarrow> (db, Inl e)
      | Inr _ \<Rightarrow>
          (let due = (\<lambda>row. ob_outbox_id row = outbox_id \<and> ob_delivered_at row = None)
           in (db\<lparr>db_outbox := map (\<lambda>row. if due row then row\<lparr>ob_delivered_at := Some delivered_at\<rparr>
                                         else row) (db_outbox db)\<rparr>,
               Inr (length (filter due (db_outbox db)) = 1))))"

text \<open>\<open>wipe_watchdog_data\<close> on the modelled tables and the \<open>outbox\<close> sequence.\<close>

definition wipe_watchdog_data :: "sqlite \<Rightarrow> 'j db \<Rightarrow> 'j db \<times> (store_error + unit)" where
  "wipe_watchdog_data fails db =
     in_transaction fails (\<lambda>db. and_then (run_sql fails DeleteAll) (\<lambda>_. Inr (empty_db, ()))) db"

record store_counts =
  ct_observations :: i64
  ct_snapshots :: i64
  ct_events :: i64
  ct_outbox :: i64

definition counts :: "'j db \<Rightarrow> store_counts" where
  "counts db = \<lparr>ct_observations = int (length (db_observations db)),
     ct_snapshots = int (length (db_snapshots db)), ct_events = int (length (db_transitions db)),
     ct_outbox = int (length (db_outbox db))\<rparr>"

section \<open>Repository readers and savers\<close>

definition load_snapshot ::
  "sqlite \<Rightarrow> 'j foreign_code \<Rightarrow> 'j db \<Rightarrow> session_identity \<Rightarrow> store_error + snapshot_update option" where
  "load_snapshot fails fc db session =
     and_then (run_sql fails SelectSnapshot) (\<lambda>_.
       load_optional_json fc
         (\<lambda>json. Option.bind (xf_snapshot_from_slice fc json) snapshot_update_deserialize)
         (map_option sn_json (map_of (db_snapshots db) (identity_session_id session))))"

definition events_after ::
  "sqlite \<Rightarrow> 'j foreign_code \<Rightarrow> 'j db \<Rightarrow> main_session_id \<Rightarrow> event_id \<Rightarrow> u32 \<Rightarrow>
     store_error + domain_event list" where
  "events_after fails fc db root after limit =
     (if limit = 0 then Inl (InputError ZeroLimit)
      else and_then (map_err InputError (sqlite_integer ''event cursor'' after)) (\<lambda>cursor.
        and_then (run_sql fails SelectEvents) (\<lambda>_.
          collect_results (map (decode_json fc (xf_event_from_slice fc))
            (take (unat limit) (map (tr_json \<circ> snd) (filter (\<lambda>(event_id, row).
               tr_root row = main_session root \<and> event_id > cursor) (db_transitions db))))))))"

definition save_termination_saga ::
  "sqlite \<Rightarrow> 'j foreign_code \<Rightarrow> 'j db \<Rightarrow> termination_saga_record \<Rightarrow> 'j db \<times> (store_error + unit)" where
  "save_termination_saga fails fc db saga =
     (case and_then (map_err InputError
          (positive_sqlite_integer ''termination saga revision'' (sg_revision saga))) (\<lambda>revision.
        and_then (bounded_json fc xf_saga_to_vec saga ''termination saga'') (\<lambda>payload.
          upsert_saga fails revision payload saga db)) of
        Inl e \<Rightarrow> (db, Inl e)
      | Inr db' \<Rightarrow> (db', Inr ()))"

definition termination_saga ::
  "sqlite \<Rightarrow> 'j foreign_code \<Rightarrow> 'j db \<Rightarrow> child_session_id \<Rightarrow> store_error + termination_saga_record option" where
  "termination_saga fails fc db child =
     and_then (run_sql fails SelectSaga) (\<lambda>_.
       load_optional_json fc (xf_saga_from_slice fc)
         (map_option gr_json (map_of (db_sagas db) (child_session child))))"

definition save_inbox_offset ::
  "sqlite \<Rightarrow> 'j db \<Rightarrow> inbox_offset_record \<Rightarrow> 'j db \<times> (store_error + bool)" where
  "save_inbox_offset fails db offset =
     (case and_then (map_err InputError (sqlite_integer ''inbox event ID'' (io_last_event_id offset)))
          (\<lambda>event_id.
        and_then (map_err InputError
            (sqlite_integer ''inbox delivered event ID'' (io_last_delivered_event_id offset)))
          (\<lambda>delivered. and_then (run_sql fails UpsertInbox) (\<lambda>_. Inr (event_id, delivered)))) of
        Inl e \<Rightarrow> (db, Inl e)
      | Inr (event_id, delivered) \<Rightarrow>
          (let parent = main_session (io_parent offset)
           in if delivered < event_id \<or> map_of (db_sessions db) parent = None then (db, Inl Sqlx)
              else case map_of (db_inbox db) parent of
                None \<Rightarrow> (db\<lparr>db_inbox := AList.update parent
                    \<lparr>in_last_event_id = event_id, in_last_delivered_event_id = delivered,
                     in_updated_at = io_updated_at offset\<rparr> (db_inbox db)\<rparr>, Inr True)
              | Some row \<Rightarrow>
                  if event_id > in_last_event_id row \<or> delivered > in_last_delivered_event_id row
                  then (db\<lparr>db_inbox := AList.update parent
                         \<lparr>in_last_event_id = max (in_last_event_id row) event_id,
                          in_last_delivered_event_id = max (in_last_delivered_event_id row) delivered,
                          in_updated_at = io_updated_at offset\<rparr> (db_inbox db)\<rparr>, Inr True)
                  else (db, Inr False)))"

definition inbox_offset ::
  "sqlite \<Rightarrow> 'j db \<Rightarrow> main_session_id \<Rightarrow> store_error + inbox_offset_record option" where
  "inbox_offset fails db parent =
     and_then (run_sql fails SelectInbox) (\<lambda>_.
       case map_of (db_inbox db) (main_session parent) of
         None \<Rightarrow> Inr None
       | Some row \<Rightarrow>
           and_then (ok_or (CorruptValue ''negative inbox event ID'')
               (u64_of_i64 (in_last_event_id row))) (\<lambda>event_id.
           and_then (ok_or (CorruptValue ''negative delivered event ID'')
               (u64_of_i64 (in_last_delivered_event_id row))) (\<lambda>delivered.
             Inr (Some \<lparr>io_parent = parent, io_last_event_id = event_id,
                        io_last_delivered_event_id = delivered, io_updated_at = in_updated_at row\<rparr>))))"

section \<open>What each statement does when it succeeds\<close>

lemma run_sql_Inr_iff [result_elims]: "run_sql fails st = Inr u \<longleftrightarrow> \<not> fails st"
  by (simp add: run_sql_def)

lemma sqlite_integer_Inr_iff [result_elims]:
  "sqlite_integer field v = Inr i \<longleftrightarrow> uint v \<le> i64_max \<and> i = uint v"
  by (auto simp: sqlite_integer_def i64_of_u64_def ok_or_def split: if_splits)

lemma positive_sqlite_integer_Inr_iff [result_elims]:
  "positive_sqlite_integer field v = Inr i \<longleftrightarrow> v \<noteq> 0 \<and> uint v \<le> i64_max \<and> i = uint v"
  by (simp add: positive_sqlite_integer_def sqlite_integer_Inr_iff)

lemma bounded_json_Inr_iff [result_elims]:
  "bounded_json fc to_vec x kind = Inr j \<longleftrightarrow>
     to_vec fc x = Some j \<and> xf_json_len fc j \<le> MAX_RECORD_BYTES"
  by (cases "to_vec fc x") (auto simp: bounded_json_def)

lemma in_transaction_cases:
  assumes "in_transaction fails body db = (db', r)"
  obtains (rolled_back) e where "r = Inl e" "db' = db"
  | (committed) x where "r = Inr x" "body db = Inr (db', x)"
  using assms by (auto simp: in_transaction_def result_elims split: sum.splits)

fun outbox_rows :: "i64 \<Rightarrow> i64 \<Rightarrow> 'j \<Rightarrow> outbox_destination list \<Rightarrow> 'j outbox_row list" where
  "outbox_rows seq event_id json [] = []"
| "outbox_rows seq event_id json (d # ds) =
     \<lparr>ob_outbox_id = seq + 1, ob_event_id = event_id, ob_destination = destination_as_str d,
      ob_payload = json, ob_delivered_at = None\<rparr> # outbox_rows (seq + 1) event_id json ds"

abbreviation route :: "'j outbox_row \<Rightarrow> i64 \<times> string" where
  "route row \<equiv> (ob_event_id row, ob_destination row)"

lemma outbox_rows_ids:
  "map ob_outbox_id (outbox_rows seq e j ds) = [seq + 1..seq + int (length ds)]"
proof (induction ds arbitrary: seq)
  case (Cons d ds)
  show ?case
    using upto_rec1 [of "seq + 1" "seq + int (length (d # ds))"] by (simp add: Cons.IH algebra_simps)
qed simp

lemma outbox_rows_routes:
  "map route (outbox_rows seq e j ds) = map (\<lambda>d. (e, destination_as_str d)) ds"
  by (induction ds arbitrary: seq) auto

lemma outbox_rows_row:
  "row \<in> set (outbox_rows seq e j ds) \<Longrightarrow>
     ob_event_id row = e \<and> ob_payload row = j \<and> ob_delivered_at row = None"
  by (induction ds arbitrary: seq) auto

lemma length_outbox_rows [simp]: "length (outbox_rows seq e j ds) = length ds"
  by (induction ds arbitrary: seq) auto

lemma destination_as_str_inj [simp]: "destination_as_str a = destination_as_str b \<longleftrightarrow> a = b"
  by (cases a; cases b) simp_all

lemma insert_outbox_Inr:
  assumes "insert_outbox fails e j ds db = Inr db'"
  shows "db' = db\<lparr>db_outbox_seq := db_outbox_seq db + int (length ds),
           db_outbox := db_outbox db @ outbox_rows (db_outbox_seq db) e j ds\<rparr> \<and>
         distinct ds \<and> (\<forall>d \<in> set ds. (e, destination_as_str d) \<notin> route ` set (db_outbox db))"
  using assms
proof (induction ds arbitrary: db)
  case (Cons d ds)
  define db1 where "db1 = db\<lparr>db_outbox_seq := db_outbox_seq db + 1,
      db_outbox := db_outbox db @ outbox_rows (db_outbox_seq db) e j [d]\<rparr>"
  have new: "(e, destination_as_str d) \<notin> route ` set (db_outbox db)"
    and rest: "insert_outbox fails e j ds db1 = Inr db'"
    using Cons.prems by (auto simp: db1_def result_elims list_ex_iff split: if_splits)
  have IH: "db' = db1\<lparr>db_outbox_seq := db_outbox_seq db1 + int (length ds),
        db_outbox := db_outbox db1 @ outbox_rows (db_outbox_seq db1) e j ds\<rparr>" "distinct ds"
      "\<forall>d \<in> set ds. (e, destination_as_str d) \<notin> route ` set (db_outbox db1)"
    using Cons.IH [OF rest] by blast+
  have "d \<notin> set ds" "\<forall>d \<in> set ds. (e, destination_as_str d) \<notin> route ` set (db_outbox db)"
    using IH(3) by (auto simp: db1_def)
  moreover have "db' = db\<lparr>db_outbox_seq := db_outbox_seq db + int (length (d # ds)),
           db_outbox := db_outbox db @ outbox_rows (db_outbox_seq db) e j (d # ds)\<rparr>"
    by (simp add: IH(1) db1_def)
  ultimately show ?case
    using IH(2) new by simp
qed simp

text \<open>The row an event becomes, and the database after its insertion.\<close>

definition transition_row_of :: "domain_event \<Rightarrow> 'j \<Rightarrow> 'j transition_row" where
  "transition_row_of event json =
     \<lparr>tr_root = main_session (ev_root event), tr_subject = identity_session_id (ev_subject event),
      tr_occurred_at = ev_occurred_at event, tr_json = json\<rparr>"

lemma insert_event_Inr:
  assumes "insert_event fails fc ev ds db = Inr db'"
  obtains j where "xf_event_to_vec fc ev = Some j" "xf_json_len fc j \<le> MAX_RECORD_BYTES"
    "uint (ev_id ev) \<le> i64_max" "map_of (db_transitions db) (uint (ev_id ev)) = None"
    "map_of (db_sessions db) (identity_session_id (ev_subject ev)) \<noteq> None"
    "distinct ds" "\<forall>d \<in> set ds. (uint (ev_id ev), destination_as_str d) \<notin> route ` set (db_outbox db)"
    "db' = db\<lparr>db_transitions := btree_insert (uint (ev_id ev)) (transition_row_of ev j) (db_transitions db),
       db_outbox_seq := db_outbox_seq db + int (length ds),
       db_outbox := db_outbox db @ outbox_rows (db_outbox_seq db) (uint (ev_id ev)) j ds\<rparr>"
proof -
  obtain j where j: "xf_event_to_vec fc ev = Some j" "xf_json_len fc j \<le> MAX_RECORD_BYTES"
      "uint (ev_id ev) \<le> i64_max" "map_of (db_transitions db) (uint (ev_id ev)) = None"
      "map_of (db_sessions db) (identity_session_id (ev_subject ev)) \<noteq> None"
    and ins: "insert_outbox fails (uint (ev_id ev)) j ds
        (db\<lparr>db_transitions := btree_insert (uint (ev_id ev)) (transition_row_of ev j) (db_transitions db)\<rparr>) = Inr db'"
    using assms
    by (fastforce simp: insert_event_def result_elims Let_def transition_row_of_def split: if_splits)
  show thesis
    using that [OF j] insert_outbox_Inr [OF ins] by simp
qed

section \<open>Schema invariant and history\<close>

text \<open>
  \<open>db_inv\<close> is what the schema and the code keep of every reachable database: referential
  integrity, unique delivery routes, delivery keys in increasing order below the sequence,
  positive revisions.
\<close>

definition outbox_inv :: "'j db \<Rightarrow> bool" where
  "outbox_inv db \<longleftrightarrow> 0 \<le> db_outbox_seq db \<and>
     sorted_wrt (<) (map ob_outbox_id (db_outbox db)) \<and>
     (\<forall>row \<in> set (db_outbox db). 0 < ob_outbox_id row \<and> ob_outbox_id row \<le> db_outbox_seq db \<and>
        ob_event_id row \<in> fst ` set (db_transitions db)) \<and>
     distinct (map route (db_outbox db))"

definition transitions_inv :: "'j db \<Rightarrow> bool" where
  "transitions_inv db \<longleftrightarrow> btree_wf (db_transitions db) \<and>
     (\<forall>(e, row) \<in> set (db_transitions db). 0 \<le> e \<and> e \<le> i64_max \<and>
        tr_subject row \<in> fst ` set (db_sessions db))"

definition table_inv :: "('r \<Rightarrow> i64) \<Rightarrow> (session_id \<times> 'r) list \<Rightarrow> 'j db \<Rightarrow> bool" where
  "table_inv rv t db \<longleftrightarrow> (\<forall>k row. map_of t k = Some row \<longrightarrow> k \<in> fst ` set (db_sessions db) \<and> 0 < rv row)"

definition inbox_inv :: "'j db \<Rightarrow> bool" where
  "inbox_inv db \<longleftrightarrow> (\<forall>k row. map_of (db_inbox db) k = Some row \<longrightarrow>
     k \<in> fst ` set (db_sessions db) \<and>
     0 \<le> in_last_event_id row \<and> in_last_event_id row \<le> in_last_delivered_event_id row \<and>
     in_last_delivered_event_id row \<le> i64_max)"

definition db_inv :: "'j db \<Rightarrow> bool" where
  "db_inv db \<longleftrightarrow> transitions_inv db \<and> outbox_inv db \<and>
     table_inv sn_revision (db_snapshots db) db \<and> table_inv gr_revision (db_sagas db) db \<and> inbox_inv db"

lemmas db_inv_defs = db_inv_def outbox_inv_def transitions_inv_def table_inv_def inbox_inv_def

lemma empty_db_tables [simp]:
  "db_sessions empty_db = []" "db_observations empty_db = []" "db_snapshots empty_db = []"
  "db_transitions empty_db = []" "db_sagas empty_db = []" "db_outbox empty_db = []"
  "db_outbox_seq empty_db = 0" "db_inbox empty_db = []"
  by (simp_all add: empty_db_def)

lemma db_inv_empty [simp]: "db_inv empty_db"
  by (simp add: db_inv_defs)

text \<open>
  \<open>db_extends\<close> is what no call but a wipe ever takes back: observations and events stay,
  a snapshot or saga row changes only together with a higher revision, inbox cursors advance,
  and an outbox row changes only from pending to delivered.
\<close>

definition table_le :: "('r \<Rightarrow> i64) \<Rightarrow> ('k \<times> 'r) list \<Rightarrow> ('k \<times> 'r) list \<Rightarrow> bool" where
  "table_le rv t t' \<longleftrightarrow> (\<forall>k row. map_of t k = Some row \<longrightarrow>
     (\<exists>row'. map_of t' k = Some row' \<and> (row' = row \<or> rv row < rv row')))"

definition row_kept :: "'j outbox_row \<Rightarrow> 'j outbox_row \<Rightarrow> bool" where
  "row_kept row row' \<longleftrightarrow> row' = row \<or>
     (ob_delivered_at row = None \<and> (\<exists>t. row' = row\<lparr>ob_delivered_at := Some t\<rparr>))"

definition outbox_le :: "i64 \<Rightarrow> 'j outbox_row list \<Rightarrow> 'j outbox_row list \<Rightarrow> bool" where
  "outbox_le seq rows rows' \<longleftrightarrow>
     (\<exists>kept new. rows' = kept @ new \<and> list_all2 row_kept rows kept \<and>
        (\<forall>row \<in> set new. seq < ob_outbox_id row))"

definition inbox_le :: "(session_id \<times> inbox_row) list \<Rightarrow> (session_id \<times> inbox_row) list \<Rightarrow> bool" where
  "inbox_le t t' \<longleftrightarrow> (\<forall>k row. map_of t k = Some row \<longrightarrow> (\<exists>row'. map_of t' k = Some row' \<and>
     in_last_event_id row \<le> in_last_event_id row' \<and>
     in_last_delivered_event_id row \<le> in_last_delivered_event_id row'))"

definition db_extends :: "'j db \<Rightarrow> 'j db \<Rightarrow> bool" where
  "db_extends db db' \<longleftrightarrow>
     map_of (db_observations db) \<subseteq>\<^sub>m map_of (db_observations db') \<and>
     map_of (db_transitions db) \<subseteq>\<^sub>m map_of (db_transitions db') \<and>
     table_le sn_revision (db_snapshots db) (db_snapshots db') \<and>
     table_le gr_revision (db_sagas db) (db_sagas db') \<and>
     outbox_le (db_outbox_seq db) (db_outbox db) (db_outbox db') \<and> db_outbox_seq db \<le> db_outbox_seq db' \<and>
     inbox_le (db_inbox db) (db_inbox db')"

lemma table_le_refl [simp, intro]: "table_le rv t t"
  by (auto simp: table_le_def)

lemma table_le_trans: "table_le rv t t' \<Longrightarrow> table_le rv t' t'' \<Longrightarrow> table_le rv t t''"
  unfolding table_le_def by (metis order_less_trans)

lemma table_le_update:
  assumes "is_none_or (\<lambda>stored. rv stored < rv row) (map_of t k)"
  shows "table_le rv t (AList.update k row t)"
  using assms by (auto simp: table_le_def update_conv is_none_or_iff)

lemma row_kept_refl [simp]: "row_kept row row"
  by (simp add: row_kept_def)

lemma row_kept_trans: "row_kept a b \<Longrightarrow> row_kept b c \<Longrightarrow> row_kept a c"
  by (auto simp: row_kept_def)

lemma row_kept_id: "row_kept row row' \<Longrightarrow> ob_outbox_id row' = ob_outbox_id row"
  by (auto simp: row_kept_def)

lemma outbox_le_append [intro]:
  "\<forall>row \<in> set new. seq < ob_outbox_id row \<Longrightarrow> outbox_le seq rows (rows @ new)"
  unfolding outbox_le_def by (intro exI [of _ rows] exI [of _ new]) (simp add: list.rel_refl)

lemma outbox_le_refl [simp, intro]: "outbox_le seq rows rows"
  using outbox_le_append [of "[]" seq rows] by simp

lemma outbox_le_trans:
  assumes "outbox_le s a b" and "outbox_le s' b c" and "s \<le> s'"
  shows "outbox_le s a c"
proof -
  obtain k n k' n' where b: "b = k @ n" "list_all2 row_kept a k" "\<forall>row \<in> set n. s < ob_outbox_id row"
      and c: "c = k' @ n'" "list_all2 row_kept (k @ n) k'" "\<forall>row \<in> set n'. s' < ob_outbox_id row"
    using assms(1,2) by (auto simp: outbox_le_def)
  from c(2) obtain u v where k': "k' = u @ v" "list_all2 row_kept k u" "list_all2 row_kept n v"
    by (auto simp: list_all2_append1)
  have "list_all2 row_kept a u"
    using list_all2_trans [OF row_kept_trans b(2) k'(2)] .
  moreover have "\<forall>row \<in> set v. s < ob_outbox_id row"
    using k'(3) b(3) by (metis in_set_conv_nth list_all2_conv_all_nth row_kept_id)
  moreover have "\<forall>row \<in> set n'. s < ob_outbox_id row"
    using c(3) assms(3) by auto
  ultimately show ?thesis
    using c(1) k'(1) unfolding outbox_le_def by (intro exI [of _ u] exI [of _ "v @ n'"]) auto
qed

lemma inbox_le_refl [simp, intro]: "inbox_le t t"
  by (auto simp: inbox_le_def)

lemma inbox_le_trans: "inbox_le t t' \<Longrightarrow> inbox_le t' t'' \<Longrightarrow> inbox_le t t''"
  unfolding inbox_le_def by (blast intro: order_trans)

lemma db_extends_refl [simp, intro]: "db_extends db db"
  by (simp add: db_extends_def)

lemma db_extends_trans: "db_extends a b \<Longrightarrow> db_extends b c \<Longrightarrow> db_extends a c"
  unfolding db_extends_def
  by (intro conjI; elim conjE)
    (erule (1) map_le_trans table_le_trans outbox_le_trans inbox_le_trans order_trans, assumption?)+

text \<open>One call or statement keeps the invariant and extends the history.\<close>

definition db_advances :: "'j db \<Rightarrow> 'j db \<Rightarrow> bool" where
  "db_advances db db' \<longleftrightarrow> (db_inv db \<longrightarrow> db_inv db') \<and> (db_inv db \<longrightarrow> db_extends db db')"

lemma db_advances_refl [simp, intro]: "db_advances db db"
  by (simp add: db_advances_def)

lemma db_advances_trans: "db_advances a b \<Longrightarrow> db_advances b c \<Longrightarrow> db_advances a c"
  unfolding db_advances_def using db_extends_trans by blast

lemma map_of_append_new: "map_of t k = None \<Longrightarrow> map_of t \<subseteq>\<^sub>m map_of (t @ [(k, v)])"
  by (auto simp: map_le_def map_add_def split: option.splits)

text \<open>The rows an observation and a snapshot become.\<close>

definition observation_row_of :: "observation_envelope \<Rightarrow> 'j \<Rightarrow> 'j observation_row" where
  "observation_row_of obs json =
     \<lparr>or_runtime = runtime_as_str (nk_runtime (oe_subject obs)), or_native_id = nk_native_id (oe_subject obs),
      or_observed_at = wall_time (oe_observed_at obs),
      or_monotonic = uint (monotonic_ms (oe_observed_at obs)), or_envelope = json\<rparr>"

definition snapshot_row_of :: "snapshot_update \<Rightarrow> 'j \<Rightarrow> 'j snapshot_row" where
  "snapshot_row_of su json =
     \<lparr>sn_root = main_session (su_root su), sn_revision = uint (su_revision su),
      sn_detailed_state = detailed_state_name (su_state su),
      sn_compact_state = compact_state_name (compact (su_state su)),
      sn_updated_at = su_updated_at su, sn_json = json\<rparr>"

lemma insert_observation_Inr:
  assumes "insert_observation fails fc db obs = Inr (db', inserted)"
  obtains (fresh) j where "inserted" "xf_observation_to_vec fc obs = Some j"
    "map_of (db_observations db) (oe_observation_id obs) = None"
    "db' = db\<lparr>db_observations := db_observations db @ [(oe_observation_id obs, observation_row_of obs j)]\<rparr>"
  | (known) row where "\<not> inserted" "db' = db"
    "map_of (db_observations db) (oe_observation_id obs) = Some row"
    "xf_observation_to_vec fc obs = Some (or_envelope row)"
  using assms
  by (auto simp: insert_observation_def result_elims Let_def observation_row_of_def split: if_splits)

lemma insert_observation_advances:
  assumes "insert_observation fails fc db obs = Inr (db', inserted)"
  shows "db_advances db db'"
  using assms
  by (cases rule: insert_observation_Inr)
    (auto simp: db_advances_def db_extends_def db_inv_defs map_of_append_new)

lemma upsert_session_Inr:
  assumes "upsert_session fails db unit = Inr db'"
  obtains t where "db' = db\<lparr>db_sessions := t\<rparr>"
    "fst ` set t = insert (identity_session_id (su_session (ap_snapshot unit))) (fst ` set (db_sessions db))"
  using assms
  by (auto simp: upsert_session_def result_elims Let_def dom_update split: if_splits option.splits)

lemma upsert_session_advances:
  assumes "upsert_session fails db unit = Inr db'"
  shows "db_advances db db'"
  by (rule upsert_session_Inr [OF assms])
    (auto simp: db_advances_def db_extends_def db_inv_defs)

lemma upsert_snapshot_Inr:
  assumes "upsert_snapshot fails fc db su = Inr db'"
  obtains j where "xf_snapshot_to_vec fc su = Some j" "xf_json_len fc j \<le> MAX_RECORD_BYTES"
    "uint (su_revision su) \<le> i64_max" "0 < uint (su_revision su)"
    "identity_session_id (su_session su) \<in> fst ` set (db_sessions db)"
    "is_none_or (\<lambda>stored. sn_revision stored < uint (su_revision su))
       (map_of (db_snapshots db) (identity_session_id (su_session su)))"
    "db' = db\<lparr>db_snapshots := AList.update (identity_session_id (su_session su)) (snapshot_row_of su j)
       (db_snapshots db)\<rparr>"
  using assms
  by (auto simp: upsert_snapshot_def result_elims Let_def snapshot_row_of_def is_some_and_iff
      is_none_or_iff map_of_eq_None_iff linorder_not_le simp del: not_None_eq uint_le_0_iff
      split: if_splits)

lemma upsert_snapshot_advances:
  assumes "upsert_snapshot fails fc db su = Inr db'"
  shows "db_advances db db'"
  by (rule upsert_snapshot_Inr [OF assms])
    (auto simp: db_advances_def db_extends_def db_inv_defs table_le_update update_conv snapshot_row_of_def)

lemma upsert_saga_Inr:
  assumes "upsert_saga fails revision payload saga db = Inr db'"
  obtains "child_session (sg_child saga) \<in> fst ` set (db_sessions db)"
    "is_none_or (\<lambda>stored. gr_revision stored < revision)
       (map_of (db_sagas db) (child_session (sg_child saga)))"
    "db' = db\<lparr>db_sagas := AList.update (child_session (sg_child saga))
       \<lparr>gr_stage = stage_as_str (sg_stage saga), gr_revision = revision,
        gr_next_action_at = sg_next_action_at saga, gr_json = payload\<rparr> (db_sagas db)\<rparr>"
  using assms
  by (auto simp: upsert_saga_def result_elims Let_def is_some_and_iff is_none_or_iff
      map_of_eq_None_iff simp del: not_None_eq split: if_splits)

lemma upsert_saga_advances:
  assumes "upsert_saga fails revision payload saga db = Inr db'" and "0 < revision"
  shows "db_advances db db'"
  by (rule upsert_saga_Inr [OF assms(1)])
    (use assms(2) in \<open>auto simp: db_advances_def db_extends_def db_inv_defs table_le_update update_conv\<close>)

lemma outbox_append_inv:
  assumes "sorted_wrt (<) (map ob_outbox_id rows)" "\<forall>row \<in> set rows. ob_outbox_id row \<le> seq"
  shows "sorted_wrt (<) (map ob_outbox_id (rows @ outbox_rows seq e j ds))"
proof -
  have "sorted_wrt (<) [seq + 1..seq + int (length ds)]"
    using distinct_upto sorted_upto strict_sorted_iff by blast
  then show ?thesis
    unfolding map_append sorted_wrt_append outbox_rows_ids using assms by fastforce
qed

lemma insert_event_advances:
  fixes db :: "'j db"
  assumes "insert_event fails fc ev ds db = Inr db'"
  shows "db_advances db db'"
proof (rule insert_event_Inr [OF assms])
  fix j :: 'j
  let ?e = "uint (ev_id ev)" and ?new = "outbox_rows (db_outbox_seq db) (uint (ev_id ev)) j ds"
  assume e: "?e \<le> i64_max" "map_of (db_transitions db) ?e = None"
    and subject: "map_of (db_sessions db) (identity_session_id (ev_subject ev)) \<noteq> None"
    and routes: "distinct ds" "\<forall>d \<in> set ds. (?e, destination_as_str d) \<notin> route ` set (db_outbox db)"
    and db': "db' = db\<lparr>db_transitions := btree_insert ?e (transition_row_of ev j) (db_transitions db),
       db_outbox_seq := db_outbox_seq db + int (length ds), db_outbox := db_outbox db @ ?new\<rparr>"
  have subject_in: "identity_session_id (ev_subject ev) \<in> fst ` set (db_sessions db)"
    using subject by (simp add: map_of_eq_None_iff del: not_None_eq)
  have "transitions_inv db'" "map_of (db_transitions db) \<subseteq>\<^sub>m map_of (db_transitions db')" if "db_inv db"
  proof -
    have wf: "btree_wf (db_transitions db)"
      using that by (simp add: db_inv_defs)
    have "set (db_transitions db') \<subseteq> insert (?e, transition_row_of ev j) (set (db_transitions db))"
      by (simp add: db' set_btree_insert_subset)
    moreover have "\<forall>(e, row) \<in> insert (?e, transition_row_of ev j) (set (db_transitions db)).
        0 \<le> e \<and> e \<le> i64_max \<and> tr_subject row \<in> fst ` set (db_sessions db)"
      using that subject_in e(1) by (simp add: db_inv_def transitions_inv_def transition_row_of_def)
    ultimately show "transitions_inv db'"
      using wf unfolding transitions_inv_def by (auto simp: db')
    show "map_of (db_transitions db) \<subseteq>\<^sub>m map_of (db_transitions db')"
      using wf e(2) by (auto simp: db' map_le_def)
  qed
  moreover have "outbox_inv db'" if "db_inv db"
  proof -
    have old: "\<forall>row \<in> set (db_outbox db). 0 < ob_outbox_id row \<and> ob_outbox_id row \<le> db_outbox_seq db \<and>
        ob_event_id row \<in> fst ` set (db_transitions db)" "0 \<le> db_outbox_seq db"
        "sorted_wrt (<) (map ob_outbox_id (db_outbox db))" "distinct (map route (db_outbox db))"
      using that by (simp_all add: db_inv_defs)
    have "ob_outbox_id row \<in> {db_outbox_seq db + 1..db_outbox_seq db + int (length ds)} \<and> ob_event_id row = ?e"
      if "row \<in> set ?new" for row
      using that outbox_rows_ids [of "db_outbox_seq db" ?e j ds] outbox_rows_row [OF that]
      by (metis image_eqI list.set_map set_upto)
    then have "\<forall>row \<in> set (db_outbox db) \<union> set ?new. 0 < ob_outbox_id row \<and>
        ob_outbox_id row \<le> db_outbox_seq db + int (length ds) \<and>
        ob_event_id row \<in> insert ?e (fst ` set (db_transitions db))"
      using old(1,2) by fastforce
    then have "\<forall>row \<in> set (db_outbox db'). 0 < ob_outbox_id row \<and> ob_outbox_id row \<le> db_outbox_seq db' \<and>
        ob_event_id row \<in> fst ` set (db_transitions db')"
      by (simp add: db')
    moreover have "distinct (map route (db_outbox db'))"
    proof -
      have "distinct (map route ?new)"
        unfolding outbox_rows_routes using routes(1) by (auto simp: distinct_map inj_on_def)
      moreover have "set (map route ?new) \<subseteq> - (route ` set (db_outbox db))"
      proof
        fix r
        assume "r \<in> set (map route ?new)"
        then obtain d where "d \<in> set ds" "r = (?e, destination_as_str d)"
          unfolding outbox_rows_routes by auto
        then show "r \<in> - (route ` set (db_outbox db))"
          using routes(2) by simp
      qed
      ultimately have "distinct (map route (db_outbox db) @ map route ?new)"
        using old(4) unfolding distinct_append set_map by blast
      then show ?thesis
        by (simp add: db')
    qed
    moreover have "sorted_wrt (<) (map ob_outbox_id (db_outbox db'))"
      using outbox_append_inv [OF old(3)] old(1) by (simp add: db')
    ultimately show ?thesis
      using old(2) by (simp add: outbox_inv_def db')
  qed
  moreover have "outbox_le (db_outbox_seq db) (db_outbox db) (db_outbox db @ ?new)"
  proof (rule outbox_le_append, intro ballI)
    fix row
    assume "row \<in> set ?new"
    then have "ob_outbox_id row \<in> set (map ob_outbox_id ?new)"
      by simp
    then show "db_outbox_seq db < ob_outbox_id row"
      by (simp only: outbox_rows_ids) simp
  qed
  ultimately show ?thesis
    by (simp add: db_advances_def db_inv_def db_extends_def table_inv_def inbox_inv_def db')
qed

lemma insert_routed_events_advances:
  "insert_routed_events fails fc evs db = Inr db' \<Longrightarrow> db_advances db db'"
  by (induction evs arbitrary: db)
    (auto simp: result_elims intro: db_advances_trans insert_event_advances)

section \<open>The operations over runs\<close>

lemma observation_body_advances:
  assumes "observation_body fails fc unit db = Inr (db', r)"
  shows "db_advances db db'"
  using assms
  by (auto simp: observation_body_def result_elims split: if_splits
      intro: insert_observation_advances
      dest!: insert_observation_advances upsert_session_advances upsert_snapshot_advances
        insert_routed_events_advances intro: db_advances_trans)

lemma store_apply_observation_advances:
  assumes "store_apply_observation fails fc db unit = (db', r)"
  shows "db_advances db db'"
  using assms
  by (auto simp: store_apply_observation_def split: sum.splits
      elim!: in_transaction_cases dest: observation_body_advances)

lemma positive_revision: "v \<noteq> 0 \<Longrightarrow> 0 < uint (v :: u64)"
  by (simp add: order_less_le eq_commute [of 0] uint_0_iff)

lemma apply_termination_advance_advances:
  assumes "apply_termination_advance fails fc db advance = (db', r)"
  shows "db_advances db db'"
  using assms
  by (auto simp: apply_termination_advance_def result_elims positive_revision
      split: sum.splits if_splits elim!: in_transaction_cases
      intro: db_advances_trans dest!: upsert_saga_advances insert_event_advances)

lemma save_termination_saga_advances:
  assumes "save_termination_saga fails fc db saga = (db', r)"
  shows "db_advances db db'"
  using assms
  by (auto simp: save_termination_saga_def result_elims positive_revision split: sum.splits
      dest: upsert_saga_advances)

lemma acknowledge_outbox_advances:
  assumes "acknowledge_outbox fails db i t = (db', r)"
  shows "db_advances db db'"
proof (cases "run_sql fails UpdateOutbox")
  case (Inr u)
  define mark where "mark = (\<lambda>row. if ob_outbox_id row = i \<and> ob_delivered_at row = None
    then row\<lparr>ob_delivered_at := Some t\<rparr> else row :: 'a outbox_row)"
  have db': "db' = db\<lparr>db_outbox := map mark (db_outbox db)\<rparr>"
    using assms Inr by (auto simp: acknowledge_outbox_def mark_def)
  have "ob_outbox_id (mark row) = ob_outbox_id row" "route (mark row) = route row"
      "ob_event_id (mark row) = ob_event_id row" for row
    by (simp_all add: mark_def)
  moreover from this have "map ob_outbox_id (map mark rows) = map ob_outbox_id rows"
      "map route (map mark rows) = map route rows" for rows
    by simp_all
  moreover have "list_all2 row_kept rows (map mark rows)" for rows
    by (auto simp: list_all2_conv_all_nth row_kept_def mark_def)
  then have "outbox_le seq rows (map mark rows)" for seq rows
    unfolding outbox_le_def by (intro exI [of _ "map mark rows"] exI [of _ "[]"]) simp
  ultimately show ?thesis
    by (auto simp: db' db_advances_def db_inv_defs db_extends_def simp del: map_map)
qed (use assms in \<open>simp add: acknowledge_outbox_def\<close>)

lemma inbox_update_advances:
  assumes "k \<in> fst ` set (db_sessions db)"
    and "db_inv db \<Longrightarrow> 0 \<le> in_last_event_id row \<and> in_last_event_id row \<le> in_last_delivered_event_id row \<and>
      in_last_delivered_event_id row \<le> i64_max"
    and "is_none_or (\<lambda>old. in_last_event_id old \<le> in_last_event_id row \<and>
      in_last_delivered_event_id old \<le> in_last_delivered_event_id row) (map_of (db_inbox db) k)"
  shows "db_advances db (db\<lparr>db_inbox := AList.update k row (db_inbox db)\<rparr>)"
proof -
  have "db_inv (db\<lparr>db_inbox := AList.update k row (db_inbox db)\<rparr>)" if "db_inv db"
    using that assms(1) assms(2) [OF that]
    by (simp add: db_inv_def inbox_inv_def transitions_inv_def outbox_inv_def table_inv_def update_conv)
  moreover have "inbox_le (db_inbox db) (AList.update k row (db_inbox db))"
    using assms(3) by (simp add: inbox_le_def update_conv is_none_or_iff)
  ultimately show ?thesis
    by (simp add: db_advances_def db_extends_def)
qed

lemma save_inbox_offset_advances:
  assumes "save_inbox_offset fails db offset = (db', r)"
  shows "db_advances db db'"
proof -
  let ?k = "main_session (io_parent offset)"
  let ?e = "uint (io_last_event_id offset)" and ?d = "uint (io_last_delivered_event_id offset)"
  let ?row = "\<lambda>e d. \<lparr>in_last_event_id = e, in_last_delivered_event_id = d, in_updated_at = io_updated_at offset\<rparr>"
  let ?put = "\<lambda>e d. db\<lparr>db_inbox := AList.update ?k (?row e d) (db_inbox db)\<rparr>"
  define chain where "chain = and_then (map_err InputError (sqlite_integer ''inbox event ID'' (io_last_event_id offset)))
    (\<lambda>event_id. and_then (map_err InputError
        (sqlite_integer ''inbox delivered event ID'' (io_last_delivered_event_id offset)))
      (\<lambda>delivered. and_then (run_sql fails UpsertInbox) (\<lambda>_. Inr (event_id, delivered))))"
  note unfolded = assms [unfolded save_inbox_offset_def, folded chain_def]
  show ?thesis
  proof (cases "\<exists>p. chain = Inr p \<and> \<not> ?d < ?e \<and> map_of (db_sessions db) ?k \<noteq> None")
    case True
    then have chain: "chain = Inr (?e, ?d)" and d: "?d \<le> i64_max" "?e \<le> ?d"
      and known: "map_of (db_sessions db) ?k \<noteq> None" and k: "?k \<in> fst ` set (db_sessions db)"
      by (auto simp: chain_def result_elims map_of_eq_None_iff simp del: not_None_eq)
    show ?thesis
    proof (cases "map_of (db_inbox db) ?k")
      case None
      then have "db' = ?put ?e ?d"
        using unfolded chain d(2) known by simp
      then show ?thesis
        using k d None by (auto intro!: inbox_update_advances)
    next
      case (Some old)
      have "in_last_event_id old \<le> in_last_delivered_event_id old \<and> in_last_delivered_event_id old \<le> i64_max"
        if "db_inv db"
        using that Some by (auto simp: db_inv_def inbox_inv_def)
      then have "db_advances db (?put (max (in_last_event_id old) ?e) (max (in_last_delivered_event_id old) ?d))"
        using k d Some by (intro inbox_update_advances) (auto simp: le_max_iff_disj)
      then show ?thesis
        using unfolded chain d(2) known Some by (auto split: if_splits)
    qed
  next
    case False
    then have "db' = db"
      using unfolded by (auto simp: Let_def chain_def result_elims split: sum.splits if_splits)
    then show ?thesis by simp
  qed
qed

text \<open>A run of the store is a sequence of calls, each with its own SQLite failures.\<close>

datatype store_call =
    CallApply sqlite observation_unit
  | CallAdvance sqlite termination_advance
  | CallSaveSaga sqlite termination_saga_record
  | CallAcknowledge sqlite i64 wall_time_ms
  | CallInbox sqlite inbox_offset_record
  | CallWipe sqlite

datatype store_outcome =
    ApplyOutcome observation_unit "store_error + apply_result"
  | SagaOutcome "store_error + unit"
  | AckOutcome i64 "store_error + bool"
  | InboxOutcome "store_error + bool"
  | WipeOutcome "store_error + unit"

fun store_step :: "'j foreign_code \<Rightarrow> 'j db \<Rightarrow> store_call \<Rightarrow> 'j db \<times> store_outcome list" where
  "store_step fc db (CallApply fails unit) =
     apsnd (\<lambda>r. [ApplyOutcome unit r]) (store_apply_observation fails fc db unit)"
| "store_step fc db (CallAdvance fails advance) =
     apsnd (\<lambda>r. [SagaOutcome r]) (apply_termination_advance fails fc db advance)"
| "store_step fc db (CallSaveSaga fails saga) =
     apsnd (\<lambda>r. [SagaOutcome r]) (save_termination_saga fails fc db saga)"
| "store_step fc db (CallAcknowledge fails i t) =
     apsnd (\<lambda>r. [AckOutcome i r]) (acknowledge_outbox fails db i t)"
| "store_step fc db (CallInbox fails offset) =
     apsnd (\<lambda>r. [InboxOutcome r]) (save_inbox_offset fails db offset)"
| "store_step fc db (CallWipe fails) =
     apsnd (\<lambda>r. [WipeOutcome r]) (wipe_watchdog_data fails db)"

fun keeps_history :: "store_call \<Rightarrow> bool" where
  "keeps_history (CallWipe _) = False"
| "keeps_history _ = True"

lemma store_step_advances: "keeps_history call \<Longrightarrow> db_advances db (fst (store_step fc db call))"
  by (cases call)
    (auto intro!: store_apply_observation_advances [OF surjective_pairing]
      apply_termination_advance_advances [OF surjective_pairing]
      save_termination_saga_advances [OF surjective_pairing]
      acknowledge_outbox_advances [OF surjective_pairing]
      save_inbox_offset_advances [OF surjective_pairing])

lemma wipe_inv: "db_inv db \<Longrightarrow> db_inv (fst (wipe_watchdog_data fails db))"
  by (auto simp: wipe_watchdog_data_def in_transaction_def result_elims split: sum.splits)

interpretation history: extending_machine "store_step fc" db_inv db_extends keeps_history for fc :: "'j foreign_code"
proof unfold_locales
  fix db :: "'j db" and call
  assume inv: "db_inv db"
  show "db_inv (fst (store_step fc db call))"
  proof (cases "keeps_history call")
    case True
    then show ?thesis
      using store_step_advances [OF True, of db fc] inv by (simp add: db_advances_def)
  next
    case False
    then show ?thesis
      using wipe_inv [OF inv] by (cases call) auto
  qed
  show "db_extends db (fst (store_step fc db call))" if "keeps_history call"
    using store_step_advances [OF that, of db fc] inv by (simp add: db_advances_def)
qed (auto intro: db_extends_trans)

section \<open>Properties\<close>

text \<open>
  C4. Whatever calls the store serves, in whatever order and whichever SQLite statements fail,
  the database satisfies the schema invariant: every event, delivery, snapshot, saga and inbox
  row refers to a known session or event, no event is delivered twice to one destination,
  delivery keys increase and never exceed the sequence, and all revisions are positive.
\<close>
theorem store_run_invariant: "db_inv (fst (run_machine (store_step fc) empty_db calls))"
  by (rule history.run_keeps_inv) simp

text \<open>
  C5. The store keeps history: along any run of calls without a wipe no observation or event is
  changed or lost, a snapshot or saga row is only ever replaced by one of a higher revision,
  an outbox row only ever turns from pending to delivered, and inbox cursors only advance.
\<close>
theorem store_history_kept:
  assumes "list_all keeps_history later"
  shows "db_extends (fst (run_machine (store_step fc) empty_db calls))
           (fst (run_machine (store_step fc) empty_db (calls @ later)))"
proof -
  let ?db = "fst (run_machine (store_step fc) empty_db calls)"
  have "db_extends ?db (fst (run_machine (store_step fc) ?db later))"
    by (rule history.run_extends [OF history.run_keeps_inv assms]) simp
  then show ?thesis
    by (simp add: run_machine_append_parts)
qed

text \<open>What a committed observation has written, all of it and nothing else.\<close>

definition event_rows :: "'j foreign_code \<Rightarrow> routed_event list \<Rightarrow> (i64 \<times> 'j transition_row) list" where
  "event_rows fc evs = map (\<lambda>r. (uint (ev_id (re_event r)),
     transition_row_of (re_event r) (the (xf_event_to_vec fc (re_event r))))) evs"

definition event_routes :: "routed_event list \<Rightarrow> (i64 \<times> string) list" where
  "event_routes evs = concat (map (\<lambda>r. map (\<lambda>d. (uint (ev_id (re_event r)), destination_as_str d))
     (re_destinations r)) evs)"

definition events_written :: "'j foreign_code \<Rightarrow> routed_event list \<Rightarrow> 'j db \<Rightarrow> 'j db \<Rightarrow> bool" where
  "events_written fc evs db db' \<longleftrightarrow>
     list_all (\<lambda>r. xf_event_to_vec fc (re_event r) \<noteq> None) evs \<and>
     distinct (map fst (event_rows fc evs)) \<and>
     fst ` set (event_rows fc evs) \<inter> fst ` set (db_transitions db) = {} \<and>
     map_of (db_transitions db') = map_of (db_transitions db) ++ map_of (event_rows fc evs) \<and>
     (\<exists>new. db_outbox db' = db_outbox db @ new \<and> map route new = event_routes evs \<and>
        list_all (\<lambda>row. ob_delivered_at row = None) new)"

lemma insert_event_written:
  assumes "insert_event fails fc ev ds db = Inr db'" and "btree_wf (db_transitions db)"
  shows "events_written fc [\<lparr>re_event = ev, re_destinations = ds\<rparr>] db db' \<and> btree_wf (db_transitions db') \<and>
    db_observations db' = db_observations db \<and> db_snapshots db' = db_snapshots db \<and>
    db_sessions db' = db_sessions db \<and> db_sagas db' = db_sagas db \<and> db_inbox db' = db_inbox db"
  by (rule insert_event_Inr [OF assms(1)])
    (use assms(2) in \<open>auto simp: events_written_def event_rows_def event_routes_def outbox_rows_routes
      list_all_iff map_of_eq_None_iff fun_eq_iff map_add_def dest: outbox_rows_row\<close>)

lemma events_written_trans:
  assumes "events_written fc [r] db db1" and "events_written fc evs db1 db2"
    and "fst ` set (db_transitions db1) = insert (uint (ev_id (re_event r))) (fst ` set (db_transitions db))"
  shows "events_written fc (r # evs) db db2"
proof -
  have "uint (ev_id (re_event r)) \<notin> fst ` set (event_rows fc evs)"
    using assms(2,3) unfolding events_written_def by blast
  then show ?thesis
    using assms unfolding events_written_def event_rows_def event_routes_def
    by (auto simp: list_all_iff map_add_def fun_eq_iff image_iff map_of_eq_None_iff split: option.splits)
qed

lemma insert_routed_events_written:
  assumes "insert_routed_events fails fc evs db = Inr db'" and "btree_wf (db_transitions db)"
  shows "events_written fc evs db db' \<and>
    db_observations db' = db_observations db \<and> db_snapshots db' = db_snapshots db \<and>
    db_sessions db' = db_sessions db \<and> db_sagas db' = db_sagas db \<and> db_inbox db' = db_inbox db"
  using assms
proof (induction evs arbitrary: db)
  case Nil
  then show ?case
    by (simp add: events_written_def event_rows_def event_routes_def)
next
  case (Cons r evs)
  obtain db1 where 1: "insert_event fails fc (re_event r) (re_destinations r) db = Inr db1"
    and 2: "insert_routed_events fails fc evs db1 = Inr db'"
    using Cons.prems(1) by (auto simp: result_elims)
  note written = insert_event_written [OF 1 Cons.prems(2)]
  have "fst ` set (db_transitions db1) = insert (uint (ev_id (re_event r))) (fst ` set (db_transitions db))"
    by (rule insert_event_Inr [OF 1]) simp
  moreover have "events_written fc [r] db db1"
    using written by (cases r) simp
  ultimately show ?case
    using events_written_trans [of fc r db db1 evs db'] written Cons.IH [OF 2] by simp
qed

definition applied_spec :: "'j foreign_code \<Rightarrow> observation_unit \<Rightarrow> 'j db \<Rightarrow> 'j db \<Rightarrow> bool" where
  "applied_spec fc unit db db' \<longleftrightarrow>
     (let obs = ap_observation unit; su = ap_snapshot unit; session = identity_session_id (su_session su)
      in (\<exists>oj sj. xf_observation_to_vec fc obs = Some oj \<and> xf_snapshot_to_vec fc su = Some sj \<and>
            xf_json_len fc sj \<le> MAX_RECORD_BYTES \<and>
            map_of (db_observations db) (oe_observation_id obs) = None \<and>
            map_of (db_observations db') =
              (map_of (db_observations db))(oe_observation_id obs \<mapsto> observation_row_of obs oj) \<and>
            is_none_or (\<lambda>stored. sn_revision stored < uint (su_revision su)) (map_of (db_snapshots db) session) \<and>
            map_of (db_snapshots db') = (map_of (db_snapshots db))(session \<mapsto> snapshot_row_of su sj)) \<and>
         fst ` set (db_sessions db') = insert session (fst ` set (db_sessions db)) \<and>
         events_written fc (ap_events unit) db db' \<and>
         db_sagas db' = db_sagas db \<and> db_inbox db' = db_inbox db)"

lemma observation_body_Inr:
  assumes "observation_body fails fc unit db = Inr (db', r)" and "btree_wf (db_transitions db)"
  shows "r = Duplicate \<and> db' = db \<or> r = Applied \<and> applied_spec fc unit db db'"
proof -
  let ?obs = "ap_observation unit" and ?su = "ap_snapshot unit"
  obtain db1 inserted where 1: "insert_observation fails fc db ?obs = Inr (db1, inserted)"
    using assms(1) by (auto simp: observation_body_def result_elims)
  then show ?thesis
  proof (cases rule: insert_observation_Inr)
    case known
    then show ?thesis
      using assms(1) 1 by (simp add: observation_body_def)
  next
    case (fresh oj)
    obtain db2 db3 where 2: "upsert_session fails db1 unit = Inr db2"
      and 3: "upsert_snapshot fails fc db2 ?su = Inr db3"
      and 4: "insert_routed_events fails fc (ap_events unit) db3 = Inr db'" and r: "r = Applied"
      using assms(1) 1 fresh(1) by (auto simp: observation_body_def result_elims)
    obtain t where t: "db2 = db1\<lparr>db_sessions := t\<rparr>"
        "fst ` set t = insert (identity_session_id (su_session ?su)) (fst ` set (db_sessions db1))"
      using 2 by (rule upsert_session_Inr)
    obtain sj where sj: "xf_snapshot_to_vec fc ?su = Some sj" "xf_json_len fc sj \<le> MAX_RECORD_BYTES"
        "is_none_or (\<lambda>stored. sn_revision stored < uint (su_revision ?su))
           (map_of (db_snapshots db2) (identity_session_id (su_session ?su)))"
        "db3 = db2\<lparr>db_snapshots := AList.update (identity_session_id (su_session ?su))
           (snapshot_row_of ?su sj) (db_snapshots db2)\<rparr>"
      using 3 by (rule upsert_snapshot_Inr)
    have db3: "db_transitions db3 = db_transitions db" "db_outbox db3 = db_outbox db"
      by (simp_all add: sj(4) t(1) fresh(4))
    have "events_written fc (ap_events unit) db3 db'" and
      same: "db_observations db' = db_observations db3" "db_snapshots db' = db_snapshots db3"
        "db_sessions db' = db_sessions db3" "db_sagas db' = db_sagas db3" "db_inbox db' = db_inbox db3"
      using insert_routed_events_written [OF 4] assms(2) by (simp_all add: db3)
    then have "events_written fc (ap_events unit) db db'"
      by (simp add: events_written_def db3)
    moreover have "map_of (db_observations db') =
        (map_of (db_observations db))(oe_observation_id ?obs \<mapsto> observation_row_of ?obs oj)"
      using fresh(3) by (auto simp: same sj(4) t(1) fresh(4) fun_eq_iff map_add_def split: option.splits)
    ultimately have "applied_spec fc unit db db'"
      using fresh sj(1-3) t(2)
      by (simp add: applied_spec_def Let_def same sj(4) t(1) update_conv')
    then show ?thesis
      using r by simp
  qed
qed

lemma store_apply_outcome:
  assumes "db_inv db" and "store_apply_observation fails fc db unit = (db', r)"
  shows "if r = Inr Applied then applied_spec fc unit db db' else db' = db"
proof (cases "validate_apply fc unit")
  case (Inr u)
  then have "in_transaction fails (observation_body fails fc unit) db = (db', r)"
    using assms(2) by (simp add: store_apply_observation_def)
  then show ?thesis
  proof (cases rule: in_transaction_cases)
    case (committed x)
    then show ?thesis
      using observation_body_Inr [of fails fc unit db db' x] assms(1)
      by (auto simp: db_inv_def transitions_inv_def)
  qed simp
qed (use assms(2) in \<open>auto simp: store_apply_observation_def\<close>)

lemma store_apply_results:
  assumes "store_apply_observation fails fc db unit = (db', Inr x)"
  shows "x = Applied \<or>
    x = Duplicate \<and> map_of (db_observations db) (oe_observation_id (ap_observation unit)) \<noteq> None"
proof -
  have "observation_body fails fc unit db = Inr (db', x)"
    using assms by (auto simp: store_apply_observation_def elim: in_transaction_cases split: sum.splits)
  then show ?thesis
    by (auto simp: observation_body_def result_elims elim: insert_observation_Inr split: if_splits)
qed

section \<open>Saga transitions\<close>

definition saga_row_of :: "termination_saga_record \<Rightarrow> 'j \<Rightarrow> 'j saga_row" where
  "saga_row_of saga json =
     \<lparr>gr_stage = stage_as_str (sg_stage saga), gr_revision = uint (sg_revision saga),
      gr_next_action_at = sg_next_action_at saga, gr_json = json\<rparr>"

definition saga_written :: "'j foreign_code \<Rightarrow> termination_advance \<Rightarrow> 'j db \<Rightarrow> 'j db \<Rightarrow> bool" where
  "saga_written fc adv db db' \<longleftrightarrow>
     (\<exists>j. xf_saga_to_vec fc (ad_saga adv) = Some j \<and> xf_json_len fc j \<le> MAX_RECORD_BYTES \<and>
        map_of (db_sagas db') =
          (map_of (db_sagas db))(child_session (sg_child (ad_saga adv)) \<mapsto> saga_row_of (ad_saga adv) j)) \<and>
     events_written fc [\<lparr>re_event = ad_event adv, re_destinations = ad_destinations adv\<rparr>] db db' \<and>
     db_observations db' = db_observations db \<and> db_snapshots db' = db_snapshots db \<and>
     db_sessions db' = db_sessions db \<and> db_inbox db' = db_inbox db"

lemma advance_outcome:
  assumes "db_inv db" and "apply_termination_advance fails fc db adv = (db', r)"
  shows "if r = Inr () then saga_written fc adv db db' else db' = db"
proof -
  let ?saga = "ad_saga adv"
  have wf: "btree_wf (db_transitions db)"
    using assms(1) by (simp add: db_inv_def transitions_inv_def)
  show ?thesis
  proof (cases "\<exists>x. r = Inr x")
    case False
    then show ?thesis
      using assms(2)
      by (auto simp: apply_termination_advance_def split: if_splits sum.splits elim!: in_transaction_cases)
  next
    case True
    then obtain revision payload where p: "positive_sqlite_integer ''termination saga revision'' (sg_revision ?saga) = Inr revision"
        "bounded_json fc xf_saga_to_vec ?saga ''termination saga'' = Inr payload"
      and t: "in_transaction fails (\<lambda>db. and_then (upsert_saga fails revision payload ?saga db) (\<lambda>db.
            map_ok (\<lambda>db. (db, ())) (insert_event fails fc (ad_event adv) (ad_destinations adv) db))) db = (db', r)"
      using assms(2)
      by (auto simp: apply_termination_advance_def and_then_Inr_iff map_ok_Inr_iff map_err_Inr_iff
          split: if_splits sum.splits)
    obtain db1 where 1: "upsert_saga fails revision payload ?saga db = Inr db1"
      and 2: "insert_event fails fc (ad_event adv) (ad_destinations adv) db1 = Inr db'"
      using t True by (auto simp: and_then_Inr_iff map_ok_Inr_iff elim!: in_transaction_cases)
    have db1: "db1 = db\<lparr>db_sagas := AList.update (child_session (sg_child ?saga)) (saga_row_of ?saga payload) (db_sagas db)\<rparr>"
      by (rule upsert_saga_Inr [OF 1]) (use p(1) in \<open>simp add: saga_row_of_def result_elims\<close>)
    have "events_written fc [\<lparr>re_event = ad_event adv, re_destinations = ad_destinations adv\<rparr>] db1 db'"
      and same: "db_observations db' = db_observations db1" "db_snapshots db' = db_snapshots db1"
        "db_sessions db' = db_sessions db1" "db_sagas db' = db_sagas db1" "db_inbox db' = db_inbox db1"
      using insert_event_written [OF 2] wf by (simp_all add: db1)
    then have "saga_written fc adv db db'"
      using p(2) by (auto simp: saga_written_def events_written_def db1 update_conv' result_elims)
    then show ?thesis
      using True by auto
  qed
qed

text \<open>
  Persisting an observation is atomic: a call that reports \<open>Applied\<close> has written the
  observation, a snapshot of a strictly higher revision, every event under a fresh identifier and
  one pending delivery per event and destination, and nothing else; every other result (a
  duplicate or any error, wherever in the transaction it occurred) leaves the database as it was.
\<close>
theorem store_apply_atomic:
  assumes "db_inv db" and "store_apply_observation fails fc db unit = (db', r)"
  shows "if r = Inr Applied then applied_spec fc unit db db' else db' = db"
  by (rule store_apply_outcome [OF assms])

text \<open>A concrete encoding and a concrete observation, for the instances below.\<close>

datatype document =
    ObservationDoc observation_envelope
  | SnapshotDoc snapshot_update
  | EventDoc domain_event
  | SagaDoc termination_saga_record

fun snapshot_of_doc :: "document \<Rightarrow> snapshot_update option" where
  "snapshot_of_doc (SnapshotDoc su) = Some su"
| "snapshot_of_doc _ = None"

fun event_of_doc :: "document \<Rightarrow> domain_event option" where
  "event_of_doc (EventDoc ev) = Some ev"
| "event_of_doc _ = None"

fun saga_of_doc :: "document \<Rightarrow> termination_saga_record option" where
  "saga_of_doc (SagaDoc sg) = Some sg"
| "saga_of_doc _ = None"

definition sample_code :: "document foreign_code" where
  "sample_code = \<lparr>xf_new_v5 = \<lambda>ns name. ns + of_nat (length name), xf_namespace_url = 0,
     xf_json_len = \<lambda>_. 200, xf_observation_to_vec = Some \<circ> ObservationDoc,
     xf_snapshot_to_vec = Some \<circ> SnapshotDoc, xf_event_to_vec = Some \<circ> EventDoc,
     xf_saga_to_vec = Some \<circ> SagaDoc, xf_snapshot_from_slice = snapshot_of_doc,
     xf_event_from_slice = event_of_doc, xf_saga_from_slice = saga_of_doc\<rparr>"

definition stored_key :: native_session_key where
  "stored_key = \<lparr>nk_runtime = CodexCli, nk_native_id = ''a''\<rparr>"

definition stored_session :: session_id where
  "stored_session = session_id_from_native (xf_new_v5 sample_code) (xf_namespace_url sample_code) stored_key"

definition stored_time :: "u64 \<Rightarrow> time_point" where
  "stored_time ms = \<lparr>wall_time = uint ms, monotonic_ms = ms\<rparr>"

definition stored_observation :: "uuid \<Rightarrow> u64 \<Rightarrow> observation_payload \<Rightarrow> observation_envelope" where
  "stored_observation i ms payload =
     \<lparr>oe_observation_id = ObservationId i, oe_subject = stored_key, oe_observed_at = stored_time ms,
      oe_source = \<lparr>os_adapter = \<lparr>ai_runtime = CodexCli, ai_version = ''1''\<rparr>, os_fingerprint = [],
        os_trust = Authoritative, os_confidence = None\<rparr>,
      oe_payload = payload\<rparr>"

definition stored_unit :: observation_unit where
  "stored_unit =
     \<lparr>ap_observation = stored_observation 1 5 (NativeState Running),
      ap_snapshot = \<lparr>su_session = ChildIdentity (ChildSessionId stored_session),
        su_root = MainSessionId (SessionId 9), su_revision = 1, su_state = Running, su_updated_at = 5,
        su_reducer_snapshot = None\<rparr>,
      ap_events = [\<lparr>re_event = \<lparr>ev_id = 1, ev_root = MainSessionId (SessionId 9),
          ev_subject = ChildIdentity (ChildSessionId stored_session), ev_occurred_at = 5,
          ev_kind = StateChanged Starting Running\<rparr>, re_destinations = [ParentInbox, Sse]\<rparr>]\<rparr>"

definition sample_db :: "document db" where
  "sample_db = fst (store_apply_observation (\<lambda>_. False) sample_code empty_db stored_unit)"

lemmas store_eval = store_apply_observation_def validate_apply_def in_transaction_def observation_body_def
  insert_observation_def upsert_session_def upsert_snapshot_def insert_event_def bounded_json_def run_sql_def
  sqlite_integer_def positive_sqlite_integer_def i64_of_u64_def i64_max_def MAX_RECORD_BYTES_def
  native_id_check_def byte_in_def empty_db_def Let_def

lemmas sample_eval = sample_code_def stored_key_def stored_time_def stored_observation_def stored_unit_def

lemma sample_applied:
  "store_apply_observation (\<lambda>_. False) sample_code empty_db stored_unit = (sample_db, Inr Applied)"
proof -
  have "snd (store_apply_observation (\<lambda>_. False) sample_code empty_db stored_unit) = Inr Applied"
    by (simp add: store_eval sample_eval stored_session_def session_id_from_native_def)
  then show ?thesis
    by (simp add: sample_db_def prod_eq_iff)
qed

lemma sample_db_inv: "db_inv sample_db"
  using store_apply_observation_advances [OF sample_applied] by (simp add: db_advances_def)

theorem store_history_kept_witness:
  "db_extends sample_db (fst (acknowledge_outbox (\<lambda>_. False) sample_db 1 6))"
  using store_history_kept [of "[CallAcknowledge (\<lambda>_. False) 1 6]" sample_code "[CallApply (\<lambda>_. False) stored_unit]"]
  by (simp add: sample_applied)

theorem store_apply_atomic_witness: "applied_spec sample_code stored_unit empty_db sample_db"
  using store_apply_atomic [OF db_inv_empty sample_applied] by simp

text \<open>
  Observations are idempotent across the life of a database: once an observation unit has
  been applied, submitting it again after any run of other calls (short of a wipe) reports
  \<open>Duplicate\<close> and changes nothing, unless SQLite itself fails.
\<close>
theorem apply_observation_once:
  assumes "db_inv db" and "store_apply_observation fails fc db unit = (db1, Inr Applied)"
    and "list_all keeps_history calls" and "db2 = fst (run_machine (store_step fc) db1 calls)"
  shows "store_apply_observation (\<lambda>_. False) fc db2 unit = (db2, Inr Duplicate)"
proof -
  let ?key = "oe_observation_id (ap_observation unit)"
  have valid: "validate_apply fc unit = Inr ()" and
    body: "observation_body fails fc unit db = Inr (db1, Applied)"
    using assms(2) by (auto simp: store_apply_observation_def in_transaction_def result_elims split: sum.splits)
  obtain j where j: "bounded_json fc xf_observation_to_vec (ap_observation unit) ''observation'' = Inr j"
    and mono: "sqlite_integer ''observation monotonic time'' (monotonic_ms (oe_observed_at (ap_observation unit))) =
       Inr (uint (monotonic_ms (oe_observed_at (ap_observation unit))))"
    using body by (auto simp: observation_body_def insert_observation_def result_elims)
  have "map_of (db_observations db1) ?key = Some (observation_row_of (ap_observation unit) j)"
    using store_apply_outcome [OF assms(1,2)] j by (auto simp: applied_spec_def Let_def result_elims)
  moreover have "db_extends db1 db2"
    unfolding assms(4) using store_apply_observation_advances [OF assms(2)] assms(1,3)
    by (intro history.run_extends) (simp_all add: db_advances_def)
  ultimately have "map_of (db_observations db2) ?key = Some (observation_row_of (ap_observation unit) j)"
    by (auto simp: db_extends_def map_le_def dom_def)
  then have "insert_observation (\<lambda>_. False) fc db2 (ap_observation unit) = Inr (db2, False)"
    by (simp add: insert_observation_def j mono run_sql_def observation_row_of_def)
  then show ?thesis
    by (simp add: store_apply_observation_def valid in_transaction_def observation_body_def run_sql_def)
qed

theorem apply_observation_once_witness:
  "store_apply_observation (\<lambda>_. False) sample_code
     (fst (acknowledge_outbox (\<lambda>_. False) sample_db 1 6)) stored_unit =
   (fst (acknowledge_outbox (\<lambda>_. False) sample_db 1 6), Inr Duplicate)"
  using apply_observation_once [OF db_inv_empty sample_applied, of "[CallAcknowledge (\<lambda>_. False) 1 6]"]
  by simp

section \<open>Event identifiers, deliveries and snapshots\<close>

lemma sorted_le_last: "sorted xs \<Longrightarrow> x \<in> set xs \<Longrightarrow> x \<le> last xs"
  by (induction xs) auto

lemma max_event_id_bound:
  assumes "db_inv db" and "e \<in> fst ` set (db_transitions db)"
  shows "\<exists>m. max_event_id db = Some m \<and> e \<le> m \<and> m \<le> i64_max"
proof -
  have wf: "sorted (map fst (db_transitions db))" and ne: "db_transitions db \<noteq> []"
    and hi: "\<forall>(e, row) \<in> set (db_transitions db). e \<le> i64_max"
    using assms by (auto simp: db_inv_def transitions_inv_def btree_wf_def)
  have "e \<le> last (map fst (db_transitions db))"
    using assms(2) by (intro sorted_le_last [OF wf]) simp
  moreover have "last (db_transitions db) \<in> set (db_transitions db)"
    using ne by simp
  then have "fst (last (db_transitions db)) \<le> i64_max"
    using bspec [OF hi] by (simp add: case_prod_beta)
  ultimately show ?thesis
    using ne by (simp add: max_event_id_def last_map)
qed

lemma max_event_id_nonneg:
  assumes "db_inv db" and "max_event_id db = Some m"
  shows "0 \<le> m"
proof -
  have "last (db_transitions db) \<in> set (db_transitions db)" "m = fst (last (db_transitions db))"
    using assms(2) by (auto simp: max_event_id_def split: if_splits)
  then show ?thesis
    using assms(1) by (force simp: db_inv_def transitions_inv_def)
qed

text \<open>
  C32. The identifier a restarted process resumes from is unused: on a reachable database it is
  positive, above every stored event, and it is refused (never wrapped) exactly when SQLite
  fails or the identifier space of the database is used up.
\<close>
theorem first_unallocated_fresh:
  assumes "db_inv db"
  shows "(\<forall>n. first_unallocated_event_id fails db = Inr n \<longrightarrow>
            0 < n \<and> uint n \<le> i64_max \<and> (\<forall>e \<in> fst ` set (db_transitions db). e < uint n)) \<and>
         ((\<exists>n. first_unallocated_event_id fails db = Inr n) \<longleftrightarrow>
            \<not> fails SelectMaxEvent \<and> max_event_id db \<noteq> Some i64_max)"
proof -
  let ?h = "unwrap_or 0 (max_event_id db)"
  have low: "0 \<le> ?h"
    using max_event_id_nonneg [OF assms] by (cases "max_event_id db") auto
  have high: "?h \<le> i64_max" "\<forall>e \<in> fst ` set (db_transitions db). e \<le> ?h"
  proof -
    show "\<forall>e \<in> fst ` set (db_transitions db). e \<le> ?h"
      using max_event_id_bound [OF assms] by fastforce
    have "fst (last (db_transitions db)) \<le> i64_max" if "db_transitions db \<noteq> []"
      using max_event_id_bound [OF assms, of "fst (last (db_transitions db))"] that by fastforce
    then show "?h \<le> i64_max"
      by (simp add: max_event_id_def i64_max_def)
  qed
  have full: "max_event_id db = Some i64_max \<longleftrightarrow> ?h = i64_max"
    by (cases "max_event_id db") (auto simp: i64_max_def)
  have small: "uint (word_of_int (?h + 1) :: u64) = ?h + 1" if "?h < i64_max"
    using low that unfolding uint_word_of_int_eq
    by (intro take_bit_int_eq_self) (simp_all add: i64_max_def)
  have ok: "first_unallocated_event_id fails db =
      (if fails SelectMaxEvent then Inl Sqlx
       else if ?h = i64_max then Inl (InputError (IntegerRange ''event ID''))
       else Inr (word_of_int (?h + 1)))"
    using low high(1)
    by (auto simp: first_unallocated_event_id_def run_sql_def Let_def checked_add_i64_def u64_of_i64_def
        i64_max_def i64_min_def)
  have "0 < n \<and> uint n \<le> i64_max \<and> (\<forall>e \<in> fst ` set (db_transitions db). e < uint n)"
    if "first_unallocated_event_id fails db = Inr n" for n
  proof -
    have n: "n = word_of_int (?h + 1)" "?h < i64_max"
      using that high(1) by (auto simp: ok split: if_splits)
    then have "uint n = ?h + 1"
      using small by simp
    then show ?thesis
      using low n(2) high(2) by (auto simp: word_less_def)
  qed
  then show ?thesis
    by (auto simp: full ok)
qed

theorem first_unallocated_fresh_witness:
  "first_unallocated_event_id (\<lambda>_. False) sample_db = Inr 2"
proof -
  have "db_transitions sample_db = [(1, transition_row_of (re_event (hd (ap_events stored_unit)))
      (EventDoc (re_event (hd (ap_events stored_unit)))))]"
    by (simp add: sample_db_def store_eval sample_eval stored_session_def session_id_from_native_def
        transition_row_of_def)
  then have "max_event_id sample_db = Some 1" "fst ` set (db_transitions sample_db) = {1}"
    by (simp_all add: max_event_id_def)
  moreover from this obtain n where "first_unallocated_event_id (\<lambda>_. False) sample_db = Inr n" "0 < n"
    using first_unallocated_fresh [OF sample_db_inv, of "\<lambda>_. False"] by (auto simp: i64_max_def)
  ultimately show ?thesis
    by (simp add: first_unallocated_event_id_def run_sql_def checked_add_i64_def i64_max_def i64_min_def
        u64_of_i64_def Let_def)
qed

text \<open>Whether a delivery key can still be acknowledged: it is pending, or not yet given out.\<close>

definition deliverable :: "i64 \<Rightarrow> 'j db \<Rightarrow> bool" where
  "deliverable i db \<longleftrightarrow> db_outbox_seq db < i \<or>
     (\<exists>row \<in> set (db_outbox db). ob_outbox_id row = i \<and> ob_delivered_at row = None)"

fun ack_count :: "i64 \<Rightarrow> store_outcome list \<Rightarrow> nat" where
  "ack_count i [] = 0"
| "ack_count i (AckOutcome j (Inr True) # os) = (if i = j then 1 else 0) + ack_count i os"
| "ack_count i (_ # os) = ack_count i os"

lemma ack_count_append [simp]: "ack_count i (xs @ ys) = ack_count i xs + ack_count i ys"
  by (induction i xs rule: ack_count.induct) auto

lemma outbox_ids_distinct: "db_inv db \<Longrightarrow> distinct (map ob_outbox_id (db_outbox db))"
  by (auto simp: db_inv_def outbox_inv_def strict_sorted_iff)

lemma deliverable_antimono:
  assumes "db_extends db db'" and "deliverable i db'"
  shows "deliverable i db"
proof (rule ccontr)
  assume no: "\<not> deliverable i db"
  obtain kept new where split: "db_outbox db' = kept @ new" "list_all2 row_kept (db_outbox db) kept"
      "\<forall>row \<in> set new. db_outbox_seq db < ob_outbox_id row"
    using assms(1) by (auto simp: db_extends_def outbox_le_def)
  have "i \<le> db_outbox_seq db" "db_outbox_seq db \<le> db_outbox_seq db'"
    using no assms(1) by (auto simp: deliverable_def db_extends_def)
  then obtain row' where row': "row' \<in> set kept" "ob_outbox_id row' = i" "ob_delivered_at row' = None"
    using assms(2) split(1,3) by (fastforce simp: deliverable_def)
  then obtain row where "row \<in> set (db_outbox db)" "row_kept row row'"
    using split(2) by (metis in_set_conv_nth list_all2_conv_all_nth)
  then show False
    using no row' by (auto simp: deliverable_def row_kept_def)
qed

lemma acknowledge_closes:
  assumes "db_inv db" and "acknowledge_outbox fails db i t = (db', Inr True)"
  shows "deliverable i db \<and> \<not> deliverable i db'"
proof -
  have db': "db' = db\<lparr>db_outbox := map (\<lambda>row. if ob_outbox_id row = i \<and> ob_delivered_at row = None
        then row\<lparr>ob_delivered_at := Some t\<rparr> else row) (db_outbox db)\<rparr>"
    and one: "length (filter (\<lambda>row. ob_outbox_id row = i \<and> ob_delivered_at row = None) (db_outbox db)) = 1"
    using assms(2) by (auto simp: acknowledge_outbox_def split: sum.splits)
  then obtain row where row: "row \<in> set (db_outbox db)" "ob_outbox_id row = i" "ob_delivered_at row = None"
  proof -
    have "filter (\<lambda>row. ob_outbox_id row = i \<and> ob_delivered_at row = None) (db_outbox db) \<noteq> []"
      using one by auto
    then show thesis
      using that unfolding filter_empty_conv by blast
  qed
  moreover have "i \<le> db_outbox_seq db"
    using assms(1) row by (auto simp: db_inv_def outbox_inv_def)
  ultimately show ?thesis
    by (auto simp: deliverable_def db')
qed

lemma step_ack_count:
  assumes "db_inv db" "keeps_history call" "store_step fc db call = (db', os)"
  shows "ack_count i os + (if deliverable i db' then 1 else 0) \<le> (if deliverable i db then 1 else 0)"
proof -
  have "db_extends db db'"
    using store_step_advances [OF assms(2), of db fc] assms(1,3) by (simp add: db_advances_def)
  then have anti: "deliverable i db' \<Longrightarrow> deliverable i db"
    by (rule deliverable_antimono)
  show ?thesis
  proof (cases "ack_count i os = 0")
    case False
    then obtain fails t where "acknowledge_outbox fails db i t = (db', Inr True)" and "ack_count i os = 1"
      using assms(2,3)
      by (cases "(i, os)" rule: ack_count.cases; cases call) (auto simp: apsnd_def map_prod_def split: prod.splits if_splits)
    then show ?thesis
      using acknowledge_closes [OF assms(1)] by auto
  qed (use anti in auto)
qed

text \<open>
  A delivery is acknowledged at most once: over any run of calls without a wipe, on any
  reachable database, at most one acknowledgement of a given delivery key reports success, and
  none does when the key is already delivered.
\<close>
theorem acknowledge_at_most_once:
  assumes "db_inv db" and "list_all keeps_history calls"
  shows "ack_count i (snd (run_machine (store_step fc) db calls)) \<le> (if deliverable i db then 1 else 0)"
  using assms
proof (induction calls arbitrary: db)
  case (Cons call calls)
  let ?db' = "fst (store_step fc db call)"
  have "db_inv ?db'"
    using history.step_keeps_inv [OF Cons.prems(1)] .
  then have "ack_count i (snd (run_machine (store_step fc) ?db' calls)) \<le> (if deliverable i ?db' then 1 else 0)"
    using Cons by simp
  moreover have "ack_count i (snd (store_step fc db call)) + (if deliverable i ?db' then 1 else 0)
      \<le> (if deliverable i db then 1 else 0)"
    using step_ack_count [OF Cons.prems(1), of call fc ?db' "snd (store_step fc db call)"] Cons.prems(2) by simp
  ultimately show ?case
    by simp
qed simp

theorem acknowledge_at_most_once_witness:
  "ack_count 1 (snd (run_machine (store_step sample_code) sample_db
     [CallAcknowledge (\<lambda>_. False) 1 6, CallAcknowledge (\<lambda>_. False) 1 7])) \<le> 1"
  by (rule order_trans [OF acknowledge_at_most_once [OF sample_db_inv]]) simp_all

lemma from_reducer_Inr_iff [result_elims]:
  "from_reducer snapshot = Inr su \<longleftrightarrow>
     ss_revision snapshot \<noteq> 0 \<and> uint (ss_revision snapshot) \<le> i64_max \<and>
     su = \<lparr>su_session = ss_session snapshot, su_root = ss_root snapshot, su_revision = ss_revision snapshot,
           su_state = ss_state snapshot, su_updated_at = wall_time (ss_updated_at snapshot),
           su_reducer_snapshot = Some snapshot\<rparr>"
  by (auto simp: from_reducer_def snapshot_update_new_def result_elims)

lemma from_reducer_deserialize:
  "from_reducer snapshot = Inr su \<Longrightarrow> snapshot_update_deserialize su = Some su"
  by (auto simp: result_elims snapshot_update_deserialize_def snapshot_update_new_def
      positive_sqlite_integer_def sqlite_integer_def i64_of_u64_def)

text \<open>
  C33. Snapshots survive a restart: when a unit carrying the projection of a reducer snapshot is
  applied, loading the snapshot of that session returns the complete reducer state, provided the
  JSON decoder inverts the encoder on that record; the metadata check of the deserializer never
  rejects what the coordinator wrote.
\<close>
theorem snapshot_roundtrip:
  assumes "db_inv db" and "from_reducer snapshot = Inr (ap_snapshot unit)"
    and "store_apply_observation fails fc db unit = (db', Inr Applied)"
    and serde: "\<And>j. xf_snapshot_to_vec fc (ap_snapshot unit) = Some j \<Longrightarrow>
      xf_snapshot_from_slice fc j = Some (ap_snapshot unit)"
  shows "load_snapshot (\<lambda>_. False) fc db' (ss_session snapshot) = Inr (Some (ap_snapshot unit)) \<and>
    su_reducer_snapshot (ap_snapshot unit) = Some snapshot"
proof -
  have su: "su_session (ap_snapshot unit) = ss_session snapshot"
      "su_reducer_snapshot (ap_snapshot unit) = Some snapshot"
    using assms(2) by (simp_all add: result_elims)
  obtain j where j: "xf_snapshot_to_vec fc (ap_snapshot unit) = Some j" "xf_json_len fc j \<le> MAX_RECORD_BYTES"
    using assms(3)
    by (auto simp: store_apply_observation_def in_transaction_def observation_body_def upsert_snapshot_def
        result_elims split: sum.splits if_splits)
  have "map_of (db_snapshots db') (identity_session_id (ss_session snapshot)) =
      Some (snapshot_row_of (ap_snapshot unit) j)"
    using store_apply_outcome [OF assms(1,3)] j(1) su(1) by (auto simp: applied_spec_def Let_def)
  then show ?thesis
    using j(2) serde [OF j(1)] from_reducer_deserialize [OF assms(2)] su(2)
    by (simp add: load_snapshot_def run_sql_def load_optional_json_def decode_json_def snapshot_row_of_def)
qed

definition stored_snapshot :: session_snapshot where
  "stored_snapshot = (session_snapshot_new (ChildIdentity (ChildSessionId stored_session))
     (MainSessionId (SessionId 9)) (stored_time 5))\<lparr>ss_revision := 1, ss_state := Running\<rparr>"

definition sample_reducer_unit :: observation_unit where
  "sample_reducer_unit = stored_unit\<lparr>ap_snapshot := (ap_snapshot stored_unit)
     \<lparr>su_reducer_snapshot := Some stored_snapshot\<rparr>\<rparr>"

theorem snapshot_roundtrip_witness:
  "load_snapshot (\<lambda>_. False) sample_code
     (fst (store_apply_observation (\<lambda>_. False) sample_code empty_db sample_reducer_unit))
     (ChildIdentity (ChildSessionId stored_session)) = Inr (Some (ap_snapshot sample_reducer_unit))"
proof -
  let ?r = "store_apply_observation (\<lambda>_. False) sample_code empty_db sample_reducer_unit"
  have "snd ?r = Inr Applied"
    by (simp add: store_eval sample_eval sample_reducer_unit_def stored_session_def session_id_from_native_def)
  then have applied: "?r = (fst ?r, Inr Applied)"
    by (simp add: prod_eq_iff)
  have "from_reducer stored_snapshot = Inr (ap_snapshot sample_reducer_unit)"
    by (simp add: result_elims stored_snapshot_def session_snapshot_new_def sample_reducer_unit_def
        stored_unit_def stored_time_def i64_max_def)
  then show ?thesis
    using snapshot_roundtrip [OF db_inv_empty _ applied, of stored_snapshot]
    by (simp add: sample_code_def stored_snapshot_def session_snapshot_new_def)
qed

end
