(* ===== verification/Coordinator.thy ===== *)
theory Coordinator
  imports Store
begin

text \<open>
  The session lanes of \<open>crates/watchdog-runtime/src/coordinator.rs\<close>. A lane owns one reducer
  snapshot; the lanes of a process share the store and the event sequence, so an execution is an
  interleaving of lane calls over one shared part. Each call reduces its input, allocates
  identifiers for the events, persists everything in one store transaction and replaces its
  snapshot only when the transaction reports \<open>Applied\<close>.
\<close>

section \<open>Model\<close>

datatype coordinator_error = StoreFailure store_error | EventSequenceExhausted | InvalidInput

text \<open>\<open>EventSequence\<close> is its next value: \<open>fetch_update\<close> with \<open>checked_add(1)\<close> returns the old one.\<close>

definition allocate :: "u64 \<Rightarrow> u64 \<times> (coordinator_error + event_id)" where
  "allocate current =
     (case checked_add current 1 of
        Some following \<Rightarrow> (following, Inr current)
      | None \<Rightarrow> (current, Inl EventSequenceExhausted))"

definition event_sequence_from_store :: "sqlite \<Rightarrow> 'j db \<Rightarrow> coordinator_error + u64" where
  "event_sequence_from_store fails db = map_err StoreFailure (first_unallocated_event_id fails db)"

record 'j shared =
  sh_db :: "'j db"
  sh_next_event :: u64

record lane =
  ln_snapshot :: session_snapshot
  ln_policy :: reducer_policy
  ln_destinations :: "outbox_destination list"
  ln_last_tick :: "observation_envelope option"

definition lane_new :: "session_snapshot \<Rightarrow> reducer_policy \<Rightarrow> outbox_destination list \<Rightarrow> lane" where
  "lane_new snapshot policy destinations =
     \<lparr>ln_snapshot = snapshot, ln_policy = policy, ln_destinations = destinations, ln_last_tick = None\<rparr>"

text \<open>The derived order of \<open>OutboxDestination\<close> is the order of its constructors.\<close>

fun destination_rank :: "outbox_destination \<Rightarrow> nat" where
  "destination_rank ParentInbox = 0"
| "destination_rank Sse = 1"
| "destination_rank Browser = 2"
| "destination_rank HomeAssistant = 3"
| "destination_rank Webhook = 4"

lemma destination_rank_inj: "destination_rank a = destination_rank b \<Longrightarrow> a = b"
  by (cases a; cases b) simp_all

instantiation outbox_destination :: linorder
begin

definition less_eq_outbox_destination :: "outbox_destination \<Rightarrow> outbox_destination \<Rightarrow> bool" where
  "less_eq_outbox_destination a b \<longleftrightarrow> destination_rank a \<le> destination_rank b"

definition less_outbox_destination :: "outbox_destination \<Rightarrow> outbox_destination \<Rightarrow> bool" where
  "less_outbox_destination a b \<longleftrightarrow> destination_rank a < destination_rank b"

instance
  by standard (auto simp: less_eq_outbox_destination_def less_outbox_destination_def intro: destination_rank_inj)

end

definition human_event :: "domain_event \<Rightarrow> bool" where
  "human_event event \<longleftrightarrow>
     (case ev_subject event of
        ChildIdentity _ \<Rightarrow> False
      | MainIdentity _ \<Rightarrow>
          (case ev_kind event of
             AlertDue \<Rightarrow> True
           | ReminderDue \<Rightarrow> True
           | StateChanged _ to \<Rightarrow> to = Completed \<or> to = WaitingForUser
           | _ \<Rightarrow> False))"

definition delivery_destinations :: "domain_event \<Rightarrow> outbox_destination list \<Rightarrow> outbox_destination list" where
  "delivery_destinations event baseline =
     (let destinations =
        (if human_event event then baseline @ [Browser, HomeAssistant, Webhook] else baseline)
      in remdups_adj (sort destinations))"

text \<open>The lazily evaluated \<open>collect::<Result<Vec<_>, _>>\<close>: the first exhausted allocation ends it.\<close>

fun route_events ::
  "main_session_id \<Rightarrow> session_identity \<Rightarrow> wall_time_ms \<Rightarrow> outbox_destination list \<Rightarrow> u64 \<Rightarrow>
     domain_event_kind list \<Rightarrow> u64 \<times> (coordinator_error + routed_event list)" where
  "route_events root session at baseline current [] = (current, Inr [])"
| "route_events root session at baseline current (kind # kinds) =
     (case allocate current of
        (current, Inl e) \<Rightarrow> (current, Inl e)
      | (current, Inr event_id) \<Rightarrow>
          (let event = \<lparr>ev_id = event_id, ev_root = root, ev_subject = session, ev_occurred_at = at,
                 ev_kind = kind\<rparr>;
               (current, rest) = route_events root session at baseline current kinds
           in (current, map_ok ((#) \<lparr>re_event = event,
                 re_destinations = delivery_destinations event baseline\<rparr>) rest)))"

fun transient_noop_allowed :: "reducer_input \<Rightarrow> bool" where
  "transient_noop_allowed (Tick _) = True"
| "transient_noop_allowed (Reconciled _) = True"
| "transient_noop_allowed _ = False"

definition apply_input ::
  "sqlite \<Rightarrow> 'j foreign_code \<Rightarrow> 'j shared \<times> lane \<Rightarrow> observation_envelope \<Rightarrow> reducer_input \<Rightarrow>
     ('j shared \<times> lane) \<times> (coordinator_error + apply_result)" where
  "apply_input fails fc world observation input =
     (let (shared, lane) = world;
          output = reduce (ln_snapshot lane) input (ln_policy lane);
          snapshot = ro_snapshot output
      in if transient_noop_allowed input \<and> snapshot = ln_snapshot lane \<and> ro_events output = []
         then (world, Inr NoChange)
         else
           (let (current, routed) =
                  route_events (ss_root snapshot) (ss_session snapshot)
                    (wall_time (oe_observed_at observation)) (ln_destinations lane)
                    (sh_next_event shared) (ro_events output);
                shared = shared\<lparr>sh_next_event := current\<rparr>
            in case routed of
                 Inl e \<Rightarrow> ((shared, lane), Inl e)
               | Inr events \<Rightarrow>
                   (case from_reducer snapshot of
                      Inl e \<Rightarrow> ((shared, lane), Inl (StoreFailure (InputError e)))
                    | Inr snapshot_update \<Rightarrow>
                        (let (db, result) = store_apply_observation fails fc (sh_db shared)
                               \<lparr>ap_observation = observation, ap_snapshot = snapshot_update,
                                ap_events = events\<rparr>;
                             shared = shared\<lparr>sh_db := db\<rparr>
                         in case result of
                              Inl e \<Rightarrow> ((shared, lane), Inl (StoreFailure e))
                            | Inr result \<Rightarrow>
                                ((shared, if result = Applied then lane\<lparr>ln_snapshot := snapshot\<rparr> else lane),
                                 Inr result)))))"

definition coordinator_apply_observation ::
  "sqlite \<Rightarrow> 'j foreign_code \<Rightarrow> 'j shared \<times> lane \<Rightarrow> observation_envelope \<Rightarrow>
     ('j shared \<times> lane) \<times> (coordinator_error + apply_result)" where
  "coordinator_apply_observation fails fc world observation =
     (if oe_payload observation = SchedulerTick then (world, Inl InvalidInput)
      else apply_input fails fc world observation (Observation observation))"

definition coordinator_apply_tick ::
  "sqlite \<Rightarrow> 'j foreign_code \<Rightarrow> 'j shared \<times> lane \<Rightarrow> observation_envelope \<Rightarrow>
     ('j shared \<times> lane) \<times> (coordinator_error + apply_result)" where
  "coordinator_apply_tick fails fc world observation =
     (if oe_payload observation \<noteq> SchedulerTick then (world, Inl InvalidInput)
      else
        (let evaluate =
           (case apply_input fails fc world observation (Tick (oe_observed_at observation)) of
              (world, Inl e) \<Rightarrow> (world, Inl e)
            | ((shared, lane), Inr result) \<Rightarrow>
                ((shared, lane\<lparr>ln_last_tick := Some observation\<rparr>), Inr result))
         in case ln_last_tick (snd world) of
              Some previous \<Rightarrow>
                if oe_observation_id previous = oe_observation_id observation
                then (world, if previous = observation then Inr Duplicate else Inl InvalidInput)
                else evaluate
            | None \<Rightarrow> evaluate))"

definition coordinator_apply_restarted ::
  "sqlite \<Rightarrow> 'j foreign_code \<Rightarrow> 'j shared \<times> lane \<Rightarrow> observation_envelope \<Rightarrow>
     ('j shared \<times> lane) \<times> (coordinator_error + apply_result)" where
  "coordinator_apply_restarted fails fc world observation =
     (if oe_payload observation \<noteq> SchedulerTick then (world, Inl InvalidInput)
      else apply_input fails fc world observation (Restarted (oe_observed_at observation)))"

definition coordinator_apply_reconciled ::
  "sqlite \<Rightarrow> 'j foreign_code \<Rightarrow> 'j shared \<times> lane \<Rightarrow> observation_envelope \<Rightarrow>
     ('j shared \<times> lane) \<times> (coordinator_error + apply_result)" where
  "coordinator_apply_reconciled fails fc world observation =
     (if oe_payload observation \<noteq> SchedulerTick then (world, Inl InvalidInput)
      else apply_input fails fc world observation (Reconciled (oe_observed_at observation)))"

definition set_policy :: "lane \<Rightarrow> reducer_policy \<Rightarrow> lane" where
  "set_policy lane policy = lane\<lparr>ln_policy := policy\<rparr>"

section \<open>Routing and allocation\<close>

lemma distinct_remdups_adj_sorted: "sorted xs \<Longrightarrow> distinct (remdups_adj xs)"
  by (induction xs rule: remdups_adj.induct) (auto simp: order_le_less)

text \<open>
  Delivery routing is exact: an event goes to each of the lane's baseline destinations and,
  only when it is an alert, a reminder, a completion or a request for input of a main session, to
  the three human channels as well; each destination is listed once, in a fixed order. Events of
  child sessions therefore never reach a human channel through a lane without one.
\<close>
theorem delivery_destinations_exact:
  "set (delivery_destinations event baseline) =
     set baseline \<union>
     (if (\<exists>m. ev_subject event = MainIdentity m) \<and>
         (ev_kind event \<in> {AlertDue, ReminderDue} \<or>
          (\<exists>from. ev_kind event \<in> {StateChanged from Completed, StateChanged from WaitingForUser}))
      then {Browser, HomeAssistant, Webhook} else {}) \<and>
   sorted_wrt (<) (delivery_destinations event baseline)"
proof -
  have "human_event event \<longleftrightarrow> (\<exists>m. ev_subject event = MainIdentity m) \<and>
      (ev_kind event \<in> {AlertDue, ReminderDue} \<or>
       (\<exists>from. ev_kind event \<in> {StateChanged from Completed, StateChanged from WaitingForUser}))"
    by (auto simp: human_event_def split: session_identity.splits domain_event_kind.splits)
  then show ?thesis
    by (auto simp: delivery_destinations_def Let_def strict_sorted_iff sorted_remdups_adj
        distinct_remdups_adj_sorted)
qed

lemma allocate_Inr:
  assumes "allocate current = (current', Inr event_id)"
  shows "event_id = current \<and> uint current' = uint current + 1"
proof -
  have "event_id = current" "checked_add current 1 = Some current'"
    using assms by (auto simp: allocate_def split: option.splits)
  then show ?thesis
    using checked_add_Some_iff [of current 1 current'] unfolding uint_nat by simp
qed

lemma allocate_mono: "allocate current = (current', r) \<Longrightarrow> current \<le> current'"
  by (auto simp: allocate_def int_ops word_le_nat_alt split: option.splits)

lemma route_events_mono:
  "route_events root session at baseline current kinds = (current', r) \<Longrightarrow> current \<le> current'"
proof (induction kinds arbitrary: current current' r)
  case (Cons kind kinds)
  then show ?case
    using allocate_mono [of current] order_trans
    by (fastforce simp: Let_def split: prod.splits sum.splits)
qed simp

lemma route_events_Inr:
  assumes "route_events root session at baseline current kinds = (current', Inr events)"
  shows "map (\<lambda>r. uint (ev_id (re_event r))) events = [uint current..uint current + int (length kinds) - 1] \<and>
    uint current' = uint current + int (length kinds) \<and> map (ev_kind \<circ> re_event) events = kinds \<and>
    list_all (\<lambda>r. ev_root (re_event r) = root \<and> ev_subject (re_event r) = session \<and>
      re_destinations r = delivery_destinations (re_event r) baseline) events"
  using assms
proof (induction kinds arbitrary: current current' events)
  case (Cons kind kinds)
  let ?ev = "\<lparr>ev_id = current, ev_root = root, ev_subject = session, ev_occurred_at = at, ev_kind = kind\<rparr>"
  obtain mid event_id where a: "allocate current = (mid, Inr event_id)"
    using Cons.prems by (auto split: prod.splits sum.splits)
  have mid: "event_id = current" "uint mid = uint current + 1"
    using allocate_Inr [OF a] by simp_all
  obtain rest where r: "route_events root session at baseline mid kinds = (current', Inr rest)"
    and events: "events = \<lparr>re_event = ?ev, re_destinations = delivery_destinations ?ev baseline\<rparr> # rest"
    using Cons.prems by (auto simp: a mid(1) Let_def result_elims split: prod.splits)
  show ?case
    using Cons.IH [OF r] upto_rec1 [of "uint current" "uint current + int (length kinds)"]
    by (simp add: events mid(2) algebra_simps)
qed simp

section \<open>One call\<close>

text \<open>
  \<open>committed\<close> is what a call that reports \<open>Applied\<close> has done: the new snapshot is the reduction of
  the old one, its projection is what the store transaction wrote, and the reducer's events carry
  consecutive identifiers from the sequence.
\<close>

definition committed ::
  "'j foreign_code \<Rightarrow> 'j shared \<times> lane \<Rightarrow> observation_envelope \<Rightarrow> reducer_input \<Rightarrow> 'j shared \<times> lane \<Rightarrow> bool" where
  "committed fc world observation input world' \<longleftrightarrow>
     (let (shared, lane) = world; (shared', lane') = world';
          output = reduce (ln_snapshot lane) input (ln_policy lane)
      in ln_snapshot lane' = ro_snapshot output \<and>
         (\<exists>update events.
            from_reducer (ro_snapshot output) = Inr update \<and>
            applied_spec fc \<lparr>ap_observation = observation, ap_snapshot = update, ap_events = events\<rparr>
              (sh_db shared) (sh_db shared') \<and>
            map (ev_kind \<circ> re_event) events = ro_events output \<and>
            map (\<lambda>r. uint (ev_id (re_event r))) events =
              [uint (sh_next_event shared)..uint (sh_next_event shared') - 1] \<and>
            list_all (\<lambda>r. ev_subject (re_event r) = ss_session (ln_snapshot lane) \<and>
              re_destinations r = delivery_destinations (re_event r) (ln_destinations lane)) events))"

lemma reduce_identity:
  "ss_session (ro_snapshot (reduce s i p)) = ss_session s"
  "ss_root (ro_snapshot (reduce s i p)) = ss_root s"
  using session.step_identity [of p s i] by (simp_all add: snapshot_identity_def reduce_snapshot)

lemma apply_input_outcome:
  assumes inv: "db_inv (sh_db shared)"
    and call: "apply_input fails fc (shared, lane) observation input = ((shared', lane'), r)"
  shows "sh_next_event shared \<le> sh_next_event shared' \<and>
    ln_policy lane' = ln_policy lane \<and> ln_destinations lane' = ln_destinations lane \<and>
    ln_last_tick lane' = ln_last_tick lane \<and> db_advances (sh_db shared) (sh_db shared') \<and>
    (if r = Inr Applied then committed fc (shared, lane) observation input (shared', lane')
     else sh_db shared' = sh_db shared \<and> lane' = lane)"
proof -
  let ?out = "reduce (ln_snapshot lane) input (ln_policy lane)"
  let ?noop = "transient_noop_allowed input \<and> ro_snapshot ?out = ln_snapshot lane \<and> ro_events ?out = []"
  obtain current routed where route: "route_events (ss_root (ro_snapshot ?out)) (ss_session (ro_snapshot ?out))
      (wall_time (oe_observed_at observation)) (ln_destinations lane) (sh_next_event shared) (ro_events ?out) =
      (current, routed)"
    by fastforce
  note mono = route_events_mono [OF route]
  show ?thesis
  proof (cases "\<not> ?noop \<and> (\<exists>events update. routed = Inr events \<and> from_reducer (ro_snapshot ?out) = Inr update)")
    case False
    then have "sh_db shared' = sh_db shared \<and> lane' = lane \<and> r \<noteq> Inr Applied \<and>
        sh_next_event shared' \<in> {sh_next_event shared, current}"
      using call unfolding apply_input_def by (auto simp: Let_def route split: sum.splits if_splits)
    then show ?thesis
      using mono by auto
  next
    case True
    then obtain events update where ok: "routed = Inr events" "from_reducer (ro_snapshot ?out) = Inr update"
      by blast
    let ?unit = "\<lparr>ap_observation = observation, ap_snapshot = update, ap_events = events\<rparr>"
    obtain db sr where store: "store_apply_observation fails fc (sh_db shared) ?unit = (db, sr)"
      by fastforce
    have shared': "shared' = \<lparr>sh_db = db, sh_next_event = current\<rparr>"
      and lane': "lane' = (if sr = Inr Applied then lane\<lparr>ln_snapshot := ro_snapshot ?out\<rparr> else lane)"
      and r: "r = Inr Applied \<longleftrightarrow> sr = Inr Applied"
      using call True ok store unfolding apply_input_def
      by (auto simp: Let_def route split: sum.splits if_splits)
    have adv: "db_advances (sh_db shared) db"
      using store by (rule store_apply_observation_advances)
    show ?thesis
    proof (cases "sr = Inr Applied")
      case True
      have "uint current = uint (sh_next_event shared) + int (length (ro_events ?out))"
        using route_events_Inr [OF route [unfolded ok]] by simp
      then have "committed fc (shared, lane) observation input (shared', lane')"
        unfolding committed_def Let_def prod.case
        using store_apply_outcome [OF inv store] route_events_Inr [OF route [unfolded ok]] ok(2)
        by (intro conjI exI [of _ update] exI [of _ events])
          (auto simp: True shared' lane' reduce_identity list_all_iff)
      then show ?thesis
        using True mono adv by (simp add: shared' lane' r)
    next
      case False
      then show ?thesis
        using store_apply_outcome [OF inv store] mono by (simp add: shared' lane' r)
    qed
  qed
qed

datatype lane_op =
    OpObservation observation_envelope
  | OpTick observation_envelope
  | OpRestarted observation_envelope
  | OpReconciled observation_envelope

fun lane_call ::
  "sqlite \<Rightarrow> 'j foreign_code \<Rightarrow> 'j shared \<times> lane \<Rightarrow> lane_op \<Rightarrow>
     ('j shared \<times> lane) \<times> (coordinator_error + apply_result)" where
  "lane_call fails fc world (OpObservation observation) = coordinator_apply_observation fails fc world observation"
| "lane_call fails fc world (OpTick observation) = coordinator_apply_tick fails fc world observation"
| "lane_call fails fc world (OpRestarted observation) = coordinator_apply_restarted fails fc world observation"
| "lane_call fails fc world (OpReconciled observation) = coordinator_apply_reconciled fails fc world observation"

fun op_observation :: "lane_op \<Rightarrow> observation_envelope" where
  "op_observation (OpObservation observation) = observation"
| "op_observation (OpTick observation) = observation"
| "op_observation (OpRestarted observation) = observation"
| "op_observation (OpReconciled observation) = observation"

fun op_input :: "lane_op \<Rightarrow> reducer_input" where
  "op_input (OpObservation observation) = Observation observation"
| "op_input (OpTick observation) = Tick (oe_observed_at observation)"
| "op_input (OpRestarted observation) = Restarted (oe_observed_at observation)"
| "op_input (OpReconciled observation) = Reconciled (oe_observed_at observation)"

text \<open>Every call either runs \<open>apply_input\<close> on its input, up to the tick memo, or changes nothing.\<close>

lemma lane_call_cases:
  assumes "lane_call fails fc world op = (world', r)"
  obtains (refused) "world' = world" "r \<noteq> Inr Applied"
  | (evaluated) shared' lane' tick where
      "apply_input fails fc world (op_observation op) (op_input op) = ((shared', lane'), r)"
      "world' = (shared', lane'\<lparr>ln_last_tick := tick\<rparr>)"
proof -
  have plain: thesis if "apply_input fails fc world (op_observation op) (op_input op) = (world', r)"
    using that by (intro evaluated [of "fst world'" "snd world'" "ln_last_tick (snd world')"]) simp_all
  show thesis
  proof (cases op)
    case (OpTick obs)
    let ?r = "apply_input fails fc world obs (Tick (oe_observed_at obs))"
    obtain s l q where q: "?r = ((s, l), q)"
      by (metis surj_pair)
    consider "world' = world" "r \<noteq> Inr Applied"
      | "world' = (s, l\<lparr>ln_last_tick := (case q of Inl e \<Rightarrow> ln_last_tick l | Inr x \<Rightarrow> Some obs)\<rparr>)" "r = q"
      using assms unfolding OpTick
      by (cases q) (auto simp: coordinator_apply_tick_def Let_def q split: if_splits option.splits)
    then show thesis
      by cases (use q in \<open>auto simp: OpTick intro: refused evaluated [of s l]\<close>)
  next
    case (OpObservation obs)
    show thesis
    proof (cases "oe_payload obs = SchedulerTick")
      case False
      then show thesis
        using assms by (intro plain) (simp add: OpObservation coordinator_apply_observation_def)
    qed (use assms in \<open>auto simp: OpObservation coordinator_apply_observation_def intro: refused\<close>)
  next
    case (OpRestarted obs)
    show thesis
    proof (cases "oe_payload obs = SchedulerTick")
      case True
      then show thesis
        using assms by (intro plain) (simp add: OpRestarted coordinator_apply_restarted_def)
    qed (use assms in \<open>auto simp: OpRestarted coordinator_apply_restarted_def intro: refused\<close>)
  next
    case (OpReconciled obs)
    show thesis
    proof (cases "oe_payload obs = SchedulerTick")
      case True
      then show thesis
        using assms by (intro plain) (simp add: OpReconciled coordinator_apply_reconciled_def)
    qed (use assms in \<open>auto simp: OpReconciled coordinator_apply_reconciled_def intro: refused\<close>)
  qed
qed

lemma committed_tick_irrelevant [simp]:
  "committed fc w obs i (shared', lane'\<lparr>ln_last_tick := t\<rparr>) = committed fc w obs i (shared', lane')"
  by (simp add: committed_def)

lemma lane_call_outcome:
  assumes "db_inv (sh_db shared)" and "lane_call fails fc (shared, lane) op = ((shared', lane'), r)"
  shows "sh_next_event shared \<le> sh_next_event shared' \<and> db_advances (sh_db shared) (sh_db shared') \<and>
    ln_destinations lane' = ln_destinations lane \<and>
    (if r = Inr Applied
     then committed fc (shared, lane) (op_observation op) (op_input op) (shared', lane')
     else sh_db shared' = sh_db shared \<and> ln_snapshot lane' = ln_snapshot lane)"
  using assms(2)
proof (cases rule: lane_call_cases)
  case (evaluated s l tick)
  then have "shared' = s" "lane' = l\<lparr>ln_last_tick := tick\<rparr>"
    by auto
  then show ?thesis
    using apply_input_outcome [OF assms(1) evaluated(1)] by auto
qed auto

text \<open>
  A lane call is atomic in memory and on disk: when it reports \<open>Applied\<close>, the lane holds the
  reduction of its old snapshot, and the store holds the projection of exactly that snapshot, the
  observation, and the reducer's events in order under consecutive identifiers with their routes;
  with any other result, errors included, neither the database nor the lane's snapshot changed.
\<close>
theorem lane_call_atomic:
  assumes "db_inv (sh_db shared)" and "lane_call fails fc (shared, lane) op = ((shared', lane'), r)"
  shows "if r = Inr Applied
     then committed fc (shared, lane) (op_observation op) (op_input op) (shared', lane')
     else sh_db shared' = sh_db shared \<and> ln_snapshot lane' = ln_snapshot lane"
  using lane_call_outcome [OF assms] by blast

section \<open>Interleaved lanes\<close>

text \<open>
  A lane is in step with the store when the row of its session encodes its snapshot, or when
  nothing was stored yet and the snapshot is still at revision zero.
\<close>

definition in_step :: "'j foreign_code \<Rightarrow> 'j db \<Rightarrow> session_snapshot \<Rightarrow> bool" where
  "in_step fc db snapshot \<longleftrightarrow>
     (case map_of (db_snapshots db) (identity_session_id (ss_session snapshot)) of
        None \<Rightarrow> ss_revision snapshot = 0
      | Some row \<Rightarrow> (\<exists>update. from_reducer snapshot = Inr update \<and>
          xf_snapshot_to_vec fc update = Some (sn_json row) \<and>
          xf_json_len fc (sn_json row) \<le> MAX_RECORD_BYTES \<and> sn_revision row = uint (ss_revision snapshot)))"

abbreviation lane_session :: "lane \<Rightarrow> session_id" where
  "lane_session lane \<equiv> identity_session_id (ss_session (ln_snapshot lane))"

definition lanes_inv :: "'j foreign_code \<Rightarrow> 'j shared \<times> lane list \<Rightarrow> bool" where
  "lanes_inv fc w \<longleftrightarrow> db_inv (sh_db (fst w)) \<and>
     (\<forall>e \<in> fst ` set (db_transitions (sh_db (fst w))). e < uint (sh_next_event (fst w))) \<and>
     distinct (map lane_session (snd w)) \<and>
     (\<forall>lane \<in> set (snd w). in_step fc (sh_db (fst w)) (ln_snapshot lane))"

definition lanes_extend :: "'j shared \<times> lane list \<Rightarrow> 'j shared \<times> lane list \<Rightarrow> bool" where
  "lanes_extend w w' \<longleftrightarrow> map lane_session (snd w') = map lane_session (snd w) \<and>
     db_extends (sh_db (fst w)) (sh_db (fst w')) \<and> sh_next_event (fst w) \<le> sh_next_event (fst w')"

fun lanes_step ::
  "'j foreign_code \<Rightarrow> 'j shared \<times> lane list \<Rightarrow> sqlite \<times> nat \<times> lane_op \<Rightarrow>
     ('j shared \<times> lane list) \<times> (coordinator_error + apply_result) list" where
  "lanes_step fc (shared, lanes) (fails, i, op) =
     (if i < length lanes
      then (let ((shared', lane'), r) = lane_call fails fc (shared, lanes ! i) op
            in ((shared', lanes[i := lane']), [r]))
      else ((shared, lanes), []))"


lemma committed_snapshots:
  assumes "committed fc (shared, lane) obs i (shared', lane')"
  obtains update j where "from_reducer (ln_snapshot lane') = Inr update"
    "xf_snapshot_to_vec fc update = Some j" "xf_json_len fc j \<le> MAX_RECORD_BYTES"
    "map_of (db_snapshots (sh_db shared')) =
       (map_of (db_snapshots (sh_db shared)))(lane_session lane \<mapsto> snapshot_row_of update j)"
    "is_none_or (\<lambda>stored. sn_revision stored < uint (ss_revision (ln_snapshot lane')))
       (map_of (db_snapshots (sh_db shared)) (lane_session lane))"
    "ss_session (ln_snapshot lane') = ss_session (ln_snapshot lane)"
    "su_revision update = ss_revision (ln_snapshot lane')"
proof -
  let ?out = "reduce (ln_snapshot lane) i (ln_policy lane)"
  obtain update events where c: "ln_snapshot lane' = ro_snapshot ?out" "from_reducer (ro_snapshot ?out) = Inr update"
      "applied_spec fc \<lparr>ap_observation = obs, ap_snapshot = update, ap_events = events\<rparr> (sh_db shared) (sh_db shared')"
    using assms by (auto simp: committed_def Let_def)
  have u: "su_session update = ss_session (ln_snapshot lane)" "su_revision update = ss_revision (ln_snapshot lane')"
    using c(1,2) by (simp_all add: from_reducer_Inr_iff reduce_identity)
  show thesis
    using c(3) that [of update] c(1,2) u by (auto simp: applied_spec_def Let_def reduce_identity)
qed

lemma in_step_other:
  assumes "committed fc (shared, lane) obs i (shared', lane')" "in_step fc (sh_db shared) s"
    "identity_session_id (ss_session s) \<noteq> lane_session lane"
  shows "in_step fc (sh_db shared') s"
  by (rule committed_snapshots [OF assms(1)]) (use assms(2,3) in \<open>simp add: in_step_def\<close>)

lemma in_step_self:
  assumes "committed fc (shared, lane) obs i (shared', lane')"
  shows "in_step fc (sh_db shared') (ln_snapshot lane')"
  by (rule committed_snapshots [OF assms]) (simp add: in_step_def snapshot_row_of_def)

lemma committed_events_below:
  assumes "committed fc (shared, lane) obs i (shared', lane')"
    and "\<forall>e \<in> fst ` set (db_transitions (sh_db shared)). e < uint (sh_next_event shared)"
    and "sh_next_event shared \<le> sh_next_event shared'"
  shows "\<forall>e \<in> fst ` set (db_transitions (sh_db shared')). e < uint (sh_next_event shared')"
proof -
  obtain update events where c: "applied_spec fc \<lparr>ap_observation = obs, ap_snapshot = update, ap_events = events\<rparr>
        (sh_db shared) (sh_db shared')"
      and ids: "map (\<lambda>r. uint (ev_id (re_event r))) events =
        [uint (sh_next_event shared)..uint (sh_next_event shared') - 1]"
    using assms(1) by (auto simp: committed_def Let_def)
  have "dom (map_of (db_transitions (sh_db shared'))) =
      fst ` set (event_rows fc events) \<union> dom (map_of (db_transitions (sh_db shared)))"
    using c by (simp add: applied_spec_def Let_def events_written_def dom_map_of_conv_image_fst)
  moreover have "fst ` set (event_rows fc events) = set (map (\<lambda>r. uint (ev_id (re_event r))) events)"
    by (force simp: event_rows_def)
  ultimately have "fst ` set (db_transitions (sh_db shared')) =
      set [uint (sh_next_event shared)..uint (sh_next_event shared') - 1] \<union> fst ` set (db_transitions (sh_db shared))"
    by (simp only: ids dom_map_of_conv_image_fst)
  then show ?thesis
    using assms(2,3) by (auto simp: word_le_def)
qed

lemma lanes_step_inv:
  assumes "lanes_inv fc w"
  shows "lanes_inv fc (fst (lanes_step fc w call)) \<and> lanes_extend w (fst (lanes_step fc w call))"
proof -
  obtain shared lanes fails i op where w: "w = (shared, lanes)" and call: "call = (fails, i, op)"
    by (metis surj_pair)
  note inv = assms [unfolded w lanes_inv_def fst_conv snd_conv]
  show ?thesis
  proof (cases "i < length lanes")
    case True
    obtain shared' lane' r where r: "lane_call fails fc (shared, lanes ! i) op = ((shared', lane'), r)"
      by (metis surj_pair)
    have out: "sh_next_event shared \<le> sh_next_event shared'" "db_advances (sh_db shared) (sh_db shared')"
        "if r = Inr Applied then committed fc (shared, lanes ! i) (op_observation op) (op_input op) (shared', lane')
         else sh_db shared' = sh_db shared \<and> ln_snapshot lane' = ln_snapshot (lanes ! i)"
      using lane_call_outcome [OF _ r] inv by blast+
    have same: "lane_session lane' = lane_session (lanes ! i)"
      using out(3) by (auto split: if_splits elim: committed_snapshots)
    then have keys: "map lane_session (lanes[i := lane']) = map lane_session lanes"
      by (simp add: map_update list_update_same_conv True)
    have others: "lane_session (lanes ! k) \<noteq> lane_session (lanes ! i)" if "k < length lanes" "k \<noteq> i" for k
      using inv that True by (auto simp: distinct_conv_nth)
    have "in_step fc (sh_db shared') (ln_snapshot lane)" if mem: "lane \<in> set (lanes[i := lane'])" for lane
    proof -
      obtain k where k: "k < length lanes" "lane = (lanes[i := lane']) ! k"
        using mem unfolding in_set_conv_nth length_list_update by blast
      have old: "in_step fc (sh_db shared) (ln_snapshot (lanes ! k))"
        using inv k(1) by auto
      show ?thesis
      proof (cases "k = i")
        case True
        then have "lane = lane'"
          using k by simp
        then show ?thesis
          using out(3) old True by (cases "r = Inr Applied") (simp_all add: in_step_self)
      next
        case False
        then have "lane = lanes ! k"
          using k by simp
        then show ?thesis
          using out(3) old others [OF k(1) False] by (cases "r = Inr Applied") (auto intro: in_step_other)
      qed
    qed
    moreover have "\<forall>e \<in> fst ` set (db_transitions (sh_db shared')). e < uint (sh_next_event shared')"
    proof (cases "r = Inr Applied")
      case True
      then show ?thesis
        using committed_events_below [OF _ _ out(1)] out(3) inv by simp
    next
      case False
      then show ?thesis
        using out(1,3) inv unfolding word_le_def by force
    qed
    moreover have "db_inv (sh_db shared')"
      using out(2) inv by (auto simp: db_advances_def)
    moreover have "db_extends (sh_db shared) (sh_db shared')"
      using out(2) inv by (auto simp: db_advances_def)
    ultimately show ?thesis
      using keys inv True out(1) by (simp add: w call r lanes_inv_def lanes_extend_def Let_def)
  qed (use assms w call in \<open>simp add: lanes_extend_def\<close>)
qed

interpretation lanes: extending_machine "lanes_step fc" "lanes_inv fc" lanes_extend "\<lambda>_. True"
  for fc :: "'j foreign_code"
proof unfold_locales
  fix w w' w'' :: "'j shared \<times> lane list" and call
  show "lanes_inv fc w \<Longrightarrow> lanes_inv fc (fst (lanes_step fc w call))"
    and "lanes_inv fc w \<Longrightarrow> True \<Longrightarrow> lanes_extend w (fst (lanes_step fc w call))"
    using lanes_step_inv by blast+
  show "lanes_extend w w"
    by (simp add: lanes_extend_def)
  show "lanes_extend w w' \<Longrightarrow> lanes_extend w' w'' \<Longrightarrow> lanes_extend w w''"
    unfolding lanes_extend_def by (auto intro: db_extends_trans)
qed

lemma in_step_load:
  assumes "in_step fc db s"
    and "\<And>u j. xf_snapshot_to_vec fc u = Some j \<Longrightarrow> xf_snapshot_from_slice fc j = Some u"
  shows "case load_snapshot (\<lambda>_. False) fc db (ss_session s) of
      Inr None \<Rightarrow> ss_revision s = 0
    | Inr (Some update) \<Rightarrow> su_reducer_snapshot update = Some s
    | Inl _ \<Rightarrow> False"
proof (cases "map_of (db_snapshots db) (identity_session_id (ss_session s))")
  case (Some row)
  then obtain update where u: "from_reducer s = Inr update" "xf_snapshot_to_vec fc update = Some (sn_json row)"
      "xf_json_len fc (sn_json row) \<le> MAX_RECORD_BYTES"
    using assms(1) by (auto simp: in_step_def)
  have "su_reducer_snapshot update = Some s"
    using u(1) by (simp add: from_reducer_Inr_iff)
  then show ?thesis
    using assms(2) [OF u(2)] u(3) from_reducer_deserialize [OF u(1)]
    by (simp add: load_snapshot_def run_sql_def load_optional_json_def decode_json_def Some)
qed (use assms(1) in \<open>simp add: in_step_def load_snapshot_def run_sql_def load_optional_json_def\<close>)

text \<open>
  C6. Memory and disk agree under every interleaving: start any number of lanes for distinct
  sessions over an empty store, let them serve any calls in any order with any SQLite failures;
  then for every lane, loading its session's snapshot yields exactly the lane's snapshot (or
  nothing, if the lane is still at revision zero), provided the JSON decoder inverts the encoder.
  All stored event identifiers are distinct and below the shared sequence, so a later event can
  never collide with one of them.
\<close>
theorem lanes_agree_with_store:
  fixes fc :: "'j foreign_code"
  assumes "distinct (map (identity_session_id \<circ> ss_session) snapshots)"
    and "\<forall>s \<in> set snapshots. ss_revision s = 0"
    and "\<And>u j. xf_snapshot_to_vec fc u = Some j \<Longrightarrow> xf_snapshot_from_slice fc j = Some u"
    and "(shared, lanes) = fst (run_machine (lanes_step fc)
      (\<lparr>sh_db = empty_db, sh_next_event = 1\<rparr>, map (\<lambda>s. lane_new s policy destinations) snapshots) calls)"
  shows "(\<forall>lane \<in> set lanes.
       case load_snapshot (\<lambda>_. False) fc (sh_db shared) (ss_session (ln_snapshot lane)) of
         Inr None \<Rightarrow> ss_revision (ln_snapshot lane) = 0
       | Inr (Some update) \<Rightarrow> su_reducer_snapshot update = Some (ln_snapshot lane)
       | Inl _ \<Rightarrow> False) \<and>
     distinct (map fst (db_transitions (sh_db shared))) \<and>
     (\<forall>e \<in> fst ` set (db_transitions (sh_db shared)). e < uint (sh_next_event shared))"
proof -
  let ?w = "(\<lparr>sh_db = empty_db, sh_next_event = 1\<rparr> :: 'j shared, map (\<lambda>s. lane_new s policy destinations) snapshots)"
  have "lanes_inv fc ?w"
    using assms(1,2) by (auto simp: lanes_inv_def lane_new_def comp_def in_step_def)
  then have inv: "lanes_inv fc (shared, lanes)"
    unfolding assms(4) by (rule lanes.run_keeps_inv)
  then have "\<forall>lane \<in> set lanes. in_step fc (sh_db shared) (ln_snapshot lane)"
    by (simp add: lanes_inv_def)
  then show ?thesis
    using inv in_step_load [OF _ assms(3)]
    by (auto simp: lanes_inv_def db_inv_def transitions_inv_def btree_wf_def)
qed

lemma observation_results:
  assumes "lane_call fails fc (shared, lane) (OpObservation obs) = (w', Inr x)"
  shows "x = Applied \<or>
    x = Duplicate \<and> map_of (db_observations (sh_db shared)) (oe_observation_id obs) \<noteq> None"
proof -
  obtain unit db' where "store_apply_observation fails fc (sh_db shared) unit = (db', Inr x)"
      "ap_observation unit = obs"
    using assms
    by (force simp: coordinator_apply_observation_def apply_input_def Let_def split: if_splits prod.splits sum.splits)
  then show ?thesis
    using store_apply_results by metis
qed

text \<open>
  An input the reducer ignores is never recorded: when a lane whose session has a stored
  snapshot is given an input that leaves the snapshot unchanged (an observation that is older than
  the last one, for example), the call does not report \<open>Applied\<close> and the database is unchanged;
  an observation not seen before is answered with an error, not with success.
\<close>
theorem ignored_observation_not_recorded:
  assumes "lanes_inv fc (shared, lanes)" and "i < length lanes"
    and "map_of (db_snapshots (sh_db shared)) (lane_session (lanes ! i)) \<noteq> None"
    and "ro_snapshot (reduce (ln_snapshot (lanes ! i)) (Observation obs) (ln_policy (lanes ! i))) =
      ln_snapshot (lanes ! i)"
    and "map_of (db_observations (sh_db shared)) (oe_observation_id obs) = None"
    and "lane_call fails fc (shared, lanes ! i) (OpObservation obs) = ((shared', lane'), r)"
  shows "sh_db shared' = sh_db shared \<and> (\<exists>e. r = Inl e)"
proof -
  let ?lane = "lanes ! i"
  have inv: "db_inv (sh_db shared)" and step: "in_step fc (sh_db shared) (ln_snapshot ?lane)"
    using assms(1,2) by (simp_all add: lanes_inv_def)
  have "r \<noteq> Inr Applied"
  proof
    assume "r = Inr Applied"
    then have c: "committed fc (shared, ?lane) obs (Observation obs) (shared', lane')"
      using lane_call_outcome [OF inv assms(6)] by simp
    have "ln_snapshot lane' = ln_snapshot ?lane"
      using c assms(4) by (simp add: committed_def Let_def)
    then have "is_none_or (\<lambda>stored. sn_revision stored < uint (ss_revision (ln_snapshot ?lane)))
        (map_of (db_snapshots (sh_db shared)) (lane_session ?lane))"
      by (rule_tac committed_snapshots [OF c]) simp
    then show False
      using assms(3) step by (auto simp: in_step_def)
  qed
  moreover have "r \<noteq> Inr Duplicate" "r \<noteq> Inr NoChange"
    using observation_results assms(5,6) by blast+
  ultimately show ?thesis
    using lane_call_outcome [OF inv assms(6)] by (cases r) (auto intro: apply_result.exhaust)
qed

section \<open>Instances\<close>

definition started_snapshot :: session_snapshot where
  "started_snapshot = session_snapshot_new (ChildIdentity (ChildSessionId stored_session))
     (MainSessionId (SessionId 9)) (stored_time 1)"

definition started_world :: "document shared \<times> lane" where
  "started_world = (\<lparr>sh_db = empty_db, sh_next_event = 1\<rparr>,
     lane_new started_snapshot default_reducer_policy [ParentInbox, Sse])"

definition running_op :: lane_op where
  "running_op = OpObservation (stored_observation 1 5 (NativeState Running))"

definition running_world :: "document shared \<times> lane" where
  "running_world = fst (lane_call (\<lambda>_. False) sample_code started_world running_op)"

lemmas reduce_eval = reduce_def apply_observation_def is_duplicate_or_stale_def note_observation_def
  apply_native_state_def transition_def Let_def

definition running_snapshot :: session_snapshot where
  "running_snapshot = started_snapshot\<lparr>ss_revision := 1, ss_state := Running, ss_updated_at := stored_time 5,
     ss_last_activity := stored_time 5, ss_last_trusted_transition := Some (stored_time 5),
     ss_last_observation_id := Some (ObservationId 1), ss_last_observation_ms := Some 5\<rparr>"

lemma running_reduced:
  "reduce started_snapshot (Observation (stored_observation 1 5 (NativeState Running))) default_reducer_policy =
     \<lparr>ro_snapshot = running_snapshot, ro_events = [StateChanged Starting Running]\<rparr>"
  by (simp add: reduce_eval started_snapshot_def session_snapshot_new_def stored_observation_def
      stored_time_def saturating_add_def running_snapshot_def)

lemma running_fields [simp]:
  "ss_session running_snapshot = ChildIdentity (ChildSessionId stored_session)"
  "ss_root running_snapshot = MainSessionId (SessionId 9)" "ss_revision running_snapshot = 1"
  "ss_state running_snapshot = Running" "ss_updated_at running_snapshot = stored_time 5"
  by (simp_all add: running_snapshot_def started_snapshot_def session_snapshot_new_def)

lemma running_applied:
  "lane_call (\<lambda>_. False) sample_code started_world running_op = (running_world, Inr Applied)"
proof -
  have "from_reducer running_snapshot =
    Inr \<lparr>su_session = ChildIdentity (ChildSessionId stored_session), su_root = MainSessionId (SessionId 9),
       su_revision = 1, su_state = Running, su_updated_at = 5, su_reducer_snapshot = Some running_snapshot\<rparr>"
    by (simp add: from_reducer_Inr_iff stored_time_def i64_max_def)
  then have "snd (lane_call (\<lambda>_. False) sample_code started_world running_op) = Inr Applied"
    by (simp add: started_world_def running_op_def lane_new_def coordinator_apply_observation_def
        apply_input_def Let_def allocate_def checked_add_def running_reduced)
      (simp add: store_eval sample_eval stored_session_def session_id_from_native_def
        delivery_destinations_def human_event_def)
  then show ?thesis
    by (simp add: running_world_def prod_eq_iff)
qed

theorem lane_call_atomic_witness:
  "committed sample_code started_world (stored_observation 1 5 (NativeState Running))
     (Observation (stored_observation 1 5 (NativeState Running))) running_world"
proof -
  obtain shared lane shared' lane' where w: "started_world = (shared, lane)" "running_world = (shared', lane')"
    by (metis surj_pair)
  have "sh_db shared = empty_db"
    using w(1) by (auto simp: started_world_def)
  then show ?thesis
    using lane_call_atomic [of shared "\<lambda>_. False" sample_code lane running_op shared' lane' "Inr Applied"]
      running_applied
    by (simp add: w running_op_def)
qed

lemma sample_code_inverts: "xf_snapshot_to_vec sample_code u = Some j \<Longrightarrow> xf_snapshot_from_slice sample_code j = Some u"
  by (auto simp: sample_code_def)

definition running_lanes :: "document shared \<times> lane list" where
  "running_lanes = (fst running_world, [snd running_world])"

lemma running_lanes_run:
  "running_lanes = fst (run_machine (lanes_step sample_code)
     (\<lparr>sh_db = empty_db, sh_next_event = 1\<rparr>,
      map (\<lambda>s. lane_new s default_reducer_policy [ParentInbox, Sse]) [started_snapshot])
     [(\<lambda>_. False, 0, running_op)])"
  using running_applied by (simp add: running_lanes_def started_world_def case_prod_beta)

theorem lanes_agree_with_store_witness:
  "case load_snapshot (\<lambda>_. False) sample_code (sh_db (fst running_lanes))
       (ss_session (ln_snapshot (hd (snd running_lanes)))) of
     Inr None \<Rightarrow> ss_revision (ln_snapshot (hd (snd running_lanes))) = 0
   | Inr (Some update) \<Rightarrow> su_reducer_snapshot update = Some (ln_snapshot (hd (snd running_lanes)))
   | Inl _ \<Rightarrow> False"
proof -
  have "(fst running_lanes, snd running_lanes) = fst (run_machine (lanes_step sample_code)
     (\<lparr>sh_db = empty_db, sh_next_event = 1\<rparr>,
      map (\<lambda>s. lane_new s default_reducer_policy [ParentInbox, Sse]) [started_snapshot])
     [(\<lambda>_. False, 0, running_op)])"
    using running_lanes_run by simp
  note agree = lanes_agree_with_store [OF _ _ sample_code_inverts this]
  have "hd (snd running_lanes) \<in> set (snd running_lanes)"
    by (simp add: running_lanes_def)
  then show ?thesis
    by (rule_tac bspec [OF conjunct1 [OF agree]]) (simp_all add: started_snapshot_def session_snapshot_new_def)
qed

lemma running_lanes_inv: "lanes_inv sample_code running_lanes"
  unfolding running_lanes_run
  by (rule lanes.run_keeps_inv) (simp add: lanes_inv_def in_step_def lane_new_def started_snapshot_def
      session_snapshot_new_def)

lemma running_committed:
  "ln_snapshot (snd running_world) = running_snapshot"
  "ln_policy (snd running_world) = default_reducer_policy"
  "map_of (db_snapshots (sh_db (fst running_world))) stored_session \<noteq> None"
  "map_of (db_observations (sh_db (fst running_world))) (ObservationId 2) = None"
proof -
  obtain shared' lane' where w: "running_world = (shared', lane')"
    by (metis surj_pair)
  obtain shared lane where w0: "started_world = (shared, lane)" "sh_db shared = empty_db"
      "ln_snapshot lane = started_snapshot" "ln_policy lane = default_reducer_policy"
    by (simp add: started_world_def lane_new_def)
  have call: "apply_input (\<lambda>_. False) sample_code (shared, lane) (stored_observation 1 5 (NativeState Running))
      (Observation (stored_observation 1 5 (NativeState Running))) = ((shared', lane'), Inr Applied)"
    using running_applied
    by (simp add: running_op_def coordinator_apply_observation_def w w0(1)) (simp add: stored_observation_def)
  have out: "committed sample_code (shared, lane) (stored_observation 1 5 (NativeState Running))
      (Observation (stored_observation 1 5 (NativeState Running))) (shared', lane')"
      "ln_policy lane' = ln_policy lane"
    using apply_input_outcome [OF _ call] w0(2) by simp_all
  have "ln_snapshot lane' = ro_snapshot (reduce (ln_snapshot lane)
      (Observation (stored_observation 1 5 (NativeState Running))) (ln_policy lane))"
    using out(1) unfolding committed_def Let_def prod.case by (rule conjunct1)
  then show "ln_snapshot (snd running_world) = running_snapshot"
      "ln_policy (snd running_world) = default_reducer_policy"
    using out(2) by (simp_all add: w w0(3,4) running_reduced)
  show "map_of (db_snapshots (sh_db (fst running_world))) stored_session \<noteq> None"
    by (rule committed_snapshots [OF out(1)]) (simp add: w w0 started_snapshot_def session_snapshot_new_def)
  show "map_of (db_observations (sh_db (fst running_world))) (ObservationId 2) = None"
    using out(1) by (auto simp: w w0 committed_def Let_def applied_spec_def stored_observation_def)
qed

theorem ignored_observation_not_recorded_witness:
  "\<exists>e. snd (lane_call (\<lambda>_. False) sample_code running_world
     (OpObservation (stored_observation 2 3 (NativeState Idle)))) = Inl e"
proof -
  let ?obs = "stored_observation 2 3 (NativeState Idle)"
  obtain shared' lane' r where r: "lane_call (\<lambda>_. False) sample_code running_world (OpObservation ?obs) = ((shared', lane'), r)"
    by (metis surj_pair)
  have "reduce running_snapshot (Observation ?obs) default_reducer_policy = \<lparr>ro_snapshot = running_snapshot, ro_events = []\<rparr>"
    by (rule reduce_unchanged)
      (simp add: apply_observation_def is_duplicate_or_stale_def stored_observation_def stored_time_def running_snapshot_def)
  then show ?thesis
    using ignored_observation_not_recorded [of sample_code "fst running_world" "[snd running_world]" 0 ?obs "\<lambda>_. False" shared' lane' r]
      running_lanes_inv running_committed r
    by (simp add: running_lanes_def stored_observation_def)
qed

end
