(* ===== verification/Termination.thy ===== *)
theory Termination
  imports Coordinator Procfs Health
begin

text \<open>
  The child-termination engine and monitor of \<open>crates/watchdog-server/src/termination.rs\<close>. One
  call of \<open>reconcile\<close> reads the child's durable saga, decides, performs at most one external
  action and persists the next stage with its event in one store transaction. External actions
  (cancellation requests, signals) are collected as a list of \<open>effect\<close>s in the order they are
  made; the process-control and cancellation interfaces the engine is built with are parameters.
  The code under \<open>cfg(test)\<close> in that file is not part of the program and is not modelled.
\<close>

section \<open>Configuration and interfaces\<close>

record termination_config =
  cf_automation_enabled :: bool
  cf_sigkill_enabled :: bool
  cf_warning_grace :: duration_ms
  cf_action_grace :: duration_ms

datatype termination_config_error = ZeroWarningGrace | ZeroActionGrace

definition termination_config_new ::
  "bool \<Rightarrow> bool \<Rightarrow> duration_ms \<Rightarrow> duration_ms \<Rightarrow> termination_config_error + termination_config" where
  "termination_config_new automation_enabled sigkill_enabled warning_grace action_grace =
     (if warning_grace = 0 then Inl ZeroWarningGrace
      else if action_grace = 0 then Inl ZeroActionGrace
      else Inr \<lparr>cf_automation_enabled = automation_enabled, cf_sigkill_enabled = sigkill_enabled,
                cf_warning_grace = warning_grace, cf_action_grace = action_grace\<rparr>)"

definition TEN_MINUTES_MS :: u64 where
  "TEN_MINUTES_MS = 10 * 60000"

definition default_termination_config :: termination_config where
  "default_termination_config =
     \<lparr>cf_automation_enabled = True, cf_sigkill_enabled = True, cf_warning_grace = TEN_MINUTES_MS,
      cf_action_grace = TEN_MINUTES_MS\<rparr>"

record verified_child =
  vc_child :: child_session_id
  vc_runtime :: runtime_kind
  vc_native_id :: string
  vc_expected_process :: process_identity

datatype graceful_cancel_support = Requested | Unsupported

datatype graceful_cancel_error = CancelUnavailable | CancelRejected | EvidenceChanged

text \<open>\<open>dyn ProcessControl\<close> with its handles of type \<open>'h\<close>, and \<open>dyn GracefulCanceller\<close>.\<close>

record 'h engine_parts =
  en_open_verified :: "process_identity \<Rightarrow> process_control_error + 'h"
  en_signal :: "'h \<Rightarrow> process_signal \<Rightarrow> process_control_error + unit"
  en_request_cancel :: "verified_child \<Rightarrow> graceful_cancel_error + graceful_cancel_support"
  en_config :: termination_config

definition no_graceful_request_cancel :: "verified_child \<Rightarrow> graceful_cancel_error + graceful_cancel_support" where
  "no_graceful_request_cancel child = Inr Unsupported"

record termination_context =
  tc_candidate :: termination_candidate
  tc_root :: main_session_id
  tc_facts :: termination_facts
  tc_native_id :: string
  tc_child_exited :: bool
  tc_process_identity_changed :: bool

datatype termination_status = NoAction | Started | Advanced | Suspended | SagaAborted | SagaCompleted

datatype termination_engine_error =
    EngineIdentityMismatch
  | TimeOverflow
  | RevisionExhausted
  | EngineCoordinator coordinator_error
  | EngineStore store_error
  | ProcessSamplerError

text \<open>The external actions: a cancellation request, and a signal on a verified handle.\<close>

datatype effect =
    CancelRequest verified_child
  | SignalRequest process_identity process_signal

section \<open>Helpers\<close>

definition safety ::
  "termination_context \<Rightarrow> termination_blocker set option \<Rightarrow> termination_safety_record" where
  "safety ctx override_blockers =
     (let assessment = assess_termination (tc_candidate ctx) (tc_facts ctx)
      in \<lparr>sf_passed_gates = ta_passed assessment,
          sf_blockers = unwrap_or (ta_blockers assessment) override_blockers,
          sf_process = tf_fresh_process (tc_facts ctx)\<rparr>)"

definition transient_only :: "termination_blocker set \<Rightarrow> bool" where
  "transient_only blockers \<longleftrightarrow> blockers \<noteq> {} \<and>
     blockers \<subseteq> {ComponentUnhealthy, MissingProcess, BlockedReconciliation}"

definition add_duration :: "time_point \<Rightarrow> duration_ms \<Rightarrow> termination_engine_error + wall_time_ms" where
  "add_duration now duration =
     and_then (ok_or TimeOverflow (i64_of_u64 duration)) (\<lambda>duration.
       ok_or TimeOverflow (checked_add_i64 (wall_time now) duration))"

definition stage_destinations :: "termination_stage \<Rightarrow> outbox_destination list" where
  "stage_destinations stage =
     [ParentInbox, Sse] @ (if stage = WarningGrace then [Browser, HomeAssistant, Webhook] else [])"

section \<open>The engine\<close>

definition persist ::
  "sqlite \<Rightarrow> 'j foreign_code \<Rightarrow> 'j shared \<Rightarrow> termination_context \<Rightarrow> termination_saga_record \<Rightarrow>
     termination_stage \<Rightarrow> wall_time_ms option \<Rightarrow> termination_action_outcome \<Rightarrow>
     termination_safety_record \<Rightarrow> 'j shared \<times> (termination_engine_error + unit)" where
  "persist fails fc shared ctx existing stage next_action_at outcome saf =
     (case checked_add (sg_revision existing) 1 of
        None \<Rightarrow> (shared, Inl RevisionExhausted)
      | Some revision \<Rightarrow>
          (let child = candidate_session (tc_candidate ctx);
               saga = \<lparr>sg_child = child, sg_stage = stage, sg_revision = revision,
                 sg_next_action_at = next_action_at, sg_safety = saf, sg_last_outcome = Some outcome\<rparr>
           in case allocate (sh_next_event shared) of
                (current, Inl e) \<Rightarrow> (shared\<lparr>sh_next_event := current\<rparr>, Inl (EngineCoordinator e))
              | (current, Inr event_id) \<Rightarrow>
                  (let event = \<lparr>ev_id = event_id, ev_root = tc_root ctx,
                         ev_subject = ChildIdentity child,
                         ev_occurred_at = wall_time (tf_now (tc_facts ctx)),
                         ev_kind = TerminationChanged stage outcome\<rparr>;
                       (db, r) = apply_termination_advance fails fc (sh_db shared)
                         \<lparr>ad_saga = saga, ad_event = event, ad_destinations = stage_destinations stage\<rparr>
                   in (\<lparr>sh_db = db, sh_next_event = current\<rparr>, map_err EngineStore r))))"

text \<open>A step returns the shared state, the external actions it made and its result.\<close>

type_synonym ('j, 'r) saga_result = "'j shared \<times> effect list \<times> (termination_engine_error + 'r)"

text \<open>\<open>persist(..).await?\<close> followed by a fixed status.\<close>

definition persist_then ::
  "sqlite \<Rightarrow> 'j foreign_code \<Rightarrow> 'j shared \<Rightarrow> termination_context \<Rightarrow> termination_saga_record \<Rightarrow>
     termination_stage \<Rightarrow> wall_time_ms option \<Rightarrow> termination_action_outcome \<Rightarrow>
     termination_safety_record \<Rightarrow> effect list \<Rightarrow> 'r \<Rightarrow> ('j, 'r) saga_result" where
  "persist_then fails fc shared ctx existing stage next_action_at outcome saf effects status =
     (let (shared, r) = persist fails fc shared ctx existing stage next_action_at outcome saf
      in (shared, effects, map_ok (\<lambda>_. status) r))"

definition finish_if_exited ::
  "sqlite \<Rightarrow> 'j foreign_code \<Rightarrow> 'j shared \<Rightarrow> termination_context \<Rightarrow> termination_saga_record option \<Rightarrow>
     ('j, termination_status option) saga_result" where
  "finish_if_exited fails fc shared ctx existing =
     (if \<not> tc_child_exited ctx \<and>
         \<not> (ss_state (tf_snapshot (tc_facts ctx)) = Completed \<or>
            ss_state (tf_snapshot (tc_facts ctx)) = Cancelled)
      then (shared, [], Inr None)
      else case existing of
        None \<Rightarrow> (shared, [], Inr (Some NoAction))
      | Some saga \<Rightarrow>
          persist_then fails fc shared ctx saga StageCompleted None ChildExited
            (safety ctx None) [] (Some SagaCompleted))"

definition disable ::
  "sqlite \<Rightarrow> 'j foreign_code \<Rightarrow> 'j shared \<Rightarrow> termination_context \<Rightarrow> termination_saga_record option \<Rightarrow>
     termination_blocker set \<Rightarrow> ('j, termination_status) saga_result" where
  "disable fails fc shared ctx existing blockers =
     (case existing of
        None \<Rightarrow> (shared, [], Inr Suspended)
      | Some saga \<Rightarrow>
          persist_then fails fc shared ctx saga StageAborted None AutomationDisabled
            (safety ctx (Some blockers)) [] SagaAborted)"

definition start ::
  "sqlite \<Rightarrow> 'j foreign_code \<Rightarrow> termination_config \<Rightarrow> 'j shared \<Rightarrow> termination_context \<Rightarrow> bool \<Rightarrow>
     ('j, termination_status) saga_result" where
  "start fails fc config shared ctx is_eligible =
     (if \<not> is_eligible then (shared, [], Inr Suspended)
      else
        (let initial = \<lparr>sg_child = candidate_session (tc_candidate ctx), sg_stage = WarningGrace,
               sg_revision = 0, sg_next_action_at = None, sg_safety = safety ctx None,
               sg_last_outcome = None\<rparr>
         in case add_duration (tf_now (tc_facts ctx)) (cf_warning_grace config) of
              Inl e \<Rightarrow> (shared, [], Inl e)
            | Inr deadline \<Rightarrow>
                persist_then fails fc shared ctx initial WarningGrace (Some deadline)
                  WarningScheduled (safety ctx None) [] Started))"

definition identity_changed ::
  "sqlite \<Rightarrow> 'j foreign_code \<Rightarrow> 'j shared \<Rightarrow> termination_context \<Rightarrow> termination_saga_record \<Rightarrow>
     ('j, termination_status option) saga_result" where
  "identity_changed fails fc shared ctx existing =
     (if \<not> tc_process_identity_changed ctx \<and>
         sf_process (sg_safety existing) = tf_fresh_process (tc_facts ctx)
      then (shared, [], Inr None)
      else if \<not> tc_process_identity_changed ctx \<and> tf_fresh_process (tc_facts ctx) = None
      then (shared, [], Inr (Some Suspended))
      else
        persist_then fails fc shared ctx existing StageAborted None SafetyAborted
          (safety ctx (Some {ProcessIdentityChanged})) [] (Some SagaAborted))"

definition handle_blockers ::
  "sqlite \<Rightarrow> 'j foreign_code \<Rightarrow> 'j shared \<Rightarrow> termination_context \<Rightarrow> termination_saga_record \<Rightarrow>
     termination_blocker set \<Rightarrow> ('j, termination_status) saga_result" where
  "handle_blockers fails fc shared ctx existing blockers =
     (if transient_only blockers then (shared, [], Inr Suspended)
      else
        persist_then fails fc shared ctx existing StageAborted None SafetyAborted
          (safety ctx (Some blockers)) [] SagaAborted)"

definition send_signal ::
  "'h engine_parts \<Rightarrow> process_identity \<Rightarrow> process_signal \<Rightarrow> effect list \<times> (process_control_error + unit)" where
  "send_signal parts expected signal =
     (case en_open_verified parts expected of
        Inl e \<Rightarrow> ([], Inl e)
      | Inr handle \<Rightarrow> ([SignalRequest expected signal], en_signal parts handle signal))"

definition signal_stage ::
  "'h engine_parts \<Rightarrow> sqlite \<Rightarrow> 'j foreign_code \<Rightarrow> 'j shared \<Rightarrow> termination_context \<Rightarrow>
     termination_saga_record \<Rightarrow> process_signal \<Rightarrow> termination_stage \<Rightarrow>
     ('j, termination_status) saga_result" where
  "signal_stage parts fails fc shared ctx existing signal stage =
     (case tf_fresh_process (tc_facts ctx) of
        None \<Rightarrow> (shared, [], Inr Suspended)
      | Some expected \<Rightarrow>
          (let (effects, result) = send_signal parts expected signal
           in case result of
                Inl _ \<Rightarrow>
                  (let blockers = insert ProcessControlFailure
                         (ta_blockers (assess_termination (tc_candidate ctx) (tc_facts ctx)))
                   in persist_then fails fc shared ctx existing StageAborted None SafetyAborted
                        (safety ctx (Some blockers)) effects SagaAborted)
              | Inr _ \<Rightarrow>
                  (case (if stage = Sigterm
                         then map_ok Some (add_duration (tf_now (tc_facts ctx))
                                (cf_action_grace (en_config parts)))
                         else Inr None) of
                     Inl e \<Rightarrow> (shared, effects, Inl e)
                   | Inr following \<Rightarrow>
                       persist_then fails fc shared ctx existing stage following SignalSent
                         (safety ctx None) effects Advanced)))"

definition advance_due ::
  "'h engine_parts \<Rightarrow> sqlite \<Rightarrow> 'j foreign_code \<Rightarrow> 'j shared \<Rightarrow> termination_context \<Rightarrow>
     termination_saga_record \<Rightarrow> ('j, termination_status) saga_result" where
  "advance_due parts fails fc shared ctx existing =
     (case sg_stage existing of
        WarningGrace \<Rightarrow>
          (case tf_fresh_process (tc_facts ctx) of
             None \<Rightarrow> (shared, [], Inr Suspended)
           | Some expected_process \<Rightarrow>
               (let child = \<lparr>vc_child = candidate_session (tc_candidate ctx),
                      vc_runtime = tf_runtime (tc_facts ctx), vc_native_id = tc_native_id ctx,
                      vc_expected_process = expected_process\<rparr>;
                    effects = [CancelRequest child];
                    result = en_request_cancel parts child
                in if result = Inl EvidenceChanged
                   then persist_then fails fc shared ctx existing StageAborted None SafetyAborted
                          (safety ctx (Some {ProcessIdentityChanged})) effects SagaAborted
                   else
                     (let outcome =
                        (case result of
                           Inr Requested \<Rightarrow> GracefulRequested
                         | Inr Unsupported \<Rightarrow> GracefulUnsupported
                         | Inl _ \<Rightarrow> GracefulFailed)
                      in case add_duration (tf_now (tc_facts ctx)) (cf_action_grace (en_config parts)) of
                           Inl e \<Rightarrow> (shared, effects, Inl e)
                         | Inr deadline \<Rightarrow>
                             persist_then fails fc shared ctx existing GracefulCancel (Some deadline)
                               outcome (safety ctx None) effects Advanced)))
      | GracefulCancel \<Rightarrow> signal_stage parts fails fc shared ctx existing Terminate Sigterm
      | Sigterm \<Rightarrow>
          (if cf_sigkill_enabled (en_config parts)
           then signal_stage parts fails fc shared ctx existing Kill Sigkill
           else if sg_last_outcome existing = Some SigkillDisabled then (shared, [], Inr NoAction)
           else persist_then fails fc shared ctx existing Sigterm (sg_next_action_at existing)
                  SigkillDisabled (safety ctx None) [] Advanced)
      | _ \<Rightarrow> (shared, [], Inr NoAction))"

definition legacy_sigkill_opt_out :: "termination_config \<Rightarrow> termination_saga_record \<Rightarrow> bool" where
  "legacy_sigkill_opt_out config existing \<longleftrightarrow>
     sg_stage existing = Sigterm \<and> sg_next_action_at existing = None \<and>
     sg_last_outcome existing = Some AutomationDisabled \<and> cf_sigkill_enabled config"

text \<open>From the eligibility decision on, for a saga that exists and automation that is enabled.\<close>

definition escalate ::
  "'h engine_parts \<Rightarrow> sqlite \<Rightarrow> 'j foreign_code \<Rightarrow> 'j shared \<Rightarrow> termination_context \<Rightarrow>
     termination_saga_record \<Rightarrow> ('j, termination_status) saga_result" where
  "escalate parts fails fc shared ctx existing =
     (let assessment = assess_termination (tc_candidate ctx) (tc_facts ctx)
      in if \<not> eligible assessment
         then handle_blockers fails fc shared ctx existing (ta_blockers assessment)
         else if \<not> legacy_sigkill_opt_out (en_config parts) existing \<and>
           is_none_or (\<lambda>deadline. wall_time (tf_now (tc_facts ctx)) < deadline)
             (sg_next_action_at existing)
         then (shared, [], Inr NoAction)
         else advance_due parts fails fc shared ctx existing)"

definition reconcile_saga ::
  "'h engine_parts \<Rightarrow> sqlite \<Rightarrow> 'j foreign_code \<Rightarrow> 'j shared \<Rightarrow> termination_context \<Rightarrow>
     ('j, termination_status) saga_result" where
  "reconcile_saga parts fails fc shared ctx =
     (if ss_root (tf_snapshot (tc_facts ctx)) \<noteq> tc_root ctx
      then (shared, [], Inl EngineIdentityMismatch)
      else case termination_saga fails fc (sh_db shared) (candidate_session (tc_candidate ctx)) of
        Inl e \<Rightarrow> (shared, [], Inl (EngineStore e))
      | Inr existing \<Rightarrow>
          (if is_some_and (\<lambda>saga. sg_stage saga = StageCompleted \<or> sg_stage saga = StageAborted) existing
           then (shared, [], Inr NoAction)
           else case finish_if_exited fails fc shared ctx existing of
             (shared, effects, Inl e) \<Rightarrow> (shared, effects, Inl e)
           | (shared, effects, Inr (Some status)) \<Rightarrow> (shared, effects, Inr status)
           | (shared, _, Inr None) \<Rightarrow>
               (let assessment = assess_termination (tc_candidate ctx) (tc_facts ctx)
                in if \<not> cf_automation_enabled (en_config parts)
                   then disable fails fc shared ctx existing (ta_blockers assessment)
                   else case existing of
                     None \<Rightarrow> start fails fc (en_config parts) shared ctx (eligible assessment)
                   | Some saga \<Rightarrow>
                       (case identity_changed fails fc shared ctx saga of
                          (shared, effects, Inl e) \<Rightarrow> (shared, effects, Inl e)
                        | (shared, effects, Inr (Some status)) \<Rightarrow> (shared, effects, Inr status)
                        | (shared, _, Inr None) \<Rightarrow> escalate parts fails fc shared ctx saga))))"

section \<open>What one reconciliation does\<close>

text \<open>Every step ends in one of three ways: nothing is written, or one saga record is persisted.\<close>

lemma persist_then_effects [simp]:
  "fst (snd (persist_then fails fc shared ctx existing stage at outcome saf effects status)) = effects"
  by (simp add: persist_then_def case_prod_beta)

lemma quiet_steps [simp]:
  "fst (snd (finish_if_exited fails fc shared ctx ex)) = []"
  "fst (snd (disable fails fc shared ctx ex blockers)) = []"
  "fst (snd (start fails fc config shared ctx b)) = []"
  "fst (snd (identity_changed fails fc shared ctx saga)) = []"
  "fst (snd (handle_blockers fails fc shared ctx saga blockers)) = []"
  by (simp_all add: finish_if_exited_def disable_def start_def identity_changed_def handle_blockers_def
      Let_def split: option.split sum.split)

lemma signal_stage_effects:
  assumes "eff \<in> set (fst (snd (signal_stage parts fails fc shared ctx saga sig stage)))"
  shows "\<exists>process. tf_fresh_process (tc_facts ctx) = Some process \<and> eff = SignalRequest process sig \<and>
    fst (snd (signal_stage parts fails fc shared ctx saga sig stage)) = [eff]"
  using assms
  by (auto simp: signal_stage_def send_signal_def Let_def split: option.splits sum.splits if_splits)

text \<open>The effect a stage permits on a process.\<close>

definition stage_effect :: "termination_config \<Rightarrow> termination_context \<Rightarrow> termination_stage \<Rightarrow> process_identity \<Rightarrow> effect set" where
  "stage_effect config ctx stage process =
     (case stage of
        WarningGrace \<Rightarrow> {CancelRequest \<lparr>vc_child = candidate_session (tc_candidate ctx),
          vc_runtime = tf_runtime (tc_facts ctx), vc_native_id = tc_native_id ctx,
          vc_expected_process = process\<rparr>}
      | GracefulCancel \<Rightarrow> {SignalRequest process Terminate}
      | Sigterm \<Rightarrow> (if cf_sigkill_enabled config then {SignalRequest process Kill} else {})
      | _ \<Rightarrow> {})"

lemma advance_due_effects:
  assumes "eff \<in> set (fst (snd (advance_due parts fails fc shared ctx saga)))"
  shows "\<exists>process. tf_fresh_process (tc_facts ctx) = Some process \<and>
    eff \<in> stage_effect (en_config parts) ctx (sg_stage saga) process \<and>
    fst (snd (advance_due parts fails fc shared ctx saga)) = [eff]"
proof (cases "sg_stage saga")
  case WarningGrace
  then show ?thesis
    using assms
    by (auto simp: advance_due_def stage_effect_def Let_def split: option.splits sum.splits if_splits)
next
  case GracefulCancel
  then show ?thesis
    using assms signal_stage_effects [of eff parts fails fc shared ctx saga Terminate Sigterm]
    by (auto simp: advance_due_def stage_effect_def)
next
  case Sigterm
  then show ?thesis
    using assms signal_stage_effects [of eff parts fails fc shared ctx saga Kill Sigkill]
    by (auto simp: advance_due_def stage_effect_def split: if_splits)
qed (use assms in \<open>auto simp: advance_due_def\<close>)

text \<open>The branches of \<open>reconcile_saga\<close>, in the order of the code.\<close>

definition exited :: "termination_context \<Rightarrow> bool" where
  "exited ctx \<longleftrightarrow> tc_child_exited ctx \<or>
     ss_state (tf_snapshot (tc_facts ctx)) \<in> {Completed, Cancelled}"

definition process_kept :: "termination_context \<Rightarrow> termination_saga_record \<Rightarrow> bool" where
  "process_kept ctx saga \<longleftrightarrow> \<not> tc_process_identity_changed ctx \<and>
     sf_process (sg_safety saga) = tf_fresh_process (tc_facts ctx)"

definition terminal :: "termination_stage \<Rightarrow> bool" where
  "terminal stage \<longleftrightarrow> stage = StageCompleted \<or> stage = StageAborted"

lemma reconcile_saga_unfold:
  "reconcile_saga parts fails fc shared ctx =
     (if ss_root (tf_snapshot (tc_facts ctx)) \<noteq> tc_root ctx
      then (shared, [], Inl EngineIdentityMismatch)
      else case termination_saga fails fc (sh_db shared) (candidate_session (tc_candidate ctx)) of
        Inl e \<Rightarrow> (shared, [], Inl (EngineStore e))
      | Inr None \<Rightarrow>
          if exited ctx then (shared, [], Inr NoAction)
          else if \<not> cf_automation_enabled (en_config parts) then (shared, [], Inr Suspended)
          else start fails fc (en_config parts) shared ctx
                 (eligible (assess_termination (tc_candidate ctx) (tc_facts ctx)))
      | Inr (Some saga) \<Rightarrow>
          if terminal (sg_stage saga) then (shared, [], Inr NoAction)
          else if exited ctx
          then persist_then fails fc shared ctx saga StageCompleted None ChildExited
                 (safety ctx None) [] SagaCompleted
          else if \<not> cf_automation_enabled (en_config parts)
          then persist_then fails fc shared ctx saga StageAborted None AutomationDisabled
                 (safety ctx (Some (ta_blockers (assess_termination (tc_candidate ctx) (tc_facts ctx)))))
                 [] SagaAborted
          else if \<not> process_kept ctx saga
          then if \<not> tc_process_identity_changed ctx \<and> tf_fresh_process (tc_facts ctx) = None
               then (shared, [], Inr Suspended)
               else persist_then fails fc shared ctx saga StageAborted None SafetyAborted
                      (safety ctx (Some {ProcessIdentityChanged})) [] SagaAborted
          else escalate parts fails fc shared ctx saga)"
  unfolding reconcile_saga_def finish_if_exited_def identity_changed_def disable_def
  by (auto simp: exited_def process_kept_def terminal_def persist_then_def map_ok_def Let_def
      split: option.split sum.split prod.split)

lemma escalate_effects:
  assumes "eff \<in> set (fst (snd (escalate parts fails fc shared ctx saga)))"
  shows "termination_permitted (tc_candidate ctx) (tc_facts ctx) \<and>
    (legacy_sigkill_opt_out (en_config parts) saga \<or>
     (\<exists>deadline. sg_next_action_at saga = Some deadline \<and> deadline \<le> wall_time (tf_now (tc_facts ctx)))) \<and>
    eff \<in> set (fst (snd (advance_due parts fails fc shared ctx saga))) \<and>
    escalate parts fails fc shared ctx saga = advance_due parts fails fc shared ctx saga"
  using assms
  by (auto simp: escalate_def Let_def eligible_iff_permitted is_none_or_iff linorder_not_less split: if_splits)

lemma reconcile_effects:
  assumes "eff \<in> set (fst (snd (reconcile_saga parts fails fc shared ctx)))"
  obtains saga process where
    "termination_saga fails fc (sh_db shared) (candidate_session (tc_candidate ctx)) = Inr (Some saga)"
    "cf_automation_enabled (en_config parts)" "\<not> exited ctx" "\<not> terminal (sg_stage saga)"
    "termination_permitted (tc_candidate ctx) (tc_facts ctx)" "process_kept ctx saga"
    "legacy_sigkill_opt_out (en_config parts) saga \<or>
     (\<exists>deadline. sg_next_action_at saga = Some deadline \<and> deadline \<le> wall_time (tf_now (tc_facts ctx)))"
    "tf_fresh_process (tc_facts ctx) = Some process"
    "eff \<in> stage_effect (en_config parts) ctx (sg_stage saga) process"
    "reconcile_saga parts fails fc shared ctx = advance_due parts fails fc shared ctx saga"
    "fst (snd (reconcile_saga parts fails fc shared ctx)) = [eff]"
proof -
  obtain saga where s: "termination_saga fails fc (sh_db shared) (candidate_session (tc_candidate ctx)) = Inr (Some saga)"
      "cf_automation_enabled (en_config parts)" "\<not> exited ctx" "\<not> terminal (sg_stage saga)" "process_kept ctx saga"
      "reconcile_saga parts fails fc shared ctx = escalate parts fails fc shared ctx saga"
    using assms by (simp add: reconcile_saga_unfold split: if_splits sum.splits option.splits)
  have e: "eff \<in> set (fst (snd (escalate parts fails fc shared ctx saga)))"
    using assms s(6) by simp
  note esc = escalate_effects [OF e]
  obtain process where "tf_fresh_process (tc_facts ctx) = Some process"
      "eff \<in> stage_effect (en_config parts) ctx (sg_stage saga) process"
      "fst (snd (advance_due parts fails fc shared ctx saga)) = [eff]"
    using advance_due_effects esc by blast
  then show thesis
    using that [OF s(1-4) _ s(5)] esc s(6) by simp
qed

text \<open>
  No external action without every safeguard: whatever the store, the configuration and the
  interfaces do, if a reconciliation makes an external action then automation is enabled, the
  child is not known to have exited, every termination gate is satisfied by the facts of this very
  call, the fresh process is the one the durable saga recorded, the saga's deadline has passed (or
  it is a Sigterm record of an older version that waited for the kill option), and the action is
  the single one of the saga's stage: a cancellation request after the warning, SIGTERM after the
  request, SIGKILL after SIGTERM and only when enabled.
\<close>
theorem termination_effects_gated:
  assumes "reconcile_saga parts fails fc shared ctx = (shared', effects, r)" and "eff \<in> set effects"
  shows "effects = [eff] \<and> cf_automation_enabled (en_config parts) \<and> \<not> tc_child_exited ctx \<and>
    termination_permitted (tc_candidate ctx) (tc_facts ctx) \<and>
    (\<exists>saga process.
       termination_saga fails fc (sh_db shared) (candidate_session (tc_candidate ctx)) = Inr (Some saga) \<and>
       tf_fresh_process (tc_facts ctx) = Some process \<and> sf_process (sg_safety saga) = Some process \<and>
       \<not> tc_process_identity_changed ctx \<and>
       (legacy_sigkill_opt_out (en_config parts) saga \<or>
        (\<exists>deadline. sg_next_action_at saga = Some deadline \<and> deadline \<le> wall_time (tf_now (tc_facts ctx)))) \<and>
       (sg_stage saga = WarningGrace \<and> eff = CancelRequest \<lparr>vc_child = candidate_session (tc_candidate ctx),
            vc_runtime = tf_runtime (tc_facts ctx), vc_native_id = tc_native_id ctx,
            vc_expected_process = process\<rparr> \<or>
        sg_stage saga = GracefulCancel \<and> eff = SignalRequest process Terminate \<or>
        sg_stage saga = Sigterm \<and> cf_sigkill_enabled (en_config parts) \<and> eff = SignalRequest process Kill))"
proof -
  have "eff \<in> set (fst (snd (reconcile_saga parts fails fc shared ctx)))"
    using assms by simp
  then obtain saga process where s:
    "termination_saga fails fc (sh_db shared) (candidate_session (tc_candidate ctx)) = Inr (Some saga)"
    "cf_automation_enabled (en_config parts)" "\<not> exited ctx" "\<not> terminal (sg_stage saga)"
    "termination_permitted (tc_candidate ctx) (tc_facts ctx)" "process_kept ctx saga"
    "legacy_sigkill_opt_out (en_config parts) saga \<or>
     (\<exists>deadline. sg_next_action_at saga = Some deadline \<and> deadline \<le> wall_time (tf_now (tc_facts ctx)))"
    "tf_fresh_process (tc_facts ctx) = Some process"
    "eff \<in> stage_effect (en_config parts) ctx (sg_stage saga) process"
    "fst (snd (reconcile_saga parts fails fc shared ctx)) = [eff]"
    by (rule reconcile_effects)
  have "effects = [eff]" "\<not> tc_child_exited ctx" "sf_process (sg_safety saga) = Some process"
      "\<not> tc_process_identity_changed ctx"
    using s(3,6,8,10) assms(1) by (simp_all add: exited_def process_kept_def)
  moreover have "sg_stage saga = WarningGrace \<and> eff = CancelRequest \<lparr>vc_child = candidate_session (tc_candidate ctx),
            vc_runtime = tf_runtime (tc_facts ctx), vc_native_id = tc_native_id ctx,
            vc_expected_process = process\<rparr> \<or>
        sg_stage saga = GracefulCancel \<and> eff = SignalRequest process Terminate \<or>
        sg_stage saga = Sigterm \<and> cf_sigkill_enabled (en_config parts) \<and> eff = SignalRequest process Kill"
    using s(9) by (cases "sg_stage saga") (auto simp: stage_effect_def split: if_splits)
  ultimately show ?thesis
    using s(1,2,5,7,8) by blast
qed

section \<open>The saga as a state machine\<close>

text \<open>
  The legal changes of a saga: from the record before (if any), with the actions made, to the
  record after and the reported status. Deadlines are set from the time of the call.
\<close>

inductive saga_change ::
  "termination_config \<Rightarrow> termination_context \<Rightarrow> termination_saga_record option \<Rightarrow> effect list \<Rightarrow>
     termination_saga_record \<Rightarrow> termination_status \<Rightarrow> bool"
  for config :: termination_config and ctx :: termination_context
where
  warn: "cf_automation_enabled config \<Longrightarrow> termination_permitted (tc_candidate ctx) (tc_facts ctx) \<Longrightarrow>
    add_duration (tf_now (tc_facts ctx)) (cf_warning_grace config) = Inr deadline \<Longrightarrow>
    sg_stage new = WarningGrace \<Longrightarrow> sg_next_action_at new = Some deadline \<Longrightarrow> sg_revision new = 1 \<Longrightarrow>
    sg_last_outcome new = Some WarningScheduled \<Longrightarrow> saga_change config ctx None [] new Started"
| complete: "\<not> terminal (sg_stage old) \<Longrightarrow> exited ctx \<Longrightarrow>
    sg_stage new = StageCompleted \<Longrightarrow> sg_next_action_at new = None \<Longrightarrow>
    uint (sg_revision new) = uint (sg_revision old) + 1 \<Longrightarrow> sg_last_outcome new = Some ChildExited \<Longrightarrow>
    saga_change config ctx (Some old) [] new SagaCompleted"
| abort: "\<not> terminal (sg_stage old) \<Longrightarrow> sg_stage new = StageAborted \<Longrightarrow> sg_next_action_at new = None \<Longrightarrow>
    uint (sg_revision new) = uint (sg_revision old) + 1 \<Longrightarrow>
    sg_last_outcome new \<in> {Some SafetyAborted, Some AutomationDisabled} \<Longrightarrow>
    saga_change config ctx (Some old) effects new SagaAborted"
| cancel: "sg_stage old = WarningGrace \<Longrightarrow> sg_stage new = GracefulCancel \<Longrightarrow>
    add_duration (tf_now (tc_facts ctx)) (cf_action_grace config) = Inr deadline \<Longrightarrow>
    sg_next_action_at new = Some deadline \<Longrightarrow> uint (sg_revision new) = uint (sg_revision old) + 1 \<Longrightarrow>
    effects = [CancelRequest child] \<Longrightarrow> tf_fresh_process (tc_facts ctx) = Some (vc_expected_process child) \<Longrightarrow>
    saga_change config ctx (Some old) effects new Advanced"
| terminate: "sg_stage old = GracefulCancel \<Longrightarrow> sg_stage new = Sigterm \<Longrightarrow>
    add_duration (tf_now (tc_facts ctx)) (cf_action_grace config) = Inr deadline \<Longrightarrow>
    sg_next_action_at new = Some deadline \<Longrightarrow> uint (sg_revision new) = uint (sg_revision old) + 1 \<Longrightarrow>
    tf_fresh_process (tc_facts ctx) = Some process \<Longrightarrow>
    saga_change config ctx (Some old) [SignalRequest process Terminate] new Advanced"
| kill: "sg_stage old = Sigterm \<Longrightarrow> cf_sigkill_enabled config \<Longrightarrow> sg_stage new = Sigkill \<Longrightarrow>
    sg_next_action_at new = None \<Longrightarrow> uint (sg_revision new) = uint (sg_revision old) + 1 \<Longrightarrow>
    tf_fresh_process (tc_facts ctx) = Some process \<Longrightarrow>
    saga_change config ctx (Some old) [SignalRequest process Kill] new Advanced"
| hold: "sg_stage old = Sigterm \<Longrightarrow> \<not> cf_sigkill_enabled config \<Longrightarrow> sg_stage new = Sigterm \<Longrightarrow>
    sf_process (sg_safety old) = tf_fresh_process (tc_facts ctx) \<Longrightarrow>
    sg_next_action_at new = sg_next_action_at old \<Longrightarrow> uint (sg_revision new) = uint (sg_revision old) + 1 \<Longrightarrow>
    sg_last_outcome new = Some SigkillDisabled \<Longrightarrow>
    saga_change config ctx (Some old) [] new Advanced"

text \<open>The persistence unit of a new saga record.\<close>

definition advance_of :: "'j shared \<Rightarrow> termination_context \<Rightarrow> termination_saga_record \<Rightarrow> termination_advance" where
  "advance_of shared ctx saga =
     \<lparr>ad_saga = saga,
      ad_event = \<lparr>ev_id = sh_next_event shared, ev_root = tc_root ctx, ev_subject = ChildIdentity (sg_child saga),
        ev_occurred_at = wall_time (tf_now (tc_facts ctx)),
        ev_kind = TerminationChanged (sg_stage saga) (the (sg_last_outcome saga))\<rparr>,
      ad_destinations = stage_destinations (sg_stage saga)\<rparr>"

definition moved ::
  "'j foreign_code \<Rightarrow> 'j shared \<Rightarrow> termination_context \<Rightarrow> termination_saga_record \<Rightarrow> 'j shared \<Rightarrow> bool" where
  "moved fc shared ctx new shared' \<longleftrightarrow>
     sg_child new = candidate_session (tc_candidate ctx) \<and>
     sf_process (sg_safety new) = tf_fresh_process (tc_facts ctx) \<and>
     saga_written fc (advance_of shared ctx new) (sh_db shared) (sh_db shared')"

lemma safety_process [simp]: "sf_process (safety ctx b) = tf_fresh_process (tc_facts ctx)"
  by (simp add: safety_def Let_def)

lemma checked_succ: "checked_add a (1 :: u64) = Some b \<Longrightarrow> uint b = uint a + 1"
  using checked_add_Some_iff [of a 1 b] unfolding uint_nat by simp

lemma persist_outcome:
  assumes inv: "db_inv (sh_db shared)" and saf: "sf_process saf = tf_fresh_process (tc_facts ctx)"
    and call: "persist fails fc shared ctx old stage at outcome saf = (shared', r)"
  shows "sh_next_event shared \<le> sh_next_event shared' \<and> db_advances (sh_db shared) (sh_db shared') \<and>
    (case r of
       Inl e \<Rightarrow> sh_db shared' = sh_db shared
     | Inr _ \<Rightarrow> (\<exists>new. moved fc shared ctx new shared' \<and> sg_stage new = stage \<and> sg_next_action_at new = at \<and>
         sg_last_outcome new = Some outcome \<and> uint (sg_revision new) = uint (sg_revision old) + 1))"
proof (cases "checked_add (sg_revision old) 1")
  case None
  then show ?thesis
    using call by (auto simp: persist_def)
next
  case (Some revision)
  let ?new = "\<lparr>sg_child = candidate_session (tc_candidate ctx), sg_stage = stage, sg_revision = revision,
    sg_next_action_at = at, sg_safety = saf, sg_last_outcome = Some outcome\<rparr>"
  obtain current a where al: "allocate (sh_next_event shared) = (current, a)"
    by fastforce
  show ?thesis
  proof (cases a)
    case (Inl e)
    then show ?thesis
      using call allocate_mono [OF al] by (auto simp: persist_def Some al)
  next
    case (Inr event_id)
    have id: "event_id = sh_next_event shared"
      using allocate_Inr [OF al [unfolded Inr]] by simp
    obtain db q where adv: "apply_termination_advance fails fc (sh_db shared) (advance_of shared ctx ?new) = (db, q)"
      by fastforce
    have out: "shared' = \<lparr>sh_db = db, sh_next_event = current\<rparr>" "r = map_err EngineStore q"
      using call adv by (auto simp: persist_def Some al Inr id advance_of_def)
    have "moved fc shared ctx ?new shared'" if "q = Inr ()"
      using advance_outcome [OF inv adv] that saf by (simp add: moved_def out)
    moreover have "sh_db shared' = sh_db shared" if "q = Inl e" for e
      using advance_outcome [OF inv adv] that by (simp add: out)
    ultimately show ?thesis
      using apply_termination_advance_advances [OF adv] allocate_mono [OF al] checked_succ [OF Some]
      by (cases q) (auto simp: out intro!: exI [of _ ?new])
  qed
qed

definition step_ok ::
  "termination_config \<Rightarrow> 'j foreign_code \<Rightarrow> 'j shared \<Rightarrow> termination_context \<Rightarrow>
     termination_saga_record option \<Rightarrow> ('j, termination_status) saga_result \<Rightarrow> bool" where
  "step_ok config fc shared ctx old result \<longleftrightarrow>
     (case result of (shared', effects, r) \<Rightarrow>
        sh_next_event shared \<le> sh_next_event shared' \<and> db_advances (sh_db shared) (sh_db shared') \<and>
        (sh_db shared' = sh_db shared \<and>
           ((\<exists>e. r = Inl e) \<or> effects = [] \<and> r \<in> {Inr NoAction, Inr Suspended}) \<or>
         (\<exists>new status. r = Inr status \<and> saga_change config ctx old effects new status \<and>
            moved fc shared ctx new shared')))"

lemma step_ok_idle [simp, intro]:
  "step_ok config fc shared ctx old (shared, [], Inr NoAction)"
  "step_ok config fc shared ctx old (shared, [], Inr Suspended)"
  "step_ok config fc shared ctx old (shared, effects, Inl e)"
  by (simp_all add: step_ok_def)

lemma persist_then_ok:
  assumes "db_inv (sh_db shared)" and "sf_process saf = tf_fresh_process (tc_facts ctx)"
    and "\<And>new. sg_stage new = stage \<Longrightarrow> sg_next_action_at new = at \<Longrightarrow> sg_last_outcome new = Some outcome \<Longrightarrow>
      uint (sg_revision new) = uint (sg_revision existing) + 1 \<Longrightarrow> saga_change config ctx old effects new status"
  shows "step_ok config fc shared ctx old
    (persist_then fails fc shared ctx existing stage at outcome saf effects status)"
proof -
  obtain shared' r where p: "persist fails fc shared ctx existing stage at outcome saf = (shared', r)"
    by fastforce
  show ?thesis
    using persist_outcome [OF assms(1,2) p] assms(3)
    by (cases r) (auto simp: step_ok_def persist_then_def p)
qed

lemma start_ok:
  assumes "db_inv (sh_db shared)" "cf_automation_enabled config"
  shows "step_ok config fc shared ctx None (start fails fc config shared ctx
    (eligible (assess_termination (tc_candidate ctx) (tc_facts ctx))))"
proof (cases "termination_permitted (tc_candidate ctx) (tc_facts ctx)")
  case True
  show ?thesis
  proof (cases "add_duration (tf_now (tc_facts ctx)) (cf_warning_grace config)")
    case (Inr d)
    show ?thesis
      unfolding start_def Let_def Inr
      by (auto simp: eligible_iff_permitted True assms(1) intro!: persist_then_ok saga_change.warn [OF assms(2) True Inr])
        (simp add: word_uint_eq_iff)
  qed (simp add: start_def Let_def)
qed (simp add: start_def eligible_iff_permitted)

lemma signal_stage_ok:
  assumes inv: "db_inv (sh_db shared)"
    and stage: "sg_stage saga = GracefulCancel \<and> sig = Terminate \<and> stage = Sigterm \<or>
      sg_stage saga = Sigterm \<and> sig = Kill \<and> stage = Sigkill \<and> cf_sigkill_enabled (en_config parts)"
  shows "step_ok (en_config parts) fc shared ctx (Some saga)
    (signal_stage parts fails fc shared ctx saga sig stage)"
proof (cases "tf_fresh_process (tc_facts ctx)")
  case (Some process)
  obtain effects res where send: "send_signal parts process sig = (effects, res)"
    by fastforce
  show ?thesis
  proof (cases res)
    case (Inl e)
    show ?thesis
      unfolding signal_stage_def Some option.case send Let_def prod.case Inl sum.case
      by (intro persist_then_ok inv) (use stage in \<open>auto simp: terminal_def intro!: saga_change.abort\<close>)
  next
    case (Inr u)
    have eff: "effects = [SignalRequest process sig]"
      using send Inr by (auto simp: send_signal_def split: sum.splits)
    from stage show ?thesis
    proof
      assume s: "sg_stage saga = GracefulCancel \<and> sig = Terminate \<and> stage = Sigterm"
      show ?thesis
      proof (cases "add_duration (tf_now (tc_facts ctx)) (cf_action_grace (en_config parts))")
        case (Inr d)
        show ?thesis
          unfolding signal_stage_def Some option.case send Let_def prod.case \<open>res = Inr u\<close> sum.case
          using s Inr Some by (auto simp: eff inv intro!: persist_then_ok saga_change.terminate)
      qed (use s Inr send in \<open>auto simp: signal_stage_def Some\<close>)
    next
      assume s: "sg_stage saga = Sigterm \<and> sig = Kill \<and> stage = Sigkill \<and> cf_sigkill_enabled (en_config parts)"
      then show ?thesis
        unfolding signal_stage_def Some option.case send Let_def prod.case Inr sum.case
        using Some by (auto simp: eff inv intro!: persist_then_ok saga_change.kill)
    qed
  qed
qed (simp add: signal_stage_def)

lemma advance_due_ok:
  assumes inv: "db_inv (sh_db shared)" and kept: "sf_process (sg_safety saga) = tf_fresh_process (tc_facts ctx)"
  shows "step_ok (en_config parts) fc shared ctx (Some saga) (advance_due parts fails fc shared ctx saga)"
proof (cases "sg_stage saga")
  case WarningGrace
  show ?thesis
  proof (cases "tf_fresh_process (tc_facts ctx)")
    case (Some process)
    let ?child = "\<lparr>vc_child = candidate_session (tc_candidate ctx), vc_runtime = tf_runtime (tc_facts ctx),
      vc_native_id = tc_native_id ctx, vc_expected_process = process\<rparr>"
    let ?result = "en_request_cancel parts ?child"
    show ?thesis
    proof (cases "?result = Inl EvidenceChanged")
      case True
      then show ?thesis
        unfolding advance_due_def WarningGrace termination_stage.case Some option.case Let_def
        using WarningGrace by (auto simp: inv terminal_def intro!: persist_then_ok saga_change.abort)
    next
      case False
      show ?thesis
      proof (cases "add_duration (tf_now (tc_facts ctx)) (cf_action_grace (en_config parts))")
        case (Inr d)
        show ?thesis
          unfolding advance_due_def WarningGrace termination_stage.case Some option.case Let_def Inr sum.case
            if_not_P [OF False]
          by (intro persist_then_ok inv) (use WarningGrace Inr Some in \<open>auto intro: saga_change.cancel\<close>)
      qed (use False WarningGrace Some in \<open>simp add: advance_due_def Let_def\<close>)
    qed
  qed (simp add: advance_due_def WarningGrace)
next
  case GracefulCancel
  then show ?thesis
    by (simp add: advance_due_def signal_stage_ok [OF inv])
next
  case Sigterm
  then show ?thesis
    using kept by (auto simp: advance_due_def signal_stage_ok [OF inv] inv intro!: persist_then_ok saga_change.hold)
qed (simp_all add: advance_due_def)

lemma reconcile_ok:
  assumes inv: "db_inv (sh_db shared)"
    and old: "termination_saga fails fc (sh_db shared) (candidate_session (tc_candidate ctx)) = Inr old"
  shows "step_ok (en_config parts) fc shared ctx old (reconcile_saga parts fails fc shared ctx)"
proof (cases old)
  case None
  then show ?thesis
    using start_ok [OF inv] by (simp add: reconcile_saga_unfold old)
next
  case (Some saga)
  have esc: "step_ok (en_config parts) fc shared ctx old (escalate parts fails fc shared ctx saga)"
    if "\<not> terminal (sg_stage saga)" "process_kept ctx saga"
    using advance_due_ok [OF inv, of saga ctx parts fc fails] that
    by (auto simp: process_kept_def escalate_def handle_blockers_def Let_def Some inv intro!: persist_then_ok saga_change.abort)
  show ?thesis
    using esc
    by (auto simp: reconcile_saga_unfold old Some inv intro!: persist_then_ok saga_change.abort saga_change.complete)
qed

text \<open>
  C3. The engine implements the staged saga: one reconciliation either leaves the database alone
  (an error, or \<open>NoAction\<close> or \<open>Suspended\<close> without any external action), or it performs exactly one
  legal change of the saga machine from the record it read, with revision one higher, and commits
  the new record together with one \<open>TerminationChanged\<close> event and its deliveries, touching no other
  saga, snapshot or observation.
\<close>
theorem reconcile_refines_saga:
  assumes "db_inv (sh_db shared)" and "reconcile_saga parts fails fc shared ctx = (shared', effects, r)"
  shows "sh_db shared' = sh_db shared \<and>
      ((\<exists>e. r = Inl e) \<or> effects = [] \<and> r \<in> {Inr NoAction, Inr Suspended}) \<or>
    (\<exists>old new status. r = Inr status \<and>
      termination_saga fails fc (sh_db shared) (candidate_session (tc_candidate ctx)) = Inr old \<and>
      saga_change (en_config parts) ctx old effects new status \<and>
      sg_child new = candidate_session (tc_candidate ctx) \<and>
      saga_written fc (advance_of shared ctx new) (sh_db shared) (sh_db shared'))"
proof (cases "termination_saga fails fc (sh_db shared) (candidate_session (tc_candidate ctx))")
  case (Inl e)
  then show ?thesis
    using assms(2) by (auto simp: reconcile_saga_unfold split: if_splits)
next
  case (Inr old)
  then show ?thesis
    using reconcile_ok [OF assms(1) Inr, of parts] assms(2) by (auto simp: step_ok_def moved_def)
qed

text \<open>
  Opting out stops everything: with automation disabled a reconciliation makes no external
  action whatever the store and the facts are; an unfinished saga is aborted (or completed, when
  the child exited), and nothing is started.
\<close>
theorem disabled_automation_inert:
  assumes "\<not> cf_automation_enabled (en_config parts)"
    and "reconcile_saga parts fails fc shared ctx = (shared', effects, r)"
  shows "effects = [] \<and> r \<in> range Inl \<union> Inr ` {NoAction, Suspended, SagaAborted, SagaCompleted}"
proof
  show "effects = []"
  proof (rule ccontr)
    assume "effects \<noteq> []"
    then obtain eff where "eff \<in> set (fst (snd (reconcile_saga parts fails fc shared ctx)))"
      using assms(2) by (cases effects) auto
    then show False
      using assms(1) by (auto elim: reconcile_effects)
  qed
  have "snd (snd (persist_then fails fc shared ctx saga stage at outcome saf [] status)) \<in> range Inl \<union> {Inr status}"
    for saga stage at outcome saf and status :: termination_status
    by (auto simp: persist_then_def case_prod_beta map_ok_def split: sum.split)
  then show "r \<in> range Inl \<union> Inr ` {NoAction, Suspended, SagaAborted, SagaCompleted}"
    using assms(1) arg_cong [OF assms(2), of "snd \<circ> snd"]
    by (fastforce simp: reconcile_saga_unfold split: if_splits sum.splits option.splits)
qed

section \<open>Escalation over time\<close>

text \<open>
  The durable saga of a child when SQLite answers, and the log of a run: every warning that was
  committed and every external action, with the wall time of the call and the grace configured
  for the next stage.
\<close>

definition stored_saga :: "'j foreign_code \<Rightarrow> 'j db \<Rightarrow> child_session_id \<Rightarrow> termination_saga_record option" where
  "stored_saga fc db child =
     (case termination_saga (\<lambda>_. False) fc db child of Inr saga \<Rightarrow> saga | Inl _ \<Rightarrow> None)"

definition saga_codec :: "'j foreign_code \<Rightarrow> bool" where
  "saga_codec fc \<longleftrightarrow> (\<forall>saga j. xf_saga_to_vec fc saga = Some j \<longrightarrow> xf_saga_from_slice fc j = Some saga)"

datatype escalation = Warned process_identity | Acted effect

record log_entry =
  le_at :: wall_time_ms
  le_grace :: int
  le_child :: child_session_id
  le_what :: escalation

fun saga_step ::
  "'j foreign_code \<Rightarrow> 'j shared \<Rightarrow> 'h engine_parts \<times> sqlite \<times> termination_context \<Rightarrow>
     'j shared \<times> log_entry list" where
  "saga_step fc shared (parts, fails, ctx) =
     (case reconcile_saga parts fails fc shared ctx of (shared', effects, r) \<Rightarrow>
        (shared',
         (case (r, tf_fresh_process (tc_facts ctx)) of
            (Inr Started, Some process) \<Rightarrow>
              [\<lparr>le_at = wall_time (tf_now (tc_facts ctx)), le_grace = uint (cf_warning_grace (en_config parts)),
                le_child = candidate_session (tc_candidate ctx), le_what = Warned process\<rparr>]
          | _ \<Rightarrow> []) @
         map (\<lambda>e. \<lparr>le_at = wall_time (tf_now (tc_facts ctx)), le_grace = uint (cf_action_grace (en_config parts)),
                  le_child = candidate_session (tc_candidate ctx), le_what = Acted e\<rparr>) effects))"

declare saga_step.simps [simp del]

fun cancels :: "process_identity \<Rightarrow> escalation \<Rightarrow> bool" where
  "cancels process (Acted (CancelRequest child)) \<longleftrightarrow> vc_expected_process child = process"
| "cancels process _ \<longleftrightarrow> False"

text \<open>What must precede an entry: its predecessor stage, on the same child and process, a full grace before.\<close>

definition preceded :: "log_entry list \<Rightarrow> child_session_id \<Rightarrow> (escalation \<Rightarrow> bool) \<Rightarrow> wall_time_ms \<Rightarrow> bool" where
  "preceded log child what due \<longleftrightarrow>
     (\<exists>e \<in> set log. le_child e = child \<and> what (le_what e) \<and> le_at e + le_grace e \<le> due)"

fun entry_ok :: "log_entry list \<Rightarrow> log_entry \<Rightarrow> bool" where
  "entry_ok log e =
     (case le_what e of
        Warned _ \<Rightarrow> True
      | Acted (CancelRequest child) \<Rightarrow>
          preceded log (le_child e) (\<lambda>w. w = Warned (vc_expected_process child)) (le_at e)
      | Acted (SignalRequest process Terminate) \<Rightarrow> preceded log (le_child e) (cancels process) (le_at e)
      | Acted (SignalRequest process Kill) \<Rightarrow>
          preceded log (le_child e) (\<lambda>w. w = Acted (SignalRequest process Terminate)) (le_at e))"

fun log_ok :: "log_entry list \<Rightarrow> log_entry list \<Rightarrow> bool" where
  "log_ok past [] = True"
| "log_ok past (e # es) = (entry_ok past e \<and> log_ok (past @ [e]) es)"

lemma log_ok_append: "log_ok past (xs @ ys) \<longleftrightarrow> log_ok past xs \<and> log_ok (past @ xs) ys"
  by (induction xs arbitrary: past) auto

text \<open>What the durable saga of a child promises of the log.\<close>

definition saga_backed :: "log_entry list \<Rightarrow> child_session_id \<Rightarrow> termination_saga_record \<Rightarrow> bool" where
  "saga_backed log child saga \<longleftrightarrow>
     (\<exists>process. sf_process (sg_safety saga) = Some process \<and>
       (case sg_stage saga of
          WarningGrace \<Rightarrow> is_some_and (preceded log child (\<lambda>w. w = Warned process)) (sg_next_action_at saga)
        | GracefulCancel \<Rightarrow> is_some_and (preceded log child (cancels process)) (sg_next_action_at saga)
        | Sigterm \<Rightarrow> is_some_and (preceded log child (\<lambda>w. w = Acted (SignalRequest process Terminate)))
            (sg_next_action_at saga)
        | _ \<Rightarrow> True)) \<or> sg_stage saga \<in> {Sigkill, StageCompleted, StageAborted}"

definition escalation_inv :: "'j foreign_code \<Rightarrow> 'j shared \<Rightarrow> log_entry list \<Rightarrow> bool" where
  "escalation_inv fc shared log \<longleftrightarrow> db_inv (sh_db shared) \<and> log_ok [] log \<and>
     (\<forall>child saga. stored_saga fc (sh_db shared) child = Some saga \<longrightarrow> saga_backed log child saga)"

lemma preceded_mono: "preceded log child what due \<Longrightarrow> due \<le> due' \<Longrightarrow> preceded (log @ new) child what due'"
  by (auto simp: preceded_def intro: order_trans)

lemma saga_backed_mono: "saga_backed log child saga \<Longrightarrow> saga_backed (log @ new) child saga"
  by (auto simp: saga_backed_def is_some_and_iff preceded_mono split: termination_stage.splits)

lemma add_duration_Inr: "add_duration now d = Inr deadline \<Longrightarrow> deadline = wall_time now + uint d"
  by (auto simp: add_duration_def i64_of_u64_def checked_add_i64_def ok_or_def result_elims split: if_splits)

lemma termination_saga_stored:
  "termination_saga fails fc db child = Inr old \<Longrightarrow> stored_saga fc db child = old"
  by (auto simp: termination_saga_def stored_saga_def result_elims run_sql_def)

lemma stored_saga_written:
  assumes "saga_codec fc" "saga_written fc (advance_of shared ctx new) db db'"
  shows "stored_saga fc db' child = (if child = sg_child new then Some new else stored_saga fc db child)"
proof -
  obtain j where j: "xf_saga_to_vec fc new = Some j" "xf_json_len fc j \<le> MAX_RECORD_BYTES"
    and sagas: "map_of (db_sagas db') = (map_of (db_sagas db))(child_session (sg_child new) \<mapsto> saga_row_of new j)"
    using assms(2) by (auto simp: saga_written_def advance_of_def)
  have "xf_saga_from_slice fc j = Some new"
    using assms(1) j(1) by (simp add: saga_codec_def)
  moreover have "child_session child = child_session (sg_child new) \<longleftrightarrow> child = sg_child new"
    by (cases child; cases "sg_child new") simp
  ultimately show ?thesis
    using j(2) by (auto simp: stored_saga_def termination_saga_def run_sql_def sagas load_optional_json_def
        decode_json_def saga_row_of_def)
qed

lemma saga_change_Started: "saga_change config ctx old effects new Started \<Longrightarrow> effects = []"
  by (auto elim: saga_change.cases)

text \<open>The log entries of one step.\<close>

lemma saga_step_log:
  assumes "reconcile_saga parts fails fc shared ctx = (shared', effects, r)"
  shows "saga_step fc shared (parts, fails, ctx) = (shared',
     (if r = Inr Started \<and> tf_fresh_process (tc_facts ctx) \<noteq> None
      then [\<lparr>le_at = wall_time (tf_now (tc_facts ctx)), le_grace = uint (cf_warning_grace (en_config parts)),
             le_child = candidate_session (tc_candidate ctx),
             le_what = Warned (the (tf_fresh_process (tc_facts ctx)))\<rparr>] else []) @
     map (\<lambda>e. \<lparr>le_at = wall_time (tf_now (tc_facts ctx)), le_grace = uint (cf_action_grace (en_config parts)),
              le_child = candidate_session (tc_candidate ctx), le_what = Acted e\<rparr>) effects)"
  using assms by (auto simp: saga_step.simps split: sum.split option.split termination_status.split)

lemma saga_step_entries_ok:
  assumes inv: "escalation_inv fc shared log"
    and call: "reconcile_saga parts fails fc shared ctx = (shared', effects, r)"
  shows "log_ok log (snd (saga_step fc shared (parts, fails, ctx)))"
proof (cases effects)
  case Nil
  then show ?thesis
    by (simp add: saga_step_log [OF call])
next
  case (Cons eff rest)
  let ?child = "candidate_session (tc_candidate ctx)" and ?now = "wall_time (tf_now (tc_facts ctx))"
  have "eff \<in> set (fst (snd (reconcile_saga parts fails fc shared ctx)))"
    by (simp add: call Cons)
  then obtain saga process where s: "termination_saga fails fc (sh_db shared) ?child = Inr (Some saga)"
      "process_kept ctx saga" "legacy_sigkill_opt_out (en_config parts) saga \<or>
       (\<exists>deadline. sg_next_action_at saga = Some deadline \<and> deadline \<le> ?now)"
      "tf_fresh_process (tc_facts ctx) = Some process"
      "eff \<in> stage_effect (en_config parts) ctx (sg_stage saga) process"
      "fst (snd (reconcile_saga parts fails fc shared ctx)) = [eff]"
    by (rule reconcile_effects)
  have "saga_backed log ?child saga"
    using inv termination_saga_stored [OF s(1)] by (simp add: escalation_inv_def)
  then have due: "is_some_and (\<lambda>d. d \<le> ?now) (sg_next_action_at saga) \<and>
      entry_ok log \<lparr>le_at = ?now, le_grace = uint (cf_action_grace (en_config parts)), le_child = ?child, le_what = Acted eff\<rparr>"
    using s(2,3,4,5) preceded_mono [of log _ _ _ _ "[]"]
    by (cases "sg_stage saga")
      (auto simp: saga_backed_def stage_effect_def process_kept_def is_some_and_iff legacy_sigkill_opt_out_def split: if_splits)
  have "r \<noteq> Inr Started"
    using reconcile_ok [OF _ s(1), of parts] inv call Cons
    by (auto simp: step_ok_def escalation_inv_def dest: saga_change_Started)
  then show ?thesis
    using due s(6) call by (simp add: saga_step_log [OF call] del: entry_ok.simps)
qed

lemma saga_step_backed:
  assumes codec: "saga_codec fc" and inv: "escalation_inv fc shared log"
    and call: "reconcile_saga parts fails fc shared ctx = (shared', effects, r)"
    and stored: "stored_saga fc (sh_db shared') child = Some saga"
  shows "saga_backed (log @ snd (saga_step fc shared (parts, fails, ctx))) child saga"
proof (cases "sh_db shared' = sh_db shared")
  case True
  then show ?thesis
    using inv stored by (simp add: escalation_inv_def saga_backed_mono)
next
  case False
  let ?child = "candidate_session (tc_candidate ctx)" and ?log = "log @ snd (saga_step fc shared (parts, fails, ctx))"
  have dbi: "db_inv (sh_db shared)"
    using inv by (simp add: escalation_inv_def)
  obtain old where old: "termination_saga fails fc (sh_db shared) ?child = Inr old"
    using call False by (cases "termination_saga fails fc (sh_db shared) ?child")
      (auto simp: reconcile_saga_unfold split: if_splits)
  obtain new status where new: "r = Inr status" "saga_change (en_config parts) ctx old effects new status"
      "moved fc shared ctx new shared'"
    using reconcile_ok [OF dbi old, of parts] call False by (auto simp: step_ok_def)
  have child: "sg_child new = ?child" "sf_process (sg_safety new) = tf_fresh_process (tc_facts ctx)"
    using new(3) by (simp_all add: moved_def)
  have st: "stored_saga fc (sh_db shared') child = (if child = ?child then Some new else stored_saga fc (sh_db shared) child)"
    using stored_saga_written [OF codec, of shared ctx new "sh_db shared" "sh_db shared'" child] new(3) child(1)
    by (simp add: moved_def)
  show ?thesis
  proof (cases "child = ?child")
    case True
    then have saga: "saga = new"
      using st stored by simp
    note log = saga_step_log [OF call]
    from new(2) have "saga_backed ?log ?child new"
    proof cases
      case (warn d)
      then obtain process where "tf_fresh_process (tc_facts ctx) = Some process"
        by (auto simp: termination_permitted_def Let_def)
      then show ?thesis
        using warn child
        by (auto simp: saga_backed_def log preceded_def new(1) dest!: add_duration_Inr)
    next
      case (cancel o' d v)
      then show ?thesis
        using child
        by (auto simp: saga_backed_def log preceded_def new(1) dest!: add_duration_Inr)
    next
      case (terminate o' d process)
      then show ?thesis
        using child
        by (auto simp: saga_backed_def log preceded_def new(1) dest!: add_duration_Inr)
    next
      case (hold o')
      then have "saga_backed log ?child o'"
        using inv termination_saga_stored [OF old] by (simp add: escalation_inv_def)
      then have "saga_backed ?log ?child o'"
        by (rule saga_backed_mono)
      then show ?thesis
        using hold child by (simp add: saga_backed_def)
    qed (auto simp: saga_backed_def)
    then show ?thesis
      by (simp add: True saga)
  next
    case False
    then show ?thesis
      using st stored inv by (simp add: escalation_inv_def saga_backed_mono)
  qed
qed

lemma saga_step_inv:
  assumes "saga_codec fc" and "escalation_inv fc shared log"
  shows "escalation_inv fc (fst (saga_step fc shared call)) (log @ snd (saga_step fc shared call))"
proof -
  obtain parts fails ctx where c: "call = (parts, fails, ctx)"
    by (metis surj_pair)
  obtain shared' effects r where call: "reconcile_saga parts fails fc shared ctx = (shared', effects, r)"
    by (metis surj_pair)
  have "db_inv (sh_db shared')"
  proof (cases "termination_saga fails fc (sh_db shared) (candidate_session (tc_candidate ctx))")
    case (Inl e)
    then have "shared' = shared"
      using call by (simp add: reconcile_saga_unfold split: if_splits)
    then show ?thesis
      using assms(2) by (simp add: escalation_inv_def)
  next
    case (Inr old)
    then show ?thesis
      using reconcile_ok [OF _ Inr, of parts] call assms(2)
      by (auto simp: step_ok_def escalation_inv_def db_advances_def)
  qed
  moreover have "log_ok [] (log @ snd (saga_step fc shared call))"
    using assms(2) saga_step_entries_ok [OF assms(2) call] by (simp add: log_ok_append escalation_inv_def c)
  moreover have "fst (saga_step fc shared call) = shared'"
    by (simp add: c saga_step_log [OF call])
  ultimately show ?thesis
    using saga_step_backed [OF assms call] by (simp add: escalation_inv_def c)
qed

interpretation escalation: logged_machine "saga_step fc" "\<lambda>s log. saga_codec fc \<longrightarrow> escalation_inv fc s log"
  for fc :: "'j foreign_code"
  by unfold_locales (use saga_step_inv in blast)

text \<open>
  Escalation is staged and never rushed: over any sequence of reconciliations of any children,
  with any facts, configurations, SQLite failures and behaviours of the process and cancellation
  interfaces, starting from a store without sagas, every SIGKILL was preceded by a SIGTERM to the
  same process of the same child, every SIGTERM by a cancellation request for it, and every such
  request by a committed warning, each earlier by at least the grace configured when that earlier
  step was taken (provided the JSON decoder inverts the encoder on saga records).
\<close>
theorem escalation_staged:
  assumes "saga_codec fc" and "db_inv (sh_db shared)" and "db_sagas (sh_db shared) = []"
  shows "log_ok [] (snd (run_machine (saga_step fc) shared calls))"
proof -
  have "escalation_inv fc shared []"
    using assms(2,3) by (simp add: escalation_inv_def stored_saga_def termination_saga_def run_sql_def
        load_optional_json_def)
  then show ?thesis
    using escalation.run_log [of fc shared "[]" calls] assms(1) by (simp add: escalation_inv_def)
qed

lemma terminal_step:
  assumes "saga_codec fc" "db_inv (sh_db shared)" "stored_saga fc (sh_db shared) child = Some saga"
    "terminal (sg_stage saga)"
  shows "db_inv (sh_db (fst (saga_step fc shared call))) \<and>
    stored_saga fc (sh_db (fst (saga_step fc shared call))) child = Some saga \<and>
    list_all (\<lambda>e. le_child e \<noteq> child) (snd (saga_step fc shared call))"
proof -
  obtain parts fails ctx where c: "call = (parts, fails, ctx)"
    by (metis surj_pair)
  obtain shared' effects r where call: "reconcile_saga parts fails fc shared ctx = (shared', effects, r)"
    by (metis surj_pair)
  let ?child = "candidate_session (tc_candidate ctx)"
  show ?thesis
  proof (cases "termination_saga fails fc (sh_db shared) ?child")
    case (Inl e)
    then have "shared' = shared" "effects = []" "\<exists>e. r = Inl e"
      using call by (auto simp: reconcile_saga_unfold split: if_splits)
    then show ?thesis
      using assms(2,3) by (auto simp: c saga_step_log [OF call])
  next
    case (Inr old)
    note ok = reconcile_ok [OF assms(2) Inr, of parts, unfolded call step_ok_def prod.case]
    have inv': "db_inv (sh_db shared')"
      using ok assms(2) by (auto simp: db_advances_def)
    show ?thesis
    proof (cases "?child = child")
      case True
      then have "old = Some saga"
        using termination_saga_stored [OF Inr] assms(3) by simp
      then have "shared' = shared" "effects = []" "r \<noteq> Inr Started"
        using call Inr assms(4) by (auto simp: reconcile_saga_unfold split: if_splits)
      then show ?thesis
        using assms(2,3) by (simp add: c saga_step_log [OF call])
    next
      case False
      have "stored_saga fc (sh_db shared') child = Some saga"
        using ok assms(3) False stored_saga_written [OF assms(1), of shared ctx _ "sh_db shared" "sh_db shared'" child]
        by (auto simp: moved_def)
      then show ?thesis
        using inv' False by (auto simp: c saga_step_log [OF call] list_all_iff)
    qed
  qed
qed

text \<open>
  A finished saga stays finished: once a child's saga is completed or aborted, no run of
  reconciliations ever changes it again or makes another external action for that child.
\<close>
theorem finished_saga_final:
  assumes "saga_codec fc" and "db_inv (sh_db shared)" and "stored_saga fc (sh_db shared) child = Some saga"
    and "terminal (sg_stage saga)"
  shows "stored_saga fc (sh_db (fst (run_machine (saga_step fc) shared calls))) child = Some saga \<and>
    list_all (\<lambda>e. le_child e \<noteq> child) (snd (run_machine (saga_step fc) shared calls))"
  using assms(2,3)
proof (induction calls arbitrary: shared)
  case (Cons call calls)
  show ?case
    using terminal_step [OF assms(1) Cons.prems assms(4), of call] Cons.IH by simp
qed simp

section \<open>Instances\<close>

text \<open>A stalled child with a verified process, and an engine whose interfaces answer.\<close>

definition stalled_child :: child_session_id where
  "stalled_child = ChildSessionId stored_session"

definition codex_process :: process_identity where
  "codex_process = sample_identity"

definition stalled_snapshot :: session_snapshot where
  "stalled_snapshot = stored_snapshot\<lparr>ss_state := Stalled, ss_stalled_since := Some 5,
     ss_process_identity := Some codex_process\<rparr>"

definition stalled_ctx :: "u64 \<Rightarrow> termination_context" where
  "stalled_ctx ms =
     \<lparr>tc_candidate = TerminationCandidate stalled_child, tc_root = MainSessionId (SessionId 9),
      tc_facts = \<lparr>tf_snapshot = stalled_snapshot,
        tf_runtime = CodexCli, tf_trustworthy_relation = True, tf_active_operation = False,
        tf_fresh_process = Some codex_process, tf_health = health_healthy, tf_now = stored_time ms,
        tf_terminate_after_stalled = 1\<rparr>,
      tc_native_id = ''a'', tc_child_exited = False, tc_process_identity_changed = False\<rparr>"

definition sample_parts :: "unit engine_parts" where
  "sample_parts = \<lparr>en_open_verified = \<lambda>_. Inr (), en_signal = \<lambda>_ _. Inr (),
     en_request_cancel = no_graceful_request_cancel,
     en_config = default_termination_config\<lparr>cf_warning_grace := 10, cf_action_grace := 10\<rparr>\<rparr>"

definition sample_shared :: "document shared" where
  "sample_shared = \<lparr>sh_db = sample_db, sh_next_event = 2\<rparr>"

definition sample_calls :: "u64 list \<Rightarrow> (unit engine_parts \<times> sqlite \<times> termination_context) list" where
  "sample_calls moments = map (\<lambda>ms. (sample_parts, \<lambda>_. False, stalled_ctx ms)) moments"

lemmas instance_eval = stalled_ctx_def stalled_snapshot_def stalled_child_def sample_parts_def stored_snapshot_def
  session_snapshot_new_def stored_time_def health_healthy_def all_healthy_def
  default_termination_config_def

lemma codex_process_matches: "executable_matches_runtime CodexCli (pi_executable codex_process)"
proof -
  have "file_name ''/usr/bin/codex'' = Some ''codex''"
    using file_name_absolute [of "''codex''" "''/usr/bin''"] by simp
  then show ?thesis
    by (simp add: executable_matches_runtime_def codex_process_def sample_identity_def)
qed

lemma stalled_ctx_permitted:
  "termination_permitted (tc_candidate (stalled_ctx ms)) (tc_facts (stalled_ctx ms)) \<longleftrightarrow> 6 \<le> unat ms"
  using codex_process_matches by (auto simp: termination_permitted_def instance_eval Let_def)

text \<open>A store with the child's snapshot, whose saga was last advanced to \<open>stage\<close> and is due at 50.\<close>

definition stalled_update :: snapshot_update where
  "stalled_update = \<lparr>su_session = ChildIdentity stalled_child, su_root = MainSessionId (SessionId 9), su_revision = 1,
     su_state = Stalled, su_updated_at = 5, su_reducer_snapshot = Some stalled_snapshot\<rparr>"

definition sample_saga :: "termination_stage \<Rightarrow> termination_saga_record" where
  "sample_saga stage =
     \<lparr>sg_child = stalled_child, sg_stage = stage, sg_revision = 3, sg_next_action_at = Some 50,
      sg_safety = safety (stalled_ctx 40) None, sg_last_outcome = None\<rparr>"

definition saga_shared :: "termination_stage \<Rightarrow> document shared" where
  "saga_shared stage =
     \<lparr>sh_db = sample_db\<lparr>db_sagas := [(stored_session, saga_row_of (sample_saga stage) (SagaDoc (sample_saga stage)))],
        db_snapshots := [(stored_session, snapshot_row_of stalled_update (SnapshotDoc stalled_update))]\<rparr>,
      sh_next_event = 2\<rparr>"

lemma saga_shared_saga:
  "termination_saga (\<lambda>_. False) sample_code (sh_db (saga_shared stage)) stalled_child = Inr (Some (sample_saga stage))"
  by (simp add: termination_saga_def saga_shared_def run_sql_def load_optional_json_def decode_json_def
      saga_row_of_def sample_code_def stalled_child_def MAX_RECORD_BYTES_def)

lemma sample_db_tables: "map fst (db_sessions sample_db) = [stored_session]" "db_sagas sample_db = []"
  "map fst (db_transitions sample_db) = [1]" "map ob_event_id (db_outbox sample_db) = [1, 1]"
  "db_outbox_seq sample_db = 2"
  by (simp_all add: sample_db_def store_eval sample_eval stored_session_def session_id_from_native_def)

lemma saga_shared_inv: "db_inv (sh_db (saga_shared stage))"
  using sample_db_inv arg_cong [OF sample_db_tables(1), of set]
  by (simp add: db_inv_defs saga_shared_def saga_row_of_def sample_saga_def snapshot_row_of_def stalled_update_def)

lemma stalled_ctx_parts:
  "tc_candidate (stalled_ctx ms) = TerminationCandidate stalled_child" "\<not> exited (stalled_ctx ms)"
  "ss_root (tf_snapshot (tc_facts (stalled_ctx ms))) = tc_root (stalled_ctx ms)"
  "process_kept (stalled_ctx ms) (sample_saga stage)"
  "tf_fresh_process (tc_facts (stalled_ctx ms)) = Some codex_process"
  by (simp_all add: instance_eval exited_def process_kept_def sample_saga_def safety_def Let_def)

lemma saga_shared_due:
  assumes "50 \<le> ms" "\<not> terminal stage"
  shows "reconcile_saga sample_parts (\<lambda>_. False) sample_code (saga_shared stage) (stalled_ctx ms) =
    advance_due sample_parts (\<lambda>_. False) sample_code (saga_shared stage) (stalled_ctx ms) (sample_saga stage)"
proof -
  have "6 \<le> unat ms"
    using assms(1) by (simp add: word_le_nat_alt)
  then have "eligible (assess_termination (tc_candidate (stalled_ctx ms)) (tc_facts (stalled_ctx ms)))"
    using stalled_ctx_permitted by (simp add: eligible_iff_permitted)
  moreover have "cf_automation_enabled (en_config sample_parts)" "50 \<le> wall_time (tf_now (tc_facts (stalled_ctx ms)))"
    using assms(1) by (simp_all add: instance_eval word_le_def)
  ultimately show ?thesis
    using assms(2) saga_shared_saga [of stage] stalled_ctx_parts [of ms]
    by (simp add: reconcile_saga_unfold escalate_def Let_def sample_saga_def)
qed

theorem termination_effects_gated_witness:
  "fst (snd (reconcile_saga sample_parts (\<lambda>_. False) sample_code (saga_shared Sigterm) (stalled_ctx 60))) =
     [SignalRequest codex_process Kill] \<and>
   termination_permitted (TerminationCandidate stalled_child) (tc_facts (stalled_ctx 60))"
proof -
  let ?r = "reconcile_saga sample_parts (\<lambda>_. False) sample_code (saga_shared Sigterm) (stalled_ctx 60)"
  have "fst (snd ?r) = [SignalRequest codex_process Kill]"
    by (simp add: saga_shared_due terminal_def)
      (simp add: advance_due_def sample_saga_def signal_stage_def stalled_ctx_parts send_signal_def sample_parts_def
        default_termination_config_def Let_def)
  moreover obtain shared' effects r where "?r = (shared', effects, r)"
    by (metis surj_pair)
  ultimately show ?thesis
    using termination_effects_gated [of sample_parts "\<lambda>_. False" sample_code "saga_shared Sigterm" "stalled_ctx 60"
        shared' effects r "SignalRequest codex_process Kill"]
    by (simp add: stalled_ctx_parts)
qed

lemma insert_outbox_total:
  assumes "map_of (db_transitions db) event_id \<noteq> None" "distinct (map destination_as_str destinations)"
    "\<forall>row \<in> set (db_outbox db). ob_event_id row = event_id \<longrightarrow>
       ob_destination row \<notin> destination_as_str ` set destinations"
    "db_outbox_seq db + int (length destinations) \<le> i64_max"
  shows "\<exists>db'. insert_outbox (\<lambda>_. False) event_id json destinations db = Inr db'"
  using assms by (induction destinations arbitrary: db) (auto simp: run_sql_def list_ex_iff)

lemma sample_advance_committed:
  assumes "sg_revision (ad_saga adv) = 1" "sg_child (ad_saga adv) = stalled_child"
    "ev_subject (ad_event adv) = ChildIdentity stalled_child" "ev_id (ad_event adv) = 2"
    "ad_destinations adv = stage_destinations WarningGrace"
  shows "snd (apply_termination_advance (\<lambda>_. False) sample_code sample_db adv) = Inr ()"
proof -
  have known: "map_of (db_sessions sample_db) stored_session \<noteq> None" "map_of (db_transitions sample_db) 2 = None"
    using arg_cong [OF sample_db_tables(1), of set] arg_cong [OF sample_db_tables(3), of set]
    by (simp_all add: map_of_eq_None_iff)
  obtain db1 where db1: "upsert_saga (\<lambda>_. False) 1 (SagaDoc (ad_saga adv)) (ad_saga adv) sample_db = Inr db1"
      "db_sessions db1 = db_sessions sample_db" "db_transitions db1 = db_transitions sample_db"
      "db_outbox db1 = db_outbox sample_db" "db_outbox_seq db1 = db_outbox_seq sample_db"
    using assms(2) known by (auto simp: upsert_saga_def run_sql_def stalled_child_def sample_db_tables Let_def)
  have out: "map ob_event_id (db_outbox db1) = [1, 1]" "db_outbox_seq db1 = 2"
    using db1(4,5) sample_db_tables(4,5) by simp_all
  have "ob_event_id row = 1" if "row \<in> set (db_outbox db1)" for row
    using arg_cong [OF out(1), of set] imageI [OF that, of ob_event_id] by simp
  then have free: "\<forall>row \<in> set (db_outbox db1). ob_event_id row \<noteq> 2"
    by simp
  let ?db = "db1\<lparr>db_transitions := btree_insert 2 \<lparr>tr_root = main_session (ev_root (ad_event adv)),
    tr_subject = stored_session, tr_occurred_at = ev_occurred_at (ad_event adv), tr_json = EventDoc (ad_event adv)\<rparr>
    (db_transitions sample_db)\<rparr>"
  have "\<exists>db2. insert_outbox (\<lambda>_. False) 2 (EventDoc (ad_event adv)) (stage_destinations WarningGrace) ?db = Inr db2"
  proof (rule insert_outbox_total)
    show "map_of (db_transitions ?db) 2 \<noteq> None"
      by (simp only: map_of_eq_None_iff) simp
    show "\<forall>row \<in> set (db_outbox ?db). ob_event_id row = 2 \<longrightarrow>
        ob_destination row \<notin> destination_as_str ` set (stage_destinations WarningGrace)"
      using free by simp
  qed (simp_all add: stage_destinations_def i64_max_def out(2))
  then obtain db2 where db2: "insert_outbox (\<lambda>_. False) 2 (EventDoc (ad_event adv)) (stage_destinations WarningGrace) ?db = Inr db2"
    by blast
  have "insert_event (\<lambda>_. False) sample_code (ad_event adv) (ad_destinations adv) db1 =
      insert_outbox (\<lambda>_. False) 2 (EventDoc (ad_event adv)) (stage_destinations WarningGrace) ?db"
    using db1(2,3) assms(3,4,5) known
    by (simp add: insert_event_def bounded_json_def sample_code_def MAX_RECORD_BYTES_def sqlite_integer_def
        i64_of_u64_def i64_max_def ok_or_def run_sql_def stalled_child_def del: not_None_eq)
  then have "insert_event (\<lambda>_. False) sample_code (ad_event adv) (ad_destinations adv) db1 = Inr db2"
    using db2 by simp
  then show ?thesis
    using assms(1-3) db1(1)
    by (simp add: apply_termination_advance_def in_transaction_def bounded_json_def positive_sqlite_integer_def
        sqlite_integer_def i64_of_u64_def i64_max_def sample_code_def MAX_RECORD_BYTES_def run_sql_def ok_or_def)
qed

lemma sample_start:
  "snd (start (\<lambda>_. False) sample_code (en_config sample_parts) sample_shared (stalled_ctx 100) True) = ([], Inr Started)"
proof -
  have "add_duration (tf_now (tc_facts (stalled_ctx 100))) (cf_warning_grace (en_config sample_parts)) = Inr 110"
    by (simp add: add_duration_def instance_eval i64_of_u64_def checked_add_i64_def i64_max_def i64_min_def)
  then show ?thesis
    by (simp add: start_def persist_then_def persist_def allocate_def checked_add_def sample_shared_def
        stalled_ctx_parts sample_advance_committed case_prod_beta Let_def)
qed

theorem reconcile_refines_saga_witness:
  "\<exists>new. saga_change (en_config sample_parts) (stalled_ctx 100) None [] new Started \<and>
    saga_written sample_code (advance_of sample_shared (stalled_ctx 100) new) sample_db
      (sh_db (fst (reconcile_saga sample_parts (\<lambda>_. False) sample_code sample_shared (stalled_ctx 100))))"
proof -
  let ?r = "reconcile_saga sample_parts (\<lambda>_. False) sample_code sample_shared (stalled_ctx 100)"
  have none: "termination_saga (\<lambda>_. False) sample_code (sh_db sample_shared) stalled_child = Inr None"
    by (simp add: termination_saga_def sample_shared_def run_sql_def load_optional_json_def sample_db_tables)
  have "?r = start (\<lambda>_. False) sample_code (en_config sample_parts) sample_shared (stalled_ctx 100) True"
    using none stalled_ctx_permitted [of 100] stalled_ctx_parts [of 100]
    by (simp add: reconcile_saga_unfold eligible_iff_permitted sample_parts_def default_termination_config_def)
  then have "snd ?r = ([], Inr Started)"
    by (simp add: sample_start)
  then show ?thesis
    using reconcile_refines_saga [of sample_shared sample_parts "\<lambda>_. False" sample_code "stalled_ctx 100"
        "fst ?r" "[]" "Inr Started"] sample_db_inv none
    by (auto simp: sample_shared_def stalled_ctx_parts prod_eq_iff)
qed

theorem disabled_automation_inert_witness:
  "fst (snd (reconcile_saga (sample_parts\<lparr>en_config := (en_config sample_parts)\<lparr>cf_automation_enabled := False\<rparr>\<rparr>)
     (\<lambda>_. False) sample_code (saga_shared Sigterm) (stalled_ctx 60))) = []"
proof -
  let ?parts = "sample_parts\<lparr>en_config := (en_config sample_parts)\<lparr>cf_automation_enabled := False\<rparr>\<rparr>"
  obtain shared' effects r where "reconcile_saga ?parts (\<lambda>_. False) sample_code (saga_shared Sigterm) (stalled_ctx 60) =
      (shared', effects, r)"
    by (metis surj_pair)
  then show ?thesis
    using disabled_automation_inert [of ?parts] by fastforce
qed

lemma sample_saga_codec: "saga_codec sample_code"
  by (simp add: saga_codec_def sample_code_def)

theorem escalation_staged_witness:
  "log_ok [] (snd (run_machine (saga_step sample_code) sample_shared (sample_calls [100, 109, 110, 120, 130])))"
  by (rule escalation_staged) (simp_all add: sample_saga_codec sample_shared_def sample_db_inv sample_db_tables)

theorem finished_saga_final_witness:
  "stored_saga sample_code (sh_db (fst (run_machine (saga_step sample_code) (saga_shared StageAborted)
     (sample_calls [60, 70, 80])))) stalled_child = Some (sample_saga StageAborted)"
  using finished_saga_final [OF sample_saga_codec saga_shared_inv, of StageAborted stalled_child "sample_saga StageAborted"
      "sample_calls [60, 70, 80]"] saga_shared_saga [of StageAborted]
  by (simp add: stored_saga_def terminal_def sample_saga_def)

end
