(* ===== verification/Hierarchy.thy ===== *)
theory Hierarchy
  imports Store Correlation
begin

text \<open>
  The session tree as the store keeps it (\<open>crates/watchdog-store/src/repositories.rs\<close> and
  \<open>records.rs\<close>): decoding of \<open>sessions\<close> rows, the session queries, the time-scoped parent
  relations with their event journal, and the runtime-native aliases of a session. The tables
  \<open>session_relations\<close>, \<open>relation_events\<close> and \<open>discovery_aliases\<close> are a record beside the core
  tables \<open>'j db\<close>, which only serve their foreign keys here.

  Where a query orders rows by a key that need not be unique, rows with equal keys come in table
  order, one of the orders SQL allows.
\<close>

section \<open>Records and tables\<close>

record stored_session_record =
  st_session :: session_identity
  st_root :: main_session_id
  st_native :: native_session_key

record relation_record =
  rl_child :: child_session_id
  rl_parent :: session_identity
  rl_root :: main_session_id
  rl_selected :: bool
  rl_basis :: correlation_basis
  rl_provenance :: observation_source
  rl_valid_from :: wall_time_ms
  rl_valid_until :: "wall_time_ms option"

record 'j relation_row =
  rw_child :: session_id
  rw_parent :: session_id
  rw_root :: session_id
  rw_selected :: bool
  rw_json :: 'j
  rw_valid_from :: wall_time_ms
  rw_valid_until :: "wall_time_ms option"

record alias_row =
  al_canonical :: session_id
  al_observed_at :: wall_time_ms

record 'j tree_db =
  td_relations :: "'j relation_row list"
  td_events :: "((session_id \<times> string) \<times> 'j) list"
  td_aliases :: "((string \<times> string) \<times> alias_row) list"

definition empty_tree :: "'j tree_db" where
  "empty_tree = \<lparr>td_relations = [], td_events = [], td_aliases = []\<rparr>"

text \<open>\<open>serde_json\<close> on relation records.\<close>

record 'j relation_code =
  rx_to_vec :: "relation_record \<Rightarrow> 'j option"
  rx_from_slice :: "'j \<Rightarrow> relation_record option"

datatype alias_resolution = Absent | Unique session_id | AmbiguousAlias

section \<open>Sessions\<close>

fun runtime_from_str :: "string \<Rightarrow> store_error + runtime_kind" where
  "runtime_from_str name =
     (if name = ''claude_code'' then Inr ClaudeCode
      else if name = ''codex_cli'' then Inr CodexCli
      else if name = ''codex_companion'' then Inr CodexCompanion
      else if name = ''opencode'' then Inr OpenCode
      else Inl (CorruptValue ''unknown session runtime''))"

definition decode_session_row ::
  "'j foreign_code \<Rightarrow> session_id \<times> session_row \<Rightarrow> session_identity option \<Rightarrow>
     store_error + stored_session_record" where
  "decode_session_row fc stored expected =
     (case stored of (stored_id, row) \<Rightarrow>
      and_then (runtime_from_str (sr_runtime row)) (\<lambda>runtime.
      and_then (map_err (\<lambda>_. CorruptValue ''invalid native session identity'')
          (native_session_key_new runtime (sr_native_id row))) (\<lambda>native.
        let derived = session_id_from_native (xf_new_v5 fc) (xf_namespace_url fc) native
        in if stored_id \<noteq> derived
           then Inl (CorruptValue ''stored and derived session identities differ'')
           else and_then
             (if sr_kind row = ''main'' then Inr (MainIdentity (MainSessionId derived))
              else if sr_kind row = ''child'' then Inr (ChildIdentity (ChildSessionId derived))
              else Inl (CorruptValue ''unknown session kind''))
             (\<lambda>session.
                if is_some_and (\<lambda>v. v \<noteq> session) expected
                then Inl (CorruptValue ''stored session role differs'')
                else Inr \<lparr>st_session = session, st_root = MainSessionId (sr_root row),
                          st_native = native\<rparr>))))"

definition transpose_option :: "('e + 'a) option \<Rightarrow> 'e + 'a option" where
  "transpose_option r = (case r of None \<Rightarrow> Inr None | Some r \<Rightarrow> map_ok Some r)"

definition session_by_id ::
  "sqlite \<Rightarrow> 'j foreign_code \<Rightarrow> 'j db \<Rightarrow> session_id \<Rightarrow> store_error + stored_session_record option" where
  "session_by_id fails fc db session_id =
     and_then (run_sql fails (Statement ''select session'')) (\<lambda>_.
       transpose_option (map_option (\<lambda>row. decode_session_row fc (session_id, row) None)
         (map_of (db_sessions db) session_id)))"

definition stored_session_of ::
  "sqlite \<Rightarrow> 'j foreign_code \<Rightarrow> 'j db \<Rightarrow> session_identity \<Rightarrow>
     store_error + stored_session_record option" where
  "stored_session_of fails fc db session =
     and_then (run_sql fails (Statement ''select session'')) (\<lambda>_.
       transpose_option (map_option
         (\<lambda>row. decode_session_row fc (identity_session_id session, row) (Some session))
         (map_of (db_sessions db) (identity_session_id session))))"

text \<open>\<open>ORDER BY created_at_ms, session_id LIMIT ?\<close>; the text order of a UUID is its numeric order.\<close>

definition ordered_sessions ::
  "u32 \<Rightarrow> (session_id \<times> session_row) list \<Rightarrow> (session_id \<times> session_row) list" where
  "ordered_sessions limit rows =
     take (unat limit) (sort_key (\<lambda>(_, row). sr_created_at row) (sort_key fst rows))"

definition validate_limit :: "u32 \<Rightarrow> store_error + unit" where
  "validate_limit limit = (if limit = 0 then Inl (InputError ZeroLimit) else Inr ())"

definition sessions_for_root ::
  "sqlite \<Rightarrow> 'j foreign_code \<Rightarrow> 'j db \<Rightarrow> main_session_id \<Rightarrow> u32 \<Rightarrow>
     store_error + stored_session_record list" where
  "sessions_for_root fails fc db root limit =
     and_then (validate_limit limit) (\<lambda>_.
     and_then (run_sql fails (Statement ''select sessions for root'')) (\<lambda>_.
       collect_results (map (\<lambda>row. decode_session_row fc row None)
         (ordered_sessions limit
            (filter (\<lambda>(_, row). sr_root row = main_session root) (db_sessions db))))))"

fun kind_name :: "session_kind \<Rightarrow> string" where
  "kind_name MainKind = ''main''"
| "kind_name ChildKind = ''child''"

definition sessions_by_kind ::
  "sqlite \<Rightarrow> 'j foreign_code \<Rightarrow> 'j db \<Rightarrow> session_kind \<Rightarrow> u32 \<Rightarrow>
     store_error + stored_session_record list" where
  "sessions_by_kind fails fc db kind limit =
     and_then (validate_limit limit) (\<lambda>_.
     and_then (run_sql fails (Statement ''select sessions by kind'')) (\<lambda>_.
       collect_results (map (\<lambda>row. decode_session_row fc row None)
         (ordered_sessions limit
            (filter (\<lambda>(_, row). sr_kind row = kind_name kind) (db_sessions db))))))"

section \<open>Relations\<close>

definition known_session :: "'j db \<Rightarrow> session_id \<Rightarrow> bool" where
  "known_session db s \<longleftrightarrow> map_of (db_sessions db) s \<noteq> None"

definition same_relation :: "'j relation_row \<Rightarrow> 'j relation_row \<Rightarrow> bool" where
  "same_relation a b \<longleftrightarrow> rw_child a = rw_child b \<and> rw_parent a = rw_parent b \<and>
     rw_valid_from a = rw_valid_from b"

text \<open>
  \<open>INSERT ... ON CONFLICT(child, parent, valid_from) DO UPDATE SET selected, provenance_json,
  valid_until_ms\<close>, with the two foreign keys.
\<close>

definition upsert_relation ::
  "'j db \<Rightarrow> 'j relation_row \<Rightarrow> 'j relation_row list \<Rightarrow> store_error + 'j relation_row list" where
  "upsert_relation db new rows =
     (if list_ex (same_relation new) rows
      then Inr (map (\<lambda>row. if same_relation new row
                 then row\<lparr>rw_selected := rw_selected new, rw_json := rw_json new,
                          rw_valid_until := rw_valid_until new\<rparr> else row) rows)
      else if known_session db (rw_child new) \<and> known_session db (rw_parent new)
      then Inr (rows @ [new])
      else Inl Sqlx)"

definition relation_row_of :: "relation_record \<Rightarrow> bool \<Rightarrow> wall_time_ms option \<Rightarrow> 'j \<Rightarrow> 'j relation_row" where
  "relation_row_of rec selected valid_until payload =
     \<lparr>rw_child = child_session (rl_child rec), rw_parent = identity_session_id (rl_parent rec),
      rw_root = main_session (rl_root rec), rw_selected = selected, rw_json = payload,
      rw_valid_from = rl_valid_from rec, rw_valid_until = valid_until\<rparr>"

definition save_relation ::
  "sqlite \<Rightarrow> 'j foreign_code \<Rightarrow> 'j relation_code \<Rightarrow> 'j db \<Rightarrow> 'j tree_db \<Rightarrow> relation_record \<Rightarrow>
     'j tree_db \<times> (store_error + unit)" where
  "save_relation fails fc rc db tree rec =
     (case and_then (bounded_json fc (\<lambda>_. rx_to_vec rc) rec ''session relation'') (\<lambda>payload.
        and_then (run_sql fails (Statement ''upsert relation'')) (\<lambda>_.
          upsert_relation db (relation_row_of rec (rl_selected rec) (rl_valid_until rec) payload)
            (td_relations tree))) of
        Inl e \<Rightarrow> (tree, Inl e)
      | Inr rows \<Rightarrow> (tree\<lparr>td_relations := rows\<rparr>, Inr ()))"

definition open_selected :: "session_id \<Rightarrow> 'j relation_row \<Rightarrow> bool" where
  "open_selected child row \<longleftrightarrow> rw_child row = child \<and> rw_selected row \<and> rw_valid_until row = None"

text \<open>\<open>ORDER BY valid_from_ms DESC\<close>.\<close>

definition newest_first :: "'j relation_row list \<Rightarrow> 'j relation_row list" where
  "newest_first rows = sort_key (\<lambda>row. - rw_valid_from row) rows"

definition current_relation :: "session_id \<Rightarrow> 'j relation_row list \<Rightarrow> 'j relation_row option" where
  "current_relation child rows =
     (case newest_first (filter (open_selected child) rows) of [] \<Rightarrow> None | row # _ \<Rightarrow> Some row)"

text \<open>A repeated event: the journal already holds the child's fingerprint.\<close>

definition repeated_relation ::
  "sqlite \<Rightarrow> 'j foreign_code \<Rightarrow> 'j relation_code \<Rightarrow> relation_record \<Rightarrow> 'j option \<Rightarrow>
     'j tree_db \<Rightarrow> store_error + 'j tree_db \<times> bool" where
  "repeated_relation fails fc rc rec existing_payload tree =
     and_then (run_sql fails (Statement ''select relation event'')) (\<lambda>_.
     and_then (ok_or Sqlx existing_payload) (\<lambda>payload.
     and_then (decode_json fc (rx_from_slice rc) payload) (\<lambda>existing.
       if rl_child existing \<noteq> rl_child rec \<or> rl_parent existing \<noteq> rl_parent rec \<or>
          rl_root existing \<noteq> rl_root rec \<or> rl_basis existing \<noteq> rl_basis rec \<or>
          rl_provenance existing \<noteq> rl_provenance rec
       then Inl RelationIdentityConflict
       else Inr (tree, False))))"

definition close_selected :: "session_id \<Rightarrow> wall_time_ms \<Rightarrow> 'j relation_row list \<Rightarrow> 'j relation_row list" where
  "close_selected child at rows =
     map (\<lambda>row. if open_selected child row
                then row\<lparr>rw_selected := False, rw_valid_until := Some at\<rparr> else row) rows"

definition supersede_relation ::
  "sqlite \<Rightarrow> 'j db \<Rightarrow> relation_record \<Rightarrow> 'j \<Rightarrow> 'j tree_db \<Rightarrow> store_error + 'j tree_db \<times> bool" where
  "supersede_relation fails db rec payload tree =
     (let child = child_session (rl_child rec) in
      and_then (run_sql fails (Statement ''select current relation'')) (\<lambda>_.
        if map_option rw_parent (current_relation child (td_relations tree)) =
           Some (identity_session_id (rl_parent rec))
        then Inr (tree, False)
        else
          and_then (run_sql fails (Statement ''close relations'')) (\<lambda>_.
          and_then (run_sql fails (Statement ''insert relation'')) (\<lambda>_.
          and_then (upsert_relation db (relation_row_of rec True None payload)
              (close_selected child (rl_valid_from rec) (td_relations tree))) (\<lambda>rows.
            Inr (tree\<lparr>td_relations := rows\<rparr>, True))))))"

definition select_relation_body ::
  "sqlite \<Rightarrow> 'j foreign_code \<Rightarrow> 'j relation_code \<Rightarrow> 'j db \<Rightarrow> relation_record \<Rightarrow> 'j \<Rightarrow>
     'j tree_db \<Rightarrow> store_error + 'j tree_db \<times> bool" where
  "select_relation_body fails fc rc db rec payload tree =
     (let child = child_session (rl_child rec);
          key = (child, os_fingerprint (rl_provenance rec)) in
      and_then (run_sql fails (Statement ''insert relation event'')) (\<lambda>_.
        if map_of (td_events tree) key \<noteq> None
        then repeated_relation fails fc rc rec (map_of (td_events tree) key) tree
        else if \<not> known_session db child then Inl Sqlx
        else supersede_relation fails db rec payload
               (tree\<lparr>td_events := td_events tree @ [(key, payload)]\<rparr>)))"

definition select_relation ::
  "sqlite \<Rightarrow> 'j foreign_code \<Rightarrow> 'j relation_code \<Rightarrow> 'j db \<Rightarrow> 'j tree_db \<Rightarrow> relation_record \<Rightarrow>
     'j tree_db \<times> (store_error + bool)" where
  "select_relation fails fc rc db tree rec =
     (case bounded_json fc (\<lambda>_. rx_to_vec rc) rec ''session relation'' of
        Inl e \<Rightarrow> (tree, Inl e)
      | Inr payload \<Rightarrow>
          in_transaction fails (select_relation_body fails fc rc db rec payload) tree)"

definition selected_parent ::
  "sqlite \<Rightarrow> 'j foreign_code \<Rightarrow> 'j db \<Rightarrow> 'j tree_db \<Rightarrow> session_id \<Rightarrow>
     store_error + stored_session_record option" where
  "selected_parent fails fc db tree child =
     and_then (run_sql fails (Statement ''select parent'')) (\<lambda>_.
       transpose_option (map_option (\<lambda>row. decode_session_row fc row None)
         (case newest_first (filter (\<lambda>row. open_selected child row \<and> known_session db (rw_parent row))
                 (td_relations tree)) of
            [] \<Rightarrow> None
          | row # _ \<Rightarrow> map_option (Pair (rw_parent row)) (map_of (db_sessions db) (rw_parent row)))))"

definition relations_for_root ::
  "sqlite \<Rightarrow> 'j foreign_code \<Rightarrow> 'j relation_code \<Rightarrow> 'j tree_db \<Rightarrow> main_session_id \<Rightarrow> u32 \<Rightarrow>
     store_error + relation_record list" where
  "relations_for_root fails fc rc tree root limit =
     and_then (validate_limit limit) (\<lambda>_.
     and_then (run_sql fails (Statement ''select relations'')) (\<lambda>_.
       collect_results (map (\<lambda>row. decode_json fc (rx_from_slice rc) (rw_json row))
         (take (unat limit) (newest_first
            (filter (\<lambda>row. rw_root row = main_session root) (td_relations tree)))))))"

section \<open>Aliases\<close>

text \<open>
  \<open>INSERT ... SELECT ... FROM sessions WHERE session_id = ? AND runtime = ? ON CONFLICT DO UPDATE\<close>:
  without a matching session there is no row to insert and none is affected.
\<close>

definition save_discovery_alias ::
  "sqlite \<Rightarrow> 'j db \<Rightarrow> 'j tree_db \<Rightarrow> native_session_key \<Rightarrow> session_id \<Rightarrow> wall_time_ms \<Rightarrow>
     'j tree_db \<times> (store_error + unit)" where
  "save_discovery_alias fails db tree alias canonical observed_at =
     (case run_sql fails (Statement ''upsert alias'') of
        Inl e \<Rightarrow> (tree, Inl e)
      | Inr _ \<Rightarrow>
          (let runtime = runtime_as_str (nk_runtime alias); key = (runtime, nk_native_id alias)
           in if is_none_or (\<lambda>row. sr_runtime row \<noteq> runtime) (map_of (db_sessions db) canonical)
              then (tree, Inl IdentityMismatch)
              else case map_of (td_aliases tree) key of
                None \<Rightarrow>
                  (if \<not> native_id_check (nk_native_id alias) then (tree, Inl Sqlx)
                   else (tree\<lparr>td_aliases := td_aliases tree @
                     [(key, \<lparr>al_canonical = canonical, al_observed_at = observed_at\<rparr>)]\<rparr>, Inr ()))
              | Some row \<Rightarrow>
                  (tree\<lparr>td_aliases := AList.update key
                     \<lparr>al_canonical = (if observed_at \<ge> al_observed_at row then canonical else al_canonical row),
                      al_observed_at = max observed_at (al_observed_at row)\<rparr>
                     (td_aliases tree)\<rparr>, Inr ())))"

text \<open>
  The candidates of an alias: the session stored under the exact identity, and, only when there
  is none, the alias row. A key has at most one session and one alias row, both by a \<open>UNIQUE\<close>
  index; the count and the minimum are taken as the query takes them.
\<close>

definition exact_sessions :: "'j db \<Rightarrow> native_session_key \<Rightarrow> session_id list" where
  "exact_sessions db alias =
     map fst (filter (\<lambda>(_, row). sr_runtime row = runtime_as_str (nk_runtime alias) \<and>
       sr_native_id row = nk_native_id alias) (db_sessions db))"

definition alias_candidates :: "'j db \<Rightarrow> 'j tree_db \<Rightarrow> native_session_key \<Rightarrow> session_id list" where
  "alias_candidates db tree alias =
     remdups (exact_sessions db alias @
       (if exact_sessions db alias = []
        then map (al_canonical \<circ> snd) (filter (\<lambda>(key, _).
          key = (runtime_as_str (nk_runtime alias), nk_native_id alias)) (td_aliases tree))
        else []))"

definition discovery_alias ::
  "sqlite \<Rightarrow> 'j db \<Rightarrow> 'j tree_db \<Rightarrow> native_session_key \<Rightarrow> store_error + alias_resolution" where
  "discovery_alias fails db tree alias =
     and_then (run_sql fails (Statement ''select alias'')) (\<lambda>_.
       Inr (case alias_candidates db tree alias of
              [] \<Rightarrow> Absent
            | [canonical] \<Rightarrow> Unique canonical
            | _ \<Rightarrow> AmbiguousAlias))"

definition forget_discovery_alias ::
  "sqlite \<Rightarrow> 'j tree_db \<Rightarrow> native_session_key \<Rightarrow> 'j tree_db \<times> (store_error + bool)" where
  "forget_discovery_alias fails tree alias =
     (case run_sql fails (Statement ''delete alias'') of
        Inl e \<Rightarrow> (tree, Inl e)
      | Inr _ \<Rightarrow>
          (let key = (runtime_as_str (nk_runtime alias), nk_native_id alias);
               rest = filter (\<lambda>(k, _). k \<noteq> key) (td_aliases tree)
           in (tree\<lparr>td_aliases := rest\<rparr>, Inr (length rest < length (td_aliases tree)))))"

section \<open>Stored sessions decode\<close>

definition session_row_ok :: "'j foreign_code \<Rightarrow> session_id \<Rightarrow> session_row \<Rightarrow> bool" where
  "session_row_ok fc k row \<longleftrightarrow> sr_kind row \<in> {''main'', ''child''} \<and>
     (\<exists>native. native_key_wf native \<and> sr_runtime row = runtime_as_str (nk_runtime native) \<and>
        sr_native_id row = nk_native_id native \<and>
        k = session_id_from_native (xf_new_v5 fc) (xf_namespace_url fc) native)"

definition sessions_ok :: "'j foreign_code \<Rightarrow> 'j db \<Rightarrow> bool" where
  "sessions_ok fc db \<longleftrightarrow> distinct (map fst (db_sessions db)) \<and>
     (\<forall>k row. map_of (db_sessions db) k = Some row \<longrightarrow> session_row_ok fc k row)"

lemma runtime_from_str_as_str [simp]: "runtime_from_str (runtime_as_str r) = Inr r"
  by (cases r) simp_all

declare runtime_from_str.simps [simp del]

text \<open>The identity a kind and a session id name.\<close>

definition identity_of_kind :: "string \<Rightarrow> session_id \<Rightarrow> session_identity" where
  "identity_of_kind kind k =
     (if kind = ''main'' then MainIdentity (MainSessionId k) else ChildIdentity (ChildSessionId k))"

lemma identity_of_kind_id [simp]: "identity_session_id (identity_of_kind kind k) = k"
  by (simp add: identity_of_kind_def)

lemma decode_session_row_ok:
  assumes "session_row_ok fc k row"
  obtains native where "native_key_wf native" "sr_runtime row = runtime_as_str (nk_runtime native)"
    "sr_native_id row = nk_native_id native" "k = session_id_from_native (xf_new_v5 fc) (xf_namespace_url fc) native"
    "decode_session_row fc (k, row) None = Inr \<lparr>st_session = identity_of_kind (sr_kind row) k,
       st_root = MainSessionId (sr_root row), st_native = native\<rparr>"
proof -
  obtain native where n: "native_key_wf native" "sr_runtime row = runtime_as_str (nk_runtime native)"
      "sr_native_id row = nk_native_id native" "k = session_id_from_native (xf_new_v5 fc) (xf_namespace_url fc) native"
    and kind: "sr_kind row \<in> {''main'', ''child''}"
    using assms by (auto simp: session_row_ok_def)
  have "native_session_key_new (nk_runtime native) (nk_native_id native) = Inr native"
    using n(1) by (simp add: native_session_key_new_Inr_iff)
  then have "decode_session_row fc (k, row) None = Inr \<lparr>st_session = identity_of_kind (sr_kind row) k,
       st_root = MainSessionId (sr_root row), st_native = native\<rparr>"
    using kind n(4) by (auto simp: decode_session_row_def n(2,3) identity_of_kind_def Let_def)
  then show thesis
    using that n by blast
qed

text \<open>Two rows of one native identity are one row: \<open>UNIQUE (runtime, native_id)\<close>.\<close>

lemma session_row_ok_inj:
  assumes "session_row_ok fc k row" "session_row_ok fc k' row'"
    and "sr_runtime row = sr_runtime row'" "sr_native_id row = sr_native_id row'"
  shows "k = k'"
  using assms by (auto simp: session_row_ok_def runtime_as_str_inj intro!: arg_cong [of _ _ "session_id_from_native _ _"])

lemma upsert_session_ok:
  assumes "upsert_session fails db unit = Inr db'" and "sessions_ok fc db"
    and "validate_apply fc unit = Inr ()" and "native_key_wf (oe_subject (ap_observation unit))"
  shows "sessions_ok fc db'"
proof -
  let ?key = "oe_subject (ap_observation unit)" and ?k = "identity_session_id (su_session (ap_snapshot unit))"
  have k: "?k = session_id_from_native (xf_new_v5 fc) (xf_namespace_url fc) ?key"
    using assms(3) by (simp add: validate_apply_def Let_def split: if_splits)
  have kind: "session_kind_name (su_session (ap_snapshot unit)) \<in> {''main'', ''child''}"
    by (cases "su_session (ap_snapshot unit)") simp_all
  have ok: "session_row_ok fc ?k row" if "sr_kind row \<in> {''main'', ''child''}"
      "sr_runtime row = runtime_as_str (nk_runtime ?key)" "sr_native_id row = nk_native_id ?key" for row
    using that assms(4) k by (auto simp: session_row_ok_def)
  show ?thesis
  proof (cases "map_of (db_sessions db) ?k")
    case None
    then obtain row where "db' = db\<lparr>db_sessions := db_sessions db @ [(?k, row)]\<rparr>"
        "sr_kind row \<in> {''main'', ''child''}" "sr_runtime row = runtime_as_str (nk_runtime ?key)"
        "sr_native_id row = nk_native_id ?key"
      using assms(1) kind by (auto simp: upsert_session_def result_elims Let_def split: if_splits)
    then show ?thesis
      using assms(2) None ok [of row]
      by (auto simp: sessions_ok_def map_of_eq_None_iff map_add_def split: option.splits if_splits)
  next
    case (Some old)
    then obtain row where "db' = db\<lparr>db_sessions := AList.update ?k row (db_sessions db)\<rparr>"
        "sr_kind row = sr_kind old" "sr_runtime row = runtime_as_str (nk_runtime ?key)"
        "sr_native_id row = nk_native_id ?key"
      using assms(1) by (auto simp: upsert_session_def result_elims Let_def split: if_splits)
    moreover have "sr_kind old \<in> {''main'', ''child''}"
      using assms(2) Some by (auto simp: sessions_ok_def session_row_ok_def)
    ultimately show ?thesis
      using assms(2) ok [of row] by (simp add: sessions_ok_def update_conv distinct_update)
  qed
qed

lemma store_apply_sessions_ok:
  assumes "store_apply_observation fails fc db unit = (db', r)" and "db_inv db" and "sessions_ok fc db"
    and "native_key_wf (oe_subject (ap_observation unit))"
  shows "sessions_ok fc db'"
proof (cases "r = Inr Applied")
  case True
  then have valid: "validate_apply fc unit = Inr ()"
    and "in_transaction fails (observation_body fails fc unit) db = (db', Inr Applied)"
    using assms(1) by (auto simp: store_apply_observation_def split: sum.splits)
  then have body: "observation_body fails fc unit db = Inr (db', Applied)"
    by (auto elim: in_transaction_cases)
  then obtain db1 db2 db3 where 1: "insert_observation fails fc db (ap_observation unit) = Inr (db1, True)"
    and 2: "upsert_session fails db1 unit = Inr db2"
    and 3: "upsert_snapshot fails fc db2 (ap_snapshot unit) = Inr db3"
    and 4: "insert_routed_events fails fc (ap_events unit) db3 = Inr db'"
    by (auto simp: observation_body_def result_elims split: if_splits)
  have s1: "db_sessions db1 = db_sessions db" "db_transitions db1 = db_transitions db"
    using 1 by (auto elim: insert_observation_Inr)
  have "sessions_ok fc db2"
    using upsert_session_ok [OF 2 _ valid assms(4)] assms(3) by (simp add: sessions_ok_def s1)
  moreover have "db_sessions db3 = db_sessions db2" "db_transitions db3 = db_transitions db2"
    using 3 by (auto elim: upsert_snapshot_Inr)
  moreover have "db_transitions db2 = db_transitions db1"
    using 2 by (auto elim: upsert_session_Inr)
  moreover have "btree_wf (db_transitions db)"
    using assms(2) by (simp add: db_inv_def transitions_inv_def)
  ultimately show ?thesis
    using insert_routed_events_written [OF 4] by (simp add: sessions_ok_def s1)
next
  case False
  then show ?thesis
    using store_apply_outcome [OF assms(2,1)] assms(3) by simp
qed

text \<open>Observations carry native keys built by the checked constructor.\<close>

fun typed_call :: "store_call \<Rightarrow> bool" where
  "typed_call (CallApply _ unit) = native_key_wf (oe_subject (ap_observation unit))"
| "typed_call _ = True"

lemma store_step_sessions_ok:
  assumes "db_inv db" "sessions_ok fc db" "typed_call call"
  shows "sessions_ok fc (fst (store_step fc db call))"
proof (cases call)
  case (CallApply fails unit)
  then show ?thesis
    using store_apply_sessions_ok [of fails fc db unit, OF surjective_pairing assms(1,2)] assms(3) by simp
next
  case (CallAdvance fails adv)
  then show ?thesis
    using advance_outcome [OF assms(1), of fails fc adv, OF surjective_pairing] assms(2)
    by (auto simp: sessions_ok_def saga_written_def split: if_splits)
next
  case (CallSaveSaga fails saga)
  then show ?thesis
    using assms(2) by (auto simp: save_termination_saga_def sessions_ok_def result_elims split: sum.splits elim!: upsert_saga_Inr)
next
  case (CallAcknowledge fails i t)
  then show ?thesis
    using assms(2) by (auto simp: acknowledge_outbox_def sessions_ok_def Let_def split: sum.splits prod.splits)
next
  case (CallInbox fails offset)
  then show ?thesis
    using assms(2) by (auto simp: save_inbox_offset_def sessions_ok_def Let_def split: sum.splits option.splits prod.splits)
next
  case (CallWipe fails)
  then show ?thesis
    using assms(2) by (auto simp: wipe_watchdog_data_def in_transaction_def sessions_ok_def result_elims split: sum.splits)
qed

lemma run_sessions_ok:
  assumes "db_inv db" "sessions_ok fc db" "list_all typed_call calls"
  shows "sessions_ok fc (fst (run_machine (store_step fc) db calls))"
  using assms
proof (induction calls arbitrary: db)
  case (Cons call calls)
  then show ?case
    using store_step_sessions_ok [of db fc call] history.step_keeps_inv [of db fc call] by simp
qed simp

lemma sessions_ok_empty [simp]: "sessions_ok fc empty_db"
  by (simp add: sessions_ok_def)

text \<open>
  C37. Every stored session is readable: along any run of store calls whose observations carry
  checked native keys, each row of \<open>sessions\<close> decodes, without a corruption error, to a record
  with the id it is stored under and the native identity that id is derived from, and no two
  sessions share a native identity.
\<close>
theorem stored_sessions_decode:
  assumes "list_all typed_call calls" and "db = fst (run_machine (store_step fc) empty_db calls)"
  shows "(\<forall>k \<in> fst ` set (db_sessions db). \<exists>rec. session_by_id (\<lambda>_. False) fc db k = Inr (Some rec) \<and>
      identity_session_id (st_session rec) = k \<and> native_key_wf (st_native rec) \<and>
      session_id_from_native (xf_new_v5 fc) (xf_namespace_url fc) (st_native rec) = k) \<and>
    distinct (map (\<lambda>(_, row). (sr_runtime row, sr_native_id row)) (db_sessions db))"
proof
  have ok: "sessions_ok fc db"
    using run_sessions_ok [of empty_db fc calls] assms by simp
  show "\<forall>k \<in> fst ` set (db_sessions db). \<exists>rec. session_by_id (\<lambda>_. False) fc db k = Inr (Some rec) \<and>
      identity_session_id (st_session rec) = k \<and> native_key_wf (st_native rec) \<and>
      session_id_from_native (xf_new_v5 fc) (xf_namespace_url fc) (st_native rec) = k"
  proof
    fix k assume "k \<in> fst ` set (db_sessions db)"
    then obtain row where row: "map_of (db_sessions db) k = Some row"
      by (cases "map_of (db_sessions db) k") (auto simp: map_of_eq_None_iff)
    then have "session_row_ok fc k row"
      using ok by (simp add: sessions_ok_def)
    then obtain native where "native_key_wf native"
        "session_id_from_native (xf_new_v5 fc) (xf_namespace_url fc) native = k"
        "decode_session_row fc (k, row) None = Inr \<lparr>st_session = identity_of_kind (sr_kind row) k,
           st_root = MainSessionId (sr_root row), st_native = native\<rparr>"
      by (metis decode_session_row_ok)
    then show "\<exists>rec. session_by_id (\<lambda>_. False) fc db k = Inr (Some rec) \<and>
      identity_session_id (st_session rec) = k \<and> native_key_wf (st_native rec) \<and>
      session_id_from_native (xf_new_v5 fc) (xf_namespace_url fc) (st_native rec) = k"
      by (simp add: session_by_id_def run_sql_def transpose_option_def row)
  qed
  show "distinct (map (\<lambda>(_, row). (sr_runtime row, sr_native_id row)) (db_sessions db))"
  proof -
    have "inj_on (\<lambda>(_, row). (sr_runtime row, sr_native_id row)) (set (db_sessions db))"
    proof (rule inj_onI)
      fix x y
      assume xy: "x \<in> set (db_sessions db)" "y \<in> set (db_sessions db)"
        "(\<lambda>(_, row). (sr_runtime row, sr_native_id row)) x = (\<lambda>(_, row). (sr_runtime row, sr_native_id row)) y"
      obtain k row k' row' where p: "x = (k, row)" "y = (k', row')"
        by (metis surj_pair)
      have "map_of (db_sessions db) k = Some row" "map_of (db_sessions db) k' = Some row'"
        using xy(1,2) ok by (simp_all add: p sessions_ok_def)
      moreover from this have "k = k'"
        using ok xy(3) session_row_ok_inj [of fc k row k' row'] by (simp add: p sessions_ok_def)
      ultimately show "x = y"
        by (simp add: p)
    qed
    then show ?thesis
      using ok by (auto simp: sessions_ok_def distinct_map)
  qed
qed

theorem stored_sessions_decode_witness:
  "\<exists>rec. session_by_id (\<lambda>_. False) sample_code sample_db stored_session = Inr (Some rec) \<and>
     identity_session_id (st_session rec) = stored_session"
proof -
  have "map fst (db_sessions sample_db) = [stored_session]"
    by (simp add: sample_db_def store_eval sample_eval stored_session_def session_id_from_native_def)
  then have "stored_session \<in> fst ` set (db_sessions sample_db)"
    by (metis list.set_intros(1) list.set_map)
  moreover have "sample_db = fst (run_machine (store_step sample_code) empty_db [CallApply (\<lambda>_. False) stored_unit])"
    by (simp add: sample_db_def)
  moreover have "list_all typed_call [CallApply (\<lambda>_. False) stored_unit]"
    by (simp add: stored_unit_def stored_observation_def stored_key_def native_key_wf_def MAX_NATIVE_ID_BYTES_def)
  ultimately show ?thesis
    using stored_sessions_decode [of "[CallApply (\<lambda>_. False) stored_unit]" sample_db sample_code] by blast
qed

section \<open>One current parent per child\<close>

definition relation_key :: "'j relation_row \<Rightarrow> session_id \<times> session_id \<times> wall_time_ms" where
  "relation_key row = (rw_child row, rw_parent row, rw_valid_from row)"

lemma same_relation_key: "same_relation a b \<longleftrightarrow> relation_key a = relation_key b"
  by (auto simp: same_relation_def relation_key_def)

definition tree_inv :: "'j tree_db \<Rightarrow> bool" where
  "tree_inv tree \<longleftrightarrow> distinct (map relation_key (td_relations tree)) \<and>
     distinct (map fst (td_events tree)) \<and> distinct (map fst (td_aliases tree)) \<and>
     (\<forall>child. length (filter (open_selected child) (td_relations tree)) \<le> 1)"

lemma tree_inv_empty [simp]: "tree_inv empty_tree"
  by (simp add: tree_inv_def empty_tree_def)

lemma relation_row_fields [simp]:
  "rw_child (relation_row_of rec s u j) = child_session (rl_child rec)"
  "rw_parent (relation_row_of rec s u j) = identity_session_id (rl_parent rec)"
  "rw_root (relation_row_of rec s u j) = main_session (rl_root rec)"
  "rw_selected (relation_row_of rec s u j) = s" "rw_json (relation_row_of rec s u j) = j"
  "rw_valid_from (relation_row_of rec s u j) = rl_valid_from rec"
  "rw_valid_until (relation_row_of rec s u j) = u"
  by (simp_all add: relation_row_of_def)

text \<open>What an upsert does to the rows, as one map over the old rows and at most one new row.\<close>

lemma upsert_relation_rows:
  assumes "upsert_relation db new rows = Inr rows'"
  defines "overwrite \<equiv> \<lambda>row. if same_relation new row
      then row\<lparr>rw_selected := rw_selected new, rw_json := rw_json new, rw_valid_until := rw_valid_until new\<rparr> else row"
  shows "rows' = map overwrite rows @ (if list_ex (same_relation new) rows then [] else [new])"
  using assms by (auto simp: upsert_relation_def list_ex_iff map_idI split: if_splits)

lemma close_selected_keys [simp]: "map relation_key (close_selected child at rows) = map relation_key rows"
  by (simp add: close_selected_def relation_key_def)

lemma open_selected_simps [simp]:
  "\<not> open_selected child (row\<lparr>rw_selected := False, rw_valid_until := Some at\<rparr>)"
  "open_selected child (row\<lparr>rw_selected := True, rw_json := j, rw_valid_until := None\<rparr>) \<longleftrightarrow> rw_child row = child"
  by (simp_all add: open_selected_def)

lemma open_selected_child: "open_selected child row \<Longrightarrow> rw_child row = child"
  by (simp add: open_selected_def)

lemma close_selected_open:
  "filter (open_selected child') (close_selected child at rows) =
     (if child' = child then [] else filter (open_selected child') rows)"
  by (induction rows) (auto simp: close_selected_def dest: open_selected_child)

lemma upsert_relation_keys:
  assumes "upsert_relation db new rows = Inr rows'" and "distinct (map relation_key rows)"
  shows "distinct (map relation_key rows')"
proof -
  have same: "map relation_key (map (\<lambda>row. if same_relation new row
      then row\<lparr>rw_selected := rw_selected new, rw_json := rw_json new, rw_valid_until := rw_valid_until new\<rparr>
      else row) rows) = map relation_key rows"
    by (simp add: relation_key_def)
  show ?thesis
    unfolding upsert_relation_rows [OF assms(1)] map_append same
    using assms(2) by (auto simp: list_ex_iff same_relation_key)
qed

lemma filter_overwrite:
  assumes "distinct (map relation_key rows)" and "\<forall>row \<in> set rows. \<not> open_selected child row"
    and "rw_child new = child" "rw_selected new" "rw_valid_until new = None" "list_ex (same_relation new) rows"
  shows "\<exists>row. filter (open_selected child) (map (\<lambda>row. if same_relation new row
      then row\<lparr>rw_selected := rw_selected new, rw_json := rw_json new, rw_valid_until := rw_valid_until new\<rparr>
      else row) rows) = [row] \<and> relation_key row = relation_key new \<and> rw_json row = rw_json new"
  using assms
proof (induction rows)
  case (Cons r rows)
  show ?case
  proof (cases "same_relation new r")
    case True
    then have "\<not> list_ex (same_relation new) rows"
      using Cons.prems(1) by (auto simp: same_relation_key list_ex_iff)
    then have "filter (open_selected child) (map (\<lambda>row. if same_relation new row
      then row\<lparr>rw_selected := rw_selected new, rw_json := rw_json new, rw_valid_until := rw_valid_until new\<rparr>
      else row) rows) = []"
      using Cons.prems(2) by (auto simp: filter_empty_conv list_ex_iff)
    then show ?thesis
      using True Cons.prems(3-5) by (simp add: same_relation_key) (simp add: relation_key_def)
  next
    case False
    then show ?thesis
      using Cons by simp
  qed
qed simp

text \<open>A successful supersession leaves exactly the new relation current.\<close>

lemma upsert_current:
  assumes "upsert_relation db new (close_selected (rw_child new) at rows) = Inr rows'"
    and "distinct (map relation_key rows)" and "rw_selected new" "rw_valid_until new = None"
  shows "\<exists>row. filter (open_selected (rw_child new)) rows' = [row] \<and>
    relation_key row = relation_key new \<and> rw_json row = rw_json new"
proof (cases "list_ex (same_relation new) (close_selected (rw_child new) at rows)")
  case True
  have "\<forall>row \<in> set (close_selected (rw_child new) at rows). \<not> open_selected (rw_child new) row"
    using close_selected_open [of "rw_child new" "rw_child new" at rows] by (simp add: filter_empty_conv)
  then show ?thesis
    using filter_overwrite [of "close_selected (rw_child new) at rows" "rw_child new" new] assms(2-4) True
    by (simp add: upsert_relation_rows [OF assms(1)])
next
  case False
  then show ?thesis
    using assms(3,4) upsert_relation_rows [OF assms(1)] close_selected_open [of "rw_child new" "rw_child new" at rows]
    by (auto simp: open_selected_def list_ex_iff filter_empty_conv cong: map_cong)
qed

lemma upsert_other_open:
  assumes "upsert_relation db new rows = Inr rows'" and "child \<noteq> rw_child new"
  shows "filter (open_selected child) rows' = filter (open_selected child) rows"
proof -
  have "filter (open_selected child) (map (\<lambda>row. if same_relation new row
      then row\<lparr>rw_selected := rw_selected new, rw_json := rw_json new, rw_valid_until := rw_valid_until new\<rparr>
      else row) rows) = filter (open_selected child) rows"
    using assms(2) by (induction rows) (auto simp: same_relation_def dest: open_selected_child)
  then show ?thesis
    using assms(2) by (auto simp: upsert_relation_rows [OF assms(1)] dest: open_selected_child)
qed

text \<open>The three outcomes of a selection.\<close>

lemma select_relation_outcome:
  assumes "select_relation fails fc rc db tree rec = (tree', r)"
  obtains (failed) e where "r = Inl e" "tree' = tree"
  | (kept) "r = Inr False" "td_relations tree' = td_relations tree" "td_aliases tree' = td_aliases tree"
      "td_events tree' = td_events tree \<or> (\<exists>key payload. key \<notin> fst ` set (td_events tree) \<and>
         td_events tree' = td_events tree @ [(key, payload)])"
  | (selected) payload where "r = Inr True" "rx_to_vec rc rec = Some payload" "xf_json_len fc payload \<le> MAX_RECORD_BYTES"
      "(child_session (rl_child rec), os_fingerprint (rl_provenance rec)) \<notin> fst ` set (td_events tree)"
      "td_events tree' = td_events tree @ [((child_session (rl_child rec), os_fingerprint (rl_provenance rec)), payload)]"
      "td_aliases tree' = td_aliases tree"
      "map_option rw_parent (current_relation (child_session (rl_child rec)) (td_relations tree)) \<noteq>
         Some (identity_session_id (rl_parent rec))"
      "upsert_relation db (relation_row_of rec True None payload)
         (close_selected (child_session (rl_child rec)) (rl_valid_from rec) (td_relations tree)) = Inr (td_relations tree')"
proof (cases r)
  case (Inl e)
  then have "tree' = tree"
    using assms by (auto simp: select_relation_def in_transaction_def split: sum.splits)
  then show thesis
    using failed Inl by blast
next
  case (Inr b)
  obtain payload where p: "rx_to_vec rc rec = Some payload" "xf_json_len fc payload \<le> MAX_RECORD_BYTES"
    and tx: "in_transaction fails (select_relation_body fails fc rc db rec payload) tree = (tree', Inr b)"
    using assms Inr by (auto simp: select_relation_def bounded_json_def result_elims split: sum.splits if_splits)
  have body: "select_relation_body fails fc rc db rec payload tree = Inr (tree', b)"
    using tx by (auto elim: in_transaction_cases)
  show thesis
  proof (cases "map_of (td_events tree) (child_session (rl_child rec), os_fingerprint (rl_provenance rec))")
    case None
    then have sup: "supersede_relation fails db rec payload (tree\<lparr>td_events := td_events tree @
        [((child_session (rl_child rec), os_fingerprint (rl_provenance rec)), payload)]\<rparr>) = Inr (tree', b)"
      using body by (auto simp: select_relation_body_def result_elims Let_def split: if_splits)
    show thesis
    proof (cases b)
      case True
      then show thesis
        using sup selected [OF _ p] None Inr
        by (auto simp: supersede_relation_def result_elims map_of_eq_None_iff Let_def split: if_splits)
    next
      case False
      then show thesis
        using sup kept None Inr
        by (auto simp: supersede_relation_def result_elims map_of_eq_None_iff Let_def split: if_splits)
    qed
  next
    case (Some old)
    then have "b = False" "tree' = tree"
      using body by (auto simp: select_relation_body_def repeated_relation_def result_elims Let_def split: if_splits)
    then show thesis
      using kept Inr by simp
  qed
qed

lemma select_relation_inv:
  assumes "select_relation fails fc rc db tree rec = (tree', r)" and "tree_inv tree"
  shows "tree_inv tree'"
  using assms(1)
proof (cases rule: select_relation_outcome)
  case kept
  then show ?thesis
    using assms(2) by (auto simp: tree_inv_def)
next
  case (selected payload)
  let ?new = "relation_row_of rec True None payload"
  have keys: "distinct (map relation_key (td_relations tree))"
    using assms(2) by (simp add: tree_inv_def)
  have one: "length (filter (open_selected child) (td_relations tree')) \<le> 1" for child
  proof (cases "child = rw_child ?new")
    case True
    then show ?thesis
      using upsert_current [of db ?new "rl_valid_from rec" "td_relations tree" "td_relations tree'"] selected keys by auto
  next
    case False
    then show ?thesis
      using upsert_other_open [OF selected(8), of child] assms(2) by (simp add: close_selected_open tree_inv_def)
  qed
  then show ?thesis
    using assms(2) selected upsert_relation_keys [OF selected(8)] keys by (auto simp: tree_inv_def)
qed (use assms(2) in simp)

datatype 'j tree_call =
    CallSelect sqlite "'j db" relation_record
  | CallSaveAlias sqlite "'j db" native_session_key session_id wall_time_ms
  | CallForgetAlias sqlite native_session_key

datatype tree_outcome =
    SelectOutcome relation_record "store_error + bool"
  | AliasOutcome native_session_key session_id wall_time_ms "store_error + unit"
  | ForgetOutcome native_session_key "store_error + bool"

fun tree_step ::
  "'j foreign_code \<Rightarrow> 'j relation_code \<Rightarrow> 'j tree_db \<Rightarrow> 'j tree_call \<Rightarrow> 'j tree_db \<times> tree_outcome list" where
  "tree_step fc rc tree (CallSelect fails db rec) =
     apsnd (\<lambda>r. [SelectOutcome rec r]) (select_relation fails fc rc db tree rec)"
| "tree_step fc rc tree (CallSaveAlias fails db alias canonical at) =
     apsnd (\<lambda>r. [AliasOutcome alias canonical at r]) (save_discovery_alias fails db tree alias canonical at)"
| "tree_step fc rc tree (CallForgetAlias fails alias) =
     apsnd (\<lambda>r. [ForgetOutcome alias r]) (forget_discovery_alias fails tree alias)"

lemma save_alias_inv: "tree_inv tree \<Longrightarrow> tree_inv (fst (save_discovery_alias fails db tree alias canonical at))"
  by (auto simp: save_discovery_alias_def tree_inv_def distinct_update Let_def map_of_eq_None_iff
      split: sum.split option.split)

lemma forget_alias_inv: "tree_inv tree \<Longrightarrow> tree_inv (fst (forget_discovery_alias fails tree alias))"
  by (auto simp: forget_discovery_alias_def tree_inv_def Let_def distinct_map_filter split: sum.split)

lemma tree_step_inv: "tree_inv tree \<Longrightarrow> tree_inv (fst (tree_step fc rc tree call))"
  by (cases call)
    (auto simp: save_alias_inv forget_alias_inv intro: select_relation_inv [OF surjective_pairing])

interpretation session_tree: invariant_machine "tree_step fc rc" tree_inv "\<lambda>_. ()"
  for fc :: "'j foreign_code" and rc :: "'j relation_code"
  by unfold_locales (simp_all add: tree_step_inv)

text \<open>
  A child has one parent at a time: whatever selections, alias updates and removals the store
  serves, against whichever states of its sessions and whichever SQLite failures, every child has
  at most one relation that is selected and still open, and no relation, journalled event or
  alias key is stored twice.
\<close>
theorem one_current_parent:
  "tree_inv (fst (run_machine (tree_step fc rc) empty_tree calls))"
  by (rule session_tree.run_inv) simp

definition relation_codec :: "'j relation_code \<Rightarrow> bool" where
  "relation_codec rc \<longleftrightarrow> (\<forall>rec j. rx_to_vec rc rec = Some j \<longrightarrow> rx_from_slice rc j = Some rec)"

lemma current_relation_unique:
  assumes "filter (open_selected child) rows = [row]"
  shows "current_relation child rows = Some row"
  by (simp add: current_relation_def assms newest_first_def)

text \<open>A row that is open stays in the table; a supersession closes it and keeps its document.\<close>

lemma select_relation_closes:
  assumes "select_relation fails fc rc db tree rec = (tree', Inr True)"
    and "row \<in> set (td_relations tree)" "open_selected (child_session (rl_child rec)) row"
    and "rw_parent row \<noteq> identity_session_id (rl_parent rec)"
  shows "row\<lparr>rw_selected := False, rw_valid_until := Some (rl_valid_from rec)\<rparr> \<in> set (td_relations tree')"
  using assms(1)
proof (cases rule: select_relation_outcome)
  case (selected payload)
  let ?closed = "row\<lparr>rw_selected := False, rw_valid_until := Some (rl_valid_from rec)\<rparr>"
  have "?closed \<in> set (close_selected (child_session (rl_child rec)) (rl_valid_from rec) (td_relations tree))"
    using assms(2,3) by (force simp: close_selected_def)
  moreover have "\<not> same_relation (relation_row_of rec True None payload) ?closed"
    using assms(4) by (simp add: same_relation_def)
  ultimately show ?thesis
    unfolding upsert_relation_rows [OF selected(8)] by force
qed simp_all

lemma selection_sets_current:
  assumes "tree_inv tree" and "relation_codec rc"
    and "select_relation fails fc rc db tree rec = (tree', Inr True)"
  shows "(\<exists>row. current_relation (child_session (rl_child rec)) (td_relations tree') = Some row \<and>
        rw_parent row = identity_session_id (rl_parent rec) \<and> rw_valid_from row = rl_valid_from rec \<and>
        decode_json fc (rx_from_slice rc) (rw_json row) = Inr rec) \<and>
    (\<forall>old. current_relation (child_session (rl_child rec)) (td_relations tree) = Some old \<longrightarrow>
        old\<lparr>rw_selected := False, rw_valid_until := Some (rl_valid_from rec)\<rparr> \<in> set (td_relations tree')) \<and>
    (\<forall>child. child \<noteq> child_session (rl_child rec) \<longrightarrow>
        current_relation child (td_relations tree') = current_relation child (td_relations tree))"
  using assms(3)
proof (cases rule: select_relation_outcome)
  case (selected payload)
  let ?new = "relation_row_of rec True None payload" and ?child = "child_session (rl_child rec)"
  obtain row where row: "filter (open_selected ?child) (td_relations tree') = [row]"
      "relation_key row = relation_key ?new" "rw_json row = payload"
    using upsert_current [of db ?new "rl_valid_from rec" "td_relations tree" "td_relations tree'"] selected(8) assms(1)
    by (auto simp: tree_inv_def)
  have "decode_json fc (rx_from_slice rc) payload = Inr rec"
    using assms(2) selected(2,3) by (auto simp: decode_json_def relation_codec_def)
  moreover have "old\<lparr>rw_selected := False, rw_valid_until := Some (rl_valid_from rec)\<rparr> \<in> set (td_relations tree')"
    if "current_relation ?child (td_relations tree) = Some old" for old
  proof (rule select_relation_closes [OF assms(3)])
    have "old \<in> set (newest_first (filter (open_selected ?child) (td_relations tree)))"
      using that by (auto simp: current_relation_def split: list.splits)
    then show "old \<in> set (td_relations tree)" "open_selected ?child old"
      by (simp_all add: newest_first_def)
    show "rw_parent old \<noteq> identity_session_id (rl_parent rec)"
      using selected(7) that by simp
  qed
  moreover have "current_relation child (td_relations tree') = current_relation child (td_relations tree)"
    if "child \<noteq> ?child" for child
    using upsert_other_open [OF selected(8), of child] that by (simp add: current_relation_def close_selected_open)
  ultimately show ?thesis
    using current_relation_unique [OF row(1)] row(2,3) by (simp add: relation_key_def)
qed simp_all

text \<open>
  C35. Selecting a parent takes effect at once and for that child only: after a selection that
  reports a change the child's only current relation is the new one, with the selected parent,
  the record's start and a document that decodes to the record; every relation that was current
  for another parent is kept, closed at that start; and no other child's current relation moves.
\<close>
theorem select_relation_current:
  assumes "tree_inv tree" and "relation_codec rc"
    and "select_relation fails fc rc db tree rec = (tree', Inr True)"
  shows "(\<exists>row. current_relation (child_session (rl_child rec)) (td_relations tree') = Some row \<and>
        rw_parent row = identity_session_id (rl_parent rec) \<and> rw_valid_from row = rl_valid_from rec \<and>
        decode_json fc (rx_from_slice rc) (rw_json row) = Inr rec) \<and>
    (\<forall>old. current_relation (child_session (rl_child rec)) (td_relations tree) = Some old \<longrightarrow>
        old\<lparr>rw_selected := False, rw_valid_until := Some (rl_valid_from rec)\<rparr> \<in> set (td_relations tree')) \<and>
    (\<forall>child. child \<noteq> child_session (rl_child rec) \<longrightarrow>
        current_relation child (td_relations tree') = current_relation child (td_relations tree))"
  using selection_sets_current [OF assms] .

text \<open>
  A superseded relation still reads as selected: when a selected, open record loses its child
  to another parent, the row's columns say closed and not selected, but the document that
  \<open>relations_for_root\<close> decodes is the one written at selection, so the record it returns says
  \<open>selected\<close> with no end. (The update of \<open>select_relation\<close> does not rewrite \<open>provenance_json\<close>.)
\<close>
theorem superseded_relation_reads_selected:
  assumes "tree_inv tree" and "relation_codec rc"
    and "select_relation fails fc rc db tree rec = (tree1, Inr True)"
    and "select_relation fails' fc rc db' tree1 rec' = (tree2, Inr True)"
    and "rl_child rec' = rl_child rec" and "rl_selected rec" and "rl_valid_until rec = None"
  shows "\<exists>row \<in> set (td_relations tree2).
    \<not> rw_selected row \<and> rw_valid_until row = Some (rl_valid_from rec') \<and>
    decode_json fc (rx_from_slice rc) (rw_json row) = Inr rec \<and> rl_selected rec \<and> rl_valid_until rec = None"
proof -
  obtain row where row: "current_relation (child_session (rl_child rec)) (td_relations tree1) = Some row"
      "decode_json fc (rx_from_slice rc) (rw_json row) = Inr rec"
    using selection_sets_current [OF assms(1-3)] by blast
  then have "row\<lparr>rw_selected := False, rw_valid_until := Some (rl_valid_from rec')\<rparr> \<in> set (td_relations tree2)"
    using selection_sets_current [OF select_relation_inv [OF assms(3,1)] assms(2,4)] assms(5) by simp
  then show ?thesis
    using row(2) assms(6,7) by (intro bexI) auto
qed

section \<open>Aliases\<close>

definition alias_key :: "native_session_key \<Rightarrow> string \<times> string" where
  "alias_key key = (runtime_as_str (nk_runtime key), nk_native_id key)"

definition alias_row_of :: "'j tree_db \<Rightarrow> native_session_key \<Rightarrow> alias_row option" where
  "alias_row_of tree key = map_of (td_aliases tree) (alias_key key)"

lemma alias_key_inj: "alias_key a = alias_key b \<longleftrightarrow> a = b"
  by (cases a; cases b) (auto simp: alias_key_def runtime_as_str_inj)

text \<open>The saved observations of one key in an outcome log; a removal forgets them.\<close>

fun alias_saves :: "native_session_key \<Rightarrow> tree_outcome list \<Rightarrow> (session_id \<times> wall_time_ms) list" where
  "alias_saves key [] = []"
| "alias_saves key (AliasOutcome a c t (Inr _) # log) =
     (if a = key then (c, t) # alias_saves key log else alias_saves key log)"
| "alias_saves key (_ # log) = alias_saves key log"

lemma alias_saves_append: "alias_saves key (xs @ ys) = alias_saves key xs @ alias_saves key ys"
  by (induction key xs rule: alias_saves.induct) auto

text \<open>The newest observation of a list; among equally new ones, the last.\<close>

definition newest_save :: "(session_id \<times> wall_time_ms) list \<Rightarrow> session_id \<Rightarrow> wall_time_ms \<Rightarrow> bool" where
  "newest_save saves c t \<longleftrightarrow> (\<exists>before after. saves = before @ (c, t) # after \<and>
     (\<forall>(_, t') \<in> set before. t' \<le> t) \<and> (\<forall>(_, t') \<in> set after. t' < t))"

lemma newest_save_snoc:
  assumes "newest_save saves c t"
  shows "newest_save (saves @ [(c', t')]) (if t' \<ge> t then c' else c) (max t' t)"
proof -
  obtain before after where s: "saves = before @ (c, t) # after"
      "\<forall>(_, u) \<in> set before. u \<le> t" "\<forall>(_, u) \<in> set after. u < t"
    using assms by (auto simp: newest_save_def)
  show ?thesis
  proof (cases "t' \<ge> t")
    case True
    then have "\<forall>(_, u) \<in> set saves. u \<le> t'"
      using s by fastforce
    then show ?thesis
      using True unfolding newest_save_def by (intro exI [of _ saves] exI [of _ "[]"]) (simp add: max_def)
  next
    case False
    then show ?thesis
      using s unfolding newest_save_def
      by (intro exI [of _ before] exI [of _ "after @ [(c', t')]"]) (auto simp: max_def)
  qed
qed

definition aliases_logged :: "native_session_key \<Rightarrow> 'j tree_db \<Rightarrow> tree_outcome list \<Rightarrow> bool" where
  "aliases_logged key tree log \<longleftrightarrow>
     (case alias_row_of tree key of
        None \<Rightarrow> alias_saves key log = []
      | Some row \<Rightarrow> newest_save (alias_saves key log) (al_canonical row) (al_observed_at row))"

lemma aliases_logged_cong:
  assumes "alias_row_of tree' key = alias_row_of tree key" and "alias_saves key log' = alias_saves key log"
  shows "aliases_logged key tree' log' = aliases_logged key tree log"
  by (simp add: aliases_logged_def assms split: option.split)

fun forgets :: "native_session_key \<Rightarrow> 'j tree_call \<Rightarrow> bool" where
  "forgets key (CallForgetAlias _ a) \<longleftrightarrow> a = key"
| "forgets key _ \<longleftrightarrow> False"

lemma save_alias_outcome:
  assumes "save_discovery_alias fails db tree a c t = (tree', r)"
  shows "case r of Inl _ \<Rightarrow> tree' = tree
    | Inr _ \<Rightarrow> (\<forall>b. alias_row_of tree' b = (if b = a then Some
        (case alias_row_of tree a of
           None \<Rightarrow> \<lparr>al_canonical = c, al_observed_at = t\<rparr>
         | Some old \<Rightarrow> \<lparr>al_canonical = (if t \<ge> al_observed_at old then c else al_canonical old),
             al_observed_at = max t (al_observed_at old)\<rparr>) else alias_row_of tree b))"
proof (cases "alias_row_of tree a")
  case None
  then show ?thesis
    using assms
    by (auto simp: save_discovery_alias_def alias_row_of_def alias_key_inj map_add_def Let_def
        alias_key_def [symmetric] split: sum.splits if_splits option.splits)
next
  case (Some old)
  then show ?thesis
    using assms
    by (auto simp: save_discovery_alias_def alias_row_of_def alias_key_inj update_conv Let_def
        alias_key_def [symmetric] split: sum.splits if_splits)
qed

lemma aliases_logged_step:
  assumes "aliases_logged key tree log" and "\<not> forgets key call"
  shows "aliases_logged key (fst (tree_step fc rc tree call)) (log @ snd (tree_step fc rc tree call))"
proof (cases call)
  case (CallSelect fails db rec)
  obtain tree' r where sel: "select_relation fails fc rc db tree rec = (tree', r)"
    by (metis surj_pair)
  then have "td_aliases tree' = td_aliases tree"
    by (cases rule: select_relation_outcome) simp_all
  then show ?thesis
    using assms(1) CallSelect sel by (simp add: aliases_logged_def alias_row_of_def alias_saves_append split: option.splits)
next
  case (CallSaveAlias fails db a c t)
  obtain tree' r where save: "save_discovery_alias fails db tree a c t = (tree', r)"
    by (metis surj_pair)
  note out = save_alias_outcome [OF save]
  have step: "fst (tree_step fc rc tree call) = tree'" "snd (tree_step fc rc tree call) = [AliasOutcome a c t r]"
    using CallSaveAlias save by simp_all
  show ?thesis
  proof (cases r)
    case (Inl e)
    then show ?thesis
      using assms(1) out by (simp add: aliases_logged_def alias_saves_append step split: option.splits)
  next
    case (Inr u)
    then show ?thesis
      using assms(1) out newest_save_snoc [of "alias_saves key log" _ _ c t]
      by (cases "alias_row_of tree key")
        (auto simp: aliases_logged_def alias_saves_append step newest_save_def [of "[_]"]
          intro!: exI [of _ "[]"])
  qed
next
  case (CallForgetAlias fails a)
  have "map_of (filter (\<lambda>(k, _). k \<noteq> alias_key a) rows) (alias_key key) = map_of rows (alias_key key)"
    for rows :: "((string \<times> string) \<times> alias_row) list"
    using assms(2) CallForgetAlias by (induction rows) (auto simp: alias_key_inj)
  then have "alias_row_of (fst (forget_discovery_alias fails tree a)) key = alias_row_of tree key"
    by (auto simp: forget_discovery_alias_def alias_row_of_def alias_key_def [symmetric] Let_def split: sum.split)
  then show ?thesis
    using assms(1) CallForgetAlias
      aliases_logged_cong [of "fst (forget_discovery_alias fails tree a)" key tree "log @ [ForgetOutcome a _]" log]
    by (simp add: alias_saves_append)
qed

text \<open>
  Alias evidence is resolved by age, not by arrival: over any run in which a native key is not
  forgotten, the session stored for it is the target of its newest successfully saved
  observation, the last saved among equally new ones, however saves of older observations, other
  keys and relations interleave; without any successful save nothing is stored.
\<close>
theorem alias_keeps_newest:
  assumes "run_machine (tree_step fc rc) empty_tree calls = (tree, log)"
    and "list_all (\<lambda>call. \<not> forgets key call) calls"
  shows "case alias_row_of tree key of
      None \<Rightarrow> alias_saves key log = []
    | Some row \<Rightarrow> newest_save (alias_saves key log) (al_canonical row) (al_observed_at row)"
proof -
  have "aliases_logged key (fst (run_machine (tree_step fc rc) t calls)) (l @ snd (run_machine (tree_step fc rc) t calls))"
    if "aliases_logged key t l" for t l
    using that assms(2)
  proof (induction calls arbitrary: t l)
    case (Cons call calls)
    show ?case
      using Cons.IH [OF aliases_logged_step [OF Cons.prems(1), of call fc rc]] Cons.prems(2) by simp
  qed simp
  moreover have "aliases_logged key (empty_tree :: 'a tree_db) []"
    by (simp add: aliases_logged_def alias_row_of_def empty_tree_def)
  ultimately have "aliases_logged key tree log"
    using assms(1) by (metis append_Nil fst_conv snd_conv)
  then show ?thesis
    by (simp add: aliases_logged_def)
qed

lemma distinct_set_singleton: "distinct xs \<Longrightarrow> set xs = {x} \<Longrightarrow> xs = [x]"
  by (cases xs; cases "tl xs") auto

lemma filter_key_map_of:
  assumes "distinct (map fst rows)"
  shows "map (f \<circ> snd) (filter (\<lambda>(k, _). k = key) rows) =
    (case map_of rows key of None \<Rightarrow> [] | Some row \<Rightarrow> [f row])"
  using assms
proof (induction rows)
  case (Cons r rows)
  have "map_of rows key = None" if "fst r = key"
    using Cons.prems that by (simp add: map_of_eq_None_iff)
  then show ?case
    using Cons by (cases "fst r = key") (auto split: option.splits prod.splits)
qed simp

lemma exact_sessions_single:
  assumes "sessions_ok fc db" and "map_of (db_sessions db) k = Some row"
    and "sr_runtime row = runtime_as_str (nk_runtime key)" "sr_native_id row = nk_native_id key"
  shows "remdups (exact_sessions db key) = [k]"
proof -
  have "set (exact_sessions db key) = {k}"
  proof
    show "set (exact_sessions db key) \<subseteq> {k}"
    proof
      fix k' assume "k' \<in> set (exact_sessions db key)"
      then obtain row' where "map_of (db_sessions db) k' = Some row'"
          "sr_runtime row' = sr_runtime row" "sr_native_id row' = sr_native_id row"
        using assms by (auto simp: exact_sessions_def sessions_ok_def)
      then show "k' \<in> {k}"
        using assms(1,2) session_row_ok_inj [of fc k' row' k row] by (simp add: sessions_ok_def)
    qed
    show "{k} \<subseteq> set (exact_sessions db key)"
      using map_of_SomeD [OF assms(2)] assms(3,4) by (force simp: exact_sessions_def)
  qed
  moreover have "distinct (exact_sessions db key)"
    using assms(1) by (simp add: sessions_ok_def exact_sessions_def distinct_map_filter)
  ultimately show ?thesis
    by (simp add: distinct_remdups_id distinct_set_singleton)
qed

text \<open>
  C36. A session's own identity outranks every inference, and resolution never has to guess: for a
  store whose sessions decode and a tree reached by its operations, a native key that some session
  is stored under resolves to that session whatever alias is recorded for it; any other key
  resolves to the recorded target, or to nothing when there is none; the ambiguous result does
  not occur.
\<close>
theorem alias_resolution_exact_first:
  assumes "sessions_ok fc db" and "tree_inv tree"
  shows "discovery_alias (\<lambda>_. False) db tree key = Inr
    (case find (\<lambda>(_, row). sr_runtime row = runtime_as_str (nk_runtime key) \<and> sr_native_id row = nk_native_id key)
            (db_sessions db) of
       Some (session, _) \<Rightarrow> Unique session
     | None \<Rightarrow> (case alias_row_of tree key of None \<Rightarrow> Absent | Some row \<Rightarrow> Unique (al_canonical row)))"
proof -
  let ?p = "\<lambda>(_, row). sr_runtime row = runtime_as_str (nk_runtime key) \<and> sr_native_id row = nk_native_id key"
  show ?thesis
  proof (cases "find ?p (db_sessions db)")
    case (Some found)
    obtain k row where f: "found = (k, row)"
      by (metis surj_pair)
    then have found: "(k, row) \<in> set (db_sessions db)" "?p (k, row)"
      using Some by (auto simp: find_Some_iff) (metis nth_mem)
    then have "remdups (exact_sessions db key) = [k]"
      using exact_sessions_single [OF assms(1), of k row key] assms(1) by (simp add: sessions_ok_def)
    moreover from this have "exact_sessions db key \<noteq> []"
      by auto
    ultimately show ?thesis
      using Some by (simp add: f discovery_alias_def run_sql_def alias_candidates_def)
  next
    case None
    then have none: "exact_sessions db key = []"
      by (auto simp: find_None_iff exact_sessions_def filter_empty_conv)
    have "map (al_canonical \<circ> snd) (filter (\<lambda>(k, _). k = alias_key key) (td_aliases tree)) =
        (case map_of (td_aliases tree) (alias_key key) of None \<Rightarrow> [] | Some row \<Rightarrow> [al_canonical row])"
      using assms(2) by (intro filter_key_map_of) (simp add: tree_inv_def)
    then show ?thesis
      using None none
      by (auto simp: discovery_alias_def run_sql_def alias_candidates_def alias_row_of_def alias_key_def
          split: option.split)
  qed
qed

section \<open>Instances\<close>

text \<open>A store with a child and two main sessions, and two selections for the child.\<close>

definition plain_code :: "relation_record foreign_code" where
  "plain_code = \<lparr>xf_new_v5 = \<lambda>ns name. ns + of_nat (length name), xf_namespace_url = 0,
     xf_json_len = \<lambda>_. 200, xf_observation_to_vec = \<lambda>_. None, xf_snapshot_to_vec = \<lambda>_. None,
     xf_event_to_vec = \<lambda>_. None, xf_saga_to_vec = \<lambda>_. None, xf_snapshot_from_slice = \<lambda>_. None,
     xf_event_from_slice = \<lambda>_. None, xf_saga_from_slice = \<lambda>_. None\<rparr>"

definition plain_relations :: "relation_record relation_code" where
  "plain_relations = \<lparr>rx_to_vec = Some, rx_from_slice = Some\<rparr>"

definition family_row :: "string \<Rightarrow> session_row" where
  "family_row kind = \<lparr>sr_kind = kind, sr_root = SessionId 2, sr_runtime = ''codex_cli'', sr_native_id = ''a'',
     sr_created_at = 1, sr_updated_at = 1\<rparr>"

definition family_db :: "relation_record db" where
  "family_db = empty_db\<lparr>db_sessions := [(SessionId 1, family_row ''child''), (SessionId 2, family_row ''main''),
     (SessionId 3, family_row ''main'')]\<rparr>"

definition parent_claim :: "uuid \<Rightarrow> string \<Rightarrow> evidence_trust \<Rightarrow> wall_time_ms \<Rightarrow> relation_record" where
  "parent_claim parent fingerprint trust from_ms =
     \<lparr>rl_child = ChildSessionId (SessionId 1), rl_parent = MainIdentity (MainSessionId (SessionId parent)),
      rl_root = MainSessionId (SessionId 2), rl_selected = True, rl_basis = ExactNative,
      rl_provenance = \<lparr>os_adapter = \<lparr>ai_runtime = CodexCli, ai_version = ''1''\<rparr>, os_fingerprint = fingerprint,
        os_trust = trust, os_confidence = None\<rparr>,
      rl_valid_from = from_ms, rl_valid_until = None\<rparr>"

definition claim_parent ::
  "relation_record tree_db \<Rightarrow> relation_record \<Rightarrow> relation_record tree_db \<times> (store_error + bool)" where
  "claim_parent tree rec = select_relation (\<lambda>_. False) plain_code plain_relations family_db tree rec"

definition first_claim :: relation_record where
  "first_claim = parent_claim 2 ''f'' Authoritative 10"

definition second_claim :: relation_record where
  "second_claim = parent_claim 3 ''g'' Uncertain 20"

definition claimed_once :: "relation_record tree_db" where
  "claimed_once = fst (claim_parent empty_tree first_claim)"

definition claimed_twice :: "relation_record tree_db" where
  "claimed_twice = fst (claim_parent claimed_once second_claim)"

lemmas claim_eval = claim_parent_def select_relation_def bounded_json_def plain_code_def plain_relations_def
  MAX_RECORD_BYTES_def in_transaction_def run_sql_def select_relation_body_def supersede_relation_def
  current_relation_def newest_first_def upsert_relation_def known_session_def family_db_def close_selected_def
  open_selected_def relation_row_of_def empty_tree_def first_claim_def second_claim_def parent_claim_def
  same_relation_def Let_def

lemma claimed_once_rows:
  "claim_parent empty_tree first_claim = (claimed_once, Inr True)"
  "td_relations claimed_once = [relation_row_of first_claim True None first_claim]"
proof -
  have "snd (claim_parent empty_tree first_claim) = Inr True \<and>
      td_relations (fst (claim_parent empty_tree first_claim)) = [relation_row_of first_claim True None first_claim]"
    by (simp add: claim_eval)
  then show "claim_parent empty_tree first_claim = (claimed_once, Inr True)"
      "td_relations claimed_once = [relation_row_of first_claim True None first_claim]"
    by (simp_all add: claimed_once_def prod_eq_iff)
qed

lemma claimed_twice_rows:
  "claim_parent claimed_once second_claim = (claimed_twice, Inr True)"
  "td_relations claimed_twice =
     [relation_row_of first_claim False (Some 20) first_claim, relation_row_of second_claim True None second_claim]"
proof -
  have "snd (claim_parent claimed_once second_claim) = Inr True \<and>
      td_relations (fst (claim_parent claimed_once second_claim)) =
        [relation_row_of first_claim False (Some 20) first_claim, relation_row_of second_claim True None second_claim]"
    by (simp add: claimed_once_def claim_eval)
  then show "claim_parent claimed_once second_claim = (claimed_twice, Inr True)"
      "td_relations claimed_twice =
     [relation_row_of first_claim False (Some 20) first_claim, relation_row_of second_claim True None second_claim]"
    by (simp_all add: claimed_twice_def prod_eq_iff)
qed

lemma plain_relations_codec: "relation_codec plain_relations"
  by (simp add: relation_codec_def plain_relations_def)

theorem select_relation_current_witness:
  "\<exists>row. current_relation (SessionId 1) (td_relations claimed_once) = Some row \<and> rw_parent row = SessionId 2"
  using select_relation_current [OF tree_inv_empty plain_relations_codec,
      of "\<lambda>_. False" plain_code family_db first_claim claimed_once] claimed_once_rows(1)
  by (auto simp: claim_parent_def first_claim_def parent_claim_def)

lemma claimed_once_inv: "tree_inv claimed_once"
  using select_relation_inv [OF claimed_once_rows(1) [unfolded claim_parent_def] tree_inv_empty] .

theorem superseded_relation_reads_selected_witness:
  "\<exists>row \<in> set (td_relations claimed_twice). \<not> rw_selected row \<and> rw_valid_until row = Some 20 \<and>
     decode_json plain_code (rx_from_slice plain_relations) (rw_json row) = Inr first_claim"
  using superseded_relation_reads_selected [OF tree_inv_empty plain_relations_codec
      claimed_once_rows(1) [unfolded claim_parent_def] claimed_twice_rows(1) [unfolded claim_parent_def]]
  by (auto simp: first_claim_def second_claim_def parent_claim_def)

definition alias_calls :: "document tree_call list" where
  "alias_calls = [CallSaveAlias (\<lambda>_. False) sample_db \<lparr>nk_runtime = CodexCli, nk_native_id = ''b''\<rparr> stored_session 9,
     CallSaveAlias (\<lambda>_. False) sample_db \<lparr>nk_runtime = CodexCli, nk_native_id = ''b''\<rparr> stored_session 7]"

theorem alias_keeps_newest_witness:
  "case run_machine (tree_step sample_code \<lparr>rx_to_vec = \<lambda>_. None, rx_from_slice = \<lambda>_. None\<rparr>) empty_tree alias_calls of
     (tree, log) \<Rightarrow> (case alias_row_of tree \<lparr>nk_runtime = CodexCli, nk_native_id = ''b''\<rparr> of
        None \<Rightarrow> alias_saves \<lparr>nk_runtime = CodexCli, nk_native_id = ''b''\<rparr> log = []
      | Some row \<Rightarrow> newest_save (alias_saves \<lparr>nk_runtime = CodexCli, nk_native_id = ''b''\<rparr> log)
          (al_canonical row) (al_observed_at row))"
proof -
  obtain tree log where run: "run_machine (tree_step sample_code \<lparr>rx_to_vec = \<lambda>_. None, rx_from_slice = \<lambda>_. None\<rparr>)
      empty_tree alias_calls = (tree, log)"
    by (metis surj_pair)
  show ?thesis
    unfolding run prod.case by (rule alias_keeps_newest [OF run]) (simp add: alias_calls_def)
qed

lemma sample_sessions_ok: "sessions_ok sample_code sample_db"
  using run_sessions_ok [of empty_db sample_code "[CallApply (\<lambda>_. False) stored_unit]"]
  by (simp add: sample_db_def stored_unit_def stored_observation_def stored_key_def native_key_wf_def MAX_NATIVE_ID_BYTES_def)

theorem alias_resolution_exact_first_witness:
  "discovery_alias (\<lambda>_. False) sample_db empty_tree stored_key = Inr (Unique stored_session)"
proof -
  have "find (\<lambda>(_, row). sr_runtime row = runtime_as_str (nk_runtime stored_key) \<and> sr_native_id row = nk_native_id stored_key)
      (db_sessions sample_db) = Some (hd (db_sessions sample_db)) \<and> fst (hd (db_sessions sample_db)) = stored_session"
    by (simp add: sample_db_def store_eval sample_eval stored_session_def session_id_from_native_def)
  then show ?thesis
    using alias_resolution_exact_first [OF sample_sessions_ok tree_inv_empty, of stored_key]
    by (simp add: case_prod_beta)
qed

end
