(* ===== verification/Monitor.thy ===== *)
theory Monitor
  imports Termination Hierarchy
begin

text \<open>
  The termination monitor of \<open>crates/watchdog-server/src/termination.rs\<close>: one periodic pass lists
  the child sessions, collects for each its stored snapshot, the fresh identity of its process,
  the trust of its relations and the health of the components it depends on, and hands these facts
  to the termination engine. What the pass reads from outside is the record \<open>monitor_env\<close>: the
  content of procfs and the health registry as they are when the child with that index is looked
  at, the SQLite statements that fail, the clock and the cancellation transport's readiness. The
  store serves no other writer during a pass.
\<close>

section \<open>Model\<close>

datatype fresh_process_evidence = Present process_identity | ExitedProcess | UnavailableProcess

definition ENOENT :: io_error where
  "ENOENT = OsError 2"

text \<open>\<open>ErrorKind::NotFound\<close> is \<open>ENOENT\<close>.\<close>

definition fresh_read_identity :: "procfs \<Rightarrow> process_identity \<Rightarrow> fresh_process_evidence" where
  "fresh_read_identity fs expected =
     (case read_identity fs (pi_pid expected) of
        Inr identity \<Rightarrow> Present identity
      | Inl (ReadError _ source) \<Rightarrow> if source = ENOENT then ExitedProcess else UnavailableProcess
      | Inl _ \<Rightarrow> UnavailableProcess)"

record termination_monitor_report =
  mr_evaluated_children :: u32
  mr_changed_sagas :: u32


definition MAX_RELATIONS_PER_ROOT :: u32 where
  "MAX_RELATIONS_PER_ROOT = 1000"

record 'h termination_monitor =
  mo_engine :: "'h engine_parts"
  mo_terminate_after_stalled :: duration_ms

definition update_policy :: "'h termination_monitor \<Rightarrow> termination_config \<Rightarrow> duration_ms \<Rightarrow> 'h termination_monitor" where
  "update_policy monitor config terminate_after_stalled =
     monitor\<lparr>mo_engine := (mo_engine monitor)\<lparr>en_config := config\<rparr>,
       mo_terminate_after_stalled := terminate_after_stalled\<rparr>"

record monitor_env =
  me_list_fails :: sqlite
  me_fails :: "nat \<Rightarrow> sqlite"
  me_procfs :: "nat \<Rightarrow> procfs"
  me_health :: "nat \<Rightarrow> health_registry"
  me_graceful_ready :: bool
  me_now :: time_point

definition trustworthy_relations ::
  "sqlite \<Rightarrow> 'j foreign_code \<Rightarrow> 'j relation_code \<Rightarrow> 'j tree_db \<Rightarrow> stored_session_record list \<Rightarrow>
     store_error + child_session_id set" where
  "trustworthy_relations fails fc rc tree children =
     map_ok (\<lambda>relations. rl_child ` set (filter (\<lambda>relation. rl_selected relation \<and>
           rl_valid_until relation = None \<and> os_trust (rl_provenance relation) \<noteq> Uncertain)
         (concat relations)))
       (collect_results (map (\<lambda>root. relations_for_root fails fc rc tree root MAX_RELATIONS_PER_ROOT)
          (remdups (map st_root children))))"

definition monitor_health ::
  "health_registry \<Rightarrow> runtime_kind \<Rightarrow> session_identity \<Rightarrow> bool \<Rightarrow> termination_health" where
  "monitor_health reports runtime session graceful_ready =
     (if destructive_automation_allowed reports runtime session \<and>
         (runtime \<noteq> CodexCompanion \<or> graceful_ready)
      then health_healthy
      else with_unhealthy health_healthy QueueComponent)"

text \<open>The facts of one child.\<close>

definition child_context ::
  "'h termination_monitor \<Rightarrow> monitor_env \<Rightarrow> nat \<Rightarrow> child_session_id set \<Rightarrow> stored_session_record \<Rightarrow>
     child_session_id \<Rightarrow> session_snapshot \<Rightarrow> termination_context" where
  "child_context monitor env i trustworthy child child_id snapshot =
     (let runtime = nk_runtime (st_native child);
          fresh_evidence = (case ss_process_identity snapshot of
            None \<Rightarrow> UnavailableProcess
          | Some expected \<Rightarrow> fresh_read_identity (me_procfs env i) expected);
          fresh_process = (case fresh_evidence of
            Present identity \<Rightarrow> if ss_process_identity snapshot = Some identity then Some identity else None
          | _ \<Rightarrow> None);
          process_identity_changed = (case fresh_evidence of
            Present identity \<Rightarrow> ss_process_identity snapshot \<noteq> Some identity
          | _ \<Rightarrow> False)
      in \<lparr>tc_candidate = TerminationCandidate child_id, tc_root = st_root child,
          tc_facts = \<lparr>tf_snapshot = snapshot, tf_runtime = runtime,
            tf_trustworthy_relation = child_id \<in> trustworthy,
            tf_active_operation = (ss_state snapshot = Running \<or> ss_state snapshot = WaitingForTool),
            tf_fresh_process = fresh_process,
            tf_health = monitor_health (me_health env i) runtime (st_session child) (me_graceful_ready env),
            tf_now = me_now env, tf_terminate_after_stalled = mo_terminate_after_stalled monitor\<rparr>,
          tc_native_id = nk_native_id (st_native child),
          tc_child_exited = (fresh_evidence = ExitedProcess),
          tc_process_identity_changed = process_identity_changed\<rparr>)"

fun monitor_children ::
  "'h termination_monitor \<Rightarrow> monitor_env \<Rightarrow> 'j foreign_code \<Rightarrow> child_session_id set \<Rightarrow> nat \<Rightarrow>
     stored_session_record list \<Rightarrow> 'j shared \<Rightarrow> termination_monitor_report \<Rightarrow>
     ('j, termination_monitor_report) saga_result" where
  "monitor_children monitor env fc trustworthy i [] shared report = (shared, [], Inr report)"
| "monitor_children monitor env fc trustworthy i (child # children) shared report =
     (let go = monitor_children monitor env fc trustworthy (Suc i) children in
      case load_snapshot (me_fails env i) fc (sh_db shared) (st_session child) of
        Inl e \<Rightarrow> (shared, [], Inl (EngineStore e))
      | Inr None \<Rightarrow> go shared report
      | Inr (Some stored) \<Rightarrow>
          (case (su_reducer_snapshot stored, st_session child) of
             (Some snapshot, ChildIdentity child_id) \<Rightarrow>
               (let report = report\<lparr>mr_evaluated_children := saturating_add (mr_evaluated_children report) 1\<rparr>
                in case reconcile_saga (mo_engine monitor) (me_fails env i) fc shared
                     (child_context monitor env i trustworthy child child_id snapshot) of
                     (shared, effects, Inl e) \<Rightarrow> (shared, effects, Inl e)
                   | (shared, effects, Inr status) \<Rightarrow>
                       (let report = (if status \<noteq> NoAction \<and> status \<noteq> Suspended
                              then report\<lparr>mr_changed_sagas := saturating_add (mr_changed_sagas report) 1\<rparr>
                              else report);
                            (shared, effects', r) = go shared report
                        in (shared, effects @ effects', r)))
           | _ \<Rightarrow> go shared report))"


declare monitor_children.simps(2) [simp del]

section \<open>A pass is a run of the engine\<close>

text \<open>The external actions of a log.\<close>

definition acted :: "log_entry list \<Rightarrow> effect list" where
  "acted log = concat (map (\<lambda>e. case le_what e of Acted a \<Rightarrow> [a] | Warned _ \<Rightarrow> []) log)"

lemma acted_simps [simp]: "acted [] = []" "acted (xs @ ys) = acted xs @ acted ys"
  by (simp_all add: acted_def)














section \<open>What a pass relies on\<close>




text \<open>The report counts at most the listed children, and no more changes than evaluations.\<close>

lemma monitor_children_report:
  assumes "monitor_children monitor env fc trustworthy i children shared report = (shared', effects, Inr report')"
    and "unat (mr_evaluated_children report) + length children < 2 ^ 32"
    and "unat (mr_changed_sagas report) \<le> unat (mr_evaluated_children report)"
  shows "unat (mr_evaluated_children report') \<le> unat (mr_evaluated_children report) + length children \<and>
    unat (mr_changed_sagas report') \<le> unat (mr_evaluated_children report')"
  using assms
proof (induction children arbitrary: i shared report shared' effects)
  case (Cons child children)
  obtain shared1 effects1 report1 where next1:
    "monitor_children monitor env fc trustworthy (Suc i) children shared1 report1 = (shared', effects1, Inr report')"
    "unat (mr_evaluated_children report1) \<le> Suc (unat (mr_evaluated_children report))"
    "unat (mr_changed_sagas report1) \<le> unat (mr_evaluated_children report1)"
    using Cons.prems
    by (auto simp: monitor_children.simps Let_def unat_saturating_add split: sum.splits option.splits
        session_identity.splits prod.splits if_splits)
  then show ?case
    using Cons.IH [OF next1(1)] Cons.prems(2) by simp
qed simp

section \<open>Superseded relations keep a child trusted\<close>

definition rooted :: "session_id \<Rightarrow> main_session_id \<Rightarrow> 'j relation_row list \<Rightarrow> bool" where
  "rooted child root rows \<longleftrightarrow> (\<forall>row \<in> set rows. rw_child row = child \<longrightarrow> rw_root row = main_session root)"

lemma select_relation_rooted:
  assumes "select_relation fails fc rc db tree rec = (tree', Inr True)"
    and "rooted (child_session (rl_child rec)) (rl_root rec) (td_relations tree)"
  shows "rooted (child_session (rl_child rec)) (rl_root rec) (td_relations tree')"
  using assms(1)
proof (cases rule: select_relation_outcome)
  case (selected payload)
  show ?thesis
    using assms(2) unfolding upsert_relation_rows [OF selected(8)]
    by (auto simp: rooted_def close_selected_def split: if_splits)
qed simp_all

lemma relations_for_root_decoded:
  assumes "relations_for_root fails fc rc tree root limit = Inr recs"
    and "row \<in> set (td_relations tree)" "rw_root row = main_session root"
    and "length (td_relations tree) \<le> unat limit"
    and "decode_json fc (rx_from_slice rc) (rw_json row) = Inr rec"
  shows "rec \<in> set recs"
proof -
  let ?rows = "newest_first (filter (\<lambda>row. rw_root row = main_session root) (td_relations tree))"
  have len: "length ?rows \<le> unat limit"
    using assms(4) by (simp add: newest_first_def le_trans [OF length_filter_le])
  have "map (\<lambda>row. decode_json fc (rx_from_slice rc) (rw_json row)) ?rows = map Inr recs"
    using assms(1) len by (auto simp: relations_for_root_def result_elims)
  moreover have "row \<in> set ?rows"
    using assms(2,3) by (simp add: newest_first_def)
  then have "Inr rec \<in> set (map (\<lambda>row. decode_json fc (rx_from_slice rc) (rw_json row)) ?rows)"
    using assms(5) by force
  ultimately show ?thesis
    by auto
qed

text \<open>
  C34. The monitor trusts superseded evidence: once a child's parent was selected on trusted
  evidence, a later selection of another parent does not withdraw that trust, whatever the later
  evidence is worth; the child stays among the trustworthy ones of every pass over its root that
  lists at most 1000 relations. (The relation gate reads the fields \<open>selected\<close> and
  \<open>valid_until\<close> of the stored document, which the supersession does not rewrite.)
\<close>
theorem superseded_relation_still_trusted:
  assumes "tree_inv tree" and "relation_codec rc"
    and "select_relation fails fc rc db tree rec = (tree1, Inr True)"
    and "select_relation fails' fc rc db' tree1 rec' = (tree2, Inr True)"
    and "rl_child rec' = rl_child rec" and "rl_selected rec" "rl_valid_until rec = None"
    and "os_trust (rl_provenance rec) \<noteq> Uncertain"
    and "rooted (child_session (rl_child rec)) (rl_root rec) (td_relations tree)"
    and "length (td_relations tree2) \<le> 1000"
    and "trustworthy_relations fails'' fc rc tree2 children = Inr trustworthy"
    and "rl_root rec \<in> st_root ` set children"
  shows "rl_child rec \<in> trustworthy"
proof -
  let ?child = "child_session (rl_child rec)"
  obtain row where row: "current_relation ?child (td_relations tree1) = Some row"
      "decode_json fc (rx_from_slice rc) (rw_json row) = Inr rec"
    using selection_sets_current [OF assms(1-3)] by blast
  have "row \<in> set (newest_first (filter (open_selected ?child) (td_relations tree1)))"
    using row(1) by (auto simp: current_relation_def split: list.splits)
  then have "row \<in> set (td_relations tree1)" "rw_child row = ?child"
    by (simp_all add: newest_first_def open_selected_child)
  then have root: "rw_root row = main_session (rl_root rec)"
    using select_relation_rooted [OF assms(3,9)] by (simp add: rooted_def)
  let ?closed = "row\<lparr>rw_selected := False, rw_valid_until := Some (rl_valid_from rec')\<rparr>"
  have closed: "?closed \<in> set (td_relations tree2)"
    using selection_sets_current [OF select_relation_inv [OF assms(3,1)] assms(2,4)] row(1) assms(5) by simp
  obtain relations where relations: "trustworthy = rl_child ` set (filter (\<lambda>relation. rl_selected relation \<and>
        rl_valid_until relation = None \<and> os_trust (rl_provenance relation) \<noteq> Uncertain) (concat relations))"
      "map (\<lambda>root. relations_for_root fails'' fc rc tree2 root MAX_RELATIONS_PER_ROOT)
         (remdups (map st_root children)) = map Inr relations"
    using assms(11) by (auto simp: trustworthy_relations_def result_elims)
  have "relations_for_root fails'' fc rc tree2 (rl_root rec) MAX_RELATIONS_PER_ROOT \<in> set (map Inr relations)"
    unfolding relations(2) [symmetric] using assms(12) by auto
  then obtain recs where recs: "recs \<in> set relations"
      "relations_for_root fails'' fc rc tree2 (rl_root rec) MAX_RELATIONS_PER_ROOT = Inr recs"
    by auto
  have "rec \<in> set recs"
    by (rule relations_for_root_decoded [OF recs(2) closed])
      (use root row(2) assms(10) in \<open>simp_all add: MAX_RELATIONS_PER_ROOT_def\<close>)
  then show ?thesis
    using relations(1) recs(1) assms(6,7,8) by force
qed

theorem superseded_relation_still_trusted_witness:
  "\<exists>trustworthy. trustworthy_relations (\<lambda>_. False) plain_code plain_relations claimed_twice
       [\<lparr>st_session = ChildIdentity (ChildSessionId (SessionId 1)), st_root = MainSessionId (SessionId 2),
         st_native = stored_key\<rparr>] = Inr trustworthy \<and>
     ChildSessionId (SessionId 1) \<in> trustworthy \<and>
     map_option (os_trust \<circ> rl_provenance \<circ> rw_json) (current_relation (SessionId 1) (td_relations claimed_twice)) =
       Some Uncertain"
proof -
  let ?child = "\<lparr>st_session = ChildIdentity (ChildSessionId (SessionId 1)), st_root = MainSessionId (SessionId 2),
    st_native = stored_key\<rparr>"
  obtain trustworthy where t: "trustworthy_relations (\<lambda>_. False) plain_code plain_relations claimed_twice [?child] = Inr trustworthy"
    by (simp add: trustworthy_relations_def relations_for_root_def validate_limit_def MAX_RELATIONS_PER_ROOT_def
        newest_first_def claimed_twice_rows(2) run_sql_def decode_json_def plain_code_def plain_relations_def
        MAX_RECORD_BYTES_def relation_row_of_def first_claim_def second_claim_def parent_claim_def)
  have "rl_child first_claim \<in> trustworthy"
    by (rule superseded_relation_still_trusted [OF tree_inv_empty plain_relations_codec
        claimed_once_rows(1) [unfolded claim_parent_def] claimed_twice_rows(1) [unfolded claim_parent_def]
        _ _ _ _ _ _ t])
      (simp_all add: first_claim_def second_claim_def parent_claim_def rooted_def empty_tree_def claimed_twice_rows(2))
  moreover have "map_option (os_trust \<circ> rl_provenance \<circ> rw_json) (current_relation (SessionId 1) (td_relations claimed_twice)) =
       Some Uncertain"
    by (simp add: claimed_twice_rows(2) current_relation_def newest_first_def open_selected_def relation_row_of_def
        first_claim_def second_claim_def parent_claim_def)
  ultimately show ?thesis
    using t by (auto simp: first_claim_def parent_claim_def)
qed
















end
