(* ===== verification/Scopes.thy ===== *)
theory Scopes
  imports Coordinator
begin

text \<open>
  The transport scopes of \<open>crates/watchdog-server/src/agent_api.rs\<close>: \<open>TransportKey\<close>, the
  \<open>ScopeRegistry\<close> that maps an MCP transport to the root it may touch, and the \<open>ScopeGuard\<close>s of
  the registrations in flight. Registrations are asynchronous, so an execution is any interleaving
  of the registry's critical sections: beginning, committing and dropping a guard, binding to a
  persisted root and releasing a transport. The log of an execution records the grants and the
  releases; \<open>granted\<close> replays it and is the abstract specification of the registry.
\<close>

section \<open>Model\<close>

type_synonym transport_key = string

definition transport_key_new :: "string \<Rightarrow> domain_input_error + transport_key" where
  "transport_key_new v =
     and_then (bounded_text_new 256 ''transport_id'' v) (\<lambda>v.
       if v = '''' then Inl (EmptyField ''transport_id'') else Inr v)"

datatype agent_api_error =
    TransportNotBound
  | TransportAlreadyBound
  | TransportBindingCapacityExhausted
  | CrossTreeAccess
  | SessionNotFound
  | SessionIdentityConflict
  | RelationEventConflict
  | MissingParent
  | MainSessionRequired
  | ChildSessionRequired
  | InvalidLimit
  | ReducerSnapshotUnavailable
  | WatchPathRejected
  | WatchPathUnavailable
  | ObservationBackpressure
  | ObservationActivitySaturated
  | ObservationQueueStopped
  | ObservationCoalesced
  | ApiDomain domain_input_error
  | ApiObservation observation_error
  | ApiCoordinator coordinator_error
  | ApiStore store_error

record scope_binding =
  sb_root :: main_session_id
  sb_generation :: u64
  sb_pending :: u64
  sb_committed :: bool

record scope_registry =
  sr_roots :: "transport_key \<rightharpoonup> scope_binding"
  sr_next_generation :: u64

definition default_scope_registry :: scope_registry where
  "default_scope_registry = \<lparr>sr_roots = Map.empty, sr_next_generation = 0\<rparr>"

datatype bind_outcome = FreshBind | AlreadyBound

record scope_reservation =
  rv_outcome :: bind_outcome
  rv_generation :: u64

definition next_generation :: "scope_registry \<Rightarrow> scope_registry \<times> (agent_api_error + u64)" where
  "next_generation reg =
     (case checked_add (sr_next_generation reg) 1 of
        Some following \<Rightarrow> (reg\<lparr>sr_next_generation := following\<rparr>, Inr (sr_next_generation reg))
      | None \<Rightarrow> (reg, Inl TransportBindingCapacityExhausted))"

definition insert_binding :: "transport_key \<Rightarrow> scope_binding \<Rightarrow> scope_registry \<Rightarrow> scope_registry" where
  "insert_binding transport bound reg = reg\<lparr>sr_roots := (sr_roots reg)(transport \<mapsto> bound)\<rparr>"

definition bind_committed ::
  "scope_registry \<Rightarrow> transport_key \<Rightarrow> main_session_id \<Rightarrow> scope_registry \<times> (agent_api_error + unit)" where
  "bind_committed reg transport root =
     (case sr_roots reg transport of
        Some bound \<Rightarrow>
          if sb_root bound = root
          then (insert_binding transport (bound\<lparr>sb_committed := True\<rparr>) reg, Inr ())
          else (reg, Inl TransportAlreadyBound)
      | None \<Rightarrow>
          (case next_generation reg of
             (reg, Inl e) \<Rightarrow> (reg, Inl e)
           | (reg, Inr generation) \<Rightarrow>
               (insert_binding transport \<lparr>sb_root = root, sb_generation = generation, sb_pending = 0,
                  sb_committed = True\<rparr> reg, Inr ())))"

definition begin_registration ::
  "scope_registry \<Rightarrow> transport_key \<Rightarrow> main_session_id \<Rightarrow>
     scope_registry \<times> (agent_api_error + scope_reservation)" where
  "begin_registration reg transport root =
     (case sr_roots reg transport of
        Some bound \<Rightarrow>
          if sb_root bound = root
          then (case checked_add (sb_pending bound) 1 of
                  None \<Rightarrow> (reg, Inl TransportBindingCapacityExhausted)
                | Some pending \<Rightarrow>
                    (insert_binding transport (bound\<lparr>sb_pending := pending\<rparr>) reg,
                     Inr \<lparr>rv_outcome = AlreadyBound, rv_generation = sb_generation bound\<rparr>))
          else (reg, Inl TransportAlreadyBound)
      | None \<Rightarrow>
          (case next_generation reg of
             (reg, Inl e) \<Rightarrow> (reg, Inl e)
           | (reg, Inr generation) \<Rightarrow>
               (insert_binding transport \<lparr>sb_root = root, sb_generation = generation, sb_pending = 1,
                  sb_committed = False\<rparr> reg,
                Inr \<lparr>rv_outcome = FreshBind, rv_generation = generation\<rparr>)))"

definition commit_scope_registration ::
  "scope_registry \<Rightarrow> transport_key \<Rightarrow> main_session_id \<Rightarrow> u64 \<Rightarrow>
     scope_registry \<times> (agent_api_error + unit)" where
  "commit_scope_registration reg transport root generation =
     (case sr_roots reg transport of
        None \<Rightarrow> (reg, Inl TransportNotBound)
      | Some bound \<Rightarrow>
          if sb_root bound \<noteq> root \<or> sb_generation bound \<noteq> generation \<or> sb_pending bound = 0
          then (reg, Inl TransportNotBound)
          else (insert_binding transport
                  (bound\<lparr>sb_pending := sb_pending bound - 1, sb_committed := True\<rparr>) reg, Inr ()))"

definition rollback_registration ::
  "scope_registry \<Rightarrow> transport_key \<Rightarrow> main_session_id \<Rightarrow> u64 \<Rightarrow> scope_registry" where
  "rollback_registration reg transport root generation =
     (case sr_roots reg transport of
        None \<Rightarrow> reg
      | Some bound \<Rightarrow>
          if sb_root bound \<noteq> root \<or> sb_generation bound \<noteq> generation then reg
          else
            (let pending = (if sb_pending bound > 0 then sb_pending bound - 1 else sb_pending bound)
             in if pending = 0 \<and> \<not> sb_committed bound
                then reg\<lparr>sr_roots := (sr_roots reg)(transport := None)\<rparr>
                else insert_binding transport (bound\<lparr>sb_pending := pending\<rparr>) reg))"

definition scope_root :: "scope_registry \<Rightarrow> transport_key \<Rightarrow> agent_api_error + main_session_id" where
  "scope_root reg transport =
     ok_or TransportNotBound (Option.bind (sr_roots reg transport)
       (\<lambda>bound. if sb_committed bound then Some (sb_root bound) else None))"

definition scope_release :: "scope_registry \<Rightarrow> transport_key \<Rightarrow> scope_registry" where
  "scope_release reg transport = reg\<lparr>sr_roots := (sr_roots reg)(transport := None)\<rparr>"

record scope_guard =
  gd_transport :: transport_key
  gd_root :: main_session_id
  gd_generation :: u64
  gd_pending :: bool

definition guard_bind ::
  "scope_registry \<Rightarrow> transport_key \<Rightarrow> main_session_id \<Rightarrow>
     scope_registry \<times> (agent_api_error + scope_guard)" where
  "guard_bind reg transport root =
     (case begin_registration reg transport root of
        (reg, Inl e) \<Rightarrow> (reg, Inl e)
      | (reg, Inr reservation) \<Rightarrow>
          (reg, Inr \<lparr>gd_transport = transport, gd_root = root,
                     gd_generation = rv_generation reservation, gd_pending = True\<rparr>))"

definition guard_drop :: "scope_registry \<Rightarrow> scope_guard \<Rightarrow> scope_registry" where
  "guard_drop reg guard =
     (if gd_pending guard
      then rollback_registration reg (gd_transport guard) (gd_root guard) (gd_generation guard)
      else reg)"

text \<open>\<open>commit\<close> takes the guard by value: it is dropped, no longer pending, when \<open>commit\<close> returns.\<close>

definition guard_commit :: "scope_registry \<Rightarrow> scope_guard \<Rightarrow> scope_registry \<times> (agent_api_error + unit)" where
  "guard_commit reg guard =
     (let (reg, result) = commit_scope_registration reg (gd_transport guard) (gd_root guard)
            (gd_generation guard)
      in (guard_drop reg (guard\<lparr>gd_pending := False\<rparr>), result))"

section \<open>Interleaved registrations\<close>

text \<open>
  The state of an execution: the registry and the guards alive. A guard is owned by one
  registration, which consumes it by committing or dropping it; equal guards are interchangeable.
\<close>

record scope_world =
  sw_registry :: scope_registry
  sw_guards :: "scope_guard list"

datatype scope_call =
    BindCommitted transport_key main_session_id
  | GuardBind transport_key main_session_id
  | GuardCommit scope_guard
  | GuardDrop scope_guard
  | ReleaseTransport transport_key

datatype scope_event =
    Granted transport_key main_session_id
  | Released transport_key

fun scope_step :: "scope_world \<Rightarrow> scope_call \<Rightarrow> scope_world \<times> scope_event list" where
  "scope_step w (BindCommitted t root) =
     (case bind_committed (sw_registry w) t root of
        (reg, result) \<Rightarrow> (w\<lparr>sw_registry := reg\<rparr>, if is_ok result then [Granted t root] else []))"
| "scope_step w (GuardBind t root) =
     (case guard_bind (sw_registry w) t root of
        (reg, Inl e) \<Rightarrow> (w\<lparr>sw_registry := reg\<rparr>, [])
      | (reg, Inr guard) \<Rightarrow> (w\<lparr>sw_registry := reg, sw_guards := sw_guards w @ [guard]\<rparr>, []))"
| "scope_step w (GuardCommit guard) =
     (if guard \<in> set (sw_guards w)
      then (case guard_commit (sw_registry w) guard of
              (reg, result) \<Rightarrow> (w\<lparr>sw_registry := reg, sw_guards := remove1 guard (sw_guards w)\<rparr>,
                 if is_ok result then [Granted (gd_transport guard) (gd_root guard)] else []))
      else (w, []))"
| "scope_step w (GuardDrop guard) =
     (if guard \<in> set (sw_guards w)
      then (w\<lparr>sw_registry := guard_drop (sw_registry w) guard,
              sw_guards := remove1 guard (sw_guards w)\<rparr>, [])
      else (w, []))"
| "scope_step w (ReleaseTransport t) =
     (w\<lparr>sw_registry := scope_release (sw_registry w) t\<rparr>, [Released t])"

definition initial_scopes :: scope_world where
  "initial_scopes = \<lparr>sw_registry = default_scope_registry, sw_guards = []\<rparr>"

text \<open>
  The specification: the root a transport was last granted, gone when it is released. \<open>exclusive\<close>
  says that no grant contradicts an earlier one.
\<close>

fun grant :: "(transport_key \<rightharpoonup> main_session_id) \<Rightarrow> scope_event \<Rightarrow> (transport_key \<rightharpoonup> main_session_id)" where
  "grant held (Granted t root) = held(t \<mapsto> root)"
| "grant held (Released t) = held(t := None)"

definition granted :: "scope_event list \<Rightarrow> (transport_key \<rightharpoonup> main_session_id)" where
  "granted log = foldl grant Map.empty log"

fun exclusive :: "(transport_key \<rightharpoonup> main_session_id) \<Rightarrow> scope_event list \<Rightarrow> bool" where
  "exclusive held [] = True"
| "exclusive held (Granted t root # log) =
     (held t \<in> {None, Some root} \<and> exclusive (held(t \<mapsto> root)) log)"
| "exclusive held (Released t # log) = exclusive (held(t := None)) log"

section \<open>Invariant\<close>

definition guards_of :: "transport_key \<Rightarrow> u64 \<Rightarrow> scope_guard list \<Rightarrow> scope_guard list" where
  "guards_of t generation gs = filter (\<lambda>g. gd_transport g = t \<and> gd_generation g = generation) gs"

definition binding_ok :: "u64 \<Rightarrow> scope_guard list \<Rightarrow> transport_key \<Rightarrow> scope_binding \<Rightarrow> bool" where
  "binding_ok following gs t b \<longleftrightarrow> sb_generation b < following \<and>
     unat (sb_pending b) = length (guards_of t (sb_generation b) gs) \<and>
     (sb_committed b \<or> sb_pending b \<noteq> 0) \<and>
     (\<forall>g \<in> set (guards_of t (sb_generation b) gs). gd_root g = sb_root b)"

definition scope_inv :: "scope_world \<Rightarrow> bool" where
  "scope_inv w \<longleftrightarrow>
     (\<forall>g \<in> set (sw_guards w). gd_pending g \<and> gd_generation g < sr_next_generation (sw_registry w)) \<and>
     (\<forall>t b. sr_roots (sw_registry w) t = Some b \<longrightarrow>
        binding_ok (sr_next_generation (sw_registry w)) (sw_guards w) t b)"

lemma initial_scopes_inv: "scope_inv initial_scopes"
  by (simp add: scope_inv_def initial_scopes_def default_scope_registry_def)

lemma guards_of_append [simp]: "guards_of t n (gs @ hs) = guards_of t n gs @ guards_of t n hs"
  by (simp add: guards_of_def)

lemma guards_of_single [simp]:
  "guards_of t n [g] = (if gd_transport g = t \<and> gd_generation g = n then [g] else [])"
  by (simp add: guards_of_def)

lemma guards_of_remove1 [simp]: "guards_of t n (remove1 g gs) = remove1 g (guards_of t n gs)"
  by (simp add: guards_of_def filter_remove1)

lemma guards_of_fresh:
  assumes "\<forall>g \<in> set gs. gd_generation g < n"
  shows "guards_of t n gs = []"
  using assms by (auto simp: guards_of_def filter_empty_conv)

lemma mem_guards_of: "g \<in> set (guards_of t n gs) \<longleftrightarrow> g \<in> set gs \<and> gd_transport g = t \<and> gd_generation g = n"
  by (auto simp: guards_of_def)

lemma next_generation_cases:
  obtains "next_generation reg = (reg, Inl TransportBindingCapacityExhausted)"
  | following where "next_generation reg = (reg\<lparr>sr_next_generation := following\<rparr>, Inr (sr_next_generation reg))"
      "sr_next_generation reg < following"
proof (cases "checked_add (sr_next_generation reg) 1")
  case (Some following)
  then have "unat following = Suc (unat (sr_next_generation reg))"
    by (simp add: checked_add_Some_iff)
  then have "sr_next_generation reg < following"
    by (simp add: word_less_nat_alt)
  then show thesis
    using that(2) Some by (simp add: next_generation_def)
qed (use that(1) in \<open>simp add: next_generation_def\<close>)

text \<open>A guard that leaves the world leaves every other binding's count alone.\<close>

lemma binding_ok_other:
  assumes "binding_ok n gs t b" and "gd_transport g \<noteq> t \<or> gd_generation g \<noteq> sb_generation b"
  shows "binding_ok n (remove1 g gs) t b"
proof -
  have "g \<notin> set (guards_of t (sb_generation b) gs)"
    using assms(2) by (auto simp: mem_guards_of)
  then show ?thesis
    using assms(1) by (simp add: binding_ok_def remove1_idem)
qed

lemma binding_ok_mono:
  assumes "binding_ok n gs t b" and "n \<le> m"
  shows "binding_ok m gs t b"
  using assms by (auto simp: binding_ok_def)

lemma binding_ok_append:
  assumes "binding_ok n gs t b" and "gd_transport g \<noteq> t \<or> gd_generation g \<noteq> sb_generation b"
  shows "binding_ok n (gs @ [g]) t b"
  using assms by (auto simp: binding_ok_def)

lemma pending_positive:
  assumes "binding_ok n gs t b" and "g \<in> set (guards_of t (sb_generation b) gs)"
  shows "sb_pending b \<noteq> 0" "sb_root b = gd_root g"
    "unat (sb_pending b - 1) = length (guards_of t (sb_generation b) (remove1 g gs))"
proof -
  have len: "unat (sb_pending b) = length (guards_of t (sb_generation b) gs)"
    using assms(1) by (simp add: binding_ok_def)
  then show nz: "sb_pending b \<noteq> 0"
    using assms(2) by auto
  show "sb_root b = gd_root g"
    using assms by (simp add: binding_ok_def)
  show "unat (sb_pending b - 1) = length (guards_of t (sb_generation b) (remove1 g gs))"
    using len nz assms(2) by (simp add: unat_minus_one length_remove1)
qed

lemma binding_ok_consumed:
  assumes "binding_ok n gs t b" and "g \<in> set (guards_of t (sb_generation b) gs)"
    and "c \<or> sb_pending b - 1 \<noteq> 0"
  shows "binding_ok n (remove1 g gs) t (b\<lparr>sb_pending := sb_pending b - 1, sb_committed := c\<rparr>)"
proof -
  have "h \<in> set (guards_of t (sb_generation b) gs)" if "h \<in> set (remove1 g (guards_of t (sb_generation b) gs))" for h
    using that set_remove1_subset by fast
  then show ?thesis
    using assms(1,3) pending_positive(3) [OF assms(1,2)] by (simp add: binding_ok_def)
qed

lemma scope_invD:
  assumes "scope_inv w"
  shows "g \<in> set (sw_guards w) \<Longrightarrow> gd_pending g \<and> gd_generation g < sr_next_generation (sw_registry w)"
    and "sr_roots (sw_registry w) t = Some b \<Longrightarrow>
      binding_ok (sr_next_generation (sw_registry w)) (sw_guards w) t b"
  using assms by (auto simp: scope_inv_def)

text \<open>One changed binding: the others are judged by the new counter and the new guards.\<close>

lemma scope_inv_update:
  assumes "\<And>g. g \<in> set gs \<Longrightarrow> gd_pending g \<and> gd_generation g < n"
    and "\<And>t' b'. t' \<noteq> t \<Longrightarrow> roots t' = Some b' \<Longrightarrow> binding_ok n gs t' b'"
    and "\<And>b'. v = Some b' \<Longrightarrow> binding_ok n gs t b'"
  shows "scope_inv \<lparr>sw_registry = \<lparr>sr_roots = roots(t := v), sr_next_generation = n\<rparr>, sw_guards = gs\<rparr>"
  unfolding scope_inv_def
proof (intro conjI ballI allI impI, goal_cases)
  case (3 t' b')
  then show ?case
    using assms(2,3) by (cases "t' = t") simp_all
qed (use assms(1) in simp_all)

lemma world_eta:
  "w\<lparr>sw_registry := reg\<rparr> = \<lparr>sw_registry = reg, sw_guards = sw_guards w\<rparr>"
  "\<lparr>sw_registry = reg, sw_guards = gs\<rparr>\<lparr>sw_guards := hs\<rparr> = \<lparr>sw_registry = reg, sw_guards = hs\<rparr>"
  by simp_all

lemma insert_binding_eta:
  "insert_binding t b reg = \<lparr>sr_roots = (sr_roots reg)(t := Some b), sr_next_generation = sr_next_generation reg\<rparr>"
  by (simp add: insert_binding_def)

lemma guard_bind_inv:
  assumes inv: "scope_inv w"
  shows "scope_inv (fst (scope_step w (GuardBind t root)))"
proof (cases "sr_roots (sw_registry w) t")
  case None
  show ?thesis
  proof (cases rule: next_generation_cases [of "sw_registry w"])
    case 1
    then show ?thesis
      using assms None by (simp add: guard_bind_def begin_registration_def)
  next
    case (2 following)
    let ?g = "\<lparr>gd_transport = t, gd_root = root, gd_generation = sr_next_generation (sw_registry w),
      gd_pending = True\<rparr>"
    let ?b = "\<lparr>sb_root = root, sb_generation = sr_next_generation (sw_registry w), sb_pending = 1,
      sb_committed = False\<rparr>"
    have "guards_of t (sr_next_generation (sw_registry w)) (sw_guards w) = []"
      using scope_invD(1) [OF inv] by (intro guards_of_fresh) simp
    then have "binding_ok following (sw_guards w @ [?g]) t ?b"
      using 2(2) by (simp add: binding_ok_def)
    moreover have "binding_ok following (sw_guards w @ [?g]) t' b"
      if "t' \<noteq> t" "sr_roots (sw_registry w) t' = Some b" for t' b
      using binding_ok_mono [OF scope_invD(2) [OF inv that(2)], of following] 2(2) that(1)
      by (intro binding_ok_append) simp_all
    moreover have "gd_pending g \<and> gd_generation g < following" if "g \<in> set (sw_guards w @ [?g])" for g
      using that scope_invD(1) [OF inv, of g] 2(2) by auto
    ultimately have "scope_inv \<lparr>sw_registry = \<lparr>sr_roots = (sr_roots (sw_registry w))(t := Some ?b),
        sr_next_generation = following\<rparr>, sw_guards = sw_guards w @ [?g]\<rparr>"
      by (intro scope_inv_update) blast+
    then show ?thesis
      using 2 None by (simp add: guard_bind_def begin_registration_def insert_binding_eta world_eta)
  qed
next
  case (Some b)
  show ?thesis
  proof (cases "sb_root b = root \<and> checked_add (sb_pending b) 1 \<noteq> None")
    case True
    then obtain p where p: "checked_add (sb_pending b) 1 = Some p" "unat p = Suc (unat (sb_pending b))"
      by (auto simp: checked_add_Some_iff)
    then have "p \<noteq> 0"
      by auto
    let ?g = "\<lparr>gd_transport = t, gd_root = root, gd_generation = sb_generation b, gd_pending = True\<rparr>"
    have ok: "binding_ok (sr_next_generation (sw_registry w)) (sw_guards w) t b"
      by (rule scope_invD(2) [OF inv Some])
    then have "binding_ok (sr_next_generation (sw_registry w)) (sw_guards w @ [?g]) t (b\<lparr>sb_pending := p\<rparr>)"
      using p True \<open>p \<noteq> 0\<close> by (auto simp: binding_ok_def)
    moreover have "binding_ok (sr_next_generation (sw_registry w)) (sw_guards w @ [?g]) t' b'"
      if "t' \<noteq> t" "sr_roots (sw_registry w) t' = Some b'" for t' b'
      using scope_invD(2) [OF inv that(2)] that(1) by (intro binding_ok_append) simp_all
    moreover have "gd_pending g \<and> gd_generation g < sr_next_generation (sw_registry w)"
      if "g \<in> set (sw_guards w @ [?g])" for g
      using that scope_invD(1) [OF inv, of g] ok by (auto simp: binding_ok_def)
    ultimately have "scope_inv \<lparr>sw_registry = \<lparr>sr_roots = (sr_roots (sw_registry w))(t := Some (b\<lparr>sb_pending := p\<rparr>)),
        sr_next_generation = sr_next_generation (sw_registry w)\<rparr>, sw_guards = sw_guards w @ [?g]\<rparr>"
      by (intro scope_inv_update) blast+
    then show ?thesis
      using Some True p by (simp add: guard_bind_def begin_registration_def insert_binding_eta world_eta)
  next
    case False
    then show ?thesis
      using assms Some by (auto simp: guard_bind_def begin_registration_def)
  qed
qed

lemma bind_committed_inv:
  assumes inv: "scope_inv w"
  shows "scope_inv (fst (scope_step w (BindCommitted t root)))"
proof (cases "sr_roots (sw_registry w) t")
  case None
  show ?thesis
  proof (cases rule: next_generation_cases [of "sw_registry w"])
    case 1
    then show ?thesis
      using assms None by (simp add: bind_committed_def)
  next
    case (2 following)
    let ?b = "\<lparr>sb_root = root, sb_generation = sr_next_generation (sw_registry w), sb_pending = 0,
      sb_committed = True\<rparr>"
    have "guards_of t (sr_next_generation (sw_registry w)) (sw_guards w) = []"
      using scope_invD(1) [OF inv] by (intro guards_of_fresh) simp
    then have "binding_ok following (sw_guards w) t ?b"
      using 2(2) by (simp add: binding_ok_def)
    moreover have "binding_ok following (sw_guards w) t' b" if "sr_roots (sw_registry w) t' = Some b" for t' b
      using binding_ok_mono [OF scope_invD(2) [OF inv that], of following] 2(2) by simp
    moreover have "gd_pending g \<and> gd_generation g < following" if "g \<in> set (sw_guards w)" for g
      using that scope_invD(1) [OF inv, of g] 2(2) by auto
    ultimately have "scope_inv \<lparr>sw_registry = \<lparr>sr_roots = (sr_roots (sw_registry w))(t := Some ?b),
        sr_next_generation = following\<rparr>, sw_guards = sw_guards w\<rparr>"
      by (intro scope_inv_update) blast+
    then show ?thesis
      using 2 None by (simp add: bind_committed_def insert_binding_eta world_eta)
  qed
next
  case (Some b)
  have "binding_ok (sr_next_generation (sw_registry w)) (sw_guards w) t (b\<lparr>sb_committed := True\<rparr>)"
    using scope_invD(2) [OF inv Some] by (simp add: binding_ok_def)
  then have "scope_inv \<lparr>sw_registry = \<lparr>sr_roots = (sr_roots (sw_registry w))(t := Some (b\<lparr>sb_committed := True\<rparr>)),
      sr_next_generation = sr_next_generation (sw_registry w)\<rparr>, sw_guards = sw_guards w\<rparr>"
    using scope_invD [OF inv] by (intro scope_inv_update) blast+
  then show ?thesis
    using assms Some by (cases w) (simp add: bind_committed_def insert_binding_eta)
qed

lemma guard_binding:
  assumes "scope_inv w" and "g \<in> set (sw_guards w)" and "sr_roots (sw_registry w) (gd_transport g) = Some b"
    and "sb_generation b = gd_generation g"
  shows "sb_root b = gd_root g" "sb_pending b \<noteq> 0"
    "c \<or> sb_pending b - 1 \<noteq> 0 \<Longrightarrow> binding_ok (sr_next_generation (sw_registry w)) (remove1 g (sw_guards w))
       (gd_transport g) (b\<lparr>sb_pending := sb_pending b - 1, sb_committed := c\<rparr>)"
proof -
  have mem: "g \<in> set (guards_of (gd_transport g) (sb_generation b) (sw_guards w))"
    using assms(2,4) by (simp add: mem_guards_of)
  note ok = scope_invD(2) [OF assms(1,3)]
  show "sb_root b = gd_root g" "sb_pending b \<noteq> 0"
    using pending_positive [OF ok mem] by simp_all
  show "binding_ok (sr_next_generation (sw_registry w)) (remove1 g (sw_guards w))
       (gd_transport g) (b\<lparr>sb_pending := sb_pending b - 1, sb_committed := c\<rparr>)"
    if "c \<or> sb_pending b - 1 \<noteq> 0"
    by (rule binding_ok_consumed [OF ok mem that])
qed

text \<open>Consuming a guard with a new value \<open>v\<close> for the binding it points to.\<close>

lemma consume_inv:
  assumes inv: "scope_inv w"
    and new: "\<And>b. v = Some b \<Longrightarrow> binding_ok (sr_next_generation (sw_registry w)) (remove1 g (sw_guards w)) (gd_transport g) b"
  shows "scope_inv (w\<lparr>sw_registry := (sw_registry w)\<lparr>sr_roots := (sr_roots (sw_registry w))(gd_transport g := v)\<rparr>,
    sw_guards := remove1 g (sw_guards w)\<rparr>)"
proof -
  have "binding_ok (sr_next_generation (sw_registry w)) (remove1 g (sw_guards w)) t' b'"
    if "((sr_roots (sw_registry w))(gd_transport g := v)) t' = Some b'" for t' b'
    using that new scope_invD(2) [OF inv] by (cases "t' = gd_transport g") (simp_all add: binding_ok_other)
  moreover have "gd_pending h \<and> gd_generation h < sr_next_generation (sw_registry w)"
    if "h \<in> set (remove1 g (sw_guards w))" for h
    using that scope_invD(1) [OF inv, of h] set_remove1_subset by fast
  ultimately show ?thesis
    by (simp add: scope_inv_def)
qed

lemma consume_stale:
  assumes inv: "scope_inv w"
    and stale: "is_none_or (\<lambda>b. sb_generation b \<noteq> gd_generation g) (sr_roots (sw_registry w) (gd_transport g))"
  shows "scope_inv (w\<lparr>sw_guards := remove1 g (sw_guards w)\<rparr>)"
proof -
  have "binding_ok (sr_next_generation (sw_registry w)) (remove1 g (sw_guards w)) (gd_transport g) b"
    if "sr_roots (sw_registry w) (gd_transport g) = Some b" for b
    using scope_invD(2) [OF inv that] stale that by (intro binding_ok_other) (auto simp: is_none_or_iff)
  from consume_inv [OF inv this, of "sr_roots (sw_registry w) (gd_transport g)"] show ?thesis
    by simp
qed

text \<open>What consuming a guard does, on every branch.\<close>

lemma guard_commit_cases:
  assumes "scope_inv w" and "g \<in> set (sw_guards w)"
  obtains (stale) "guard_commit (sw_registry w) g = (sw_registry w, Inl TransportNotBound)"
      "is_none_or (\<lambda>b. sb_generation b \<noteq> gd_generation g) (sr_roots (sw_registry w) (gd_transport g))"
  | (live) b where "sr_roots (sw_registry w) (gd_transport g) = Some b" "sb_generation b = gd_generation g"
      "sb_root b = gd_root g"
      "guard_commit (sw_registry w) g = (insert_binding (gd_transport g)
         (b\<lparr>sb_pending := sb_pending b - 1, sb_committed := True\<rparr>) (sw_registry w), Inr ())"
proof (cases "\<exists>b. sr_roots (sw_registry w) (gd_transport g) = Some b \<and> sb_generation b = gd_generation g")
  case True
  then obtain b where b: "sr_roots (sw_registry w) (gd_transport g) = Some b" "sb_generation b = gd_generation g"
    by blast
  then show thesis
    using live [of b] guard_binding(1,2) [OF assms b]
    by (simp add: guard_commit_def commit_scope_registration_def guard_drop_def)
next
  case False
  then show thesis
    using stale by (cases "sr_roots (sw_registry w) (gd_transport g)")
      (auto simp: guard_commit_def commit_scope_registration_def guard_drop_def)
qed

lemma guard_drop_cases:
  assumes "scope_inv w" and "g \<in> set (sw_guards w)"
  obtains (stale) "guard_drop (sw_registry w) g = sw_registry w"
      "is_none_or (\<lambda>b. sb_generation b \<noteq> gd_generation g) (sr_roots (sw_registry w) (gd_transport g))"
  | (live) b where "sr_roots (sw_registry w) (gd_transport g) = Some b" "sb_generation b = gd_generation g"
      "guard_drop (sw_registry w) g =
         (if sb_pending b - 1 = 0 \<and> \<not> sb_committed b
          then (sw_registry w)\<lparr>sr_roots := (sr_roots (sw_registry w))(gd_transport g := None)\<rparr>
          else insert_binding (gd_transport g) (b\<lparr>sb_pending := sb_pending b - 1\<rparr>) (sw_registry w))"
proof (cases "\<exists>b. sr_roots (sw_registry w) (gd_transport g) = Some b \<and> sb_generation b = gd_generation g")
  case True
  then obtain b where b: "sr_roots (sw_registry w) (gd_transport g) = Some b" "sb_generation b = gd_generation g"
    by blast
  then have "sb_pending b > 0"
    using guard_binding(2) [OF assms b] by (simp add: word_neq_0_conv)
  then show thesis
    using live [of b] guard_binding(1,2) [OF assms b] b scope_invD(1) [OF assms]
    by (simp add: guard_drop_def rollback_registration_def)
next
  case False
  then show thesis
    using stale scope_invD(1) [OF assms] by (cases "sr_roots (sw_registry w) (gd_transport g)")
      (auto simp: guard_drop_def rollback_registration_def)
qed

lemma guard_commit_inv:
  assumes inv: "scope_inv w"
  shows "scope_inv (fst (scope_step w (GuardCommit g)))"
proof (cases "g \<in> set (sw_guards w)")
  case True
  from inv True show ?thesis
  proof (cases rule: guard_commit_cases)
    case stale
    from consume_stale [OF inv stale(2)] show ?thesis
      using True stale by simp
  next
    case (live b)
    from consume_inv [OF inv, of "Some (b\<lparr>sb_pending := sb_pending b - 1, sb_committed := True\<rparr>)" g] show ?thesis
      using guard_binding(3) [OF inv True live(1,2), of True] True live by (simp add: insert_binding_def)
  qed
qed (use inv in simp)

lemma guard_drop_inv:
  assumes inv: "scope_inv w"
  shows "scope_inv (fst (scope_step w (GuardDrop g)))"
proof (cases "g \<in> set (sw_guards w)")
  case True
  from inv True show ?thesis
  proof (cases rule: guard_drop_cases)
    case stale
    from consume_stale [OF inv stale(2)] show ?thesis
      using True stale by simp
  next
    case (live b)
    show ?thesis
    proof (cases "sb_pending b - 1 = 0 \<and> \<not> sb_committed b")
      case gone: True
      from consume_inv [OF inv, of None g] show ?thesis
        using True live gone by simp
    next
      case False
      from consume_inv [OF inv, of "Some (b\<lparr>sb_pending := sb_pending b - 1\<rparr>)" g] show ?thesis
        using guard_binding(3) [OF inv True live(1,2), of "sb_committed b"] True live False
        by (auto simp add: insert_binding_def)
    qed
  qed
qed (use inv in simp)

lemma release_inv:
  assumes inv: "scope_inv w"
  shows "scope_inv (fst (scope_step w (ReleaseTransport t)))"
  using inv by (auto simp: scope_inv_def scope_release_def)

lemma scope_step_inv: "scope_inv w \<Longrightarrow> scope_inv (fst (scope_step w c))"
  by (cases c) (simp_all only: guard_bind_inv bind_committed_inv guard_commit_inv guard_drop_inv release_inv)

section \<open>Grants\<close>

lemma scope_root_unchanged [simp]:
  "scope_root (reg\<lparr>sr_next_generation := n\<rparr>) t = scope_root reg t"
  by (simp add: scope_root_def)

lemma scope_root_update:
  "scope_root (reg\<lparr>sr_roots := (sr_roots reg)(t := v)\<rparr>) t' =
     (if t' = t then ok_or TransportNotBound (Option.bind v (\<lambda>b. if sb_committed b then Some (sb_root b) else None))
      else scope_root reg t')"
  by (simp add: scope_root_def)

lemma granted_snoc [simp]: "granted (log @ [e]) = grant (granted log) e"
  by (simp add: granted_def)

lemma exclusive_append: "exclusive held (log @ log') \<longleftrightarrow> exclusive held log \<and> exclusive (foldl grant held log) log'"
  by (induction held log rule: exclusive.induct) (simp_all del: fun_upd_apply)

definition grants_agree :: "scope_registry \<Rightarrow> scope_event list \<Rightarrow> bool" where
  "grants_agree reg log \<longleftrightarrow> exclusive Map.empty log \<and>
     (\<forall>t. scope_root reg t = ok_or TransportNotBound (granted log t))"

lemma granted_root: "grants_agree reg log \<Longrightarrow> sr_roots reg t = Some b \<Longrightarrow>
    granted log t = (if sb_committed b then Some (sb_root b) else None)"
  by (drule grants_agree_def [THEN iffD1], cases "granted log t")
    (auto simp: scope_root_def dest!: spec [of _ t] split: if_splits)

lemma granted_unbound: "grants_agree reg log \<Longrightarrow> sr_roots reg t = None \<Longrightarrow> granted log t = None"
  by (drule grants_agree_def [THEN iffD1], cases "granted log t")
    (auto simp: scope_root_def dest!: spec [of _ t])

text \<open>Binding a committed root to a transport that holds no other root is a legal grant.\<close>

lemma grants_agree_grant:
  assumes "grants_agree reg log" and "granted log t \<in> {None, Some root}"
  shows "grants_agree (insert_binding t \<lparr>sb_root = root, sb_generation = n, sb_pending = p, sb_committed = True\<rparr>
      (reg\<lparr>sr_next_generation := m\<rparr>)) (log @ [Granted t root])"
  using assms by (auto simp: grants_agree_def insert_binding_def scope_root_def exclusive_append granted_def)

text \<open>A change of the registry that keeps every visible root keeps the agreement.\<close>

lemma grants_agree_same:
  assumes "grants_agree reg log" and "\<And>t. scope_root reg' t = scope_root reg t"
  shows "grants_agree reg' log"
  using assms by (simp add: grants_agree_def)

lemma begin_registration_root:
  "scope_root (fst (begin_registration reg t root)) t' = scope_root reg t'"
proof (cases "sr_roots reg t")
  case None
  then show ?thesis
    by (cases rule: next_generation_cases [of reg])
      (auto simp: begin_registration_def insert_binding_def scope_root_def)
next
  case (Some b)
  then show ?thesis
    by (auto simp: begin_registration_def insert_binding_def scope_root_def split: option.splits)
qed

lemma bind_committed_grants:
  assumes agree: "grants_agree reg log" and call: "bind_committed reg t root = (reg', result)"
  shows "grants_agree reg' (log @ (if is_ok result then [Granted t root] else []))"
proof (cases "sr_roots reg t")
  case None
  show ?thesis
  proof (cases rule: next_generation_cases [of reg])
    case 1
    then show ?thesis
      using agree call None by (auto simp: bind_committed_def)
  next
    case (2 following)
    then show ?thesis
      using grants_agree_grant [OF agree, of t root] granted_unbound [OF agree None] call None
      by (auto simp: bind_committed_def)
  qed
next
  case (Some b)
  show ?thesis
  proof (cases "sb_root b = root")
    case True
    then have "granted log t \<in> {None, Some root}"
      using granted_root [OF agree Some] by simp
    from grants_agree_grant [OF agree this, of "sb_generation b" "sb_pending b" "sr_next_generation reg"] show ?thesis
      using call Some True by (cases b) (auto simp: bind_committed_def)
  next
    case False
    then show ?thesis
      using agree call Some by (auto simp: bind_committed_def)
  qed
qed

lemma scope_step_grants:
  assumes inv: "scope_inv w" and agree: "grants_agree (sw_registry w) log"
  shows "grants_agree (sw_registry (fst (scope_step w c))) (log @ snd (scope_step w c))"
proof (cases c)
  case (BindCommitted t root)
  then show ?thesis
    using bind_committed_grants [OF agree, of t root] by (auto split: prod.splits)
next
  case (GuardBind t root)
  then show ?thesis
    using grants_agree_same [OF agree, of "fst (begin_registration (sw_registry w) t root)"]
    by (auto simp: guard_bind_def begin_registration_root split: prod.splits sum.splits)
next
  case (GuardCommit g)
  show ?thesis
  proof (cases "g \<in> set (sw_guards w)")
    case True
    from inv True show ?thesis
    proof (cases rule: guard_commit_cases)
      case stale
      then show ?thesis
        using agree GuardCommit True by simp
    next
      case (live b)
      have "granted log (gd_transport g) \<in> {None, Some (gd_root g)}"
        using granted_root [OF agree live(1)] live(3) by simp
      from grants_agree_grant [OF agree this, of "sb_generation b" "sb_pending b - 1" "sr_next_generation (sw_registry w)"]
      show ?thesis
        using GuardCommit True live by (cases b) (auto simp: insert_binding_def)
    qed
  qed (use agree GuardCommit in simp)
next
  case (GuardDrop g)
  show ?thesis
  proof (cases "g \<in> set (sw_guards w)")
    case True
    from inv True show ?thesis
    proof (cases rule: guard_drop_cases)
      case stale
      then show ?thesis
        using agree GuardDrop True by simp
    next
      case (live b)
      then show ?thesis
        using GuardDrop True by (auto intro!: grants_agree_same [OF agree] simp: insert_binding_def scope_root_def)
    qed
  qed (use agree GuardDrop in simp)
next
  case (ReleaseTransport t)
  then show ?thesis
    using agree by (auto simp: grants_agree_def scope_release_def scope_root_update exclusive_append)
qed

interpretation scopes: logged_machine scope_step "\<lambda>w log. scope_inv w \<and> grants_agree (sw_registry w) log"
  by unfold_locales (simp add: scope_step_inv scope_step_grants)

lemma initial_grants: "grants_agree (sw_registry initial_scopes) []"
  by (simp add: grants_agree_def initial_scopes_def default_scope_registry_def scope_root_def granted_def)

text \<open>
  C24. The registry refines its specification: over every interleaving of registrations, binds and
  releases from an empty registry, the root a transport may touch is exactly the one it was last
  granted by a committed registration or a bind to a persisted root, and nothing while it was never
  granted or was released; and no grant ever replaces a different root.
\<close>
theorem scopes_follow_grants:
  "let (w, log) = run_machine scope_step initial_scopes calls
   in (\<forall>t. scope_root (sw_registry w) t = ok_or TransportNotBound (granted log t)) \<and>
      exclusive Map.empty log"
proof -
  obtain w log where run: "run_machine scope_step initial_scopes calls = (w, log)"
    by fastforce
  have "grants_agree (sw_registry w) log"
    using scopes.run_log [of initial_scopes "[]" calls] initial_scopes_inv initial_grants by (simp add: run)
  then show ?thesis
    by (simp add: run grants_agree_def)
qed

text \<open>
  Pending registrations are counted exactly: after any interleaving, the count of a binding is
  the number of guards alive for it, and every one of them is for the binding's root. So a binding
  left without guards is a committed one: a registration that fails or is cancelled leaves nothing.
\<close>
theorem pending_counts_guards:
  assumes "w = fst (run_machine scope_step initial_scopes calls)"
    and "sr_roots (sw_registry w) t = Some b"
  shows "unat (sb_pending b) = length (guards_of t (sb_generation b) (sw_guards w)) \<and>
    (\<forall>g \<in> set (guards_of t (sb_generation b) (sw_guards w)). gd_root g = sb_root b) \<and>
    (guards_of t (sb_generation b) (sw_guards w) = [] \<longrightarrow> sb_committed b)"
proof -
  have "scope_inv w"
    using scopes.run_log [of initial_scopes "[]" calls] initial_scopes_inv initial_grants assms(1) by simp
  from scope_invD(2) [OF this assms(2)] have ok: "binding_ok (sr_next_generation (sw_registry w)) (sw_guards w) t b" .
  then have "sb_pending b = 0" if "guards_of t (sb_generation b) (sw_guards w) = []"
    using that by (simp add: binding_ok_def unat_eq_0)
  then show ?thesis
    using ok by (auto simp: binding_ok_def)
qed

section \<open>Stale guards\<close>

text \<open>Once every binding of a transport is at least as young as \<open>n\<close>, it stays so.\<close>

definition bound_since :: "transport_key \<Rightarrow> u64 \<Rightarrow> scope_world \<Rightarrow> bool" where
  "bound_since t n w \<longleftrightarrow> n \<le> sr_next_generation (sw_registry w) \<and>
     is_none_or (\<lambda>b. n \<le> sb_generation b) (sr_roots (sw_registry w) t)"

lemma bound_since_step:
  assumes inv: "scope_inv w" and since: "bound_since t n w"
  shows "bound_since t n (fst (scope_step w c))"
proof (cases c)
  case (BindCommitted t' root)
  then show ?thesis
    using since by (cases rule: next_generation_cases [of "sw_registry w"])
      (auto simp: bound_since_def bind_committed_def insert_binding_def is_none_or_iff split: option.splits)
next
  case (GuardBind t' root)
  then show ?thesis
    using since by (cases rule: next_generation_cases [of "sw_registry w"])
      (auto simp: bound_since_def guard_bind_def begin_registration_def insert_binding_def is_none_or_iff
        split: option.splits)
next
  case (GuardCommit g)
  show ?thesis
  proof (cases "g \<in> set (sw_guards w)")
    case True
    from inv True show ?thesis
      by (cases rule: guard_commit_cases)
        (use since GuardCommit True in \<open>auto simp: bound_since_def insert_binding_def is_none_or_iff\<close>)
  qed (use since GuardCommit in simp)
next
  case (GuardDrop g)
  show ?thesis
  proof (cases "g \<in> set (sw_guards w)")
    case True
    from inv True show ?thesis
      by (cases rule: guard_drop_cases)
        (use since GuardDrop True in \<open>auto simp: bound_since_def insert_binding_def is_none_or_iff\<close>)
  qed (use since GuardDrop in simp)
next
  case (ReleaseTransport t')
  then show ?thesis
    using since by (auto simp: bound_since_def scope_release_def is_none_or_iff)
qed

interpretation bound_since: logged_machine scope_step "\<lambda>w (_ :: scope_event list). scope_inv w \<and> bound_since t n w"
  by unfold_locales (simp add: scope_step_inv bound_since_step)

text \<open>
  C25. A released transport is out of reach of the registrations that were in flight: whatever
  happens after the release, a guard that was alive before it can neither commit (it reports that
  the transport is not bound) nor, dropped, change the registry, even if the transport was bound
  again to the same root in the meantime.
\<close>
theorem stale_guard_inert:
  assumes before: "w = fst (run_machine scope_step initial_scopes earlier)" "g \<in> set (sw_guards w)"
    and after: "w' = fst (run_machine scope_step w (ReleaseTransport (gd_transport g) # later))"
      "g \<in> set (sw_guards w')"
  shows "guard_commit (sw_registry w') g = (sw_registry w', Inl TransportNotBound) \<and>
    guard_drop (sw_registry w') g = sw_registry w'"
proof -
  let ?n = "sr_next_generation (sw_registry w)"
  have inv: "scope_inv w"
    using scopes.run_log [of initial_scopes "[]" earlier] initial_scopes_inv initial_grants before(1) by simp
  have "bound_since (gd_transport g) ?n (fst (scope_step w (ReleaseTransport (gd_transport g))))"
    by (simp add: bound_since_def scope_release_def)
  with scope_step_inv [OF inv] have "scope_inv w' \<and> bound_since (gd_transport g) ?n w'"
    unfolding after(1) run_machine_Cons by (intro bound_since.run_log conjI)
  moreover have "gd_generation g < ?n"
    using scope_invD(1) [OF inv before(2)] by simp
  ultimately have w': "scope_inv w'" and stale: "is_none_or (\<lambda>b. sb_generation b \<noteq> gd_generation g)
      (sr_roots (sw_registry w') (gd_transport g))"
    by (auto simp: bound_since_def is_none_or_iff)
  from w' after(2) have "guard_commit (sw_registry w') g = (sw_registry w', Inl TransportNotBound)"
    by (cases rule: guard_commit_cases) (use stale in \<open>auto simp: is_none_or_iff\<close>)
  moreover from w' after(2) have "guard_drop (sw_registry w') g = sw_registry w'"
    by (cases rule: guard_drop_cases) (use stale in \<open>auto simp: is_none_or_iff\<close>)
  ultimately show ?thesis ..
qed

section \<open>Witnesses\<close>

definition sample_main :: main_session_id where
  "sample_main = MainSessionId (SessionId 7)"

definition sample_scope_guard :: "u64 \<Rightarrow> scope_guard" where
  "sample_scope_guard n =
     \<lparr>gd_transport = ''a'', gd_root = sample_main, gd_generation = n, gd_pending = True\<rparr>"

lemmas scope_eval = initial_scopes_def default_scope_registry_def guard_bind_def begin_registration_def
  next_generation_def checked_add_def insert_binding_def scope_release_def sample_scope_guard_def

theorem pending_counts_guards_witness:
  "\<exists>b. sr_roots (sw_registry (fst (run_machine scope_step initial_scopes
     [GuardBind ''a'' sample_main, GuardBind ''a'' sample_main, GuardBind ''b'' sample_main]))) ''a'' = Some b \<and>
     unat (sb_pending b) = 2"
proof -
  let ?w = "fst (run_machine scope_step initial_scopes
    [GuardBind ''a'' sample_main, GuardBind ''a'' sample_main, GuardBind ''b'' sample_main])"
  let ?b = "\<lparr>sb_root = sample_main, sb_generation = 0, sb_pending = 2, sb_committed = False\<rparr>"
  have b: "sr_roots (sw_registry ?w) ''a'' = Some ?b"
    by (simp add: scope_eval)
  moreover have "length (guards_of ''a'' 0 (sw_guards ?w)) = 2"
    by (simp add: scope_eval guards_of_def)
  ultimately have "unat (sb_pending ?b) = 2"
    using pending_counts_guards [OF refl b] by simp
  then show ?thesis
    using b by blast
qed

theorem stale_guard_inert_witness:
  "let w' = fst (run_machine scope_step (fst (run_machine scope_step initial_scopes [GuardBind ''a'' sample_main]))
       [ReleaseTransport ''a'', GuardBind ''a'' sample_main])
   in guard_commit (sw_registry w') (sample_scope_guard 0) = (sw_registry w', Inl TransportNotBound)"
proof -
  let ?w = "fst (run_machine scope_step initial_scopes [GuardBind ''a'' sample_main])"
  have "sample_scope_guard 0 \<in> set (sw_guards ?w)" "gd_transport (sample_scope_guard 0) = ''a''"
    by (simp_all add: scope_eval)
  moreover have "sample_scope_guard 0 \<in> set (sw_guards (fst (run_machine scope_step ?w
      [ReleaseTransport ''a'', GuardBind ''a'' sample_main])))"
    by (simp add: scope_eval)
  ultimately show ?thesis
    using stale_guard_inert [OF refl, of "sample_scope_guard 0" "[GuardBind ''a'' sample_main]" _
        "[GuardBind ''a'' sample_main]"] by (simp add: Let_def)
qed

end
