(* ===== verification/Admission.thy ===== *)
theory Admission
  imports Scopes Hierarchy Session_Queue Health
begin

text \<open>
  Observation admission of \<open>crates/watchdog-server/src/agent_api.rs\<close>: the session lanes, the
  bounded queue before each lane, the task that drains it, the durable record of refused evidence
  and the health reports derived from it. The program's tasks run concurrently and meet at two
  mutexes, the lane's \<open>admission\<close> and the process-wide \<open>queue_health_transition\<close>; a state of the
  model is the shared data with the position of every task and the holder of every mutex, and a
  call is one critical section of one task, so an execution is any interleaving of calls. A call
  whose mutex is taken leaves the state as it is: the task waits.
\<close>

section \<open>Refused evidence in the store\<close>

record rejection_db =
  rj_rows :: "(observation_id \<times> session_id \<times> wall_time_ms) list"
  rj_overflow :: "(session_id \<times> wall_time_ms) list"

definition save_queue_rejection ::
  "sqlite \<Rightarrow> 'j db \<Rightarrow> rejection_db \<Rightarrow> observation_id \<Rightarrow> session_identity \<Rightarrow> wall_time_ms \<Rightarrow>
     rejection_db \<times> (store_error + unit)" where
  "save_queue_rejection fails db rej observation session rejected_at =
     in_transaction fails (\<lambda>rej.
       let session_id = identity_session_id session in
       and_then (run_sql fails (Statement ''select queue rejection'')) (\<lambda>_.
         case map_of (rj_rows rej) observation of
           Some (stored, _) \<Rightarrow>
             if stored \<noteq> session_id then Inl IdentityMismatch
             else and_then (run_sql fails (Statement ''insert queue rejection'')) (\<lambda>_.
               Inr (rej\<lparr>rj_rows := AList.update observation (stored, rejected_at) (rj_rows rej)\<rparr>, ()))
         | None \<Rightarrow>
             and_then (run_sql fails (Statement ''insert queue rejection'')) (\<lambda>_.
               if \<not> known_session db session_id then Inl Sqlx
               else Inr (rej\<lparr>rj_rows := rj_rows rej @ [(observation, session_id, rejected_at)]\<rparr>, ())))) rej"

definition clear_queue_rejection ::
  "sqlite \<Rightarrow> rejection_db \<Rightarrow> observation_id \<Rightarrow> session_identity \<Rightarrow> rejection_db \<times> (store_error + bool)" where
  "clear_queue_rejection fails rej observation session =
     in_transaction fails (\<lambda>rej.
       let session_id = identity_session_id session in
       and_then (run_sql fails (Statement ''delete queue rejection'')) (\<lambda>_.
         let rows = filter (\<lambda>(oid, s, _). \<not> (oid = observation \<and> s = session_id)) (rj_rows rej) in
         and_then (run_sql fails (Statement ''count queue rejections'')) (\<lambda>_.
           let remaining = length (filter (\<lambda>(_, s, _). s = session_id) rows) +
                 length (filter (\<lambda>(s, _). s = session_id) (rj_overflow rej))
           in Inr (rej\<lparr>rj_rows := rows\<rparr>, remaining \<noteq> 0)))) rej"

definition queue_uncertain_sessions ::
  "sqlite \<Rightarrow> 'j foreign_code \<Rightarrow> 'j db \<Rightarrow> rejection_db \<Rightarrow> store_error + session_identity list" where
  "queue_uncertain_sessions fails fc db rej =
     and_then (run_sql fails (Statement ''select uncertain sessions'')) (\<lambda>_.
       map_ok (map st_session) (collect_results (map (\<lambda>row. decode_session_row fc row None)
         (sort_key fst (filter (\<lambda>(k, _). k \<in> (fst \<circ> snd) ` set (rj_rows rej) \<union> fst ` set (rj_overflow rej))
           (db_sessions db))))))"

definition load_observation ::
  "sqlite \<Rightarrow> 'j foreign_code \<Rightarrow> ('j \<Rightarrow> observation_envelope option) \<Rightarrow> 'j db \<Rightarrow> observation_id \<Rightarrow>
     store_error + observation_envelope option" where
  "load_observation fails fc from_slice db observation =
     and_then (run_sql fails SelectObservation) (\<lambda>_.
       load_optional_json fc from_slice (map_option or_envelope (map_of (db_observations db) observation)))"

section \<open>Lanes\<close>

definition OBSERVATION_QUEUE_CAPACITY :: nat where
  "OBSERVATION_QUEUE_CAPACITY = 64"

text \<open>A queued observation carries the channel that completes its request: the request's number.\<close>

record pending_observation =
  pn_observation :: observation_envelope
  pn_request :: nat

record session_admission =
  sa_queue :: "pending_observation session_queue"
  sa_draining :: bool

text \<open>\<open>new\<close> calls \<open>unreachable!\<close> on an empty capacity, which its only caller never passes.\<close>

definition session_admission_new :: "nat \<Rightarrow> session_admission option" where
  "session_admission_new capacity =
     map_option (\<lambda>q. \<lparr>sa_queue = q, sa_draining = False\<rparr>) (ok (session_queue_new capacity))"

definition admission_push ::
  "session_admission \<Rightarrow> observation_class \<Rightarrow> pending_observation \<Rightarrow>
     session_admission \<times> (pending_observation admission_error + pending_observation option)" where
  "admission_push admission cls v =
     (case try_push_replacing (sa_queue admission) cls v of
        (q, r) \<Rightarrow> (admission\<lparr>sa_queue := q\<rparr>, r))"

definition admission_pop :: "session_admission \<Rightarrow> session_admission \<times> pending_observation option" where
  "admission_pop admission =
     (case queue_pop (sa_queue admission) of (q, r) \<Rightarrow> (admission\<lparr>sa_queue := q\<rparr>, r))"

definition admission_reconcile_rejected ::
  "session_admission \<Rightarrow> bool \<Rightarrow> session_admission \<times> bool" where
  "admission_reconcile_rejected admission durable_uncertainty_remaining =
     (if durable_uncertainty_remaining \<or> \<not> sq_degraded (sa_queue admission) then (admission, False)
      else (admission\<lparr>sa_queue := mark_reconciled (sa_queue admission)\<rparr>, True))"

record session_lane =
  sl_record :: stored_session_record
  sl_coordinator :: lane
  sl_admission :: session_admission

fun observation_class_of :: "observation_payload \<Rightarrow> observation_class" where
  "observation_class_of (Progress _) = Activity"
| "observation_class_of _ = Durable"

definition apply_queued_observation ::
  "sqlite \<Rightarrow> 'j foreign_code \<Rightarrow> ('j \<Rightarrow> observation_envelope option) \<Rightarrow> 'j shared \<times> lane \<Rightarrow>
     observation_envelope \<Rightarrow> ('j shared \<times> lane) \<times> (agent_api_error + apply_result)" where
  "apply_queued_observation fails fc from_slice world observation =
     (case and_then (map_err ApiStore (load_observation fails fc from_slice (sh_db (fst world))
               (oe_observation_id observation)))
           (\<lambda>existing. case existing of
              None \<Rightarrow> Inr observation
            | Some existing \<Rightarrow> map_err ApiObservation
                (observation_envelope_new (oe_observation_id observation) (oe_subject observation)
                   (oe_observed_at existing) (oe_source observation) (oe_payload observation))) of
        Inl e \<Rightarrow> (world, Inl e)
      | Inr observation \<Rightarrow>
          (case coordinator_apply_observation fails fc world observation of
             (world, r) \<Rightarrow> (world, map_err ApiCoordinator r)))"

section \<open>Tasks and locks\<close>

text \<open>
  A request is one call of \<open>apply_observation\<close>. \<open>Arrived\<close>: before \<open>lane\<close>; \<open>LaneBuilt\<close>: a lane was
  built and not yet entered into the map; \<open>Admitting\<close>: it waits for the lane's \<open>admission\<close> mutex;
  \<open>Rejected\<close>: the queue refused it, it still holds \<open>admission\<close> and waits for
  \<open>queue_health_transition\<close>; \<open>Persisting\<close>: it holds both; \<open>Awaiting\<close>: its observation is queued;
  \<open>Answered\<close>: it returned; \<open>Dropped\<close>: its caller gave it up. A number is never used again, as a
  channel is not.
\<close>

datatype request_state =
    Arrived stored_session_record observation_envelope
  | LaneBuilt stored_session_record observation_envelope session_lane
  | Admitting stored_session_record observation_envelope
  | Rejected stored_session_record observation_envelope agent_api_error
  | Persisting stored_session_record observation_envelope agent_api_error
  | Awaiting
  | Answered "agent_api_error + apply_result"
  | Dropped

text \<open>
  The position of a lane's \<open>drain_observations\<close> task. \<open>Reconciling\<close> waits for
  \<open>queue_health_transition\<close>; \<open>Clearing\<close> holds it before the store call; \<open>Reopening\<close> holds it and
  waits for the lane's \<open>admission\<close> mutex.
\<close>

datatype drainer_state =
    Popping
  | Applying pending_observation
  | Reconciling pending_observation apply_result
  | Clearing pending_observation apply_result
  | Reopening pending_observation apply_result bool

datatype lock_holder = ByRequest nat | ByDrainer session_id

record 'j api_world =
  aw_shared :: "'j shared"
  aw_policy :: reducer_policy
  aw_rejections :: rejection_db
  aw_uncertain :: "session_identity set"
  aw_health :: "health_registry option"
  aw_lanes :: "session_id \<rightharpoonup> session_lane"
  aw_requests :: "nat \<rightharpoonup> request_state"
  aw_drainers :: "session_id \<rightharpoonup> drainer_state"
  aw_admission_lock :: "session_id \<rightharpoonup> nat"
  aw_transition_lock :: "lock_holder option"

definition record_queue_health ::
  "session_identity \<Rightarrow> component_status \<Rightarrow> health_registry option \<Rightarrow> health_registry option" where
  "record_queue_health session status health =
     map_option (\<lambda>registry. health_record registry
       \<lparr>ch_component = ObservationQueue, ch_status = status, ch_scope = SessionScope session\<rparr>) health"

definition lane_key :: "stored_session_record \<Rightarrow> session_id" where
  "lane_key record = identity_session_id (st_session record)"

definition answer :: "nat \<Rightarrow> agent_api_error + apply_result \<Rightarrow> 'j api_world \<Rightarrow> 'j api_world" where
  "answer n result w = w\<lparr>aw_requests := (aw_requests w)(n \<mapsto> Answered result)\<rparr>"

text \<open>
  \<open>completion.send\<close> on the channel of a request; the receiver may be gone (a cancelled request), which
  the sender ignores.
\<close>

definition complete :: "nat \<Rightarrow> agent_api_error + apply_result \<Rightarrow> 'j api_world \<Rightarrow> 'j api_world" where
  "complete n result w = (if aw_requests w n = Some Awaiting then answer n result w else w)"

text \<open>The first half of \<open>lane\<close>: look the lane up, otherwise build one from the store.\<close>

definition build_lane ::
  "sqlite \<Rightarrow> 'j foreign_code \<Rightarrow> 'j api_world \<Rightarrow> stored_session_record \<Rightarrow> time_point \<Rightarrow>
     agent_api_error + session_lane" where
  "build_lane fails fc w rec now =
     and_then (map_err ApiStore (load_snapshot fails fc (sh_db (aw_shared w)) (st_session rec))) (\<lambda>stored.
     and_then (case stored of
         Some update \<Rightarrow> ok_or ReducerSnapshotUnavailable (su_reducer_snapshot update)
       | None \<Rightarrow> Inr (session_snapshot_new (st_session rec) (st_root rec) now)) (\<lambda>snapshot.
     and_then (ok_or ObservationQueueStopped (session_admission_new OBSERVATION_QUEUE_CAPACITY)) (\<lambda>admission.
       Inr \<lparr>sl_record = rec, sl_coordinator = lane_new snapshot (aw_policy w) [ParentInbox, Sse],
            sl_admission = admission\<rparr>)))"

definition look_up_lane ::
  "sqlite \<Rightarrow> 'j foreign_code \<Rightarrow> nat \<Rightarrow> 'j api_world \<Rightarrow> 'j api_world" where
  "look_up_lane fails fc n w =
     (case aw_requests w n of
        Some (Arrived rec observation) \<Rightarrow>
          (case aw_lanes w (lane_key rec) of
             Some _ \<Rightarrow> w\<lparr>aw_requests := (aw_requests w)(n \<mapsto> Admitting rec observation)\<rparr>
           | None \<Rightarrow>
               (case build_lane fails fc w rec (oe_observed_at observation) of
                  Inl e \<Rightarrow> answer n (Inl e) w
                | Inr lane \<Rightarrow>
                    w\<lparr>aw_requests := (aw_requests w)(n \<mapsto> LaneBuilt rec observation lane)\<rparr>))
      | _ \<Rightarrow> w)"

text \<open>The second half: \<open>entry(..).or_insert_with(..)\<close>.\<close>

definition insert_lane :: "nat \<Rightarrow> 'j api_world \<Rightarrow> 'j api_world" where
  "insert_lane n w =
     (case aw_requests w n of
        Some (LaneBuilt rec observation lane) \<Rightarrow>
          w\<lparr>aw_lanes := (case aw_lanes w (lane_key rec) of
                Some _ \<Rightarrow> aw_lanes w | None \<Rightarrow> (aw_lanes w)(lane_key rec \<mapsto> lane)),
            aw_requests := (aw_requests w)(n \<mapsto> Admitting rec observation)\<rparr>
      | _ \<Rightarrow> w)"

definition set_admission :: "session_id \<Rightarrow> session_admission \<Rightarrow> 'j api_world \<Rightarrow> 'j api_world" where
  "set_admission k admission w =
     (case aw_lanes w k of
        Some lane \<Rightarrow> w\<lparr>aw_lanes := (aw_lanes w)(k \<mapsto> lane\<lparr>sl_admission := admission\<rparr>)\<rparr>
      | None \<Rightarrow> w)"

text \<open>
  The section under \<open>admission\<close>: an accepted observation wakes the drainer when none runs, a
  displaced one completes as coalesced, and a refused one keeps the mutex while it is persisted.
\<close>

definition admit :: "nat \<Rightarrow> 'j api_world \<Rightarrow> 'j api_world" where
  "admit n w =
     (case aw_requests w n of
        Some (Admitting rec observation) \<Rightarrow>
          (let k = lane_key rec in
           case aw_lanes w k of
             None \<Rightarrow> w
           | Some lane \<Rightarrow>
               if aw_admission_lock w k \<noteq> None then w
               else
                 (case admission_push (sl_admission lane) (observation_class_of (oe_payload observation))
                         \<lparr>pn_observation = observation, pn_request = n\<rparr> of
                    (admission, Inl refused) \<Rightarrow>
                      (set_admission k admission w)\<lparr>
                        aw_admission_lock := (aw_admission_lock w)(k \<mapsto> n),
                        aw_requests := (aw_requests w)(n \<mapsto> Rejected rec observation
                          (case refused of Backpressure _ \<Rightarrow> ObservationBackpressure
                                         | ActivitySaturated _ \<Rightarrow> ObservationActivitySaturated))\<rparr>
                  | (admission, Inr replaced) \<Rightarrow>
                      (let w = (case replaced of None \<Rightarrow> w
                                | Some old \<Rightarrow> complete (pn_request old) (Inl ObservationCoalesced) w);
                           w = set_admission k (admission\<lparr>sa_draining := True\<rparr>) w;
                           w = w\<lparr>aw_requests := (aw_requests w)(n \<mapsto> Awaiting)\<rparr>
                       in if sa_draining admission then w
                          else w\<lparr>aw_drainers := (aw_drainers w)(k \<mapsto> Popping)\<rparr>)))
      | _ \<Rightarrow> w)"

text \<open>\<open>persist_queue_rejection\<close> up to its store call: the mutex, the in-memory mark, the report.\<close>

definition take_transition :: "nat \<Rightarrow> 'j api_world \<Rightarrow> 'j api_world" where
  "take_transition n w =
     (case aw_requests w n of
        Some (Rejected rec observation e) \<Rightarrow>
          if aw_transition_lock w \<noteq> None then w
          else w\<lparr>aw_transition_lock := Some (ByRequest n),
                 aw_uncertain := insert (st_session rec) (aw_uncertain w),
                 aw_health := record_queue_health (st_session rec) DegradedStatus (aw_health w),
                 aw_requests := (aw_requests w)(n \<mapsto> Persisting rec observation e)\<rparr>
      | _ \<Rightarrow> w)"

text \<open>The store call, the release of the mutex, the second report, and the return.\<close>

definition persist_rejection :: "sqlite \<Rightarrow> nat \<Rightarrow> 'j api_world \<Rightarrow> 'j api_world" where
  "persist_rejection fails n w =
     (case aw_requests w n of
        Some (Persisting rec observation e) \<Rightarrow>
          (let (rej, r) = save_queue_rejection fails (sh_db (aw_shared w)) (aw_rejections w)
                 (oe_observation_id observation) (st_session rec) (wall_time (oe_observed_at observation));
               w = w\<lparr>aw_rejections := rej, aw_transition_lock := None,
                     aw_admission_lock := (aw_admission_lock w)(lane_key rec := None)\<rparr>
           in case r of
                Inl err \<Rightarrow> answer n (Inl (ApiStore err)) w
              | Inr _ \<Rightarrow> answer n (Inl e)
                  (w\<lparr>aw_health := record_queue_health (st_session rec) DegradedStatus (aw_health w)\<rparr>))
      | _ \<Rightarrow> w)"

text \<open>The caller drops the future of a request: its mutexes are released.\<close>

definition cancel_request :: "nat \<Rightarrow> 'j api_world \<Rightarrow> 'j api_world" where
  "cancel_request n w =
     (let gone = w\<lparr>aw_requests := (aw_requests w)(n \<mapsto> Dropped)\<rparr> in
      case aw_requests w n of
        None \<Rightarrow> w
      | Some (Answered r) \<Rightarrow> w
      | Some (Rejected rec observation e) \<Rightarrow>
          gone\<lparr>aw_admission_lock := (aw_admission_lock w)(lane_key rec := None)\<rparr>
      | Some (Persisting rec observation e) \<Rightarrow>
          gone\<lparr>aw_admission_lock := (aw_admission_lock w)(lane_key rec := None), aw_transition_lock := None\<rparr>
      | Some _ \<Rightarrow> gone)"

definition set_drainer :: "session_id \<Rightarrow> drainer_state option \<Rightarrow> 'j api_world \<Rightarrow> 'j api_world" where
  "set_drainer k d w = w\<lparr>aw_drainers := (aw_drainers w)(k := d)\<rparr>"

definition pop_next :: "session_id \<Rightarrow> 'j api_world \<Rightarrow> 'j api_world" where
  "pop_next k w =
     (case (aw_drainers w k, aw_lanes w k) of
        (Some Popping, Some lane) \<Rightarrow>
          if aw_admission_lock w k \<noteq> None then w
          else
            (case admission_pop (sl_admission lane) of
               (admission, None) \<Rightarrow> set_drainer k None (set_admission k (admission\<lparr>sa_draining := False\<rparr>) w)
             | (admission, Some pending) \<Rightarrow> set_drainer k (Some (Applying pending)) (set_admission k admission w))
      | _ \<Rightarrow> w)"

definition apply_next ::
  "sqlite \<Rightarrow> 'j foreign_code \<Rightarrow> ('j \<Rightarrow> observation_envelope option) \<Rightarrow> session_id \<Rightarrow> 'j api_world \<Rightarrow> 'j api_world" where
  "apply_next fails fc from_slice k w =
     (case (aw_drainers w k, aw_lanes w k) of
        (Some (Applying pending), Some lane) \<Rightarrow>
          (let ((shared, coordinator), r) = apply_queued_observation fails fc from_slice
                 (aw_shared w, sl_coordinator lane) (pn_observation pending);
               w = w\<lparr>aw_shared := shared,
                     aw_lanes := (aw_lanes w)(k \<mapsto> lane\<lparr>sl_coordinator := coordinator\<rparr>)\<rparr>
           in case r of
                Inl e \<Rightarrow> complete (pn_request pending) (Inl e) (set_drainer k (Some Popping) w)
              | Inr r \<Rightarrow> set_drainer k (Some (Reconciling pending r)) w)
      | _ \<Rightarrow> w)"

text \<open>\<open>reconcile_rejected_observation\<close>: the mutex and the in-memory mark.\<close>

definition start_reconcile :: "session_id \<Rightarrow> 'j api_world \<Rightarrow> 'j api_world" where
  "start_reconcile k w =
     (case (aw_drainers w k, aw_lanes w k) of
        (Some (Reconciling pending r), Some lane) \<Rightarrow>
          if aw_transition_lock w \<noteq> None then w
          else set_drainer k (Some (if st_session (sl_record lane) \<in> aw_uncertain w
                 then Clearing pending r else Reopening pending r False))
                 (w\<lparr>aw_transition_lock := Some (ByDrainer k)\<rparr>)
      | _ \<Rightarrow> w)"

text \<open>The store call, made when the session was uncertain.\<close>

definition clear_rejection :: "sqlite \<Rightarrow> session_id \<Rightarrow> 'j api_world \<Rightarrow> 'j api_world" where
  "clear_rejection fails k w =
     (case (aw_drainers w k, aw_lanes w k) of
        (Some (Clearing pending r), Some lane) \<Rightarrow>
          (let session = st_session (sl_record lane);
               (rej, cleared) = clear_queue_rejection fails (aw_rejections w)
                 (oe_observation_id (pn_observation pending)) session;
               w = w\<lparr>aw_rejections := rej\<rparr>
           in case cleared of
                Inl e \<Rightarrow> complete (pn_request pending) (Inl (ApiStore e))
                  (set_drainer k (Some Popping) (w\<lparr>aw_transition_lock := None\<rparr>))
              | Inr remaining \<Rightarrow> set_drainer k (Some (Reopening pending r remaining))
                  (if remaining then w
                   else w\<lparr>aw_uncertain := aw_uncertain w - {session},
                          aw_health := record_queue_health session Healthy (aw_health w)\<rparr>))
      | _ \<Rightarrow> w)"

text \<open>The end of \<open>reconcile_rejected_observation\<close>, under both mutexes, and the completion.\<close>

definition reopen_admission :: "session_id \<Rightarrow> 'j api_world \<Rightarrow> 'j api_world" where
  "reopen_admission k w =
     (case (aw_drainers w k, aw_lanes w k) of
        (Some (Reopening pending r remaining), Some lane) \<Rightarrow>
          if aw_admission_lock w k \<noteq> None then w
          else
            (let (admission, reopened) = admission_reconcile_rejected (sl_admission lane) remaining;
                 w = set_admission k admission w;
                 w = w\<lparr>aw_transition_lock := None,
                       aw_health := (if reopened
                         then record_queue_health (st_session (sl_record lane)) Healthy (aw_health w)
                         else aw_health w)\<rparr>
             in complete (pn_request pending) (Inr r) (set_drainer k (Some Popping) w))
      | _ \<Rightarrow> w)"

text \<open>
  The process around the lanes: configuration, the reports of other components (only this API
  reports the queue of a session), and the lane calls that bypass the queue.
\<close>

definition update_policy_api :: "reducer_policy \<Rightarrow> 'j api_world \<Rightarrow> 'j api_world" where
  "update_policy_api policy w =
     w\<lparr>aw_policy := policy,
       aw_lanes := (\<lambda>k. map_option (\<lambda>lane. lane\<lparr>sl_coordinator := set_policy (sl_coordinator lane) policy\<rparr>)
         (aw_lanes w k))\<rparr>"

definition configure_health :: "component_health list \<Rightarrow> 'j api_world \<Rightarrow> 'j api_world" where
  "configure_health reports w =
     w\<lparr>aw_health := foldl (\<lambda>health session. record_queue_health session DegradedStatus health)
         (Some (foldl health_record [] reports)) (sorted_list_of_set (aw_uncertain w))\<rparr>"

datatype api_call =
    Arrive nat stored_session_record observation_envelope
  | LookUpLane sqlite nat
  | InsertLane nat
  | Admit nat
  | TakeTransition nat
  | PersistRejection sqlite nat
  | CancelRequest nat
  | PopNext session_id
  | ApplyNext sqlite session_id
  | StartReconcile session_id
  | ClearRejection sqlite session_id
  | ReopenAdmission session_id
  | ReloadPolicy reducer_policy
  | ConfigureHealth "component_health list"
  | ReportHealth component_health
  | CallLane sqlite session_id lane_op

fun api_step ::
  "'j foreign_code \<Rightarrow> ('j \<Rightarrow> observation_envelope option) \<Rightarrow> 'j api_world \<Rightarrow> api_call \<Rightarrow>
     'j api_world \<times> unit list" where
  "api_step fc from_slice w (Arrive n rec observation) =
     (if aw_requests w n = None
      then w\<lparr>aw_requests := (aw_requests w)(n \<mapsto> Arrived rec observation)\<rparr> else w, [])"
| "api_step fc from_slice w (LookUpLane fails n) = (look_up_lane fails fc n w, [])"
| "api_step fc from_slice w (InsertLane n) = (insert_lane n w, [])"
| "api_step fc from_slice w (Admit n) = (admit n w, [])"
| "api_step fc from_slice w (TakeTransition n) = (take_transition n w, [])"
| "api_step fc from_slice w (PersistRejection fails n) = (persist_rejection fails n w, [])"
| "api_step fc from_slice w (CancelRequest n) = (cancel_request n w, [])"
| "api_step fc from_slice w (PopNext k) = (pop_next k w, [])"
| "api_step fc from_slice w (ApplyNext fails k) = (apply_next fails fc from_slice k w, [])"
| "api_step fc from_slice w (StartReconcile k) = (start_reconcile k w, [])"
| "api_step fc from_slice w (ClearRejection fails k) = (clear_rejection fails k w, [])"
| "api_step fc from_slice w (ReopenAdmission k) = (reopen_admission k w, [])"
| "api_step fc from_slice w (ReloadPolicy policy) = (update_policy_api policy w, [])"
| "api_step fc from_slice w (ConfigureHealth reports) = (configure_health reports w, [])"
| "api_step fc from_slice w (ReportHealth report) =
     (if ch_component report = ObservationQueue \<and> ch_scope report \<noteq> Global then w
      else w\<lparr>aw_health := map_option (\<lambda>registry. health_record registry report) (aw_health w)\<rparr>, [])"
| "api_step fc from_slice w (CallLane fails k op) =
     (case aw_lanes w k of
        None \<Rightarrow> w
      | Some lane \<Rightarrow>
          (case lane_call fails fc (aw_shared w, sl_coordinator lane) op of
             ((shared, coordinator), _) \<Rightarrow>
               w\<lparr>aw_shared := shared, aw_lanes := (aw_lanes w)(k \<mapsto> lane\<lparr>sl_coordinator := coordinator\<rparr>)\<rparr>), [])"

text \<open>\<open>with_policy\<close>: a process starts with the uncertainty its store retained.\<close>

definition api_start ::
  "sqlite \<Rightarrow> 'j foreign_code \<Rightarrow> 'j db \<Rightarrow> rejection_db \<Rightarrow> reducer_policy \<Rightarrow> agent_api_error + 'j api_world" where
  "api_start fails fc db rej policy =
     and_then (map_err ApiCoordinator (event_sequence_from_store fails db)) (\<lambda>next.
     and_then (map_err ApiStore (queue_uncertain_sessions fails fc db rej)) (\<lambda>uncertain.
       Inr \<lparr>aw_shared = \<lparr>sh_db = db, sh_next_event = next\<rparr>, aw_policy = policy, aw_rejections = rej,
            aw_uncertain = set uncertain, aw_health = None, aw_lanes = Map.empty, aw_requests = Map.empty,
            aw_drainers = Map.empty, aw_admission_lock = Map.empty, aw_transition_lock = None\<rparr>))"

section \<open>Mutual exclusion\<close>

fun holds_admission :: "request_state option \<Rightarrow> session_id option" where
  "holds_admission (Some (Rejected rec observation e)) = Some (lane_key rec)"
| "holds_admission (Some (Persisting rec observation e)) = Some (lane_key rec)"
| "holds_admission _ = None"

fun persisting :: "request_state option \<Rightarrow> bool" where
  "persisting (Some (Persisting rec observation e)) = True"
| "persisting _ = False"

fun reconciling :: "drainer_state option \<Rightarrow> bool" where
  "reconciling (Some (Clearing pending r)) = True"
| "reconciling (Some (Reopening pending r remaining)) = True"
| "reconciling _ = False"

text \<open>Each mutex is held exactly by the task whose position says so.\<close>

definition lock_inv :: "'j api_world \<Rightarrow> bool" where
  "lock_inv w \<longleftrightarrow>
     (\<forall>k m. aw_admission_lock w k = Some m \<longleftrightarrow> holds_admission (aw_requests w m) = Some k) \<and>
     (\<forall>m. aw_transition_lock w = Some (ByRequest m) \<longleftrightarrow> persisting (aw_requests w m)) \<and>
     (\<forall>k. aw_transition_lock w = Some (ByDrainer k) \<longleftrightarrow> reconciling (aw_drainers w k))"

text \<open>
  A lane is drained by exactly one task while its \<open>draining\<close> flag is set, and the flag is only
  cleared on an empty queue; a lane under construction is idle.
\<close>

definition idle_lane :: "session_lane \<Rightarrow> bool" where
  "idle_lane lane \<longleftrightarrow> \<not> sa_draining (sl_admission lane) \<and> sq_entries (sa_queue (sl_admission lane)) = []"

fun built_lane :: "request_state option \<Rightarrow> session_lane option" where
  "built_lane (Some (LaneBuilt rec observation lane)) = Some lane"
| "built_lane _ = None"

definition lane_drained :: "session_lane option \<Rightarrow> drainer_state option \<Rightarrow> bool" where
  "lane_drained lane d \<longleftrightarrow>
     (case lane of
        None \<Rightarrow> d = None
      | Some lane \<Rightarrow> if d = None then idle_lane lane else sa_draining (sl_admission lane))"

definition drain_inv :: "'j api_world \<Rightarrow> bool" where
  "drain_inv w \<longleftrightarrow> (\<forall>k. lane_drained (aw_lanes w k) (aw_drainers w k)) \<and>
     (\<forall>n lane. built_lane (aw_requests w n) = Some lane \<longrightarrow> idle_lane lane)"

lemma lock_invD:
  assumes "lock_inv w"
  shows "holds_admission (aw_requests w m) = Some k \<Longrightarrow> aw_admission_lock w k = Some m"
    and "persisting (aw_requests w m) \<Longrightarrow> aw_transition_lock w = Some (ByRequest m)"
    and "reconciling (aw_drainers w k) \<Longrightarrow> aw_transition_lock w = Some (ByDrainer k)"
  using assms by (auto simp: lock_inv_def)

text \<open>The parts of the state an operation does not touch.\<close>

named_theorems frame \<open>unchanged parts of the state\<close>

lemma set_admission_frame [simp, frame]:
  "aw_requests (set_admission k a w) = aw_requests w"
  "aw_drainers (set_admission k a w) = aw_drainers w"
  "aw_admission_lock (set_admission k a w) = aw_admission_lock w"
  "aw_transition_lock (set_admission k a w) = aw_transition_lock w"
  "aw_uncertain (set_admission k a w) = aw_uncertain w"
  "aw_health (set_admission k a w) = aw_health w"
  "aw_rejections (set_admission k a w) = aw_rejections w"
  "aw_shared (set_admission k a w) = aw_shared w"
  "aw_policy (set_admission k a w) = aw_policy w"
  by (simp_all add: set_admission_def split: option.splits)

lemma set_drainer_frame [simp, frame]:
  "aw_requests (set_drainer k d w) = aw_requests w"
  "aw_drainers (set_drainer k d w) = (aw_drainers w)(k := d)"
  "aw_admission_lock (set_drainer k d w) = aw_admission_lock w"
  "aw_transition_lock (set_drainer k d w) = aw_transition_lock w"
  "aw_uncertain (set_drainer k d w) = aw_uncertain w"
  "aw_health (set_drainer k d w) = aw_health w"
  "aw_rejections (set_drainer k d w) = aw_rejections w"
  "aw_lanes (set_drainer k d w) = aw_lanes w"
  "aw_shared (set_drainer k d w) = aw_shared w"
  "aw_policy (set_drainer k d w) = aw_policy w"
  by (simp_all add: set_drainer_def)

lemma complete_frame [simp, frame]:
  "aw_drainers (complete n r w) = aw_drainers w"
  "aw_admission_lock (complete n r w) = aw_admission_lock w"
  "aw_transition_lock (complete n r w) = aw_transition_lock w"
  "aw_uncertain (complete n r w) = aw_uncertain w"
  "aw_health (complete n r w) = aw_health w"
  "aw_rejections (complete n r w) = aw_rejections w"
  "aw_lanes (complete n r w) = aw_lanes w"
  "aw_shared (complete n r w) = aw_shared w"
  "aw_policy (complete n r w) = aw_policy w"
  by (simp_all add: complete_def answer_def)

lemma complete_requests:
  "aw_requests (complete n r w) =
     (if aw_requests w n = Some Awaiting then (aw_requests w)(n \<mapsto> Answered r) else aw_requests w)"
  by (simp add: complete_def answer_def)

lemma complete_holds [simp]:
  "holds_admission (aw_requests (complete n r w) m) = holds_admission (aw_requests w m)"
  "persisting (aw_requests (complete n r w) m) = persisting (aw_requests w m)"
  by (simp_all add: complete_requests)

lemma answer_frame [simp, frame]:
  "aw_requests (answer n r w) = (aw_requests w)(n \<mapsto> Answered r)"
  "aw_drainers (answer n r w) = aw_drainers w"
  "aw_admission_lock (answer n r w) = aw_admission_lock w"
  "aw_transition_lock (answer n r w) = aw_transition_lock w"
  "aw_uncertain (answer n r w) = aw_uncertain w"
  "aw_health (answer n r w) = aw_health w"
  "aw_rejections (answer n r w) = aw_rejections w"
  "aw_lanes (answer n r w) = aw_lanes w"
  "aw_shared (answer n r w) = aw_shared w"
  "aw_policy (answer n r w) = aw_policy w"
  by (simp_all add: answer_def)

text \<open>
  Changing the position of one request, or of one drainer, keeps the invariant when the mutexes
  change with it.
\<close>

lemma lock_inv_request:
  assumes "lock_inv w" and "aw_requests w' = (aw_requests w)(n := v)" and "aw_drainers w' = aw_drainers w"
    and "holds_admission v = holds_admission (aw_requests w n)" "persisting v = persisting (aw_requests w n)"
    and "aw_admission_lock w' = aw_admission_lock w" "aw_transition_lock w' = aw_transition_lock w"
  shows "lock_inv w'"
  using assms by (auto simp: lock_inv_def)

lemma lock_inv_same:
  assumes "lock_inv w" and "\<And>m. holds_admission (aw_requests w' m) = holds_admission (aw_requests w m)"
    and "\<And>m. persisting (aw_requests w' m) = persisting (aw_requests w m)"
    and "\<And>k. reconciling (aw_drainers w' k) = reconciling (aw_drainers w k)"
    and "aw_admission_lock w' = aw_admission_lock w" "aw_transition_lock w' = aw_transition_lock w"
  shows "lock_inv w'"
  using assms by (simp add: lock_inv_def)

lemma look_up_lane_lock: "lock_inv w \<Longrightarrow> lock_inv (look_up_lane fails fc n w)"
  by (erule lock_inv_same) (auto simp: look_up_lane_def split: option.splits request_state.splits sum.splits)

lemma insert_lane_lock: "lock_inv w \<Longrightarrow> lock_inv (insert_lane n w)"
  by (erule lock_inv_same) (auto simp: insert_lane_def split: option.splits request_state.splits)

lemma admit_lock:
  assumes "lock_inv w" and drain: "drain_inv w"
  shows "lock_inv (admit n w)"
proof (cases "aw_requests w n")
  case (Some q)
  then show ?thesis
  proof (cases q)
    case (Admitting rec observation)
    show ?thesis
    proof (cases "aw_lanes w (lane_key rec) = None \<or> aw_admission_lock w (lane_key rec) \<noteq> None")
      case True
      then show ?thesis
        using assms Some Admitting by (auto simp: admit_def Let_def split: option.splits)
    next
      case False
      then obtain lane where lane: "aw_lanes w (lane_key rec) = Some lane"
        and free: "aw_admission_lock w (lane_key rec) = None"
        by auto
      obtain admission r where push: "admission_push (sl_admission lane) (observation_class_of (oe_payload observation))
          \<lparr>pn_observation = observation, pn_request = n\<rparr> = (admission, r)"
        by fastforce
      show ?thesis
      proof (cases r)
        case (Inl refused)
        have "holds_admission (aw_requests w m) \<noteq> Some (lane_key rec)" for m
          using lock_invD(1) [OF assms(1)] free by fastforce
        then show ?thesis
          using assms Inl Some Admitting lane free push
          by (auto simp: admit_def Let_def lock_inv_def)
      next
        case (Inr replaced)
        have "sa_draining admission = sa_draining (sl_admission lane)"
          using push by (auto simp: admission_push_def split: prod.splits)
        moreover have "lane_drained (Some lane) (aw_drainers w (lane_key rec))"
          using drain unfolding drain_inv_def lane [symmetric] by blast
        ultimately have "sa_draining admission \<or> aw_drainers w (lane_key rec) = None"
          by (auto simp: lane_drained_def split: if_splits)
        then show ?thesis
          using Inr Some Admitting lane free push
          by (intro lock_inv_same [OF assms(1)]) (auto simp: admit_def Let_def split: option.splits)
      qed
    qed
  qed (use assms Some in \<open>simp_all add: admit_def\<close>)
qed (use assms in \<open>simp add: admit_def\<close>)

lemma take_transition_lock:
  assumes "lock_inv w"
  shows "lock_inv (take_transition n w)"
proof (cases "\<exists>rec observation e. aw_requests w n = Some (Rejected rec observation e) \<and> aw_transition_lock w = None")
  case True
  then obtain rec observation e where q: "aw_requests w n = Some (Rejected rec observation e)"
    and free: "aw_transition_lock w = None"
    by blast
  have "\<not> persisting (aw_requests w m)" "\<not> reconciling (aw_drainers w k)" for m k
    using lock_invD(2,3) [OF assms] free by fastforce+
  moreover have "holds_admission (aw_requests w n) = Some (lane_key rec)"
    by (simp add: q)
  ultimately show ?thesis
    using assms by (auto simp: take_transition_def q free lock_inv_def)
qed (use assms in \<open>auto simp: take_transition_def split: option.splits request_state.splits\<close>)

text \<open>Releasing the \<open>admission\<close> mutex of the request that holds it.\<close>

lemma release_admission:
  assumes "lock_inv w" and "holds_admission (aw_requests w n) = Some k"
  shows "((aw_admission_lock w)(k := None)) k' = Some m \<longleftrightarrow>
    holds_admission (aw_requests w m) = Some k' \<and> m \<noteq> n"
proof -
  have mine: "holds_admission (aw_requests w m) = Some k \<longleftrightarrow> aw_admission_lock w k = Some m" for m k
    using assms(1) by (simp add: lock_inv_def)
  have "aw_admission_lock w k = Some n"
    using assms(2) mine by blast
  then show ?thesis
    unfolding mine [of m k'] using mine [of n k'] assms(2) by auto
qed

lemma release_request_lock:
  assumes inv: "lock_inv w" and q: "aw_requests w n = Some (Persisting rec observation e)"
    and "aw_requests w' = (aw_requests w)(n := v)" "holds_admission v = None" "\<not> persisting v"
    and "aw_drainers w' = aw_drainers w" "aw_transition_lock w' = None"
    and "aw_admission_lock w' = (aw_admission_lock w)(lane_key rec := None)"
  shows "lock_inv w'"
proof -
  have held: "aw_admission_lock w (lane_key rec) = Some n" "aw_transition_lock w = Some (ByRequest n)"
    using lock_invD [OF inv] q by auto
  have "persisting (aw_requests w m) \<longleftrightarrow> m = n" "\<not> reconciling (aw_drainers w k)" for m k
    using inv held(2) by (auto simp: lock_inv_def)
  moreover have "holds_admission (aw_requests w n) = Some (lane_key rec)"
    by (simp add: q)
  from release_admission [OF inv this] have "aw_admission_lock w' k = Some m \<longleftrightarrow>
      holds_admission (aw_requests w m) = Some k \<and> m \<noteq> n" for k m
    using assms(8) by simp
  ultimately show ?thesis
    using assms(3-7) by (auto simp: lock_inv_def)
qed

lemma persist_rejection_lock: "lock_inv w \<Longrightarrow> lock_inv (persist_rejection fails n w)"
  by (cases "aw_requests w n")
    (auto simp: persist_rejection_def Let_def split: request_state.splits prod.splits sum.splits
      intro: release_request_lock)

lemma cancel_request_lock:
  assumes inv: "lock_inv w"
  shows "lock_inv (cancel_request n w)"
proof (cases "aw_requests w n")
  case (Some q)
  then show ?thesis
  proof (cases q)
    case (Rejected rec observation e)
    have "holds_admission (aw_requests w n) = Some (lane_key rec)" "\<not> persisting (aw_requests w n)"
      by (simp_all add: Some Rejected)
    with release_admission [OF inv this(1)] show ?thesis
      using inv by (auto simp: cancel_request_def Some Rejected lock_inv_def simp del: fun_upd_apply)
        (auto simp: Some Rejected split: if_splits)
  next
    case (Persisting rec observation e)
    then show ?thesis
      using Some by (intro release_request_lock [OF inv, where v = "Some Dropped"]) (simp_all add: cancel_request_def)
  qed (use inv Some in \<open>auto simp: cancel_request_def intro: lock_inv_request [OF inv]\<close>)
qed (use inv in \<open>simp add: cancel_request_def\<close>)

lemma pop_next_lock: "lock_inv w \<Longrightarrow> lock_inv (pop_next k w)"
  by (erule lock_inv_same) (auto simp: pop_next_def split: option.splits drainer_state.splits prod.splits)

lemma apply_next_lock: "lock_inv w \<Longrightarrow> lock_inv (apply_next fails fc from_slice k w)"
  by (erule lock_inv_same)
    (auto simp: apply_next_def Let_def split: option.splits drainer_state.splits prod.splits sum.splits)

lemma start_reconcile_lock:
  assumes "lock_inv w"
  shows "lock_inv (start_reconcile k w)"
proof (cases "aw_transition_lock w")
  case None
  then have "\<not> persisting (aw_requests w m)" "\<not> reconciling (aw_drainers w k)" for m k
    using lock_invD(2,3) [OF assms] by fastforce+
  then show ?thesis
    using assms None
    by (auto simp: start_reconcile_def lock_inv_def split: option.splits drainer_state.splits)
qed (use assms in \<open>auto simp: start_reconcile_def split: option.splits drainer_state.splits\<close>)

lemma release_drainer_lock:
  assumes inv: "lock_inv w" and "reconciling (aw_drainers w k)"
    and "\<And>m. holds_admission (aw_requests w' m) = holds_admission (aw_requests w m)"
    and "\<And>m. persisting (aw_requests w' m) = persisting (aw_requests w m)"
    and "aw_drainers w' = (aw_drainers w)(k := d)" "\<not> reconciling d" "aw_transition_lock w' = None"
    and "aw_admission_lock w' = aw_admission_lock w"
  shows "lock_inv w'"
proof -
  have "aw_transition_lock w = Some (ByDrainer k)"
    using lock_invD [OF inv] assms(2) by blast
  then have "\<not> persisting (aw_requests w m)" "reconciling (aw_drainers w j) \<longleftrightarrow> j = k" for m j
    using inv by (auto simp: lock_inv_def)
  then show ?thesis
    using inv assms(3-) by (auto simp: lock_inv_def)
qed

lemma clear_rejection_lock:
  assumes inv: "lock_inv w"
  shows "lock_inv (clear_rejection fails k w)"
proof (cases "aw_drainers w k")
  case (Some d)
  show ?thesis
  proof (cases "\<exists>pending r lane. d = Clearing pending r \<and> aw_lanes w k = Some lane")
    case True
    then obtain pending r lane where d: "aw_drainers w k = Some (Clearing pending r)" "aw_lanes w k = Some lane"
      using Some by blast
    obtain rej cleared where c: "clear_queue_rejection fails (aw_rejections w)
        (oe_observation_id (pn_observation pending)) (st_session (sl_record lane)) = (rej, cleared)"
      by fastforce
    show ?thesis
    proof (cases cleared)
      case (Inl e)
      then show ?thesis
        by (intro release_drainer_lock [OF inv, of k]) (auto simp: clear_rejection_def d c Let_def complete_requests)
    next
      case (Inr remaining)
      then show ?thesis
        by (intro lock_inv_same [OF inv]) (auto simp: clear_rejection_def d c Let_def)
    qed
  qed (use inv Some in \<open>auto simp: clear_rejection_def split: drainer_state.splits option.splits\<close>)
qed (use inv in \<open>simp add: clear_rejection_def\<close>)

lemma reopen_admission_lock:
  assumes inv: "lock_inv w"
  shows "lock_inv (reopen_admission k w)"
proof (cases "\<exists>pending r remaining lane. aw_drainers w k = Some (Reopening pending r remaining) \<and>
    aw_lanes w k = Some lane \<and> aw_admission_lock w k = None")
  case True
  then obtain pending r remaining lane where d: "aw_drainers w k = Some (Reopening pending r remaining)"
      "aw_lanes w k = Some lane" "aw_admission_lock w k = None"
    by blast
  show ?thesis
    by (intro release_drainer_lock [OF inv, of k])
      (auto simp: reopen_admission_def d Let_def complete_requests split: prod.splits)
qed (use inv in \<open>auto simp: reopen_admission_def split: option.splits drainer_state.splits\<close>)

lemma api_step_lock: "lock_inv w \<Longrightarrow> drain_inv w \<Longrightarrow> lock_inv (fst (api_step fc from_slice w call))"
proof (cases call)
  case (Arrive n rec observation)
  then show "lock_inv w \<Longrightarrow> drain_inv w \<Longrightarrow> ?thesis"
    by (auto intro: lock_inv_request)
next
  case (CallLane fails k op)
  then show "lock_inv w \<Longrightarrow> drain_inv w \<Longrightarrow> ?thesis"
    by (auto elim!: lock_inv_same split: option.splits prod.splits)
qed (auto simp: look_up_lane_lock insert_lane_lock admit_lock take_transition_lock persist_rejection_lock
    cancel_request_lock pop_next_lock apply_next_lock start_reconcile_lock clear_rejection_lock
    reopen_admission_lock update_policy_api_def configure_health_def elim!: lock_inv_same)

section \<open>One drainer per lane\<close>

lemma build_lane_idle: "build_lane fails fc w rec now = Inr lane \<Longrightarrow> idle_lane lane"
  by (auto simp: build_lane_def result_elims session_admission_new_def session_queue_new_def idle_lane_def ok_def
      split: option.splits if_splits sum.splits)

text \<open>Changing a lane and its drainer, or one request that is not building a lane.\<close>

lemma drain_inv_lane:
  assumes "drain_inv w" and "aw_lanes w' = (aw_lanes w)(k := v)" and "aw_drainers w' = (aw_drainers w)(k := d)"
    and "lane_drained v d" and "\<And>n. built_lane (aw_requests w' n) \<in> {None, built_lane (aw_requests w n)}"
  shows "drain_inv w'"
  unfolding drain_inv_def
proof (intro conjI allI impI)
  fix j
  show "lane_drained (aw_lanes w' j) (aw_drainers w' j)"
    using assms(1-4) by (cases "j = k") (auto simp: drain_inv_def)
next
  fix n lane
  assume "built_lane (aw_requests w' n) = Some lane"
  then have "built_lane (aw_requests w n) = Some lane"
    using assms(5) [of n] by auto
  then show "idle_lane lane"
    using assms(1) by (auto simp: drain_inv_def)
qed

lemma drain_inv_same:
  assumes "drain_inv w" and "\<And>k. map_option sl_admission (aw_lanes w' k) = map_option sl_admission (aw_lanes w k)"
    and "aw_drainers w' = aw_drainers w"
    and "\<And>n. built_lane (aw_requests w' n) \<in> {None, built_lane (aw_requests w n)}"
  shows "drain_inv w'"
  unfolding drain_inv_def
proof (intro conjI allI impI)
  fix j
  show "lane_drained (aw_lanes w' j) (aw_drainers w' j)"
    using assms(1) assms(2) [of j] assms(3)
    by (cases "aw_lanes w j"; cases "aw_lanes w' j")
      (auto simp: drain_inv_def lane_drained_def idle_lane_def dest!: spec [of _ j] split: if_splits)
next
  fix n lane
  assume "built_lane (aw_requests w' n) = Some lane"
  then have "built_lane (aw_requests w n) = Some lane"
    using assms(4) [of n] by auto
  then show "idle_lane lane"
    using assms(1) by (auto simp: drain_inv_def)
qed

lemma complete_built [simp]: "built_lane (aw_requests (complete n r w) m) = built_lane (aw_requests w m)"
  by (simp add: complete_requests)

lemma set_admission_lanes:
  "aw_lanes w k = Some lane \<Longrightarrow>
     aw_lanes (set_admission k a w) = (aw_lanes w)(k \<mapsto> lane\<lparr>sl_admission := a\<rparr>)"
  by (simp add: set_admission_def)

lemma drained: "drain_inv w \<Longrightarrow> lane_drained (aw_lanes w k) (aw_drainers w k)"
  by (simp add: drain_inv_def)

lemma look_up_lane_drain:
  assumes "drain_inv w"
  shows "drain_inv (look_up_lane fails fc n w)"
proof (cases "\<exists>rec observation lane. aw_requests w n = Some (Arrived rec observation) \<and> aw_lanes w (lane_key rec) = None \<and>
    build_lane fails fc w rec (oe_observed_at observation) = Inr lane")
  case True
  then obtain rec observation lane where c: "aw_requests w n = Some (Arrived rec observation)"
      "aw_lanes w (lane_key rec) = None" "build_lane fails fc w rec (oe_observed_at observation) = Inr lane"
    by blast
  then show ?thesis
    using assms build_lane_idle [OF c(3)] by (auto simp: look_up_lane_def drain_inv_def)
next
  case False
  then show ?thesis
    by (intro drain_inv_same [OF assms]) (auto simp: look_up_lane_def split: option.splits request_state.splits sum.splits)
qed

lemma insert_lane_drain:
  assumes "drain_inv w"
  shows "drain_inv (insert_lane n w)"
proof (cases "\<exists>rec observation lane. aw_requests w n = Some (LaneBuilt rec observation lane) \<and> aw_lanes w (lane_key rec) = None")
  case True
  then obtain rec observation lane where c: "aw_requests w n = Some (LaneBuilt rec observation lane)"
      "aw_lanes w (lane_key rec) = None"
    by blast
  have "built_lane (aw_requests w n) = Some lane"
    by (simp add: c)
  then have "idle_lane lane"
    using assms unfolding drain_inv_def by blast
  moreover have "aw_drainers w (lane_key rec) = None"
    using c(2) drained [OF assms, of "lane_key rec"] by (simp add: lane_drained_def)
  ultimately show ?thesis
    by (intro drain_inv_lane [OF assms, of _ "lane_key rec" "Some lane" None])
      (auto simp: insert_lane_def c lane_drained_def)
next
  case False
  then show ?thesis
    by (intro drain_inv_same [OF assms]) (auto simp: insert_lane_def split: option.splits request_state.splits)
qed

lemma admission_push_cases:
  assumes "admission_push admission cls v = (admission', r)"
  shows "sa_draining admission' = sa_draining admission"
    and "r = Inl e \<Longrightarrow> sq_entries (sa_queue admission') = sq_entries (sa_queue admission)"
  using assms by (auto simp: admission_push_def try_push_replacing_def split: prod.splits option.splits if_splits)

lemma admit_drain:
  assumes "drain_inv w"
  shows "drain_inv (admit n w)"
proof (cases "\<exists>rec observation lane. aw_requests w n = Some (Admitting rec observation) \<and>
    aw_lanes w (lane_key rec) = Some lane \<and> aw_admission_lock w (lane_key rec) = None")
  case True
  then obtain rec observation lane where c: "aw_requests w n = Some (Admitting rec observation)"
      "aw_lanes w (lane_key rec) = Some lane" "aw_admission_lock w (lane_key rec) = None"
    by blast
  let ?k = "lane_key rec"
  obtain admission r where push: "admission_push (sl_admission lane) (observation_class_of (oe_payload observation))
      \<lparr>pn_observation = observation, pn_request = n\<rparr> = (admission, r)"
    by fastforce
  note cases = admission_push_cases [OF push]
  show ?thesis
  proof (cases r)
    case (Inl refused)
    have "lane_drained (Some (lane\<lparr>sl_admission := admission\<rparr>)) (aw_drainers w ?k)"
      using drained [OF assms, of ?k] cases(1) cases(2) [OF Inl] c(2)
      by (auto simp: lane_drained_def idle_lane_def)
    then show ?thesis
      by (intro drain_inv_lane [OF assms, of _ ?k _ "aw_drainers w ?k"])
        (auto simp: admit_def c push Inl Let_def set_admission_lanes)
  next
    case (Inr replaced)
    show ?thesis
      by (rule drain_inv_lane [OF assms, of _ ?k "Some (lane\<lparr>sl_admission := admission\<lparr>sa_draining := True\<rparr>\<rparr>)"
            "if sa_draining admission then aw_drainers w ?k else Some Popping"])
        (use drained [OF assms, of ?k] cases(1) in
          \<open>auto simp: admit_def c push Inr Let_def set_admission_lanes lane_drained_def idle_lane_def
             split: option.splits if_splits\<close>)
  qed
qed (use assms in \<open>auto simp: admit_def Let_def split: option.splits request_state.splits\<close>)

lemma take_transition_drain: "drain_inv w \<Longrightarrow> drain_inv (take_transition n w)"
  by (erule drain_inv_same) (auto simp: take_transition_def split: option.splits request_state.splits)

lemma persist_rejection_drain: "drain_inv w \<Longrightarrow> drain_inv (persist_rejection fails n w)"
  by (erule drain_inv_same)
    (auto simp: persist_rejection_def Let_def split: option.splits request_state.splits prod.splits sum.splits)

lemma cancel_request_drain: "drain_inv w \<Longrightarrow> drain_inv (cancel_request n w)"
  by (erule drain_inv_same) (auto simp: cancel_request_def Let_def split: option.splits request_state.splits)

text \<open>The drainer's own steps start and end with a running drainer, but for the last.\<close>

lemma drainer_running:
  assumes "drain_inv w" and "aw_drainers w k = Some d" and "aw_lanes w k = Some lane"
  shows "sa_draining (sl_admission lane)"
  using drained [OF assms(1), of k] assms(2,3) by (simp add: lane_drained_def)

lemma pop_next_drain:
  assumes inv: "drain_inv w"
  shows "drain_inv (pop_next k w)"
proof (cases "\<exists>lane. aw_drainers w k = Some Popping \<and> aw_lanes w k = Some lane \<and> aw_admission_lock w k = None")
  case True
  then obtain lane where c: "aw_drainers w k = Some Popping" "aw_lanes w k = Some lane" "aw_admission_lock w k = None"
    by blast
  have run: "sa_draining (sl_admission lane)"
    using drainer_running [OF inv c(1,2)] .
  show ?thesis
  proof (cases "sq_entries (sa_queue (sl_admission lane))")
    case Nil
    then show ?thesis
      by (intro drain_inv_lane [OF inv, of _ k _ None])
        (auto simp: pop_next_def c admission_pop_def queue_pop_def set_admission_lanes lane_drained_def idle_lane_def)
  next
    case (Cons e es)
    then show ?thesis
      using run by (intro drain_inv_lane [OF inv, of _ k _ "Some (Applying (qe_value e))"])
        (auto simp: pop_next_def c admission_pop_def queue_pop_def set_admission_lanes lane_drained_def)
  qed
qed (use inv in \<open>auto simp: pop_next_def split: option.splits drainer_state.splits\<close>)

lemma apply_next_drain:
  assumes inv: "drain_inv w"
  shows "drain_inv (apply_next fails fc from_slice k w)"
proof (cases "\<exists>pending lane. aw_drainers w k = Some (Applying pending) \<and> aw_lanes w k = Some lane")
  case True
  then obtain pending lane where c: "aw_drainers w k = Some (Applying pending)" "aw_lanes w k = Some lane"
    by blast
  obtain shared coordinator r where call: "apply_queued_observation fails fc from_slice
      (aw_shared w, sl_coordinator lane) (pn_observation pending) = ((shared, coordinator), r)"
    by (metis surj_pair)
  show ?thesis
    using drainer_running [OF inv c]
    by (intro drain_inv_lane [OF inv, of _ k "Some (lane\<lparr>sl_coordinator := coordinator\<rparr>)"
          "Some (case r of Inl e \<Rightarrow> Popping | Inr r \<Rightarrow> Reconciling pending r)"])
      (auto simp: apply_next_def c call Let_def lane_drained_def split: sum.splits)
qed (use inv in \<open>auto simp: apply_next_def split: option.splits drainer_state.splits\<close>)

lemma drain_inv_drainer:
  assumes "drain_inv w" and "aw_drainers w k = Some d" and "aw_drainers w' = (aw_drainers w)(k \<mapsto> d')"
    and "\<And>k. map_option (\<lambda>l. (sa_draining (sl_admission l), sq_entries (sa_queue (sl_admission l)))) (aw_lanes w' k) =
           map_option (\<lambda>l. (sa_draining (sl_admission l), sq_entries (sa_queue (sl_admission l)))) (aw_lanes w k)"
    and "\<And>n. built_lane (aw_requests w' n) = built_lane (aw_requests w n)"
  shows "drain_inv w'"
  unfolding drain_inv_def
proof (intro conjI allI impI)
  fix j
  show "lane_drained (aw_lanes w' j) (aw_drainers w' j)"
    using drained [OF assms(1), of j] assms(2,3) assms(4) [of j]
    by (cases "aw_lanes w j"; cases "aw_lanes w' j") (auto simp: lane_drained_def idle_lane_def split: if_splits)
qed (use assms(1,5) in \<open>simp add: drain_inv_def\<close>)

lemma start_reconcile_drain: "drain_inv w \<Longrightarrow> drain_inv (start_reconcile k w)"
  by (cases "aw_drainers w k")
    (auto simp: start_reconcile_def split: drainer_state.splits option.splits intro: drain_inv_drainer)

lemma clear_rejection_drain: "drain_inv w \<Longrightarrow> drain_inv (clear_rejection fails k w)"
  by (cases "aw_drainers w k")
    (auto simp: clear_rejection_def Let_def split: drainer_state.splits option.splits prod.splits sum.splits
      intro: drain_inv_drainer)

lemma reopen_admission_drain:
  assumes inv: "drain_inv w"
  shows "drain_inv (reopen_admission k w)"
proof (cases "\<exists>pending r remaining lane. aw_drainers w k = Some (Reopening pending r remaining) \<and>
    aw_lanes w k = Some lane \<and> aw_admission_lock w k = None")
  case True
  then obtain pending r remaining lane where c: "aw_drainers w k = Some (Reopening pending r remaining)"
      "aw_lanes w k = Some lane" "aw_admission_lock w k = None"
    by blast
  have "sa_draining (fst (admission_reconcile_rejected (sl_admission lane) remaining))"
    using drainer_running [OF inv c(1,2)] by (simp add: admission_reconcile_rejected_def)
  then show ?thesis
    by (intro drain_inv_lane [OF inv, of _ k "Some (lane\<lparr>sl_admission :=
          fst (admission_reconcile_rejected (sl_admission lane) remaining)\<rparr>)" "Some Popping"])
      (auto simp: reopen_admission_def c Let_def set_admission_lanes lane_drained_def complete_requests
        split: prod.splits)
qed (use inv in \<open>auto simp: reopen_admission_def split: option.splits drainer_state.splits\<close>)

lemma api_step_drain: "drain_inv w \<Longrightarrow> drain_inv (fst (api_step fc from_slice w call))"
proof (cases call)
  case (Arrive n rec observation)
  then show "drain_inv w \<Longrightarrow> ?thesis"
    by (auto elim!: drain_inv_same split: if_splits)
next
  case (CallLane fails k op)
  then show "drain_inv w \<Longrightarrow> ?thesis"
    by (auto elim!: drain_inv_same split: option.splits prod.splits)
next
  case (ReloadPolicy policy)
  then show "drain_inv w \<Longrightarrow> ?thesis"
    by (auto elim!: drain_inv_same simp: update_policy_api_def option.map_comp o_def)
qed (auto simp: look_up_lane_drain insert_lane_drain admit_drain take_transition_drain persist_rejection_drain
    cancel_request_drain pop_next_drain apply_next_drain start_reconcile_drain clear_rejection_drain
    reopen_admission_drain configure_health_def elim!: drain_inv_same)

interpretation tasks: logged_machine "api_step fc from_slice" "\<lambda>w (_ :: unit list). lock_inv w \<and> drain_inv w"
  for fc :: "'j foreign_code" and from_slice
  by unfold_locales (simp add: api_step_lock api_step_drain)

lemma api_start_inv:
  assumes "api_start fails fc db rej policy = Inr w"
  shows "lock_inv w \<and> drain_inv w"
  using assms by (auto simp: api_start_def result_elims lock_inv_def drain_inv_def lane_drained_def)

text \<open>
  The states of a process: those reached from its start, on a store whose refused evidence belongs
  to stored sessions (the foreign keys of the two tables).
\<close>

definition rejections_known :: "'j db \<Rightarrow> rejection_db \<Rightarrow> bool" where
  "rejections_known db rej \<longleftrightarrow>
     (\<forall>k \<in> (fst \<circ> snd) ` set (rj_rows rej) \<union> fst ` set (rj_overflow rej). known_session db k)"

definition reachable :: "'j foreign_code \<Rightarrow> ('j \<Rightarrow> observation_envelope option) \<Rightarrow> 'j api_world \<Rightarrow> bool" where
  "reachable fc from_slice w \<longleftrightarrow> (\<exists>fails db rej policy w0 calls.
     rejections_known db rej \<and> api_start fails fc db rej policy = Inr w0 \<and> w = fst (run_machine (api_step fc from_slice) w0 calls))"

lemma reachable_inv: "reachable fc from_slice w \<Longrightarrow> lock_inv w \<and> drain_inv w"
  using tasks.run_log api_start_inv unfolding reachable_def by blast

section \<open>Answers\<close>

lemma answered_final:
  assumes "aw_requests w m = Some (Answered r)"
  shows "aw_requests (fst (api_step fc from_slice w call)) m = Some (Answered r)"
  using assms
  by (cases call)
    (auto simp: look_up_lane_def insert_lane_def admit_def take_transition_def persist_rejection_def
      cancel_request_def pop_next_def apply_next_def start_reconcile_def clear_rejection_def reopen_admission_def
      update_policy_api_def configure_health_def complete_requests Let_def
      split: option.splits request_state.splits drainer_state.splits prod.splits sum.splits if_splits)

section \<open>A deadlock\<close>

text \<open>
  A refused request keeps the lane's \<open>admission\<close> mutex while it waits for \<open>queue_health_transition\<close>;
  the drainer of the lane, after an applied observation, holds \<open>queue_health_transition\<close> while it
  waits for \<open>admission\<close>. In \<open>deadlocked n k w\<close> request \<open>n\<close> and the drainer of lane \<open>k\<close> wait for each
  other.
\<close>

definition deadlocked :: "nat \<Rightarrow> session_id \<Rightarrow> 'j api_world \<Rightarrow> bool" where
  "deadlocked n k w \<longleftrightarrow>
     (case aw_requests w n of Some (Rejected rec observation e) \<Rightarrow> lane_key rec = k | _ \<Rightarrow> False) \<and>
     (case aw_drainers w k of Some (Reopening pending r remaining) \<Rightarrow> True | _ \<Rightarrow> False) \<and>
     aw_admission_lock w k = Some n \<and> aw_transition_lock w = Some (ByDrainer k)"

lemma deadlockedE:
  assumes "deadlocked n k w"
  obtains rec observation e pending r remaining where
    "aw_requests w n = Some (Rejected rec observation e)" "lane_key rec = k"
    "aw_drainers w k = Some (Reopening pending r remaining)" "aw_admission_lock w k = Some n"
    "aw_transition_lock w = Some (ByDrainer k)"
  using assms by (auto simp: deadlocked_def split: option.splits request_state.splits drainer_state.splits)

lemma deadlocked_same:
  assumes "deadlocked n k w" and "aw_requests w' n = aw_requests w n" "aw_drainers w' k = aw_drainers w k"
    "aw_admission_lock w' k = aw_admission_lock w k" "aw_transition_lock w' = aw_transition_lock w"
  shows "deadlocked n k w'"
  using assms by (simp add: deadlocked_def)

lemma deadlocked_others:
  assumes "lock_inv w" and "deadlocked n k w"
  shows "holds_admission (aw_requests w m) = Some k \<Longrightarrow> m = n"
    and "\<not> persisting (aw_requests w m)"
    and "reconciling (aw_drainers w j) \<Longrightarrow> j = k"
  using assms(2) lock_invD [OF assms(1)] by (auto elim!: deadlockedE dest!: lock_invD [OF assms(1)])

lemma deadlocked_step:
  assumes inv: "lock_inv w" and dead: "deadlocked n k w" and "call \<noteq> CancelRequest n"
  shows "deadlocked n k (fst (api_step fc from_slice w call))"
proof -
  note others = deadlocked_others [OF inv dead]
  obtain rec observation e pending r remaining where d:
    "aw_requests w n = Some (Rejected rec observation e)" "lane_key rec = k"
    "aw_drainers w k = Some (Reopening pending r remaining)" "aw_admission_lock w k = Some n"
    "aw_transition_lock w = Some (ByDrainer k)"
    using dead by (rule deadlockedE)
  show ?thesis
  proof (cases call)
    case (Admit m)
    then show ?thesis
      using d by (intro deadlocked_same [OF dead])
        (auto simp: admit_def complete_requests Let_def split: option.splits request_state.splits prod.splits sum.splits)
  next
    case (PersistRejection fails m)
    have "persist_rejection fails m w = w"
      using others(2) [of m] by (cases "aw_requests w m" rule: option.exhaust)
        (auto simp: persist_rejection_def split: request_state.splits)
    then show ?thesis
      using dead PersistRejection by simp
  next
    case (CancelRequest m)
    have "m \<noteq> n"
      using assms(3) CancelRequest by simp
    then have "holds_admission (aw_requests w m) \<noteq> Some k" "\<not> persisting (aw_requests w m)"
      using others by blast+
    then show ?thesis
      using CancelRequest \<open>m \<noteq> n\<close> by (intro deadlocked_same [OF dead])
        (auto simp: cancel_request_def Let_def split: option.splits request_state.splits)
  next
    case (ClearRejection fails j)
    have "clear_rejection fails j w = w"
      using others(3) [of j] d by (auto simp: clear_rejection_def split: option.splits drainer_state.splits)
    then show ?thesis
      using dead ClearRejection by simp
  next
    case (ReopenAdmission j)
    have "reopen_admission j w = w"
      using others(3) [of j] d by (auto simp: reopen_admission_def split: option.splits drainer_state.splits)
    then show ?thesis
      using dead ReopenAdmission by simp
  qed (use d in \<open>auto simp: deadlocked_def look_up_lane_def insert_lane_def take_transition_def pop_next_def apply_next_def
      start_reconcile_def update_policy_api_def configure_health_def complete_requests Let_def
      split: option.splits request_state.splits drainer_state.splits prod.splits sum.splits\<close>)
qed

lemma acknowledged_by_reopen:
  assumes "aw_requests (fst (api_step fc from_slice w call)) m = Some (Answered (Inr x))"
    and "aw_requests w m \<noteq> Some (Answered (Inr x))"
  obtains j where "call = ReopenAdmission j" "aw_admission_lock w j = None" "reconciling (aw_drainers w j)"
  using assms
  by (cases call)
    (auto simp: look_up_lane_def insert_lane_def admit_def take_transition_def persist_rejection_def
      cancel_request_def pop_next_def apply_next_def start_reconcile_def clear_rejection_def reopen_admission_def
      update_policy_api_def configure_health_def complete_requests Let_def
      split: option.splits request_state.splits drainer_state.splits prod.splits sum.splits if_splits)

text \<open>
  The deadlock is permanent and stops every lane: once request \<open>n\<close> and the drainer of lane \<open>k\<close>
  wait for each other, they do so in every continuation in which the caller does not drop request
  \<open>n\<close>, and from then on no request of any lane is ever answered with success.
\<close>
theorem deadlock_stops_admission:
  assumes "reachable fc from_slice w" and "deadlocked n k w"
    and "w' = fst (run_machine (api_step fc from_slice) w calls)" and "CancelRequest n \<notin> set calls"
  shows "deadlocked n k w' \<and>
    (\<forall>m x. aw_requests w' m = Some (Answered (Inr x)) \<longrightarrow> aw_requests w m = Some (Answered (Inr x)))"
proof -
  have "lock_inv w \<and> drain_inv w"
    using assms(1) by (rule reachable_inv)
  then show ?thesis
    using assms(2,4) unfolding assms(3)
  proof (induction calls arbitrary: w)
    case (Cons call calls)
    let ?w = "fst (api_step fc from_slice w call)"
    have inv: "lock_inv ?w \<and> drain_inv ?w" "deadlocked n k ?w"
      using Cons.prems by (auto intro: api_step_lock api_step_drain deadlocked_step)
    have "aw_requests w m = Some (Answered (Inr x))" if "aw_requests ?w m = Some (Answered (Inr x))" for m x
    proof (rule ccontr)
      assume "aw_requests w m \<noteq> Some (Answered (Inr x))"
      with that obtain j where "aw_admission_lock w j = None" "reconciling (aw_drainers w j)"
        by (rule acknowledged_by_reopen)
      moreover have "aw_admission_lock w k = Some n"
        using Cons.prems(2) by (simp add: deadlocked_def)
      ultimately show False
        using deadlocked_others(3) [of w n k j] Cons.prems by auto
    qed
    then show ?case
      using Cons.IH [OF inv] Cons.prems(3) by auto
  qed simp
qed

text \<open>A lane whose drainer has applied an observation while \<open>j\<close> durable ones wait behind it.\<close>

definition filling :: "stored_session_record \<Rightarrow> nat \<Rightarrow> 'j api_world \<Rightarrow> bool" where
  "filling rec j w \<longleftrightarrow> (\<exists>lane pending r. aw_lanes w (lane_key rec) = Some lane \<and>
     sq_capacity (sa_queue (sl_admission lane)) = OBSERVATION_QUEUE_CAPACITY \<and>
     length (sq_entries (sa_queue (sl_admission lane))) = j \<and> sa_draining (sl_admission lane) \<and>
     aw_drainers w (lane_key rec) = Some (Reconciling pending r)) \<and>
     aw_admission_lock w = Map.empty \<and> aw_transition_lock w = None \<and> aw_uncertain w = {} \<and>
     (\<forall>m > Suc j. aw_requests w m = None)"

definition submit :: "stored_session_record \<Rightarrow> observation_envelope \<Rightarrow> nat \<Rightarrow> api_call list" where
  "submit rec observation n = [Arrive n rec observation, LookUpLane (\<lambda>_. False) n, Admit n]"

lemma push_durable:
  assumes "observation_class_of (oe_payload (pn_observation p)) = Durable"
  shows "admission_push admission Durable p =
     (if length (sq_entries (sa_queue admission)) = sq_capacity (sa_queue admission)
      then (admission\<lparr>sa_queue := (sa_queue admission)\<lparr>sq_degraded := True\<rparr>\<rparr>, Inl (Backpressure p))
      else (admission\<lparr>sa_queue := (sa_queue admission)\<lparr>sq_entries :=
              sq_entries (sa_queue admission) @ [\<lparr>qe_class = Durable, qe_value = p\<rparr>]\<rparr>\<rparr>, Inr None))"
  by (simp add: admission_push_def try_push_replacing_def)

lemma fill_one:
  assumes "filling rec j w" and "j < OBSERVATION_QUEUE_CAPACITY"
    and "observation_class_of (oe_payload observation) = Durable"
  shows "filling rec (Suc j) (fst (run_machine (api_step fc from_slice) w (submit rec observation (j + 2))))"
proof -
  obtain lane pending r where f: "aw_lanes w (lane_key rec) = Some lane"
     "sq_capacity (sa_queue (sl_admission lane)) = OBSERVATION_QUEUE_CAPACITY"
     "length (sq_entries (sa_queue (sl_admission lane))) = j" "sa_draining (sl_admission lane)"
     "aw_drainers w (lane_key rec) = Some (Reconciling pending r)"
     "aw_admission_lock w = Map.empty" "aw_transition_lock w = None" "aw_uncertain w = {}"
     "aw_requests w (Suc (Suc j)) = None" "\<forall>m > Suc j. aw_requests w m = None"
    using assms(1) by (auto simp: filling_def)
  show ?thesis
    using f assms(2,3) by (simp add: submit_def look_up_lane_def admit_def push_durable set_admission_lanes Let_def filling_def)
qed

lemma fill_all:
  assumes "filling rec 0 w" and "observation_class_of (oe_payload observation) = Durable"
    and "j \<le> OBSERVATION_QUEUE_CAPACITY"
  shows "filling rec j (fst (run_machine (api_step fc from_slice) w
     (concat (map (\<lambda>i. submit rec observation (i + 2)) [0..<j]))))"
  using assms(3)
proof (induction j)
  case (Suc j)
  then show ?case
    using fill_one [OF _ _ assms(2), of rec j] by (simp add: run_machine_append_parts)
qed (use assms(1) in simp)

lemma fill_to_deadlock:
  assumes "filling rec OBSERVATION_QUEUE_CAPACITY w" and "observation_class_of (oe_payload observation) = Durable"
  shows "deadlocked (OBSERVATION_QUEUE_CAPACITY + 2) (lane_key rec) (fst (run_machine (api_step fc from_slice) w
     (submit rec observation (OBSERVATION_QUEUE_CAPACITY + 2) @ [StartReconcile (lane_key rec)])))"
proof -
  let ?n = "OBSERVATION_QUEUE_CAPACITY + 2"
  obtain lane pending r where f: "aw_lanes w (lane_key rec) = Some lane"
     "sq_capacity (sa_queue (sl_admission lane)) = OBSERVATION_QUEUE_CAPACITY"
     "length (sq_entries (sa_queue (sl_admission lane))) = OBSERVATION_QUEUE_CAPACITY"
     "aw_drainers w (lane_key rec) = Some (Reconciling pending r)"
     "aw_admission_lock w = Map.empty" "aw_transition_lock w = None" "aw_uncertain w = {}"
     "aw_requests w ?n = None"
    using assms(1) by (auto simp: filling_def)
  then show ?thesis
    using assms(2) by (simp add: submit_def look_up_lane_def admit_def push_durable set_admission_lanes Let_def
        run_machine_append_parts start_reconcile_def deadlocked_def)
qed

section \<open>Witness of the deadlock\<close>

fun observation_of_doc :: "document \<Rightarrow> observation_envelope option" where
  "observation_of_doc (ObservationDoc observation) = Some observation"
| "observation_of_doc _ = None"

definition sample_record :: stored_session_record where
  "sample_record = \<lparr>st_session = ChildIdentity (ChildSessionId stored_session),
     st_root = MainSessionId (SessionId 9), st_native = stored_key\<rparr>"

definition no_rejections :: rejection_db where
  "no_rejections = \<lparr>rj_rows = [], rj_overflow = []\<rparr>"

definition sample_api :: "document api_world" where
  "sample_api = \<lparr>aw_shared = \<lparr>sh_db = empty_db, sh_next_event = 1\<rparr>, aw_policy = default_reducer_policy,
     aw_rejections = no_rejections, aw_uncertain = {}, aw_health = None, aw_lanes = Map.empty,
     aw_requests = Map.empty, aw_drainers = Map.empty, aw_admission_lock = Map.empty, aw_transition_lock = None\<rparr>"

lemma sample_api_start:
  "api_start (\<lambda>_. False) sample_code empty_db no_rejections default_reducer_policy = Inr sample_api"
  by (simp add: api_start_def event_sequence_from_store_def first_unallocated_event_id_def run_sql_def max_event_id_def
      empty_db_def checked_add_i64_def u64_of_i64_def queue_uncertain_sessions_def no_rejections_def sample_api_def
      i64_max_def i64_min_def)

lemma no_rejections_known: "rejections_known db no_rejections"
  by (simp add: rejections_known_def no_rejections_def)

definition running_observation :: observation_envelope where
  "running_observation = stored_observation 1 5 (NativeState Running)"

definition first_calls :: "api_call list" where
  "first_calls = [Arrive 0 sample_record (stored_observation 9 1 IntentionalWait), LookUpLane (\<lambda>_. False) 0,
     InsertLane 0, CancelRequest 0] @ submit sample_record running_observation 1 @
     [PopNext (lane_key sample_record), ApplyNext (\<lambda>_. False) (lane_key sample_record)]"

lemma first_calls_fill:
  "filling sample_record 0 (fst (run_machine (api_step sample_code observation_of_doc) sample_api first_calls))"
proof -
  have applied: "coordinator_apply_observation (\<lambda>_. False) sample_code started_world running_observation =
      (running_world, Inr Applied)"
    using running_applied by (simp add: running_op_def running_observation_def)
  obtain shared lane where rw: "running_world = (shared, lane)"
    by fastforce
  have durable: "observation_class_of (oe_payload running_observation) = Durable"
    by (simp add: running_observation_def stored_observation_def)
  have time: "oe_observed_at (stored_observation 9 1 IntentionalWait) = stored_time 1"
    by (simp add: stored_observation_def)
  have empty: "db_snapshots (empty_db :: document db) = []" "db_observations (empty_db :: document db) = []"
    by (simp_all add: empty_db_def)
  note applied [unfolded started_world_def rw started_snapshot_def, simp]
  show ?thesis
    by (simp add: first_calls_def sample_api_def submit_def look_up_lane_def insert_lane_def cancel_request_def
        build_lane_def load_snapshot_def run_sql_def load_optional_json_def session_admission_new_def
        session_queue_new_def OBSERVATION_QUEUE_CAPACITY_def time empty Let_def admit_def push_durable durable
        pop_next_def apply_next_def set_admission_def set_drainer_def admission_pop_def queue_pop_def
        apply_queued_observation_def load_observation_def sample_record_def lane_key_def filling_def)
qed

definition deadlock_calls :: "api_call list" where
  "deadlock_calls = first_calls @
     concat (map (\<lambda>i. submit sample_record running_observation (i + 2)) [0..<OBSERVATION_QUEUE_CAPACITY]) @
     submit sample_record running_observation (OBSERVATION_QUEUE_CAPACITY + 2) @
     [StartReconcile (lane_key sample_record)]"

definition deadlocked_api :: "document api_world" where
  "deadlocked_api = fst (run_machine (api_step sample_code observation_of_doc) sample_api deadlock_calls)"

lemma deadlocked_api_reached:
  "reachable sample_code observation_of_doc deadlocked_api"
  "deadlocked (OBSERVATION_QUEUE_CAPACITY + 2) (lane_key sample_record) deadlocked_api"
proof -
  show "reachable sample_code observation_of_doc deadlocked_api"
    unfolding reachable_def deadlocked_api_def using sample_api_start no_rejections_known by blast
  have durable: "observation_class_of (oe_payload running_observation) = Durable"
    by (simp add: running_observation_def stored_observation_def)
  show "deadlocked (OBSERVATION_QUEUE_CAPACITY + 2) (lane_key sample_record) deadlocked_api"
    using fill_to_deadlock [OF fill_all [OF first_calls_fill durable order_refl] durable]
    by (simp only: deadlocked_api_def deadlock_calls_def run_machine_append_parts append_assoc)
qed

text \<open>
  C9. The deadlock can happen: with one session, a burst of observations that fills its queue of 64
  while one of them is being applied, and one observation more, there is a schedule in which the
  refused request and the drainer of the lane wait for each other.
\<close>
theorem admission_deadlock_reachable:
  "\<exists>calls w. w = fst (run_machine (api_step sample_code observation_of_doc) sample_api calls) \<and>
     api_start (\<lambda>_. False) sample_code empty_db no_rejections default_reducer_policy = Inr sample_api \<and>
     deadlocked (OBSERVATION_QUEUE_CAPACITY + 2) (lane_key sample_record) w"
  using sample_api_start deadlocked_api_reached(2) unfolding deadlocked_api_def by blast

theorem deadlock_stops_admission_witness:
  "deadlocked (OBSERVATION_QUEUE_CAPACITY + 2) (lane_key sample_record)
     (fst (run_machine (api_step sample_code observation_of_doc) deadlocked_api
        [Arrive 99 sample_record running_observation, LookUpLane (\<lambda>_. False) 99, Admit 99,
         TakeTransition (OBSERVATION_QUEUE_CAPACITY + 2), ReopenAdmission (lane_key sample_record)]))"
proof -
  have "CancelRequest (OBSERVATION_QUEUE_CAPACITY + 2) \<notin> set [Arrive 99 sample_record running_observation,
      LookUpLane (\<lambda>_. False) 99, Admit 99, TakeTransition (OBSERVATION_QUEUE_CAPACITY + 2),
      ReopenAdmission (lane_key sample_record)]"
    by simp
  from deadlock_stops_admission [OF deadlocked_api_reached refl this] show ?thesis
    by (rule conjunct1)
qed

end
