(* ===== verification/Queue_Health.thy ===== *)
theory Queue_Health
  imports Admission
begin

text \<open>
  What the admission tasks guarantee in every interleaving: refused evidence keeps its session
  uncertain and reported as degraded until it is retried, so the destructive gate stays closed for
  it; no queued observation is ever left without a drainer; and a drainer that is not disturbed
  answers everything that waits.
\<close>

section \<open>Uncertainty\<close>

fun request_record :: "request_state option \<Rightarrow> stored_session_record option" where
  "request_record (Some (Arrived rec observation)) = Some rec"
| "request_record (Some (LaneBuilt rec observation lane)) = Some rec"
| "request_record (Some (Admitting rec observation)) = Some rec"
| "request_record (Some (Rejected rec observation e)) = Some rec"
| "request_record (Some (Persisting rec observation e)) = Some rec"
| "request_record _ = None"

definition rejected_sessions :: "rejection_db \<Rightarrow> session_id set" where
  "rejected_sessions rej = (fst \<circ> snd) ` set (rj_rows rej) \<union> fst ` set (rj_overflow rej)"

definition degraded_report :: "health_registry option \<Rightarrow> session_identity \<Rightarrow> bool" where
  "degraded_report health i \<longleftrightarrow>
     is_none_or (\<lambda>h. registry_wf h \<and> health_status h ObservationQueue (SessionScope i) = Some DegradedStatus) health"

text \<open>
  Roles are fixed: \<open>ident\<close> is the identity of a session. Every session with refused evidence is
  marked in memory, every marked session is reported, a refusal being persisted is marked, and a
  drainer that found nothing left has no mark.
\<close>

definition uncertain_inv :: "(session_id \<Rightarrow> session_identity) \<Rightarrow> 'j api_world \<Rightarrow> bool" where
  "uncertain_inv ident w \<longleftrightarrow>
     (\<forall>k \<in> rejected_sessions (aw_rejections w). ident k \<in> aw_uncertain w) \<and>
     (\<forall>i \<in> aw_uncertain w. ident (identity_session_id i) = i \<and> degraded_report (aw_health w) i) \<and>
     is_none_or registry_wf (aw_health w) \<and>
     (\<forall>n rec. request_record (aw_requests w n) = Some rec \<longrightarrow> ident (lane_key rec) = st_session rec) \<and>
     (\<forall>n rec. request_record (aw_requests w n) = Some rec \<and> persisting (aw_requests w n) \<longrightarrow>
        st_session rec \<in> aw_uncertain w) \<and>
     (\<forall>k pending r lane. aw_drainers w k = Some (Reopening pending r False) \<and> aw_lanes w k = Some lane \<longrightarrow>
        st_session (sl_record lane) \<notin> aw_uncertain w)"

lemma uncertain_invD:
  assumes "uncertain_inv ident w"
  shows "k \<in> rejected_sessions (aw_rejections w) \<Longrightarrow> ident k \<in> aw_uncertain w"
    and "i \<in> aw_uncertain w \<Longrightarrow> ident (identity_session_id i) = i \<and> degraded_report (aw_health w) i"
    and "is_none_or registry_wf (aw_health w)"
    and "request_record (aw_requests w n) = Some rec \<Longrightarrow> ident (lane_key rec) = st_session rec"
    and "request_record (aw_requests w n) = Some rec \<Longrightarrow> persisting (aw_requests w n) \<Longrightarrow> st_session rec \<in> aw_uncertain w"
    and "aw_drainers w j = Some (Reopening pending r False) \<Longrightarrow> aw_lanes w j = Some lane \<Longrightarrow>
      st_session (sl_record lane) \<notin> aw_uncertain w"
  using assms unfolding uncertain_inv_def by blast+

lemma uncertain_invI:
  assumes "\<And>k. k \<in> rejected_sessions (aw_rejections w) \<Longrightarrow> ident k \<in> aw_uncertain w"
    and "\<And>i. i \<in> aw_uncertain w \<Longrightarrow> ident (identity_session_id i) = i \<and> degraded_report (aw_health w) i"
    and "is_none_or registry_wf (aw_health w)"
    and "\<And>n rec. request_record (aw_requests w n) = Some rec \<Longrightarrow> ident (lane_key rec) = st_session rec"
    and "\<And>n rec. request_record (aw_requests w n) = Some rec \<Longrightarrow> persisting (aw_requests w n) \<Longrightarrow>
      st_session rec \<in> aw_uncertain w"
    and "\<And>k pending r lane. aw_drainers w k = Some (Reopening pending r False) \<Longrightarrow> aw_lanes w k = Some lane \<Longrightarrow>
      st_session (sl_record lane) \<notin> aw_uncertain w"
  shows "uncertain_inv ident w"
  using assms unfolding uncertain_inv_def by blast

lemma degraded_report_record:
  assumes "degraded_report health i" and "j = i \<longrightarrow> status = DegradedStatus"
  shows "degraded_report (record_queue_health j status health) i"
  using assms by (auto simp: degraded_report_def record_queue_health_def is_none_or_iff registry_wf_record
      health_status_record)

lemma degraded_report_self:
  assumes "is_none_or registry_wf health"
  shows "degraded_report (record_queue_health i DegradedStatus health) i"
  using assms by (auto simp: degraded_report_def record_queue_health_def is_none_or_iff registry_wf_record
      health_status_record)

lemma record_queue_health_wf:
  "is_none_or registry_wf health \<Longrightarrow> is_none_or registry_wf (record_queue_health i st health)"
  by (auto simp: record_queue_health_def is_none_or_iff registry_wf_record)

text \<open>A step that leaves evidence, marks and reports alone.\<close>

lemma uncertain_inv_same:
  assumes "uncertain_inv ident w"
    and "aw_rejections w' = aw_rejections w" "aw_uncertain w' = aw_uncertain w" "aw_health w' = aw_health w"
    and "\<And>n. request_record (aw_requests w' n) \<in> {None, request_record (aw_requests w n)}"
    and "\<And>n. persisting (aw_requests w' n) \<Longrightarrow> persisting (aw_requests w n)"
    and "\<And>k pending r lane. aw_drainers w' k = Some (Reopening pending r False) \<Longrightarrow> aw_lanes w' k = Some lane \<Longrightarrow>
      aw_drainers w k = Some (Reopening pending r False) \<and>
      (\<exists>lane'. aw_lanes w k = Some lane' \<and> sl_record lane' = sl_record lane)"
  shows "uncertain_inv ident w'"
proof (rule uncertain_invI)
  fix n rec
  assume "request_record (aw_requests w' n) = Some rec"
  then have same: "request_record (aw_requests w n) = Some rec"
    using assms(5) [of n] by auto
  show "ident (lane_key rec) = st_session rec"
    by (rule uncertain_invD(4) [OF assms(1) same])
  show "st_session rec \<in> aw_uncertain w'" if "persisting (aw_requests w' n)"
    using uncertain_invD(5) [OF assms(1) same] assms(3) assms(6) [OF that] by simp
next
  fix k pending r lane
  assume "aw_drainers w' k = Some (Reopening pending r False)" "aw_lanes w' k = Some lane"
  from assms(7) [OF this] show "st_session (sl_record lane) \<notin> aw_uncertain w'"
    using uncertain_invD(6) [OF assms(1)] assms(3) by metis
qed (use uncertain_invD(1-3) [OF assms(1)] assms(2-4) in auto)

lemma complete_record [simp]: "request_record (aw_requests (complete n r w) m) = request_record (aw_requests w m)"
  by (simp add: complete_requests)

lemma complete_requests_cases: "aw_requests (complete n r w) m \<in> {aw_requests w m, Some (Answered r)}"
  by (simp add: complete_requests)

lemma save_queue_rejection_sessions:
  assumes "save_queue_rejection fails db rej oid session at = (rej', r)"
  shows "rejected_sessions rej' \<subseteq> insert (identity_session_id session) (rejected_sessions rej)"
proof -
  have upd: "(a, b, c) \<in> set (AList.update oid (s, at) rows) \<Longrightarrow> b = s \<or> b \<in> (fst \<circ> snd) ` set rows"
    for a b c s and rows :: "(observation_id \<times> session_id \<times> wall_time_ms) list"
    by (induction rows) (force split: if_splits)+
  show ?thesis
    using assms
    by (auto simp: save_queue_rejection_def in_transaction_def rejected_sessions_def Let_def
        result_elims run_sql_def and_then_def dest!: upd split: option.splits sum.splits if_splits prod.splits)
      force
qed

lemma clear_queue_rejection_sessions:
  assumes "clear_queue_rejection fails rej oid session = (rej', r)"
  shows "rejected_sessions rej' \<subseteq> rejected_sessions rej"
    and "r = Inr False \<Longrightarrow> identity_session_id session \<notin> rejected_sessions rej'"
proof -
  let ?rows = "filter (\<lambda>(oid', s, _). \<not> (oid' = oid \<and> s = identity_session_id session)) (rj_rows rej)"
  have out: "rej' = rej \<and> r \<noteq> Inr False \<or> rej' = rej\<lparr>rj_rows := ?rows\<rparr> \<and>
      r = Inr (length (filter (\<lambda>(_, s, _). s = identity_session_id session) ?rows) +
        length (filter (\<lambda>(s, _). s = identity_session_id session) (rj_overflow rej)) \<noteq> 0)"
    using assms by (auto simp: clear_queue_rejection_def in_transaction_def run_sql_def Let_def split: if_splits)
  then show "rejected_sessions rej' \<subseteq> rejected_sessions rej"
    by (auto simp: rejected_sessions_def)
  assume "r = Inr False"
  then have "filter (\<lambda>(_, s, _). s = identity_session_id session) (rj_rows rej') = []"
      "filter (\<lambda>(s, _). s = identity_session_id session) (rj_overflow rej') = []"
    using out by auto
  then show "identity_session_id session \<notin> rejected_sessions rej'"
    by (force simp: rejected_sessions_def filter_empty_conv)
qed

lemma take_transition_uncertain:
  assumes lock: "lock_inv w" and inv: "uncertain_inv ident w"
  shows "uncertain_inv ident (take_transition n w)"
proof (cases "\<exists>rec observation e. aw_requests w n = Some (Rejected rec observation e) \<and> aw_transition_lock w = None")
  case True
  then obtain rec observation e where q: "aw_requests w n = Some (Rejected rec observation e)"
    and free: "aw_transition_lock w = None"
    by blast
  let ?w = "take_transition n w"
  have w': "aw_rejections ?w = aw_rejections w" "aw_uncertain ?w = insert (st_session rec) (aw_uncertain w)"
      "aw_health ?w = record_queue_health (st_session rec) DegradedStatus (aw_health w)"
      "aw_requests ?w = (aw_requests w)(n \<mapsto> Persisting rec observation e)" "aw_drainers ?w = aw_drainers w"
      "aw_lanes ?w = aw_lanes w"
    by (simp_all add: take_transition_def q free)
  have idle: "\<not> reconciling (aw_drainers w k)" "\<not> persisting (aw_requests w m)" for k m
    using lock_invD(2,3) [OF lock] free by fastforce+
  have self: "ident (lane_key rec) = st_session rec"
    using uncertain_invD(4) [OF inv, of n rec] q by simp
  show ?thesis
  proof (rule uncertain_invI)
    fix i assume "i \<in> aw_uncertain ?w"
    then show "ident (identity_session_id i) = i \<and> degraded_report (aw_health ?w) i"
      using uncertain_invD(2) [OF inv, of i] uncertain_invD(3) [OF inv] self
      by (auto simp: w' lane_key_def degraded_report_record degraded_report_self)
  next
    fix k pending r lane
    assume "aw_drainers ?w k = Some (Reopening pending r False)"
    then show "st_session (sl_record lane) \<notin> aw_uncertain ?w"
      using idle(1) [of k] by (simp add: w')
  next
    fix m rec' assume "request_record (aw_requests ?w m) = Some rec'"
    then show "ident (lane_key rec') = st_session rec'"
      using self uncertain_invD(4) [OF inv, of m rec'] by (auto simp: w' split: if_splits)
    show "st_session rec' \<in> aw_uncertain ?w" if "persisting (aw_requests ?w m)"
      using that idle(2) \<open>request_record (aw_requests ?w m) = Some rec'\<close> by (auto simp: w' split: if_splits)
  qed (use uncertain_invD(1,3) [OF inv] in \<open>auto simp: w' record_queue_health_wf\<close>)
qed (use inv in \<open>auto simp: take_transition_def split: option.splits request_state.splits\<close>)

lemma persist_rejection_uncertain:
  assumes lock: "lock_inv w" and inv: "uncertain_inv ident w"
  shows "uncertain_inv ident (persist_rejection fails n w)"
proof (cases "\<exists>rec observation e. aw_requests w n = Some (Persisting rec observation e)")
  case True
  then obtain rec observation e where q: "aw_requests w n = Some (Persisting rec observation e)"
    by blast
  obtain rej r where save: "save_queue_rejection fails (sh_db (aw_shared w)) (aw_rejections w)
      (oe_observation_id observation) (st_session rec) (wall_time (oe_observed_at observation)) = (rej, r)"
    by fastforce
  let ?w = "persist_rejection fails n w"
  have w': "aw_rejections ?w = rej" "aw_uncertain ?w = aw_uncertain w"
      "aw_health ?w \<in> {aw_health w, record_queue_health (st_session rec) DegradedStatus (aw_health w)}"
      "\<exists>a. aw_requests ?w = (aw_requests w)(n \<mapsto> Answered a)" "aw_drainers ?w = aw_drainers w"
      "aw_lanes ?w = aw_lanes w"
    by (auto simp: persist_rejection_def q save Let_def split: sum.splits)
  have "ident (lane_key rec) = st_session rec" "st_session rec \<in> aw_uncertain w"
    using uncertain_invD(4,5) [OF inv, of n rec] q by simp_all
  then have marked: "ident (identity_session_id (st_session rec)) \<in> aw_uncertain w"
    by (simp add: lane_key_def)
  have health: "degraded_report (aw_health ?w) i" if "degraded_report (aw_health w) i" for i
    using that w'(3) degraded_report_record [OF that, of "st_session rec" DegradedStatus] by auto
  show ?thesis
  proof (rule uncertain_invI)
    fix k assume "k \<in> rejected_sessions (aw_rejections ?w)"
    then show "ident k \<in> aw_uncertain ?w"
      using save_queue_rejection_sessions [OF save] marked uncertain_invD(1) [OF inv, of k] by (auto simp: w'(1,2))
  next
    show "is_none_or registry_wf (aw_health ?w)"
      using w'(3) uncertain_invD(3) [OF inv] record_queue_health_wf by auto
  next
    fix m rec' assume *: "request_record (aw_requests ?w m) = Some rec'"
    then have m: "m \<noteq> n" "request_record (aw_requests w m) = Some rec'" "aw_requests ?w m = aw_requests w m"
      using w'(4) by (auto split: if_splits)
    then show "ident (lane_key rec') = st_session rec'"
      by (intro uncertain_invD(4) [OF inv])
    show "st_session rec' \<in> aw_uncertain ?w" if "persisting (aw_requests ?w m)"
      using uncertain_invD(5) [OF inv m(2)] that m(3) w'(2) by simp
  qed (use uncertain_invD(2,6) [OF inv] health w'(2,5,6) in auto)
qed (use inv in \<open>auto simp: persist_rejection_def split: option.splits request_state.splits\<close>)

lemma clear_rejection_uncertain:
  assumes lock: "lock_inv w" and inv: "uncertain_inv ident w" and ident: "\<And>k. identity_session_id (ident k) = k"
  shows "uncertain_inv ident (clear_rejection fails k w)"
proof (cases "\<exists>pending r lane. aw_drainers w k = Some (Clearing pending r) \<and> aw_lanes w k = Some lane")
  case True
  then obtain pending r lane where d: "aw_drainers w k = Some (Clearing pending r)" "aw_lanes w k = Some lane"
    by blast
  let ?s = "st_session (sl_record lane)"
  obtain rej cleared where c: "clear_queue_rejection fails (aw_rejections w)
      (oe_observation_id (pn_observation pending)) ?s = (rej, cleared)"
    by fastforce
  note sessions = clear_queue_rejection_sessions [OF c]
  have held: "aw_transition_lock w = Some (ByDrainer k)"
    using lock_invD(3) [OF lock, of k] d by simp
  have alone: "\<not> persisting (aw_requests w m)" "reconciling (aw_drainers w j) \<Longrightarrow> j = k" for m j
    using lock_invD(2,3) [OF lock] held by fastforce+
  let ?w = "clear_rejection fails k w"
  show ?thesis
  proof (cases "cleared = Inr False")
    case True
    have w': "aw_rejections ?w = rej" "aw_uncertain ?w = aw_uncertain w - {?s}"
        "aw_health ?w = record_queue_health ?s Healthy (aw_health w)" "aw_requests ?w = aw_requests w"
        "aw_drainers ?w = (aw_drainers w)(k \<mapsto> Reopening pending r False)" "aw_lanes ?w = aw_lanes w"
      by (simp_all add: clear_rejection_def d c True Let_def)
    show ?thesis
    proof (rule uncertain_invI)
      fix j assume "j \<in> rejected_sessions (aw_rejections ?w)"
      then have "j \<in> rejected_sessions (aw_rejections w)" "j \<noteq> identity_session_id ?s"
        using sessions(1) sessions(2) [OF True] by (auto simp: w'(1))
      then show "ident j \<in> aw_uncertain ?w"
        using uncertain_invD(1) [OF inv] ident [of j] by (auto simp: w'(2))
    next
      fix i assume "i \<in> aw_uncertain ?w"
      then show "ident (identity_session_id i) = i \<and> degraded_report (aw_health ?w) i"
        using uncertain_invD(2) [OF inv, of i] by (auto simp: w'(2,3) intro!: degraded_report_record)
    next
      fix m rec assume *: "request_record (aw_requests ?w m) = Some rec"
      show "ident (lane_key rec) = st_session rec"
        using * by (auto simp: w'(4) intro: uncertain_invD(4) [OF inv])
      show "st_session rec \<in> aw_uncertain ?w" if "persisting (aw_requests ?w m)"
        using that alone(1) by (simp add: w'(4))
    next
      fix j pending r lane'
      assume *: "aw_drainers ?w j = Some (Reopening pending r False)" "aw_lanes ?w j = Some lane'"
      then have "j = k"
        using alone(2) [of j] by (cases "j = k") (simp_all add: w'(5))
      then show "st_session (sl_record lane') \<notin> aw_uncertain ?w"
        using * d by (simp add: w'(2,6))
    qed (use uncertain_invD(3) [OF inv] record_queue_health_wf in \<open>simp add: w'(3)\<close>)
  next
    case False
    have w': "aw_rejections ?w = rej" "aw_uncertain ?w = aw_uncertain w" "aw_health ?w = aw_health w"
        "aw_lanes ?w = aw_lanes w" "\<And>n. request_record (aw_requests ?w n) = request_record (aw_requests w n)"
        "\<And>n. persisting (aw_requests ?w n) = persisting (aw_requests w n)"
        "\<And>j pending r. aw_drainers ?w j = Some (Reopening pending r False) \<Longrightarrow> j \<noteq> k \<and> aw_drainers ?w j = aw_drainers w j"
      using False by (auto simp: clear_rejection_def d c Let_def split: sum.splits if_splits)
    show ?thesis
    proof (rule uncertain_invI)
      fix j pending r lane'
      assume *: "aw_drainers ?w j = Some (Reopening pending r False)" "aw_lanes ?w j = Some lane'"
      have "aw_drainers w j = Some (Reopening pending r False)"
        using w'(7) [OF *(1)] *(1) by simp
      from uncertain_invD(6) [OF inv this] show "st_session (sl_record lane') \<notin> aw_uncertain ?w"
        using * by (simp add: w'(2,4))
    next
      fix m rec assume *: "request_record (aw_requests ?w m) = Some rec"
      show "ident (lane_key rec) = st_session rec"
        using * by (auto simp: w'(5) intro: uncertain_invD(4) [OF inv])
      show "st_session rec \<in> aw_uncertain ?w" if "persisting (aw_requests ?w m)"
        using that alone(1) by (simp add: w'(6))
    qed (use uncertain_invD(1-3) [OF inv] sessions(1) in \<open>auto simp: w'(1-3)\<close>)
  qed
qed (use inv in \<open>auto simp: clear_rejection_def split: option.splits drainer_state.splits\<close>)

lemma reopen_admission_uncertain:
  assumes lock: "lock_inv w" and inv: "uncertain_inv ident w"
  shows "uncertain_inv ident (reopen_admission k w)"
proof (cases "\<exists>pending r remaining lane. aw_drainers w k = Some (Reopening pending r remaining) \<and>
    aw_lanes w k = Some lane \<and> aw_admission_lock w k = None")
  case True
  then obtain pending r remaining lane where d: "aw_drainers w k = Some (Reopening pending r remaining)"
      "aw_lanes w k = Some lane" "aw_admission_lock w k = None"
    by blast
  obtain admission reopened where a: "admission_reconcile_rejected (sl_admission lane) remaining = (admission, reopened)"
    by fastforce
  let ?w = "reopen_admission k w" and ?s = "st_session (sl_record lane)"
  have w': "aw_rejections ?w = aw_rejections w" "aw_uncertain ?w = aw_uncertain w"
      "aw_health ?w = (if reopened then record_queue_health ?s Healthy (aw_health w) else aw_health w)"
      "aw_drainers ?w = (aw_drainers w)(k \<mapsto> Popping)"
      "\<And>n. request_record (aw_requests ?w n) = request_record (aw_requests w n)"
      "\<And>n. persisting (aw_requests ?w n) = persisting (aw_requests w n)"
      "\<And>j. map_option sl_record (aw_lanes ?w j) = map_option sl_record (aw_lanes w j)"
    by (auto simp: reopen_admission_def d a Let_def set_admission_lanes)
  have "?s \<notin> aw_uncertain w" if reopened
  proof -
    have "\<not> remaining"
      using a that by (auto simp: admission_reconcile_rejected_def split: if_splits)
    then show ?thesis
      using uncertain_invD(6) [OF inv, of k pending r lane] d by simp
  qed
  then have health: "degraded_report (aw_health ?w) i" if "i \<in> aw_uncertain w" for i
    using that uncertain_invD(2) [OF inv that] by (auto simp: w'(3) intro!: degraded_report_record)
  show ?thesis
  proof (rule uncertain_invI)
    fix j pending r lane'
    assume *: "aw_drainers ?w j = Some (Reopening pending r False)" "aw_lanes ?w j = Some lane'"
    then have "aw_drainers w j = Some (Reopening pending r False)"
      by (simp add: w'(4) split: if_splits)
    moreover obtain l where "aw_lanes w j = Some l" "sl_record l = sl_record lane'"
      using w'(7) [of j] * by (cases "aw_lanes w j") auto
    ultimately show "st_session (sl_record lane') \<notin> aw_uncertain ?w"
      using uncertain_invD(6) [OF inv, of j pending r l] by (simp add: w'(2))
  next
    fix m rec assume *: "request_record (aw_requests ?w m) = Some rec"
    show "ident (lane_key rec) = st_session rec"
      using * by (auto simp: w'(5) intro: uncertain_invD(4) [OF inv])
    show "st_session rec \<in> aw_uncertain ?w" if "persisting (aw_requests ?w m)"
      using that * by (auto simp: w'(2,5,6) intro: uncertain_invD(5) [OF inv])
  qed (use uncertain_invD(1-3) [OF inv] health record_queue_health_wf in \<open>auto simp: w'(1-3)\<close>)
qed (use inv in \<open>auto simp: reopen_admission_def split: option.splits drainer_state.splits\<close>)

lemma start_reconcile_uncertain:
  assumes inv: "uncertain_inv ident w"
  shows "uncertain_inv ident (start_reconcile k w)"
proof (cases "\<exists>pending r lane. aw_drainers w k = Some (Reconciling pending r) \<and> aw_lanes w k = Some lane \<and>
    aw_transition_lock w = None")
  case True
  then obtain pending r lane where d: "aw_drainers w k = Some (Reconciling pending r)" "aw_lanes w k = Some lane"
      "aw_transition_lock w = None"
    by blast
  show ?thesis
    using uncertain_invD [OF inv] d
    by (intro uncertain_invI) (auto simp: start_reconcile_def split: if_splits)
qed (use inv in \<open>auto simp: start_reconcile_def split: option.splits drainer_state.splits\<close>)

lemma configured_health:
  assumes "registry_wf h" and "finite S"
  shows "is_none_or registry_wf (foldl (\<lambda>health session. record_queue_health session DegradedStatus health) (Some h) xs)"
    and "i \<in> set xs \<Longrightarrow> degraded_report (foldl (\<lambda>health session. record_queue_health session DegradedStatus health) (Some h) xs) i"
proof -
  show wf: "is_none_or registry_wf (foldl (\<lambda>health session. record_queue_health session DegradedStatus health) (Some h) xs)" for xs
    using assms(1) by (induction xs rule: rev_induct) (simp_all add: record_queue_health_wf)
  show "i \<in> set xs \<Longrightarrow> degraded_report (foldl (\<lambda>health session. record_queue_health session DegradedStatus health) (Some h) xs) i"
  proof (induction xs rule: rev_induct)
    case (snoc x xs)
    then show ?case
      using wf [of xs] by (cases "x = i") (auto simp: degraded_report_self degraded_report_record)
  qed simp
qed

lemma insert_lane_uncertain:
  assumes drain: "drain_inv w" and inv: "uncertain_inv ident w"
  shows "uncertain_inv ident (insert_lane n w)"
proof (rule uncertain_inv_same [OF inv])
  fix k pending r lane
  assume *: "aw_drainers (insert_lane n w) k = Some (Reopening pending r False)" "aw_lanes (insert_lane n w) k = Some lane"
  have drainers: "aw_drainers (insert_lane n w) = aw_drainers w"
    by (simp add: insert_lane_def split: option.splits request_state.splits)
  then obtain lane' where "aw_lanes w k = Some lane'"
    using drained [OF drain, of k] *(1) by (auto simp: lane_drained_def split: option.splits)
  moreover have "aw_lanes (insert_lane n w) k = Some lane' " if "aw_lanes w k = Some lane'" for lane'
    using that by (auto simp: insert_lane_def split: option.splits request_state.splits)
  ultimately show "aw_drainers w k = Some (Reopening pending r False) \<and>
      (\<exists>lane'. aw_lanes w k = Some lane' \<and> sl_record lane' = sl_record lane)"
    using * drainers by auto
qed (auto simp: insert_lane_def split: option.splits request_state.splits if_splits)

lemma admit_uncertain:
  assumes inv: "uncertain_inv ident w"
  shows "uncertain_inv ident (admit n w)"
proof (cases "\<exists>rec observation lane. aw_requests w n = Some (Admitting rec observation) \<and>
    aw_lanes w (lane_key rec) = Some lane \<and> aw_admission_lock w (lane_key rec) = None")
  case True
  then obtain rec observation lane where c: "aw_requests w n = Some (Admitting rec observation)"
      "aw_lanes w (lane_key rec) = Some lane" "aw_admission_lock w (lane_key rec) = None"
    by blast
  obtain admission r where push: "admission_push (sl_admission lane) (observation_class_of (oe_payload observation))
      \<lparr>pn_observation = observation, pn_request = n\<rparr> = (admission, r)"
    by fastforce
  show ?thesis
    by (rule uncertain_inv_same [OF inv])
      (auto simp: admit_def c push Let_def set_admission_lanes split: sum.splits option.splits if_splits)
qed (use inv in \<open>auto simp: admit_def Let_def split: option.splits request_state.splits\<close>)

lemma pop_next_uncertain: "uncertain_inv ident w \<Longrightarrow> uncertain_inv ident (pop_next k w)"
  by (erule uncertain_inv_same)
    (auto simp: pop_next_def set_admission_lanes split: option.splits drainer_state.splits prod.splits if_splits)

lemma apply_next_uncertain: "uncertain_inv ident w \<Longrightarrow> uncertain_inv ident (apply_next fails fc from_slice k w)"
  by (erule uncertain_inv_same)
    (auto simp: apply_next_def Let_def split: option.splits drainer_state.splits prod.splits sum.splits if_splits)

lemma look_up_lane_uncertain: "uncertain_inv ident w \<Longrightarrow> uncertain_inv ident (look_up_lane fails fc n w)"
  by (erule uncertain_inv_same)
    (auto simp: look_up_lane_def split: option.splits request_state.splits sum.splits if_splits)

lemma cancel_request_uncertain: "uncertain_inv ident w \<Longrightarrow> uncertain_inv ident (cancel_request n w)"
  by (erule uncertain_inv_same)
    (auto simp: cancel_request_def Let_def split: option.splits request_state.splits if_splits)

text \<open>Calls whose requests name sessions by their roles, while the marks stay finitely many.\<close>

definition roles_kept :: "(session_id \<Rightarrow> session_identity) \<Rightarrow> api_call \<Rightarrow> bool" where
  "roles_kept ident call \<longleftrightarrow>
     (case call of Arrive n rec observation \<Rightarrow> ident (lane_key rec) = st_session rec | _ \<Rightarrow> True)"

lemma api_step_uncertain:
  assumes lock: "lock_inv w" and drain: "drain_inv w" and inv: "uncertain_inv ident w"
    and fin: "finite (aw_uncertain w)" and ident: "\<And>k. identity_session_id (ident k) = k"
    and roles: "roles_kept ident call"
  shows "uncertain_inv ident (fst (api_step fc from_slice w call))"
proof (cases call)
  case (Arrive n rec observation)
  show ?thesis
  proof (cases "aw_requests w n = None")
    case True
    then show ?thesis
      using Arrive roles uncertain_invD [OF inv]
      by (intro uncertain_invI) (auto simp: roles_kept_def split: if_splits)
  qed (use Arrive inv in auto)
next
  case (ConfigureHealth reports)
  have "registry_wf (foldl health_record [] reports)"
    by (intro registry_wf_records) (simp add: registry_wf_def)
  note conf = configured_health [OF this fin]
  show ?thesis
    using ConfigureHealth uncertain_invD [OF inv] conf fin
    by (intro uncertain_invI) (auto simp: configure_health_def)
next
  case (ReportHealth report)
  show ?thesis
  proof (cases "ch_component report = ObservationQueue \<and> ch_scope report \<noteq> Global")
    case False
    have "degraded_report (map_option (\<lambda>registry. health_record registry report) (aw_health w)) i"
      if "degraded_report (aw_health w) i" for i
      using that False by (auto simp: degraded_report_def is_none_or_iff registry_wf_record health_status_record)
    moreover have "is_none_or registry_wf (map_option (\<lambda>registry. health_record registry report) (aw_health w))"
      using uncertain_invD(3) [OF inv] by (auto simp: is_none_or_iff registry_wf_record)
    ultimately show ?thesis
      using ReportHealth False uncertain_invD [OF inv] by (intro uncertain_invI) auto
  qed (use ReportHealth inv in simp)
next
  case (CallLane fails k op)
  then show ?thesis
    by (intro uncertain_inv_same [OF inv]) (auto split: option.splits prod.splits if_splits)
next
  case (ReloadPolicy policy)
  then show ?thesis
    by (intro uncertain_inv_same [OF inv]) (auto simp: update_policy_api_def)
qed (use assms in \<open>auto simp: look_up_lane_uncertain insert_lane_uncertain admit_uncertain take_transition_uncertain
    persist_rejection_uncertain cancel_request_uncertain pop_next_uncertain apply_next_uncertain
    start_reconcile_uncertain clear_rejection_uncertain reopen_admission_uncertain\<close>)

lemma api_step_finite: "finite (aw_uncertain w) \<Longrightarrow> finite (aw_uncertain (fst (api_step fc from_slice w call)))"
  by (cases call)
    (auto simp: look_up_lane_def insert_lane_def admit_def take_transition_def persist_rejection_def
      cancel_request_def pop_next_def apply_next_def start_reconcile_def clear_rejection_def reopen_admission_def
      update_policy_api_def configure_health_def Let_def
      split: option.splits request_state.splits drainer_state.splits prod.splits sum.splits if_splits)

lemma decode_session_row_id:
  "decode_session_row fc (k, row) None = Inr rec \<Longrightarrow> identity_session_id (st_session rec) = k"
  by (auto simp: decode_session_row_def result_elims Let_def split: if_splits)

lemma queue_uncertain_sessions_cover:
  assumes "queue_uncertain_sessions fails fc db rej = Inr uncertain" and "k \<in> rejected_sessions rej"
    and "known_session db k"
  shows "\<exists>i \<in> set uncertain. identity_session_id i = k"
proof -
  let ?rows = "sort_key fst (filter (\<lambda>(k, _). k \<in> (fst \<circ> snd) ` set (rj_rows rej) \<union> fst ` set (rj_overflow rej))
    (db_sessions db))"
  obtain records where records: "map (\<lambda>row. decode_session_row fc row None) ?rows = map Inr records"
      "uncertain = map st_session records"
    using assms(1) by (auto simp: queue_uncertain_sessions_def result_elims)
  obtain row where "(k, row) \<in> set (db_sessions db)"
    using assms(3) by (auto simp: known_session_def dest: map_of_SomeD)
  then have "(k, row) \<in> set ?rows"
    using assms(2) by (auto simp: rejected_sessions_def)
  then have "decode_session_row fc (k, row) None \<in> set (map Inr records)"
    unfolding records(1) [symmetric] by (force simp: set_sort)
  then obtain rec where "rec \<in> set records" "decode_session_row fc (k, row) None = Inr rec"
    by auto
  then show ?thesis
    using decode_session_row_id [of fc k row rec] records(2) by auto
qed

lemma api_start_uncertain:
  assumes "rejections_known db rej" and "api_start fails fc db rej policy = Inr w"
    and "\<forall>i \<in> aw_uncertain w. ident (identity_session_id i) = i"
  shows "uncertain_inv ident w \<and> finite (aw_uncertain w)"
proof -
  obtain uncertain where u: "queue_uncertain_sessions fails fc db rej = Inr uncertain" "aw_uncertain w = set uncertain"
      "aw_rejections w = rej" "aw_health w = None" "aw_requests w = Map.empty" "aw_drainers w = Map.empty"
    using assms(2) by (auto simp: api_start_def result_elims)
  have "ident k \<in> aw_uncertain w" if k: "k \<in> rejected_sessions rej" for k
  proof -
    have "known_session db k"
      using assms(1) k by (auto simp: rejections_known_def rejected_sessions_def)
    then obtain i where "i \<in> aw_uncertain w" "identity_session_id i = k"
      using queue_uncertain_sessions_cover [OF u(1) k] u(2) by auto
    then show ?thesis
      using assms(3) by auto
  qed
  then show ?thesis
    using assms(3) u by (auto simp: degraded_report_def intro!: uncertain_invI)
qed

lemma api_run_uncertain:
  assumes "lock_inv w" "drain_inv w" "uncertain_inv ident w" "finite (aw_uncertain w)"
    and "\<And>k. identity_session_id (ident k) = k" and "list_all (roles_kept ident) calls"
  shows "uncertain_inv ident (fst (run_machine (api_step fc from_slice) w calls))"
  using assms(1-4,6)
proof (induction calls arbitrary: w)
  case (Cons call calls)
  let ?w = "fst (api_step fc from_slice w call)"
  have "lock_inv ?w" "drain_inv ?w" "uncertain_inv ident ?w" "finite (aw_uncertain ?w)"
    using Cons.prems assms(5) by (auto intro: api_step_lock api_step_drain api_step_uncertain api_step_finite)
  from Cons.IH [OF this] show ?case
    using Cons.prems(5) by simp
qed simp

text \<open>
  C7. Refused evidence is never forgotten: in every interleaving from the start of a process, while
  the store holds a refused observation of a session, its reports keep destructive automation from
  acting on the session, whatever else was reported healthy. Only the application of the exact
  retries clears it, and a restart restores it from the store.
\<close>
theorem refused_evidence_blocks_automation:
  assumes "rejections_known db rej" and "api_start fails fc db rej policy = Inr w0"
    and "\<forall>i \<in> aw_uncertain w0. ident (identity_session_id i) = i" and "\<forall>k. identity_session_id (ident k) = k"
    and "list_all (roles_kept ident) calls" and "w = fst (run_machine (api_step fc from_slice) w0 calls)"
    and "k \<in> rejected_sessions (aw_rejections w)" and "aw_health w = Some h"
  shows "\<not> destructive_automation_allowed h runtime (ident k)"
proof -
  have "lock_inv w0" "drain_inv w0" "uncertain_inv ident w0" "finite (aw_uncertain w0)"
    using api_start_inv [OF assms(2)] api_start_uncertain [OF assms(1-3)] by simp_all
  then have inv: "uncertain_inv ident w"
    unfolding assms(6) using assms(4,5) by (intro api_run_uncertain) simp_all
  have "registry_wf h" "health_status h ObservationQueue (SessionScope (ident k)) = Some DegradedStatus"
    using uncertain_invD(2) [OF inv uncertain_invD(1) [OF inv assms(7)]] assms(8)
    by (simp_all add: degraded_report_def)
  moreover have "scope_applies (SessionScope (ident k)) runtime (ident k)"
    by simp
  moreover have "ObservationQueue \<in> set (required_components runtime)"
    by (simp add: required_components_def)
  ultimately show ?thesis
    unfolding allowed_iff [OF \<open>registry_wf h\<close>] by (metis component_status.distinct(1))
qed

definition retained_db :: "document db" where
  "retained_db = empty_db\<lparr>db_sessions := [(stored_session, \<lparr>sr_kind = ''child'', sr_root = SessionId 9,
     sr_runtime = ''codex_cli'', sr_native_id = ''a'', sr_created_at = 0, sr_updated_at = 0\<rparr>)]\<rparr>"

definition retained_rejections :: rejection_db where
  "retained_rejections = \<lparr>rj_rows = [(ObservationId 3, stored_session, 7)], rj_overflow = []\<rparr>"

definition retained_api :: "document api_world" where
  "retained_api = sample_api\<lparr>aw_shared := \<lparr>sh_db = retained_db, sh_next_event = 1\<rparr>,
     aw_rejections := retained_rejections, aw_uncertain := {ChildIdentity (ChildSessionId stored_session)}\<rparr>"

lemma retained_decoded:
  "decode_session_row sample_code (stored_session, \<lparr>sr_kind = ''child'', sr_root = SessionId 9,
     sr_runtime = ''codex_cli'', sr_native_id = ''a'', sr_created_at = 0, sr_updated_at = 0\<rparr>) None = Inr sample_record"
proof -
  have "runtime_from_str ''codex_cli'' = Inr CodexCli"
    using runtime_from_str_as_str [of CodexCli] by simp
  moreover have "native_session_key_new CodexCli ''a'' = Inr stored_key"
    by (simp add: native_session_key_new_def bounded_text_new_def stored_key_def MAX_NATIVE_ID_BYTES_def)
  ultimately show ?thesis
    by (simp add: decode_session_row_def stored_session_def sample_record_def)
qed

lemma retained_start:
  "api_start (\<lambda>_. False) sample_code retained_db retained_rejections default_reducer_policy = Inr retained_api"
proof -
  have "db_sessions retained_db = [(stored_session, \<lparr>sr_kind = ''child'', sr_root = SessionId 9,
     sr_runtime = ''codex_cli'', sr_native_id = ''a'', sr_created_at = 0, sr_updated_at = 0\<rparr>)]"
      "db_transitions retained_db = []"
    by (simp_all add: retained_db_def empty_db_def)
  then show ?thesis
    by (simp add: api_start_def event_sequence_from_store_def first_unallocated_event_id_def run_sql_def max_event_id_def
        checked_add_i64_def u64_of_i64_def queue_uncertain_sessions_def retained_rejections_def retained_decoded
        i64_max_def i64_min_def retained_api_def sample_api_def)
      (simp add: sample_record_def)
qed

theorem refused_evidence_blocks_automation_witness:
  "\<exists>h. aw_health (fst (run_machine (api_step sample_code observation_of_doc) retained_api
       [ConfigureHealth (sample_healthy CodexCli)])) = Some h \<and>
     \<not> destructive_automation_allowed h CodexCli (ChildIdentity (ChildSessionId stored_session))"
proof -
  let ?w = "fst (run_machine (api_step sample_code observation_of_doc) retained_api
    [ConfigureHealth (sample_healthy CodexCli)])"
  obtain h where h: "aw_health ?w = Some h"
    by (simp add: configure_health_def retained_api_def record_queue_health_def)
  have known: "rejections_known retained_db retained_rejections"
    by (simp add: rejections_known_def retained_rejections_def known_session_def retained_db_def)
  have "stored_session \<in> rejected_sessions (aw_rejections ?w)"
    by (simp add: configure_health_def retained_api_def rejected_sessions_def retained_rejections_def)
  with refused_evidence_blocks_automation [OF known retained_start, of "\<lambda>k. ChildIdentity (ChildSessionId k)",
      OF _ _ _ refl _ h] show ?thesis
    using h by (simp add: retained_api_def roles_kept_def)
qed

section \<open>No lost wake-ups\<close>

text \<open>The requests whose observation waits in a queue or is in the hands of a drainer.\<close>

fun drainer_pending :: "drainer_state option \<Rightarrow> nat option" where
  "drainer_pending (Some (Applying pending)) = Some (pn_request pending)"
| "drainer_pending (Some (Reconciling pending r)) = Some (pn_request pending)"
| "drainer_pending (Some (Clearing pending r)) = Some (pn_request pending)"
| "drainer_pending (Some (Reopening pending r remaining)) = Some (pn_request pending)"
| "drainer_pending _ = None"

definition queued_requests :: "session_lane \<Rightarrow> nat set" where
  "queued_requests lane = (pn_request \<circ> qe_value) ` set (sq_entries (sa_queue (sl_admission lane)))"

definition waiting_in :: "'j api_world \<Rightarrow> nat \<Rightarrow> session_id \<Rightarrow> bool" where
  "waiting_in w n k \<longleftrightarrow> drainer_pending (aw_drainers w k) = Some n \<or>
     (\<exists>lane. aw_lanes w k = Some lane \<and> n \<in> queued_requests lane)"

definition awaited :: "'j api_world \<Rightarrow> bool" where
  "awaited w \<longleftrightarrow> (\<forall>n. aw_requests w n = Some Awaiting \<longrightarrow> (\<exists>k. waiting_in w n k))"

lemma awaited_same:
  assumes "awaited w" and "\<And>n. aw_requests w' n = Some Awaiting \<Longrightarrow> aw_requests w n = Some Awaiting"
    and "\<And>n k. aw_requests w' n = Some Awaiting \<Longrightarrow> waiting_in w n k \<Longrightarrow> waiting_in w' n k"
  shows "awaited w'"
  using assms unfolding awaited_def by blast

lemma waiting_in_frame:
  assumes "waiting_in w n k" and "drainer_pending (aw_drainers w' k) = drainer_pending (aw_drainers w k)"
    and "\<And>lane. aw_lanes w k = Some lane \<Longrightarrow> \<exists>lane'. aw_lanes w' k = Some lane' \<and> queued_requests lane' = queued_requests lane"
  shows "waiting_in w' n k"
  using assms unfolding waiting_in_def by metis

lemma queued_requests_coordinator [simp]:
  "queued_requests (lane\<lparr>sl_coordinator := c\<rparr>) = queued_requests lane"
  by (simp add: queued_requests_def)

lemma set_remove_at: "i < length xs \<Longrightarrow> set xs = insert (xs ! i) (set (remove_at i xs))"
  by (subst id_take_nth_drop [of i xs]) (auto simp: remove_at_def simp del: append_take_drop_id)

definition queue_values :: "session_admission \<Rightarrow> pending_observation set" where
  "queue_values admission = qe_value ` set (sq_entries (sa_queue admission))"

lemma queued_requests_values: "queued_requests lane = pn_request ` queue_values (sl_admission lane)"
  by (auto simp: queued_requests_def queue_values_def)

lemma push_values:
  assumes "admission_push admission cls v = (admission', Inr old)"
  shows "v \<in> queue_values admission' \<and> queue_values admission \<subseteq> queue_values admission' \<union> set_option old"
proof -
  let ?es = "sq_entries (sa_queue admission)"
  have split: "x = ?es ! i \<or> x \<in> set (remove_at i ?es)"
    if "rposition (\<lambda>e. qe_class e = Activity) ?es = Some i" "x \<in> set ?es" for i x
    using set_remove_at [of i ?es] rposition_Some [OF that(1)] that(2) by auto
  show ?thesis
    using assms by (auto simp: admission_push_def try_push_replacing_def queue_values_def dest: split
        split: prod.splits option.splits if_splits)
qed

lemma admit_awaited:
  assumes drain: "drain_inv w" and inv: "awaited w"
  shows "awaited (admit n w)"
proof (cases "\<exists>rec observation lane. aw_requests w n = Some (Admitting rec observation) \<and>
    aw_lanes w (lane_key rec) = Some lane \<and> aw_admission_lock w (lane_key rec) = None")
  case True
  then obtain rec observation lane where c: "aw_requests w n = Some (Admitting rec observation)"
      "aw_lanes w (lane_key rec) = Some lane" "aw_admission_lock w (lane_key rec) = None"
    by blast
  let ?k = "lane_key rec" and ?v = "\<lparr>pn_observation = observation, pn_request = n\<rparr>" and ?w = "admit n w"
  obtain admission r where push: "admission_push (sl_admission lane) (observation_class_of (oe_payload observation)) ?v =
      (admission, r)"
    by fastforce
  show ?thesis
  proof (cases r)
    case (Inl refused)
    have same: "queued_requests (lane\<lparr>sl_admission := admission\<rparr>) = queued_requests lane"
      using admission_push_cases(2) [OF push Inl] by (simp add: queued_requests_def)
    have w': "aw_lanes ?w = (aw_lanes w)(?k \<mapsto> lane\<lparr>sl_admission := admission\<rparr>)"
        "aw_drainers ?w = aw_drainers w"
        "\<And>m. aw_requests ?w m = Some Awaiting \<Longrightarrow> aw_requests w m = Some Awaiting"
      by (auto simp: admit_def c push Inl Let_def set_admission_lanes split: if_splits)
    show ?thesis
      by (rule awaited_same [OF inv w'(3)]) (auto simp: waiting_in_def w'(1,2) c(2) same)
  next
    case (Inr old)
    note vals = push_values [OF push [unfolded Inr]]
    have "sa_draining admission = sa_draining (sl_admission lane)"
      by (rule admission_push_cases(1) [OF push])
    then have popping: "aw_drainers w ?k = None" if "\<not> sa_draining admission"
      using drained [OF drain, of ?k] c(2) that by (simp add: lane_drained_def split: if_splits)
    have lanes: "aw_lanes ?w = (aw_lanes w)(?k \<mapsto> lane\<lparr>sl_admission := admission\<lparr>sa_draining := True\<rparr>\<rparr>)"
      by (auto simp: admit_def c push Inr Let_def set_admission_lanes split: option.splits)
    have drainers: "drainer_pending (aw_drainers ?w j) = drainer_pending (aw_drainers w j)" for j
      using popping by (auto simp: admit_def c push Inr Let_def split: option.splits)
    have requests: "aw_requests ?w m = (if m = n then Some Awaiting else case old of
        Some p \<Rightarrow> if pn_request p = m \<and> aw_requests w m = Some Awaiting then Some (Answered (Inl ObservationCoalesced))
                  else aw_requests w m
      | None \<Rightarrow> aw_requests w m)" for m
      by (auto simp: admit_def c push Inr Let_def complete_requests split: option.splits)
    show ?thesis
      unfolding awaited_def
    proof (intro allI impI)
      fix m
      assume m: "aw_requests ?w m = Some Awaiting"
      show "\<exists>j. waiting_in ?w m j"
      proof (cases "m = n")
        case True
        have "n \<in> pn_request ` queue_values admission"
          using vals by force
        then have "waiting_in ?w n ?k"
          by (simp add: waiting_in_def lanes queued_requests_values queue_values_def)
        then show ?thesis
          using True by blast
      next
        case False
        then have was: "aw_requests w m = Some Awaiting" "\<forall>p. old = Some p \<longrightarrow> pn_request p \<noteq> m"
          using m by (auto simp: requests split: option.splits if_splits)
        then obtain j where j: "waiting_in w m j"
          using inv by (auto simp: awaited_def)
        have "waiting_in ?w m j"
        proof (cases "j = ?k \<and> m \<in> queued_requests lane")
          case True
          then obtain p where "p \<in> queue_values (sl_admission lane)" "pn_request p = m"
            by (auto simp: queued_requests_values)
          then have "p \<in> queue_values admission"
            using vals was(2) by auto
          then show ?thesis
            using True \<open>pn_request p = m\<close>
            by (auto simp: waiting_in_def lanes queued_requests_values queue_values_def)
        next
          case False
          then show ?thesis
            using j c(2) by (auto simp: waiting_in_def lanes drainers)
        qed
        then show ?thesis ..
      qed
    qed
  qed
qed (use inv in \<open>auto simp: admit_def Let_def split: option.splits request_state.splits\<close>)

text \<open>A step that keeps the queues, and holds or completes what the drainers hold.\<close>

definition lane_entries :: "'j api_world \<Rightarrow> session_id \<Rightarrow> pending_observation queue_entry list option" where
  "lane_entries w k = map_option (sq_entries \<circ> sa_queue \<circ> sl_admission) (aw_lanes w k)"

lemma awaited_drainer:
  assumes inv: "awaited w"
    and "\<And>m. aw_requests w' m = Some Awaiting \<Longrightarrow> aw_requests w m = Some Awaiting"
    and "\<And>j m. aw_requests w' m = Some Awaiting \<Longrightarrow> drainer_pending (aw_drainers w j) = Some m \<Longrightarrow>
      drainer_pending (aw_drainers w' j) = Some m"
    and "\<And>j. lane_entries w' j = lane_entries w j"
  shows "awaited w'"
proof (rule awaited_same [OF inv assms(2)])
  fix m j
  assume "aw_requests w' m = Some Awaiting" "waiting_in w m j"
  then show "waiting_in w' m j"
    using assms(3) [of m j] assms(4) [of j]
    by (cases "aw_lanes w j"; cases "aw_lanes w' j") (auto simp: waiting_in_def queued_requests_def lane_entries_def)
qed

lemma lane_entries_simps [simp]:
  "lane_entries (complete n r w) = lane_entries w"
  "lane_entries (set_drainer k d w) = lane_entries w"
  "aw_lanes w k = Some lane \<Longrightarrow> sq_entries (sa_queue a) = sq_entries (sa_queue (sl_admission lane)) \<Longrightarrow>
     lane_entries (set_admission k a w) j = lane_entries w j"
  by (auto simp: lane_entries_def fun_eq_iff set_admission_lanes)

lemma complete_awaiting:
  "aw_requests (complete n r w) m = Some Awaiting \<longleftrightarrow> aw_requests w m = Some Awaiting \<and> m \<noteq> n"
  by (auto simp: complete_requests)

lemma apply_next_awaited:
  assumes "awaited w"
  shows "awaited (apply_next fails fc from_slice k w)"
proof (cases "\<exists>pending lane. aw_drainers w k = Some (Applying pending) \<and> aw_lanes w k = Some lane")
  case True
  then obtain pending lane where c: "aw_drainers w k = Some (Applying pending)" "aw_lanes w k = Some lane"
    by blast
  show ?thesis
    by (rule awaited_drainer [OF assms])
      (auto simp: apply_next_def c Let_def complete_awaiting lane_entries_def split: prod.splits sum.splits if_splits)
qed (use assms in \<open>auto simp: apply_next_def split: option.splits drainer_state.splits\<close>)

lemma start_reconcile_awaited:
  assumes "awaited w"
  shows "awaited (start_reconcile k w)"
proof (cases "\<exists>pending r lane. aw_drainers w k = Some (Reconciling pending r) \<and> aw_lanes w k = Some lane")
  case True
  then obtain pending r lane where c: "aw_drainers w k = Some (Reconciling pending r)" "aw_lanes w k = Some lane"
    by blast
  show ?thesis
    by (rule awaited_drainer [OF assms]) (auto simp: start_reconcile_def c lane_entries_def split: if_splits)
qed (use assms in \<open>auto simp: start_reconcile_def split: option.splits drainer_state.splits\<close>)

lemma clear_rejection_awaited:
  assumes "awaited w"
  shows "awaited (clear_rejection fails k w)"
proof (cases "\<exists>pending r lane. aw_drainers w k = Some (Clearing pending r) \<and> aw_lanes w k = Some lane")
  case True
  then obtain pending r lane where c: "aw_drainers w k = Some (Clearing pending r)" "aw_lanes w k = Some lane"
    by blast
  show ?thesis
    by (rule awaited_drainer [OF assms])
      (auto simp: clear_rejection_def c Let_def complete_awaiting lane_entries_def split: prod.splits sum.splits if_splits)
qed (use assms in \<open>auto simp: clear_rejection_def split: option.splits drainer_state.splits\<close>)

lemma reopen_admission_awaited:
  assumes "awaited w"
  shows "awaited (reopen_admission k w)"
proof (cases "\<exists>pending r remaining lane. aw_drainers w k = Some (Reopening pending r remaining) \<and>
    aw_lanes w k = Some lane \<and> aw_admission_lock w k = None")
  case True
  then obtain pending r remaining lane where c: "aw_drainers w k = Some (Reopening pending r remaining)"
      "aw_lanes w k = Some lane" "aw_admission_lock w k = None"
    by blast
  obtain admission reopened where a: "admission_reconcile_rejected (sl_admission lane) remaining = (admission, reopened)"
    by fastforce
  then have "sq_entries (sa_queue admission) = sq_entries (sa_queue (sl_admission lane))"
    by (auto simp: admission_reconcile_rejected_def mark_reconciled_def split: if_splits)
  then show ?thesis
    by (intro awaited_drainer [OF assms])
      (auto simp: reopen_admission_def c a Let_def complete_awaiting lane_entries_def set_admission_lanes split: if_splits)
qed (use assms in \<open>auto simp: reopen_admission_def split: option.splits drainer_state.splits\<close>)

lemma pop_next_awaited:
  assumes inv: "awaited w"
  shows "awaited (pop_next k w)"
proof (cases "\<exists>lane. aw_drainers w k = Some Popping \<and> aw_lanes w k = Some lane \<and> aw_admission_lock w k = None")
  case True
  then obtain lane where c: "aw_drainers w k = Some Popping" "aw_lanes w k = Some lane" "aw_admission_lock w k = None"
    by blast
  show ?thesis
  proof (cases "sq_entries (sa_queue (sl_admission lane))")
    case Nil
    then show ?thesis
      by (intro awaited_drainer [OF inv])
        (auto simp: pop_next_def c admission_pop_def queue_pop_def lane_entries_def set_admission_lanes split: if_splits)
  next
    case (Cons e es)
    then show ?thesis
      by (intro awaited_same [OF inv])
        (auto simp: pop_next_def c admission_pop_def queue_pop_def set_admission_lanes waiting_in_def
          queued_requests_def split: if_splits)
  qed
qed (use inv in \<open>auto simp: pop_next_def split: option.splits drainer_state.splits\<close>)

lemma insert_lane_awaited: "awaited w \<Longrightarrow> awaited (insert_lane n w)"
  by (erule awaited_same)
    (auto simp: insert_lane_def waiting_in_def split: option.splits request_state.splits if_splits)

lemma api_step_awaited:
  assumes "drain_inv w" and inv: "awaited w"
  shows "awaited (fst (api_step fc from_slice w call))"
proof (cases call)
  case (CallLane fails k op)
  then show ?thesis
    by (intro awaited_drainer [OF inv]) (auto simp: lane_entries_def split: option.splits prod.splits)
next
  case (ReloadPolicy policy)
  then show ?thesis
    by (intro awaited_drainer [OF inv]) (auto simp: update_policy_api_def lane_entries_def option.map_comp o_def)
next
  case (LookUpLane fails n)
  then show ?thesis
    by (intro awaited_drainer [OF inv])
      (auto simp: look_up_lane_def lane_entries_def split: option.splits request_state.splits sum.splits if_splits)
next
  case (TakeTransition n)
  then show ?thesis
    by (intro awaited_drainer [OF inv])
      (auto simp: take_transition_def lane_entries_def split: option.splits request_state.splits if_splits)
next
  case (PersistRejection fails n)
  then show ?thesis
    by (intro awaited_drainer [OF inv])
      (auto simp: persist_rejection_def lane_entries_def Let_def
        split: option.splits request_state.splits prod.splits sum.splits if_splits)
next
  case (CancelRequest n)
  then show ?thesis
    by (intro awaited_drainer [OF inv])
      (auto simp: cancel_request_def lane_entries_def Let_def split: option.splits request_state.splits if_splits)
qed (use assms in \<open>auto simp: admit_awaited insert_lane_awaited pop_next_awaited apply_next_awaited
    start_reconcile_awaited clear_rejection_awaited reopen_admission_awaited configure_health_def lane_entries_def
    split: if_splits intro!: awaited_drainer [OF inv]\<close>)

lemma reachable_awaited: "reachable fc from_slice w \<Longrightarrow> awaited w"
proof -
  assume "reachable fc from_slice w"
  then obtain fails db rej policy w0 calls where start: "api_start fails fc db rej policy = Inr w0"
    and w: "w = fst (run_machine (api_step fc from_slice) w0 calls)"
    unfolding reachable_def by blast
  have "awaited w0"
    using start by (auto simp: api_start_def result_elims awaited_def)
  with api_start_inv [OF start] have "awaited (fst (run_machine (api_step fc from_slice) w0 calls))"
  proof (induction calls arbitrary: w0)
    case (Cons call calls)
    from Cons.IH [of "fst (api_step fc from_slice w0 call)"] show ?case
      using Cons.prems by (simp add: api_step_lock api_step_drain api_step_awaited)
  qed simp
  then show "awaited w"
    unfolding w .
qed

text \<open>
  C8. No wake-up is lost: in every state of a process, a request whose observation was admitted and
  that has not been answered has its observation in the queue of a lane whose drainer is running, or
  in the hands of that drainer.
\<close>
theorem no_lost_wakeup:
  assumes "reachable fc from_slice w" and "aw_requests w n = Some Awaiting"
  shows "\<exists>k lane d. aw_lanes w k = Some lane \<and> aw_drainers w k = Some d \<and>
    (drainer_pending (Some d) = Some n \<or> n \<in> queued_requests lane)"
proof -
  obtain k where k: "waiting_in w n k"
    using reachable_awaited [OF assms(1)] assms(2) by (auto simp: awaited_def)
  have drain: "lane_drained (aw_lanes w k) (aw_drainers w k)"
    using reachable_inv [OF assms(1)] drained by blast
  show ?thesis
  proof (cases "aw_drainers w k")
    case None
    then show ?thesis
      using k drain by (auto simp: waiting_in_def lane_drained_def idle_lane_def queued_requests_def split: option.splits)
  next
    case (Some d)
    then obtain lane where "aw_lanes w k = Some lane"
      using drain by (auto simp: lane_drained_def split: option.splits)
    then show ?thesis
      using k Some by (auto simp: waiting_in_def)
  qed
qed

section \<open>An undisturbed drainer finishes\<close>

text \<open>
  The drainer of lane \<open>k\<close> between taking request \<open>n\<close> off the queue and the next take: \<open>phase\<close> is
  how far it can be, \<open>w0\<close> the state before, \<open>es\<close> what is left in the queue.
\<close>

fun drainer_phase :: "drainer_state option \<Rightarrow> nat" where
  "drainer_phase (Some (Reconciling pending r)) = 3"
| "drainer_phase (Some (Clearing pending r)) = 2"
| "drainer_phase (Some (Reopening pending r remaining)) = 1"
| "drainer_phase _ = 0"

definition in_round :: "'j api_world \<Rightarrow> session_id \<Rightarrow> nat \<Rightarrow> pending_observation queue_entry list \<Rightarrow> nat \<Rightarrow>
    'j api_world \<Rightarrow> bool" where
  "in_round w0 k n es phase w \<longleftrightarrow> lane_entries w k = Some es \<and> aw_admission_lock w k = None \<and>
     (\<forall>m. aw_requests w m = Some Awaiting \<longrightarrow> aw_requests w0 m = Some Awaiting) \<and>
     drainer_phase (aw_drainers w k) \<le> phase \<and>
     (if drainer_phase (aw_drainers w k) = 0
      then aw_drainers w k = Some Popping \<and> aw_transition_lock w = None \<and> aw_requests w n \<noteq> Some Awaiting
      else drainer_pending (aw_drainers w k) = Some n \<and>
        aw_transition_lock w = (if drainer_phase (aw_drainers w k) = 3 then None else Some (ByDrainer k)))"

lemma lane_entries_Some: "lane_entries w k = Some es \<longleftrightarrow>
    (\<exists>lane. aw_lanes w k = Some lane \<and> sq_entries (sa_queue (sl_admission lane)) = es)"
  by (auto simp: lane_entries_def)

lemma apply_next_round:
  assumes "aw_drainers w k = Some (Applying p)" "lane_entries w k = Some es" "aw_admission_lock w k = None"
    "aw_transition_lock w = None" "\<forall>m. aw_requests w m = Some Awaiting \<longrightarrow> aw_requests w0 m = Some Awaiting"
  shows "in_round w0 k (pn_request p) es 3 (apply_next fails fc from_slice k w)"
  using assms
  by (auto simp: apply_next_def in_round_def lane_entries_Some Let_def complete_awaiting lane_entries_def
      split: prod.splits sum.splits)

lemma start_reconcile_round:
  assumes "in_round w0 k n es 3 w"
  shows "in_round w0 k n es 2 (start_reconcile k w)"
proof (cases "aw_drainers w k")
  case (Some d)
  then show ?thesis
    using assms by (cases d) (auto simp: start_reconcile_def in_round_def lane_entries_Some split: option.splits)
qed (use assms in \<open>simp add: in_round_def\<close>)

lemma clear_rejection_round:
  assumes "in_round w0 k n es 2 w"
  shows "in_round w0 k n es 1 (clear_rejection fails k w)"
proof (cases "aw_drainers w k")
  case (Some d)
  then show ?thesis
    using assms by (cases d)
      (auto simp: clear_rejection_def in_round_def lane_entries_Some Let_def complete_awaiting lane_entries_def
        split: option.splits prod.splits sum.splits)
qed (use assms in \<open>simp add: in_round_def\<close>)

lemma reopen_admission_round:
  assumes "in_round w0 k n es 1 w"
  shows "in_round w0 k n es 0 (reopen_admission k w)"
proof (cases "aw_drainers w k")
  case (Some d)
  then show ?thesis
    using assms by (cases d)
      (auto simp: reopen_admission_def in_round_def lane_entries_Some Let_def complete_awaiting lane_entries_def
        set_admission_lanes admission_reconcile_rejected_def mark_reconciled_def
        split: option.splits prod.splits sum.splits if_splits)
qed (use assms in \<open>simp add: in_round_def\<close>)

text \<open>One iteration of the loop of \<open>drain_observations\<close>.\<close>

definition drain_round :: "sqlite \<Rightarrow> session_id \<Rightarrow> api_call list" where
  "drain_round fails k = [PopNext k, ApplyNext fails k, StartReconcile k, ClearRejection fails k, ReopenAdmission k]"

lemma drain_round_once:
  assumes "aw_drainers w k = Some Popping" "lane_entries w k = Some (e # es)" "aw_admission_lock w k = None"
    "aw_transition_lock w = None"
  shows "in_round w k (pn_request (qe_value e)) es 0
    (fst (run_machine (api_step fc from_slice) w (drain_round fails k)))"
proof -
  obtain lane where lane: "aw_lanes w k = Some lane" "sq_entries (sa_queue (sl_admission lane)) = e # es"
    using assms(2) by (auto simp: lane_entries_Some)
  let ?w = "pop_next k w"
  have "aw_drainers ?w k = Some (Applying (qe_value e))" "lane_entries ?w k = Some es" "aw_admission_lock ?w k = None"
      "aw_transition_lock ?w = None" "\<forall>m. aw_requests ?w m = Some Awaiting \<longrightarrow> aw_requests w m = Some Awaiting"
    using assms lane by (auto simp: pop_next_def admission_pop_def queue_pop_def lane_entries_def set_admission_lanes)
  from reopen_admission_round [OF clear_rejection_round [OF start_reconcile_round [OF apply_next_round [OF this]]]]
  show ?thesis
    by (simp add: drain_round_def)
qed

lemma drain_rounds:
  assumes "aw_drainers w k = Some Popping" "lane_entries w k = Some es" "aw_admission_lock w k = None"
    "aw_transition_lock w = None"
  shows "let w' = fst (run_machine (api_step fc from_slice) w (concat (replicate (length es) (drain_round fails k))))
    in aw_drainers w' k = Some Popping \<and> lane_entries w' k = Some [] \<and> aw_admission_lock w' k = None \<and>
       aw_transition_lock w' = None \<and> (\<forall>m. aw_requests w' m = Some Awaiting \<longrightarrow> aw_requests w m = Some Awaiting) \<and>
       (\<forall>e \<in> set es. aw_requests w' (pn_request (qe_value e)) \<noteq> Some Awaiting)"
  using assms
proof (induction es arbitrary: w)
  case (Cons e es)
  let ?w = "fst (run_machine (api_step fc from_slice) w (drain_round fails k))"
  have once: "in_round w k (pn_request (qe_value e)) es 0 ?w"
    by (rule drain_round_once [OF Cons.prems])
  then have "aw_drainers ?w k = Some Popping" "lane_entries ?w k = Some es" "aw_admission_lock ?w k = None"
      "aw_transition_lock ?w = None"
    by (auto simp: in_round_def split: if_splits)
  from Cons.IH [OF this] once show ?case
    by (auto simp: run_machine_append_parts in_round_def Let_def split: if_splits)
qed simp

text \<open>
  C26. A drainer makes progress: from any state in which the drainer of a lane is at the
  head of its loop and neither mutex it needs is taken, its own steps alone, whatever the store does,
  answer every request that waits in the lane, empty the queue and end the task.
\<close>
theorem drainer_finishes:
  assumes "aw_drainers w k = Some Popping" and "aw_lanes w k = Some lane"
    and "aw_admission_lock w k = None" and "aw_transition_lock w = None"
    and "w' = fst (run_machine (api_step fc from_slice) w
      (concat (replicate (length (sq_entries (sa_queue (sl_admission lane)))) (drain_round fails k)) @ [PopNext k]))"
  shows "aw_drainers w' k = None \<and> lane_entries w' k = Some [] \<and>
    (\<forall>n \<in> queued_requests lane. aw_requests w' n \<noteq> Some Awaiting)"
proof -
  let ?es = "sq_entries (sa_queue (sl_admission lane))"
  let ?v = "fst (run_machine (api_step fc from_slice) w (concat (replicate (length ?es) (drain_round fails k))))"
  have "lane_entries w k = Some ?es"
    using assms(2) by (simp add: lane_entries_def)
  from drain_rounds [OF assms(1) this assms(3,4)]
  have v: "aw_drainers ?v k = Some Popping" "lane_entries ?v k = Some []" "aw_admission_lock ?v k = None"
      "\<forall>e \<in> set ?es. aw_requests ?v (pn_request (qe_value e)) \<noteq> Some Awaiting"
    unfolding Let_def by blast+
  have w': "w' = pop_next k ?v"
    unfolding assms(5) by (simp add: run_machine_append_parts)
  show ?thesis
    using v by (auto simp: w' pop_next_def lane_entries_Some admission_pop_def queue_pop_def set_admission_lanes
        queued_requests_def)
qed

definition queued_api :: "document api_world" where
  "queued_api = fst (run_machine (api_step sample_code observation_of_doc) sample_api
     [Arrive 1 sample_record running_observation, LookUpLane (\<lambda>_. False) 1, InsertLane 1, Admit 1])"

lemma queued_api_facts:
  "aw_requests queued_api 1 = Some Awaiting"
  "aw_drainers queued_api = [lane_key sample_record \<mapsto> Popping]"
  "aw_admission_lock queued_api = Map.empty" "aw_transition_lock queued_api = None"
  "\<exists>lane. aw_lanes queued_api (lane_key sample_record) = Some lane \<and> queued_requests lane = {1}"
proof -
  have durable: "observation_class_of (oe_payload running_observation) = Durable"
    by (simp add: running_observation_def stored_observation_def)
  have empty: "db_snapshots (empty_db :: document db) = []"
    by (simp add: empty_db_def)
  show "aw_requests queued_api 1 = Some Awaiting"
  "aw_drainers queued_api = [lane_key sample_record \<mapsto> Popping]"
  "aw_admission_lock queued_api = Map.empty" "aw_transition_lock queued_api = None"
  "\<exists>lane. aw_lanes queued_api (lane_key sample_record) = Some lane \<and> queued_requests lane = {1}"
    by (simp_all add: queued_api_def sample_api_def look_up_lane_def insert_lane_def
        build_lane_def load_snapshot_def run_sql_def load_optional_json_def session_admission_new_def
        session_queue_new_def OBSERVATION_QUEUE_CAPACITY_def empty Let_def admit_def push_durable durable
        set_admission_def queued_requests_def)
qed

theorem no_lost_wakeup_witness:
  "\<exists>k lane d. aw_lanes queued_api k = Some lane \<and> aw_drainers queued_api k = Some d \<and>
    (drainer_pending (Some d) = Some 1 \<or> 1 \<in> queued_requests lane)"
proof -
  have "reachable sample_code observation_of_doc queued_api"
    unfolding reachable_def queued_api_def using sample_api_start no_rejections_known by blast
  from no_lost_wakeup [OF this queued_api_facts(1)] show ?thesis .
qed

theorem drainer_finishes_witness:
  "\<exists>calls. aw_requests (fst (run_machine (api_step sample_code observation_of_doc) queued_api calls)) 1 \<noteq> Some Awaiting"
proof -
  obtain lane where lane: "aw_lanes queued_api (lane_key sample_record) = Some lane" "queued_requests lane = {1}"
    using queued_api_facts(5) by blast
  have "aw_drainers queued_api (lane_key sample_record) = Some Popping"
      "aw_admission_lock queued_api (lane_key sample_record) = None"
    by (simp_all add: queued_api_facts)
  from drainer_finishes [OF this(1) lane(1) this(2) queued_api_facts(4) refl, of sample_code observation_of_doc "\<lambda>_. False"]
  show ?thesis
    using lane(2) by blast
qed

section \<open>A reload can miss a lane\<close>

text \<open>
  C27. A policy reload can miss a lane that is being created: \<open>lane\<close> reads the policy before it takes
  the lock of the lane map, so a reload between the two updates the policy and every lane in the map,
  and the new lane enters the map afterwards with the old policy.
\<close>
theorem reload_misses_lane:
  assumes "aw_requests w n = Some (Arrived rec observation)" and "aw_lanes w (lane_key rec) = None"
    and "load_snapshot fails fc (sh_db (aw_shared w)) (st_session rec) = Inr None"
  shows "let w' = fst (run_machine (api_step fc from_slice) w [LookUpLane fails n, ReloadPolicy policy, InsertLane n])
    in aw_policy w' = policy \<and>
       map_option (ln_policy \<circ> sl_coordinator) (aw_lanes w' (lane_key rec)) = Some (aw_policy w)"
  using assms
  by (simp add: look_up_lane_def build_lane_def update_policy_api_def insert_lane_def session_admission_new_def
      session_queue_new_def OBSERVATION_QUEUE_CAPACITY_def lane_new_def)

definition short_policy :: reducer_policy where
  "short_policy = \<lparr>rp_suspect_after = 1, rp_stall_after = 2, rp_reminder_every = 3\<rparr>"

theorem reload_misses_lane_witness:
  "let w = fst (api_step sample_code observation_of_doc sample_api (Arrive 1 sample_record running_observation));
       w' = fst (run_machine (api_step sample_code observation_of_doc) w
         [LookUpLane (\<lambda>_. False) 1, ReloadPolicy short_policy, InsertLane 1])
   in aw_policy w' = short_policy \<and>
      map_option (ln_policy \<circ> sl_coordinator) (aw_lanes w' (lane_key sample_record)) = Some default_reducer_policy"
proof -
  let ?w = "fst (api_step sample_code observation_of_doc sample_api (Arrive 1 sample_record running_observation))"
  have "aw_requests ?w 1 = Some (Arrived sample_record running_observation)" "aw_lanes ?w (lane_key sample_record) = None"
      "load_snapshot (\<lambda>_. False) sample_code (sh_db (aw_shared ?w)) (st_session sample_record) = Inr None"
      "aw_policy ?w = default_reducer_policy"
    by (simp_all add: sample_api_def load_snapshot_def run_sql_def load_optional_json_def empty_db_def)
  then show ?thesis
    using reload_misses_lane [of ?w 1 sample_record running_observation "\<lambda>_. False" sample_code observation_of_doc short_policy]
    by (simp add: Let_def)
qed

end
