(* ===== verification/Records.thy ===== *)
theory Records
  imports Hierarchy
begin

text \<open>
  The remaining repositories of \<open>crates/watchdog-store/src/repositories.rs\<close> and their records in
  \<open>records.rs\<close>: registered watch paths, session metadata, activity samples, file cursors, deadlines,
  adapter health and notification attempts. Their tables are a record beside the core tables, which
  serve their foreign keys. \<open>serde_json\<close> on each record type is a parameter, and so is SQLite's
  \<open>json_set\<close> of the adapter version in a health document.
\<close>

section \<open>Records\<close>

definition optional_bounded :: "nat \<Rightarrow> string \<Rightarrow> string option \<Rightarrow> domain_input_error + string option" where
  "optional_bounded n field v =
     transpose_option (map_option (bounded_text_new n field)
       (case v of Some t \<Rightarrow> if t = '''' then None else Some t | None \<Rightarrow> None))"

record session_metadata_record =
  mt_session :: session_identity
  mt_title :: "string option"
  mt_startup_directory :: "string option"
  mt_repository_remote :: "string option"
  mt_branch :: "string option"
  mt_pull_request_number :: "u64 option"
  mt_pull_request_url :: "string option"
  mt_updated_at :: wall_time_ms

definition session_metadata_record_new ::
  "session_identity \<Rightarrow> string option \<Rightarrow> string option \<Rightarrow> string option \<Rightarrow> string option \<Rightarrow> u64 option \<Rightarrow>
     string option \<Rightarrow> wall_time_ms \<Rightarrow> domain_input_error + session_metadata_record" where
  "session_metadata_record_new session title directory remote branch number url updated_at =
     and_then (optional_bounded 512 ''session_title'' title) (\<lambda>title.
     and_then (optional_bounded 4096 ''startup_directory'' directory) (\<lambda>directory.
     and_then (optional_bounded 2048 ''repository_remote'' remote) (\<lambda>remote.
     and_then (optional_bounded 512 ''branch'' branch) (\<lambda>branch.
     and_then (optional_bounded 2048 ''pull_request_url'' url) (\<lambda>url.
       Inr \<lparr>mt_session = session, mt_title = title, mt_startup_directory = directory,
            mt_repository_remote = remote, mt_branch = branch, mt_pull_request_number = number,
            mt_pull_request_url = url, mt_updated_at = updated_at\<rparr>)))))"

record watch_path_record =
  wp_session :: session_identity
  wp_root :: main_session_id
  wp_event_key :: string
  wp_native_path :: string
  wp_registered_at :: wall_time_ms

definition watch_path_record_new ::
  "session_identity \<Rightarrow> main_session_id \<Rightarrow> string \<Rightarrow> string \<Rightarrow> wall_time_ms \<Rightarrow>
     domain_input_error + watch_path_record" where
  "watch_path_record_new session root event_key native_path registered_at =
     and_then (bounded_text_new 512 ''watch_path_event_key'' event_key) (\<lambda>event_key.
     and_then (bounded_text_new 4096 ''registered_watch_path'' native_path) (\<lambda>native_path.
       if event_key = '''' then Inl (EmptyField ''watch_path_event_key'')
       else if native_path = '''' then Inl (EmptyField ''registered_watch_path'')
       else Inr \<lparr>wp_session = session, wp_root = root, wp_event_key = event_key,
                 wp_native_path = native_path, wp_registered_at = registered_at\<rparr>))"

datatype activity_evidence =
    NativeProgress
  | FilesystemChange string
  | ProcessCpu u64 u64 u64 u64
  | ProcessIo u64 u64

fun evidence_kind :: "activity_evidence \<Rightarrow> string" where
  "evidence_kind NativeProgress = ''native_progress''"
| "evidence_kind (FilesystemChange target) = ''filesystem''"
| "evidence_kind (ProcessCpu u s cu cs) = ''process_cpu''"
| "evidence_kind (ProcessIo r w) = ''process_io''"

record activity_sample_record =
  sm_session :: session_identity
  sm_observed_at :: wall_time_ms
  sm_evidence :: activity_evidence

datatype record_input_error = CompleteOffsetAfterReadOffset

record file_cursor_record =
  fc_path_key :: string
  fc_device_id :: u64
  fc_inode :: u64
  fc_byte_offset :: u64
  fc_complete_record_offset :: u64
  fc_parser_version :: string
  fc_last_observation_id :: "observation_id option"

definition file_cursor_record_new ::
  "string \<Rightarrow> u64 \<Rightarrow> u64 \<Rightarrow> u64 \<Rightarrow> u64 \<Rightarrow> string \<Rightarrow> observation_id option \<Rightarrow> record_input_error + file_cursor_record" where
  "file_cursor_record_new path_key device inode byte_offset complete version observation =
     (if complete > byte_offset then Inl CompleteOffsetAfterReadOffset
      else Inr \<lparr>fc_path_key = path_key, fc_device_id = device, fc_inode = inode, fc_byte_offset = byte_offset,
                fc_complete_record_offset = complete, fc_parser_version = version,
                fc_last_observation_id = observation\<rparr>)"

text \<open>\<open>FileCursorRecord::deserialize\<close> after the derived parser produced the raw fields.\<close>

definition file_cursor_deserialize :: "file_cursor_record \<Rightarrow> file_cursor_record option" where
  "file_cursor_deserialize raw =
     ok (file_cursor_record_new (fc_path_key raw) (fc_device_id raw) (fc_inode raw) (fc_byte_offset raw)
       (fc_complete_record_offset raw) (fc_parser_version raw) (fc_last_observation_id raw))"

record deadline_record =
  dl_session :: session_identity
  dl_deadline :: "wall_time_ms option"
  dl_paused_at :: "wall_time_ms option"
  dl_provenance :: observation_source

datatype adapter_health_status = AdapterHealthy | AdapterDegraded | AdapterFailed

fun adapter_status_name :: "adapter_health_status \<Rightarrow> string" where
  "adapter_status_name AdapterHealthy = ''healthy''"
| "adapter_status_name AdapterDegraded = ''degraded''"
| "adapter_status_name AdapterFailed = ''failed''"

record adapter_health_record =
  ah_adapter :: adapter_identity
  ah_status :: adapter_health_status
  ah_last_success :: "wall_time_ms option"
  ah_last_error :: "wall_time_ms option"
  ah_affected_scope :: "string option"
  ah_message :: "string option"

datatype notification_channel = HomeAssistantChannel | WebhookChannel | BrowserChannel

fun channel_name :: "notification_channel \<Rightarrow> string" where
  "channel_name HomeAssistantChannel = ''home_assistant''"
| "channel_name WebhookChannel = ''webhook''"
| "channel_name BrowserChannel = ''browser''"

datatype notification_outcome = NotificationDelivered | NotificationFailed | NotificationTimedOut

fun notification_outcome_name :: "notification_outcome \<Rightarrow> string" where
  "notification_outcome_name NotificationDelivered = ''delivered''"
| "notification_outcome_name NotificationFailed = ''failed''"
| "notification_outcome_name NotificationTimedOut = ''timed_out''"

record notification_attempt_record =
  na_event_id :: event_id
  na_channel :: notification_channel
  na_attempted_at :: wall_time_ms
  na_outcome :: notification_outcome
  na_message :: "string option"

section \<open>Tables\<close>

record metadata_columns =
  mc_title :: "string option"
  mc_startup_directory :: "string option"
  mc_repository_remote :: "string option"
  mc_branch :: "string option"
  mc_pull_request_number :: "i64 option"
  mc_pull_request_url :: "string option"

record 'j watch_path_row =
  wr_session :: session_id
  wr_root :: session_id
  wr_native_path :: string
  wr_registered_at :: wall_time_ms
  wr_json :: 'j

record 'j activity_row =
  ac_sample_id :: i64
  ac_session :: session_id
  ac_observed_at :: wall_time_ms
  ac_kind :: string
  ac_json :: 'j

record 'j adapter_row =
  ar_version :: string
  ar_richness :: i64
  ar_json :: 'j

record 'j attempt_row =
  at_attempt_id :: i64
  at_event_id :: i64
  at_json :: 'j

text \<open>
  The columns a repository writes and never reads back are left out. \<open>rd_metadata\<close> are the columns
  migration 3 and the title and startup directory add to a session's row.
\<close>

record 'j records_db =
  rd_metadata :: "(session_id \<times> metadata_columns) list"
  rd_watch_paths :: "(string \<times> 'j watch_path_row) list"
  rd_activity :: "'j activity_row list"
  rd_activity_seq :: i64
  rd_cursors :: "(string \<times> 'j) list"
  rd_deadlines :: "(session_id \<times> 'j) list"
  rd_adapters :: "(string \<times> 'j adapter_row) list"
  rd_attempts :: "'j attempt_row list"
  rd_attempt_seq :: i64

definition empty_records :: "'j records_db" where
  "empty_records = \<lparr>rd_metadata = [], rd_watch_paths = [], rd_activity = [], rd_activity_seq = 0, rd_cursors = [],
     rd_deadlines = [], rd_adapters = [], rd_attempts = [], rd_attempt_seq = 0\<rparr>"

record 'j records_code =
  rk_watch_to_vec :: "watch_path_record \<Rightarrow> 'j option"
  rk_watch_from_slice :: "'j \<Rightarrow> watch_path_record option"
  rk_activity_to_vec :: "activity_sample_record \<Rightarrow> 'j option"
  rk_activity_from_slice :: "'j \<Rightarrow> activity_sample_record option"
  rk_cursor_to_vec :: "file_cursor_record \<Rightarrow> 'j option"
  rk_cursor_from_slice :: "'j \<Rightarrow> file_cursor_record option"
  rk_deadline_to_vec :: "deadline_record \<Rightarrow> 'j option"
  rk_deadline_from_slice :: "'j \<Rightarrow> deadline_record option"
  rk_health_to_vec :: "adapter_health_record \<Rightarrow> 'j option"
  rk_health_from_slice :: "'j \<Rightarrow> adapter_health_record option"
  rk_health_set_version :: "string \<Rightarrow> 'j \<Rightarrow> 'j"
  rk_attempt_to_vec :: "notification_attempt_record \<Rightarrow> 'j option"
  rk_attempt_from_slice :: "'j \<Rightarrow> notification_attempt_record option"

section \<open>Watch paths and metadata\<close>

text \<open>SQLite's \<open>length\<close> of a text: its characters before the first NUL.\<close>

definition sql_length :: "string \<Rightarrow> nat" where
  "sql_length s = length (filter (\<lambda>c. \<not> byte_in c 128 191) (takeWhile (\<lambda>c. c \<noteq> CHR 0x00) s))"

text \<open>
  \<open>INSERT OR IGNORE\<close> skips a row against a \<open>UNIQUE\<close> or \<open>CHECK\<close> constraint; a missing session is an
  error.
\<close>

definition save_watch_path_body ::
  "sqlite \<Rightarrow> 'j foreign_code \<Rightarrow> 'j records_code \<Rightarrow> 'j db \<Rightarrow> watch_path_record \<Rightarrow> 'j \<Rightarrow> 'j records_db \<Rightarrow>
     store_error + 'j records_db \<times> bool" where
  "save_watch_path_body fails fc rk db rec payload rd =
     (let session = identity_session_id (wp_session rec) in
      and_then (run_sql fails (Statement ''select session root'')) (\<lambda>_.
        if map_option sr_root (map_of (db_sessions db) session) \<noteq> Some (main_session (wp_root rec))
        then Inl IdentityMismatch
        else
          and_then (run_sql fails (Statement ''select watch path event'')) (\<lambda>_.
            case map_of (rd_watch_paths rd) (wp_event_key rec) of
              Some row \<Rightarrow>
                and_then (decode_json fc (rk_watch_from_slice rk) (wr_json row)) (\<lambda>existing.
                  if wp_session existing = wp_session rec \<and> wp_root existing = wp_root rec \<and>
                     wp_event_key existing = wp_event_key rec \<and> wp_native_path existing = wp_native_path rec
                  then Inr (rd, False) else Inl WatchPathIdentityConflict)
            | None \<Rightarrow>
                and_then (run_sql fails (Statement ''select watch path'')) (\<lambda>_.
                  if list_ex (\<lambda>(_, row). wr_session row = session \<and> wr_native_path row = wp_native_path rec)
                       (rd_watch_paths rd)
                  then Inl WatchPathAlreadyRegistered
                  else
                    and_then (run_sql fails (Statement ''insert watch path'')) (\<lambda>_.
                      if sql_length (wp_event_key rec) = 0 \<or> sql_length (wp_native_path rec) = 0
                      then Inl WatchPathAlreadyRegistered
                      else if \<not> known_session db (main_session (wp_root rec)) then Inl Sqlx
                      else Inr (rd\<lparr>rd_watch_paths := rd_watch_paths rd @
                        [(wp_event_key rec, \<lparr>wr_session = session, wr_root = main_session (wp_root rec),
                           wr_native_path = wp_native_path rec, wr_registered_at = wp_registered_at rec,
                           wr_json = payload\<rparr>)]\<rparr>, True))))))"

definition save_registered_watch_path ::
  "sqlite \<Rightarrow> 'j foreign_code \<Rightarrow> 'j records_code \<Rightarrow> 'j db \<Rightarrow> 'j records_db \<Rightarrow> watch_path_record \<Rightarrow>
     'j records_db \<times> (store_error + bool)" where
  "save_registered_watch_path fails fc rk db rd rec =
     (case bounded_json fc (\<lambda>_. rk_watch_to_vec rk) rec ''registered watch path'' of
        Inl e \<Rightarrow> (rd, Inl e)
      | Inr payload \<Rightarrow> in_transaction fails (save_watch_path_body fails fc rk db rec payload) rd)"

text \<open>\<open>ORDER BY registered_at_ms, event_key LIMIT ?\<close>.\<close>

definition load_watch_paths ::
  "sqlite \<Rightarrow> 'j foreign_code \<Rightarrow> 'j records_code \<Rightarrow> (string \<times> 'j watch_path_row) list \<Rightarrow> u32 \<Rightarrow>
     store_error + watch_path_record list" where
  "load_watch_paths fails fc rk rows limit =
     and_then (validate_limit limit) (\<lambda>_.
     and_then (run_sql fails (Statement ''select watch paths'')) (\<lambda>_.
       collect_results (map (\<lambda>(_, row). decode_json fc (rk_watch_from_slice rk) (wr_json row))
         (take (unat limit) (sort_key (\<lambda>(_, row). wr_registered_at row) (sort_key fst rows))))))"

definition registered_watch_paths ::
  "sqlite \<Rightarrow> 'j foreign_code \<Rightarrow> 'j records_code \<Rightarrow> 'j records_db \<Rightarrow> u32 \<Rightarrow> store_error + watch_path_record list" where
  "registered_watch_paths fails fc rk rd limit = load_watch_paths fails fc rk (rd_watch_paths rd) limit"

definition registered_watch_paths_for ::
  "sqlite \<Rightarrow> 'j foreign_code \<Rightarrow> 'j records_code \<Rightarrow> 'j records_db \<Rightarrow> session_identity \<Rightarrow> u32 \<Rightarrow>
     store_error + watch_path_record list" where
  "registered_watch_paths_for fails fc rk rd session limit =
     load_watch_paths fails fc rk
       (filter (\<lambda>(_, row). wr_session row = identity_session_id session) (rd_watch_paths rd)) limit"

definition save_session_metadata ::
  "sqlite \<Rightarrow> 'j db \<Rightarrow> 'j records_db \<Rightarrow> session_metadata_record \<Rightarrow>
     ('j db \<times> 'j records_db) \<times> (store_error + unit)" where
  "save_session_metadata fails db rd rec =
     (case and_then (transpose_option (map_option
             (map_err InputError \<circ> sqlite_integer ''pull request number'') (mt_pull_request_number rec))) (\<lambda>number.
           and_then (run_sql fails (Statement ''update metadata'')) (\<lambda>_.
             if \<not> known_session db (identity_session_id (mt_session rec))
             then Inl (CorruptValue ''metadata session is missing'')
             else if number = Some 0 then Inl Sqlx else Inr number)) of
        Inl e \<Rightarrow> ((db, rd), Inl e)
      | Inr number \<Rightarrow>
          (let k = identity_session_id (mt_session rec) in
           ((db\<lparr>db_sessions := map (\<lambda>(s, row). (s, if s = k then row\<lparr>sr_updated_at := mt_updated_at rec\<rparr> else row))
                  (db_sessions db)\<rparr>,
             rd\<lparr>rd_metadata := AList.update k
               \<lparr>mc_title = mt_title rec, mc_startup_directory = mt_startup_directory rec,
                mc_repository_remote = mt_repository_remote rec, mc_branch = mt_branch rec,
                mc_pull_request_number = number, mc_pull_request_url = mt_pull_request_url rec\<rparr> (rd_metadata rd)\<rparr>),
            Inr ())))"

definition null_metadata :: metadata_columns where
  "null_metadata = \<lparr>mc_title = None, mc_startup_directory = None, mc_repository_remote = None, mc_branch = None,
     mc_pull_request_number = None, mc_pull_request_url = None\<rparr>"

definition metadata_of :: "'j records_db \<Rightarrow> session_id \<Rightarrow> metadata_columns" where
  "metadata_of rd k = unwrap_or null_metadata (map_of (rd_metadata rd) k)"

definition decode_session_metadata ::
  "metadata_columns \<Rightarrow> wall_time_ms \<Rightarrow> session_identity \<Rightarrow> store_error + session_metadata_record" where
  "decode_session_metadata columns updated_at session =
     and_then (transpose_option (map_option
         (\<lambda>v. ok_or (CorruptValue ''invalid pull request number'') (u64_of_i64 v)) (mc_pull_request_number columns)))
       (\<lambda>number. map_err (\<lambda>_. CorruptValue ''invalid session metadata'')
         (session_metadata_record_new session (mc_title columns) (mc_startup_directory columns)
           (mc_repository_remote columns) (mc_branch columns) number (mc_pull_request_url columns) updated_at))"

definition session_metadata ::
  "sqlite \<Rightarrow> 'j db \<Rightarrow> 'j records_db \<Rightarrow> session_identity \<Rightarrow> store_error + session_metadata_record option" where
  "session_metadata fails db rd session =
     and_then (run_sql fails (Statement ''select metadata'')) (\<lambda>_.
       transpose_option (map_option
         (\<lambda>row. decode_session_metadata (metadata_of rd (identity_session_id session)) (sr_updated_at row) session)
         (map_of (db_sessions db) (identity_session_id session))))"

definition active_child_metadata ::
  "sqlite \<Rightarrow> 'j foreign_code \<Rightarrow> 'j db \<Rightarrow> 'j records_db \<Rightarrow> u32 \<Rightarrow> store_error + session_metadata_record list" where
  "active_child_metadata fails fc db rd limit =
     and_then (validate_limit limit) (\<lambda>_.
     and_then (run_sql fails (Statement ''select active children'')) (\<lambda>_.
       collect_results (map (\<lambda>(k, row).
           and_then (decode_session_row fc (k, row) None) (\<lambda>rec.
             decode_session_metadata (metadata_of rd k) (sr_updated_at row) (st_session rec)))
         (ordered_sessions limit (filter (\<lambda>(k, row). sr_kind row = ''child'' \<and>
             mc_startup_directory (metadata_of rd k) \<noteq> None \<and>
             is_some_and (\<lambda>snapshot. sn_detailed_state snapshot \<notin>
               {''completed'', ''failed'', ''cancelled'', ''disappeared''}) (map_of (db_snapshots db) k))
           (db_sessions db))))))"

section \<open>Activity, cursors, deadlines\<close>

definition insert_activity ::
  "sqlite \<Rightarrow> 'j db \<Rightarrow> activity_sample_record \<Rightarrow> 'j \<Rightarrow> 'j records_db \<Rightarrow> store_error + 'j records_db \<times> i64" where
  "insert_activity fails db rec payload rd =
     and_then (run_sql fails (Statement ''insert activity'')) (\<lambda>_.
       let k = identity_session_id (sm_session rec); sample_id = rd_activity_seq rd + 1
       in if rd_activity_seq rd \<ge> i64_max \<or> \<not> known_session db k then Inl Sqlx
          else Inr (rd\<lparr>rd_activity_seq := sample_id, rd_activity := rd_activity rd @
                 [\<lparr>ac_sample_id = sample_id, ac_session = k, ac_observed_at = sm_observed_at rec,
                   ac_kind = evidence_kind (sm_evidence rec), ac_json = payload\<rparr>]\<rparr>, sample_id))"

definition append_activity ::
  "sqlite \<Rightarrow> 'j foreign_code \<Rightarrow> 'j records_code \<Rightarrow> 'j db \<Rightarrow> 'j records_db \<Rightarrow> activity_sample_record \<Rightarrow>
     'j records_db \<times> (store_error + i64)" where
  "append_activity fails fc rk db rd rec =
     (case and_then (bounded_json fc (\<lambda>_. rk_activity_to_vec rk) rec ''activity sample'')
         (\<lambda>payload. insert_activity fails db rec payload rd) of
        Inl e \<Rightarrow> (rd, Inl e)
      | Inr (rd', sample_id) \<Rightarrow> (rd', Inr sample_id))"

definition save_latest_activity ::
  "sqlite \<Rightarrow> 'j foreign_code \<Rightarrow> 'j records_code \<Rightarrow> 'j db \<Rightarrow> 'j records_db \<Rightarrow> activity_sample_record \<Rightarrow>
     'j records_db \<times> (store_error + unit)" where
  "save_latest_activity fails fc rk db rd rec =
     (case bounded_json fc (\<lambda>_. rk_activity_to_vec rk) rec ''activity sample'' of
        Inl e \<Rightarrow> (rd, Inl e)
      | Inr payload \<Rightarrow>
          in_transaction fails (\<lambda>rd.
            and_then (run_sql fails (Statement ''delete activity'')) (\<lambda>_.
            map_ok (\<lambda>(rd, _). (rd, ())) (insert_activity fails db rec payload
              (rd\<lparr>rd_activity := filter (\<lambda>row. \<not> (ac_session row = identity_session_id (sm_session rec) \<and>
                 ac_kind row = evidence_kind (sm_evidence rec))) (rd_activity rd)\<rparr>)))) rd)"

text \<open>\<open>ORDER BY observed_at_ms DESC, sample_id DESC\<close>.\<close>

definition recent_activity ::
  "sqlite \<Rightarrow> 'j foreign_code \<Rightarrow> 'j records_code \<Rightarrow> 'j records_db \<Rightarrow> session_identity \<Rightarrow> u32 \<Rightarrow>
     store_error + activity_sample_record list" where
  "recent_activity fails fc rk rd session limit =
     and_then (validate_limit limit) (\<lambda>_.
     and_then (run_sql fails (Statement ''select activity'')) (\<lambda>_.
       collect_results (map (\<lambda>row. decode_json fc (rk_activity_from_slice rk) (ac_json row))
         (take (unat limit) (sort_key (\<lambda>row. - ac_observed_at row) (sort_key (\<lambda>row. - ac_sample_id row)
           (filter (\<lambda>row. ac_session row = identity_session_id session) (rd_activity rd))))))))"

definition save_file_cursor ::
  "sqlite \<Rightarrow> 'j foreign_code \<Rightarrow> 'j records_code \<Rightarrow> 'j records_db \<Rightarrow> file_cursor_record \<Rightarrow>
     'j records_db \<times> (store_error + unit)" where
  "save_file_cursor fails fc rk rd rec =
     (case and_then (bounded_json fc (\<lambda>_. rk_cursor_to_vec rk) rec ''file cursor'') (\<lambda>payload.
           and_then (map_err InputError (sqlite_integer ''cursor device ID'' (fc_device_id rec))) (\<lambda>_.
           and_then (map_err InputError (sqlite_integer ''cursor inode'' (fc_inode rec))) (\<lambda>_.
           and_then (map_err InputError (sqlite_integer ''cursor byte offset'' (fc_byte_offset rec))) (\<lambda>_.
           and_then (map_err InputError
               (sqlite_integer ''cursor complete record offset'' (fc_complete_record_offset rec))) (\<lambda>_.
           and_then (run_sql fails (Statement ''upsert cursor'')) (\<lambda>_. Inr payload)))))) of
        Inl e \<Rightarrow> (rd, Inl e)
      | Inr payload \<Rightarrow> (rd\<lparr>rd_cursors := AList.update (fc_path_key rec) payload (rd_cursors rd)\<rparr>, Inr ()))"

definition load_file_cursor ::
  "sqlite \<Rightarrow> 'j foreign_code \<Rightarrow> 'j records_code \<Rightarrow> 'j records_db \<Rightarrow> string \<Rightarrow> store_error + file_cursor_record option" where
  "load_file_cursor fails fc rk rd path_key =
     and_then (run_sql fails (Statement ''select cursor'')) (\<lambda>_.
       load_optional_json fc (\<lambda>json. Option.bind (rk_cursor_from_slice rk json) file_cursor_deserialize)
         (map_of (rd_cursors rd) path_key))"

definition save_deadline ::
  "sqlite \<Rightarrow> 'j foreign_code \<Rightarrow> 'j records_code \<Rightarrow> 'j db \<Rightarrow> 'j records_db \<Rightarrow> deadline_record \<Rightarrow>
     'j records_db \<times> (store_error + unit)" where
  "save_deadline fails fc rk db rd rec =
     (let k = identity_session_id (dl_session rec) in
      case and_then (bounded_json fc (\<lambda>_. rk_deadline_to_vec rk) rec ''deadline'') (\<lambda>payload.
           and_then (run_sql fails (Statement ''upsert deadline'')) (\<lambda>_.
             if known_session db k then Inr payload else Inl Sqlx)) of
        Inl e \<Rightarrow> (rd, Inl e)
      | Inr payload \<Rightarrow> (rd\<lparr>rd_deadlines := AList.update k payload (rd_deadlines rd)\<rparr>, Inr ()))"

definition load_deadline ::
  "sqlite \<Rightarrow> 'j foreign_code \<Rightarrow> 'j records_code \<Rightarrow> 'j records_db \<Rightarrow> session_identity \<Rightarrow>
     store_error + deadline_record option" where
  "load_deadline fails fc rk rd session =
     and_then (run_sql fails (Statement ''select deadline'')) (\<lambda>_.
       load_optional_json fc (rk_deadline_from_slice rk) (map_of (rd_deadlines rd) (identity_session_id session)))"

section \<open>Adapter health and notifications\<close>

text \<open>\<open>version.split(['-', '+']).next()\<close>, then the first two pieces around dots parse as \<open>u64\<close>.\<close>

definition version_has_major_minor_detail :: "string \<Rightarrow> bool" where
  "version_has_major_minor_detail version =
     (let stripped = (case version of CHR ''v'' # rest \<Rightarrow> rest | _ \<Rightarrow> version);
          core = hd (split_by (\<lambda>c. c = CHR ''-'' \<or> c = CHR ''+'') stripped)
      in case split_by ((=) CHR ''.'') core of
           major # minor # _ \<Rightarrow> is_ok (parse_unsigned major :: int_error_kind + u64) \<and>
             is_ok (parse_unsigned minor :: int_error_kind + u64)
         | _ \<Rightarrow> False)"

definition richness :: "string \<Rightarrow> i64" where
  "richness version = (if version_has_major_minor_detail version then 1 else 0)"

definition save_adapter_health ::
  "sqlite \<Rightarrow> 'j foreign_code \<Rightarrow> 'j records_code \<Rightarrow> 'j records_db \<Rightarrow> adapter_health_record \<Rightarrow>
     'j records_db \<times> (store_error + unit)" where
  "save_adapter_health fails fc rk rd rec =
     (let key = runtime_as_str (ai_runtime (ah_adapter rec));
          version = ai_version (ah_adapter rec) in
      case and_then (bounded_json fc (\<lambda>_. rk_health_to_vec rk) rec ''adapter health'') (\<lambda>payload.
           and_then (run_sql fails (Statement ''upsert adapter health'')) (\<lambda>_. Inr payload)) of
        Inl e \<Rightarrow> (rd, Inl e)
      | Inr payload \<Rightarrow>
          (case map_of (rd_adapters rd) key of
             None \<Rightarrow>
               (rd\<lparr>rd_adapters := AList.update key
                  \<lparr>ar_version = version, ar_richness = richness version, ar_json = payload\<rparr> (rd_adapters rd)\<rparr>, Inr ())
           | Some row \<Rightarrow>
               (let richer = richness version \<ge> ar_richness row;
                    json = (if richer then payload else rk_health_set_version rk (ar_version row) payload) in
                if xf_json_len fc json > MAX_RECORD_BYTES then (rd, Inl Sqlx)
                else (rd\<lparr>rd_adapters := AList.update key
                   \<lparr>ar_version = (if richer then version else ar_version row),
                    ar_richness = max (ar_richness row) (richness version), ar_json = json\<rparr> (rd_adapters rd)\<rparr>,
                   Inr ()))))"

definition adapter_health ::
  "sqlite \<Rightarrow> 'j foreign_code \<Rightarrow> 'j records_code \<Rightarrow> 'j records_db \<Rightarrow> runtime_kind \<Rightarrow>
     store_error + adapter_health_record option" where
  "adapter_health fails fc rk rd runtime =
     and_then (run_sql fails (Statement ''select adapter health'')) (\<lambda>_.
       load_optional_json fc (rk_health_from_slice rk)
         (map_option ar_json (map_of (rd_adapters rd) (runtime_as_str runtime))))"

definition record_notification_attempt ::
  "sqlite \<Rightarrow> 'j foreign_code \<Rightarrow> 'j records_code \<Rightarrow> 'j db \<Rightarrow> 'j records_db \<Rightarrow> notification_attempt_record \<Rightarrow>
     'j records_db \<times> (store_error + i64)" where
  "record_notification_attempt fails fc rk db rd rec =
     (case and_then (bounded_json fc (\<lambda>_. rk_attempt_to_vec rk) rec ''notification attempt'') (\<lambda>payload.
           and_then (map_err InputError (sqlite_integer ''notification event ID'' (na_event_id rec))) (\<lambda>event_id.
           and_then (run_sql fails (Statement ''insert attempt'')) (\<lambda>_.
             if rd_attempt_seq rd \<ge> i64_max \<or> map_of (db_transitions db) event_id = None then Inl Sqlx
             else Inr (event_id, payload)))) of
        Inl e \<Rightarrow> (rd, Inl e)
      | Inr (event_id, payload) \<Rightarrow>
          (rd\<lparr>rd_attempt_seq := rd_attempt_seq rd + 1, rd_attempts := rd_attempts rd @
             [\<lparr>at_attempt_id = rd_attempt_seq rd + 1, at_event_id = event_id, at_json = payload\<rparr>]\<rparr>,
           Inr (rd_attempt_seq rd + 1)))"

definition notification_attempts ::
  "sqlite \<Rightarrow> 'j foreign_code \<Rightarrow> 'j records_code \<Rightarrow> 'j records_db \<Rightarrow> event_id \<Rightarrow> u32 \<Rightarrow>
     store_error + notification_attempt_record list" where
  "notification_attempts fails fc rk rd event_id limit =
     and_then (validate_limit limit) (\<lambda>_.
     and_then (map_err InputError (sqlite_integer ''notification event ID'' event_id)) (\<lambda>event_id.
     and_then (run_sql fails (Statement ''select attempts'')) (\<lambda>_.
       collect_results (map (\<lambda>row. decode_json fc (rk_attempt_from_slice rk) (at_json row))
         (take (unat limit) (sort_key (\<lambda>row. - at_attempt_id row)
           (filter (\<lambda>row. at_event_id row = event_id) (rd_attempts rd))))))))"

section \<open>The best known adapter version\<close>

text \<open>\<open>serde_json\<close> and \<open>json_set\<close> on health documents: what is written is read back, and replacing
  the version replaces exactly the version.\<close>

definition with_version :: "string \<Rightarrow> adapter_health_record \<Rightarrow> adapter_health_record" where
  "with_version version rec = rec\<lparr>ah_adapter := (ah_adapter rec)\<lparr>ai_version := version\<rparr>\<rparr>"

definition health_code_ok :: "'j records_code \<Rightarrow> bool" where
  "health_code_ok rk \<longleftrightarrow>
     (\<forall>rec j. rk_health_to_vec rk rec = Some j \<longrightarrow> rk_health_from_slice rk j = Some rec) \<and>
     (\<forall>rec j version. rk_health_from_slice rk j = Some rec \<longrightarrow>
        rk_health_from_slice rk (rk_health_set_version rk version j) = Some (with_version version rec))"

text \<open>The reports of a runtime so far: the latest report, and the latest of the richest versions.\<close>

definition better :: "string option \<Rightarrow> string \<Rightarrow> string option" where
  "better best version = (case best of
     Some b \<Rightarrow> if richness version \<ge> richness b then Some version else Some b
   | None \<Rightarrow> Some version)"

definition best_version :: "string list \<Rightarrow> string option" where
  "best_version versions = foldl better None versions"

fun save_healths ::
  "sqlite \<Rightarrow> 'j foreign_code \<Rightarrow> 'j records_code \<Rightarrow> 'j records_db \<Rightarrow> adapter_health_record list \<Rightarrow> 'j records_db option" where
  "save_healths fails fc rk rd [] = Some rd"
| "save_healths fails fc rk rd (rec # recs) =
     (case save_adapter_health fails fc rk rd rec of
        (rd', Inl e) \<Rightarrow> None
      | (rd', Inr _) \<Rightarrow> save_healths fails fc rk rd' recs)"

lemma save_healths_append:
  "save_healths fails fc rk rd (recs @ recs') =
     Option.bind (save_healths fails fc rk rd recs) (\<lambda>rd. save_healths fails fc rk rd recs')"
  by (induction recs arbitrary: rd) (auto split: prod.splits sum.splits)

definition health_row_ok :: "'j foreign_code \<Rightarrow> 'j records_code \<Rightarrow> adapter_health_record list \<Rightarrow> 'j adapter_row option \<Rightarrow> bool" where
  "health_row_ok fc rk recs row \<longleftrightarrow>
     (case best_version (map (ai_version \<circ> ah_adapter) recs) of
        None \<Rightarrow> row = None
      | Some best \<Rightarrow> (\<exists>r. row = Some r \<and> ar_version r = best \<and> ar_richness r = richness best \<and>
          xf_json_len fc (ar_json r) \<le> MAX_RECORD_BYTES \<and>
          rk_health_from_slice rk (ar_json r) = Some (with_version best (last recs))))"

lemma with_version_self [simp]: "with_version (ai_version (ah_adapter rec)) rec = rec"
  by (simp add: with_version_def)

lemma save_adapter_health_row:
  assumes code: "health_code_ok rk" and row: "health_row_ok fc rk recs (map_of (rd_adapters rd) key)"
    and save: "save_adapter_health fails fc rk rd rec = (rd', Inr ())"
    and key: "key = runtime_as_str (ai_runtime (ah_adapter rec))"
  shows "health_row_ok fc rk (recs @ [rec]) (map_of (rd_adapters rd') key)"
proof -
  let ?v = "ai_version (ah_adapter rec)"
  obtain payload where payload: "rk_health_to_vec rk rec = Some payload" "xf_json_len fc payload \<le> MAX_RECORD_BYTES"
    using save by (auto simp: save_adapter_health_def Let_def result_elims split: sum.splits)
  then have decoded: "rk_health_from_slice rk payload = Some rec"
    using code by (simp add: health_code_ok_def)
  then have replaced: "rk_health_from_slice rk (rk_health_set_version rk best payload) = Some (with_version best rec)" for best
    using code by (simp add: health_code_ok_def)
  have best: "best_version (map (ai_version \<circ> ah_adapter) (recs @ [rec])) =
      better (best_version (map (ai_version \<circ> ah_adapter) recs)) ?v"
    by (simp add: best_version_def)
  show ?thesis
  proof (cases "map_of (rd_adapters rd) key")
    case None
    then have none: "best_version (map (ai_version \<circ> ah_adapter) recs) = None"
      using row by (auto simp: health_row_ok_def split: option.splits)
    have "map_of (rd_adapters rd') key = Some \<lparr>ar_version = ?v, ar_richness = richness ?v, ar_json = payload\<rparr>"
      using save None payload by (auto simp: save_adapter_health_def Let_def key result_elims bounded_json_def update_conv
          split: sum.splits if_splits)
    then show ?thesis
      using payload decoded unfolding health_row_ok_def best none by (simp add: better_def)
  next
    case (Some r)
    then obtain b where b: "best_version (map (ai_version \<circ> ah_adapter) recs) = Some b" "ar_version r = b"
        "ar_richness r = richness b"
      using row by (auto simp: health_row_ok_def split: option.splits)
    have row': "map_of (rd_adapters rd) key = Some r"
      by (rule Some)
    show ?thesis
    proof (cases "richness ?v \<ge> richness b")
      case True
      then have "map_of (rd_adapters rd') key = Some \<lparr>ar_version = ?v,
          ar_richness = max (richness b) (richness ?v), ar_json = payload\<rparr>"
        using save row' payload b by (auto simp: save_adapter_health_def Let_def key result_elims bounded_json_def update_conv
            split: sum.splits if_splits)
      then show ?thesis
        using decoded payload True unfolding health_row_ok_def best b(1) by (simp add: better_def max_def)
    next
      case False
      then have "map_of (rd_adapters rd') key = Some \<lparr>ar_version = b,
          ar_richness = max (richness b) (richness ?v), ar_json = rk_health_set_version rk b payload\<rparr> \<and>
          xf_json_len fc (rk_health_set_version rk b payload) \<le> MAX_RECORD_BYTES"
        using save row' payload b by (auto simp: save_adapter_health_def Let_def key result_elims bounded_json_def update_conv
            split: sum.splits if_splits)
      then show ?thesis
        using replaced False unfolding health_row_ok_def best b(1) by (simp add: better_def max_def)
    qed
  qed
qed

text \<open>
  Adapter health keeps the best version evidence: after any sequence of reports of one runtime the
  store holds the latest report, under the version of the latest report among those with the richest
  version, so a report with a poorer version updates everything but the version.
\<close>
theorem adapter_version_kept:
  assumes "health_code_ok rk" and "list_all (\<lambda>rec. ai_runtime (ah_adapter rec) = runtime) recs" and "recs \<noteq> []"
    and "save_healths fails fc rk empty_records recs = Some rd"
  shows "\<exists>best. best_version (map (ai_version \<circ> ah_adapter) recs) = Some best \<and>
    adapter_health (\<lambda>_. False) fc rk rd runtime = Inr (Some (with_version best (last recs)))"
proof -
  have "health_row_ok fc rk recs (map_of (rd_adapters rd) (runtime_as_str runtime))"
    using assms(2,4)
  proof (induction recs arbitrary: rd rule: rev_induct)
    case Nil
    then show ?case
      by (auto simp: health_row_ok_def best_version_def empty_records_def)
  next
    case (snoc rec recs)
    then obtain mid where mid: "save_healths fails fc rk empty_records recs = Some mid"
        "save_adapter_health fails fc rk mid rec = (rd, Inr ())"
      by (auto simp: save_healths_append split: Option.bind_splits prod.splits sum.splits)
    then show ?case
      using save_adapter_health_row [OF assms(1) snoc.IH [OF _ mid(1)] mid(2)] snoc.prems(1) by simp
  qed
  moreover have "best_version (map (ai_version \<circ> ah_adapter) recs) \<noteq> None"
    using assms(3) by (cases recs rule: rev_cases) (auto simp: best_version_def better_def split: option.splits)
  ultimately show ?thesis
    by (auto simp: health_row_ok_def adapter_health_def run_sql_def load_optional_json_def decode_json_def)
qed

definition health_foreign :: "adapter_health_record foreign_code" where
  "health_foreign = \<lparr>xf_new_v5 = \<lambda>ns name. ns, xf_namespace_url = 0, xf_json_len = \<lambda>_. 200,
     xf_observation_to_vec = \<lambda>_. None, xf_snapshot_to_vec = \<lambda>_. None, xf_event_to_vec = \<lambda>_. None,
     xf_saga_to_vec = \<lambda>_. None, xf_snapshot_from_slice = \<lambda>_. None,
     xf_event_from_slice = \<lambda>_. None, xf_saga_from_slice = \<lambda>_. None\<rparr>"

definition health_code :: "adapter_health_record records_code" where
  "health_code = \<lparr>rk_watch_to_vec = \<lambda>_. None, rk_watch_from_slice = \<lambda>_. None, rk_activity_to_vec = \<lambda>_. None,
     rk_activity_from_slice = \<lambda>_. None, rk_cursor_to_vec = \<lambda>_. None, rk_cursor_from_slice = \<lambda>_. None,
     rk_deadline_to_vec = \<lambda>_. None, rk_deadline_from_slice = \<lambda>_. None, rk_health_to_vec = Some,
     rk_health_from_slice = Some, rk_health_set_version = with_version, rk_attempt_to_vec = \<lambda>_. None,
     rk_attempt_from_slice = \<lambda>_. None\<rparr>"

definition health_report :: "string \<Rightarrow> adapter_health_record" where
  "health_report version = \<lparr>ah_adapter = \<lparr>ai_runtime = CodexCli, ai_version = version\<rparr>, ah_status = AdapterHealthy,
     ah_last_success = Some 5, ah_last_error = None, ah_affected_scope = None, ah_message = None\<rparr>"

text \<open>The report without a usable version number keeps the version stored before.\<close>

theorem adapter_version_kept_witness:
  "\<exists>rd. save_healths (\<lambda>_. False) health_foreign health_code empty_records
      [health_report ''1.20.3'', health_report ''unknown''] = Some rd \<and>
    adapter_health (\<lambda>_. False) health_foreign health_code rd CodexCli = Inr (Some (health_report ''1.20.3''))"
proof -
  have richness: "richness ''1.20.3'' = 1" "richness ''unknown'' = 0"
    by (simp_all add: richness_def version_has_major_minor_detail_def parse_unsigned_def digit_value_def Let_def)
  have code: "health_code_ok health_code"
    by (simp add: health_code_ok_def health_code_def)
  obtain rd where rd: "save_healths (\<lambda>_. False) health_foreign health_code empty_records
      [health_report ''1.20.3'', health_report ''unknown''] = Some rd"
    by (simp add: save_adapter_health_def bounded_json_def run_sql_def health_foreign_def health_code_def
        health_report_def empty_records_def richness MAX_RECORD_BYTES_def Let_def update_conv)
  then show ?thesis
    using adapter_version_kept [OF code _ _ rd, of CodexCli]
    by (simp add: best_version_def better_def richness health_report_def with_version_def)
qed

end
