(* ===== verification/Agent_Views.thy ===== *)
theory Agent_Views
  imports Admission Records
begin

text \<open>
  The reading half of \<open>crates/watchdog-server/src/agent_api.rs\<close>: what a transport may read of its
  tree, the evidence views built from the store, and the builders of the observations a request
  submits. The state of the API is the process of \<open>Admission\<close> with the relation and record tables
  and the scope registry; \<open>serde_json\<close> on each record type and the text of a UUID are parameters.
  All readings of the clock while one response is assembled are one instant, and a statement kind
  either fails or succeeds throughout one response.
\<close>

section \<open>State\<close>

record 'j agent_code =
  gc_foreign :: "'j foreign_code"
  gc_relations :: "'j relation_code"
  gc_records :: "'j records_code"
  gc_observation :: "'j \<Rightarrow> observation_envelope option"
  gc_show :: "session_id \<Rightarrow> string"

record 'j agent =
  ga_world :: "'j api_world"
  ga_tree :: "'j tree_db"
  ga_records :: "'j records_db"
  ga_scopes :: scope_registry

definition ga_db :: "'j agent \<Rightarrow> 'j db" where
  "ga_db a = sh_db (aw_shared (ga_world a))"

definition set_ga_db :: "'j db \<Rightarrow> 'j agent \<Rightarrow> 'j agent" where
  "set_ga_db db a =
     a\<lparr>ga_world := (ga_world a)\<lparr>aw_shared := (aw_shared (ga_world a))\<lparr>sh_db := db\<rparr>\<rparr>\<rparr>"

lemma ga_db_set [simp]: "ga_db (set_ga_db db a) = db"
  by (simp add: ga_db_def set_ga_db_def)

lemma set_ga_db_same [simp]: "set_ga_db (ga_db a) a = a"
  by (simp add: ga_db_def set_ga_db_def)

definition MAX_TREE_SESSIONS :: u32 where
  "MAX_TREE_SESSIONS = 1000"

definition MAX_EVENTS :: u32 where
  "MAX_EVENTS = 500"

definition DIAGNOSTIC_ACTIVITY_SAMPLES :: u32 where
  "DIAGNOSTIC_ACTIVITY_SAMPLES = 8"

section \<open>Requests and views\<close>

record register_request =
  rs_runtime :: runtime_kind
  rs_native_id :: string
  rs_kind :: session_kind
  rs_parent :: "session_id option"
  rs_event_key :: string

datatype registration_provenance = McpProvenance | NativeProvenance string string

fun provenance_basis :: "registration_provenance \<Rightarrow> correlation_basis" where
  "provenance_basis McpProvenance = McpRegistration"
| "provenance_basis (NativeProvenance version source) = ExactNative"

datatype waiting_kind = WaitingAgent | WaitingTool | WaitingUser | WaitingIntentional

datatype completion_outcome = OutcomeCompleted | OutcomeFailed | OutcomeCancelled

record session_view =
  sv_server_time :: wall_time_ms
  sv_session :: session_identity
  sv_root :: main_session_id
  sv_runtime :: runtime_kind
  sv_native_id :: string
  sv_provenance :: "observation_source option"
  sv_snapshot :: session_snapshot

record signal_times =
  si_updated_at :: time_point
  si_last_activity :: time_point
  si_last_trusted_transition :: "time_point option"
  si_latest_process_sample :: "wall_time_ms option"

record correlation_view =
  cv_basis :: correlation_basis
  cv_evidence :: string
  cv_trust :: evidence_trust

record diagnostic_view =
  dv_process_identity :: "process_identity option"
  dv_process_activity :: "activity_sample_record list"
  dv_process_activity_provenance :: "observation_source option"
  dv_signal_times :: signal_times
  dv_active_operation :: "string option"
  dv_source_conflicts :: "string list"
  dv_outcome_uncertain :: bool
  dv_correlation :: "correlation_view option"
  dv_suggested_checks :: "string list"

record event_view =
  vw_event :: domain_event
  vw_session :: session_view
  vw_diagnostics :: diagnostic_view

record event_page =
  pg_after :: u64
  pg_next_cursor :: u64
  pg_events :: "event_view list"

record session_tree_view =
  tv_root :: main_session_id
  tv_sessions :: "session_view list"
  tv_relations :: "relation_record list"

section \<open>Text and observations\<close>

definition validate_event_key :: "string \<Rightarrow> agent_api_error + unit" where
  "validate_event_key event_key =
     map_err ApiDomain (and_then (bounded_text_new 256 ''event_key'' event_key) (\<lambda>key.
       if key = '''' then Inl (EmptyField ''event_key'') else Inr ()))"

definition progress_text :: "string \<Rightarrow> string option \<Rightarrow> agent_api_error + string" where
  "progress_text summary operation =
     (if summary = '''' then Inl (ApiDomain (EmptyField ''summary''))
      else map_err ApiDomain (bounded_text_new 2048 ''progress''
        (case operation of
           Some op \<Rightarrow> if op = '''' then summary else op @ '': '' @ summary
         | None \<Rightarrow> summary)))"

definition build_observation ::
  "'j agent_code \<Rightarrow> stored_session_record \<Rightarrow> time_point \<Rightarrow> string \<Rightarrow> string \<Rightarrow>
     domain_input_error + observation_source \<Rightarrow> observation_payload \<Rightarrow> agent_api_error + observation_envelope" where
  "build_observation gc rec now namespace native_event_id source payload =
     and_then (map_err ApiDomain (observation_id_from_native (xf_new_v5 (gc_foreign gc))
         (xf_namespace_url (gc_foreign gc)) (nk_runtime (st_native rec)) namespace native_event_id)) (\<lambda>oid.
     and_then (map_err ApiDomain source) (\<lambda>source.
       map_err ApiObservation (observation_envelope_new oid (st_native rec) now source payload)))"

definition api_source ::
  "stored_session_record \<Rightarrow> string \<Rightarrow> string \<Rightarrow> evidence_trust \<Rightarrow> domain_input_error + observation_source" where
  "api_source rec version fingerprint trust =
     and_then (adapter_identity_new (nk_runtime (st_native rec)) version) (\<lambda>adapter.
       observation_source_new adapter fingerprint trust None)"

definition show_record :: "'j agent_code \<Rightarrow> stored_session_record \<Rightarrow> string" where
  "show_record gc rec = gc_show gc (identity_session_id (st_session rec))"

text \<open>\<open>Display\<close> of a signed integer.\<close>

definition print_int :: "int \<Rightarrow> string" where
  "print_int i = (if i < 0 then CHR ''-'' # print_nat (nat (- i)) else print_nat (nat i))"

definition instant_key :: "'j agent_code \<Rightarrow> stored_session_record \<Rightarrow> time_point \<Rightarrow> string" where
  "instant_key gc rec now =
     show_record gc rec @ '':'' @ print_int (wall_time now) @ '':'' @ print_nat (unat (monotonic_ms now))"

definition registration_source ::
  "stored_session_record \<Rightarrow> string \<Rightarrow> registration_provenance \<Rightarrow> bool \<Rightarrow>
     domain_input_error + observation_source" where
  "registration_source rec event_key provenance relation =
     (let (version, fingerprint) =
        (case provenance of
           McpProvenance \<Rightarrow> (''mcp-v1'',
             if relation then ''mcp:register_delegation:'' @ event_key else ''mcp:register_session'')
         | NativeProvenance adapter_version evidence_source \<Rightarrow> (adapter_version,
             if relation then evidence_source @ '':relation:'' @ event_key else evidence_source))
      in api_source rec version fingerprint Authoritative)"

definition registration_observation ::
  "'j agent_code \<Rightarrow> stored_session_record \<Rightarrow> string \<Rightarrow> time_point \<Rightarrow> registration_provenance \<Rightarrow>
     agent_api_error + observation_envelope" where
  "registration_observation gc rec event_key now provenance =
     and_then (map_err ApiDomain (registration_source rec event_key provenance False)) (\<lambda>source.
       build_observation gc rec now
         (case provenance of McpProvenance \<Rightarrow> ''mcp:register_session'' | NativeProvenance _ _ \<Rightarrow> ''native-discovery'')
         (show_record gc rec @ '':'' @ event_key) (Inr source)
         (Progress ''Session registered with Agent Watchdog''))"

definition restart_observation ::
  "'j agent_code \<Rightarrow> stored_session_record \<Rightarrow> time_point \<Rightarrow> agent_api_error + observation_envelope" where
  "restart_observation gc rec now =
     build_observation gc rec now ''server-restart'' (instant_key gc rec now)
       (api_source rec ''agent-watchdog-restart-v1'' ''server:restart'' Authoritative) SchedulerTick"

definition scheduler_observation ::
  "'j agent_code \<Rightarrow> stored_session_record \<Rightarrow> time_point \<Rightarrow> agent_api_error + observation_envelope" where
  "scheduler_observation gc rec now =
     build_observation gc rec now ''scheduler-tick'' (instant_key gc rec now)
       (api_source rec ''agent-watchdog-scheduler-v1'' ''scheduler:tick'' Authoritative) SchedulerTick"

definition reconciliation_observation ::
  "'j agent_code \<Rightarrow> stored_session_record \<Rightarrow> time_point \<Rightarrow> string \<Rightarrow> string \<Rightarrow>
     agent_api_error + observation_envelope" where
  "reconciliation_observation gc rec now adapter_version evidence_source =
     build_observation gc rec now ''native-reconciled'' (instant_key gc rec now)
       (api_source rec adapter_version evidence_source Corroborating) SchedulerTick"

definition mcp_observation ::
  "'j agent_code \<Rightarrow> stored_session_record \<Rightarrow> string \<Rightarrow> string \<Rightarrow> observation_payload \<Rightarrow> time_point \<Rightarrow>
     agent_api_error + observation_envelope" where
  "mcp_observation gc rec operation event_key payload now =
     and_then (map_err ApiDomain (api_source rec ''mcp-v1'' (''mcp:'' @ operation) Authoritative)) (\<lambda>source.
       build_observation gc rec now (''mcp:'' @ operation) (show_record gc rec @ '':'' @ event_key) (Inr source)
         payload)"

section \<open>Scoped reads\<close>

definition resolve_scoped ::
  "sqlite \<Rightarrow> 'j agent_code \<Rightarrow> 'j agent \<Rightarrow> transport_key \<Rightarrow> session_id \<Rightarrow>
     agent_api_error + stored_session_record" where
  "resolve_scoped fails gc a transport session_id =
     and_then (scope_root (ga_scopes a) transport) (\<lambda>root.
     and_then (map_err ApiStore (session_by_id fails (gc_foreign gc) (ga_db a) session_id)) (\<lambda>found.
     and_then (ok_or SessionNotFound found) (\<lambda>rec.
       if st_root rec \<noteq> root then Inl CrossTreeAccess else Inr rec)))"

definition resolve_child_parent ::
  "sqlite \<Rightarrow> 'j agent_code \<Rightarrow> 'j agent \<Rightarrow> transport_key \<Rightarrow> session_id \<Rightarrow>
     agent_api_error + stored_session_record" where
  "resolve_child_parent fails gc a transport parent_id =
     and_then (map_err ApiStore (session_by_id fails (gc_foreign gc) (ga_db a) parent_id)) (\<lambda>found.
     and_then (ok_or SessionNotFound found) (\<lambda>parent.
       case scope_root (ga_scopes a) transport of
         Inr root \<Rightarrow> if root \<noteq> st_root parent then Inl CrossTreeAccess else Inr parent
       | Inl _ \<Rightarrow> Inr parent))"

definition view_for_record ::
  "sqlite \<Rightarrow> 'j agent_code \<Rightarrow> 'j agent \<Rightarrow> wall_time_ms \<Rightarrow> stored_session_record \<Rightarrow>
     agent_api_error + session_view" where
  "view_for_record fails gc a now rec =
     and_then (map_err ApiStore (load_snapshot fails (gc_foreign gc) (ga_db a) (st_session rec))) (\<lambda>stored.
     and_then (ok_or SessionNotFound stored) (\<lambda>stored.
     and_then (ok_or ReducerSnapshotUnavailable (su_reducer_snapshot stored)) (\<lambda>snapshot.
     and_then (case ss_last_observation_id snapshot of
         Some observation_id \<Rightarrow> map_ok (map_option oe_source) (map_err ApiStore
           (load_observation fails (gc_foreign gc) (gc_observation gc) (ga_db a) observation_id))
       | None \<Rightarrow> Inr None) (\<lambda>provenance.
       Inr \<lparr>sv_server_time = now, sv_session = st_session rec, sv_root = st_root rec,
            sv_runtime = nk_runtime (st_native rec), sv_native_id = nk_native_id (st_native rec),
            sv_provenance = provenance, sv_snapshot = snapshot\<rparr>))))"

fun process_evidence :: "activity_evidence \<Rightarrow> bool" where
  "process_evidence (ProcessCpu _ _ _ _) = True"
| "process_evidence (ProcessIo _ _) = True"
| "process_evidence _ = False"

definition suggested_checks :: "session_snapshot \<Rightarrow> activity_sample_record list \<Rightarrow> string list" where
  "suggested_checks snapshot process_activity =
     [''Ask the child agent for its current status and active operation''] @
     [if ss_process_identity snapshot \<noteq> None
      then ''Verify the reported PID still has the same start time and executable''
      else ''Confirm that the child process is still running and discoverable''] @
     (if list_ex (\<lambda>sample. sm_evidence sample = ProcessCpu 0 0 0 0) process_activity
      then [''Inspect whether the child is blocked on a tool or long-running command''] else []) @
     (if ss_source_conflict snapshot
      then [''Reconcile the conflicting runtime and agent status sources''] else []) @
     (if ss_state snapshot = Disappeared
      then [''Inspect the exact target branch and worktree for commits or changes newer than '' @
            ''the last trusted activity before treating runtime absence as failure''] else [])"

definition diagnostics_for ::
  "sqlite \<Rightarrow> 'j agent_code \<Rightarrow> 'j agent \<Rightarrow> stored_session_record \<Rightarrow> session_snapshot \<Rightarrow>
     correlation_view option \<Rightarrow> agent_api_error + diagnostic_view" where
  "diagnostics_for fails gc a rec snapshot correlation =
     and_then (map_err ApiStore (recent_activity fails (gc_foreign gc) (gc_records gc) (ga_records a)
         (st_session rec) DIAGNOSTIC_ACTIVITY_SAMPLES)) (\<lambda>samples.
       let process_activity = filter (\<lambda>sample. process_evidence (sm_evidence sample)) samples in
       and_then (if process_activity = [] then Inr None
           else map_err ApiDomain (map_ok Some
             (api_source rec ''linux-procfs-v1'' ''process:tree-delta'' Corroborating))) (\<lambda>provenance.
         Inr \<lparr>dv_process_identity = ss_process_identity snapshot,
              dv_process_activity = process_activity,
              dv_process_activity_provenance = provenance,
              dv_signal_times = \<lparr>si_updated_at = ss_updated_at snapshot,
                si_last_activity = ss_last_activity snapshot,
                si_last_trusted_transition = ss_last_trusted_transition snapshot,
                si_latest_process_sample =
                  (case process_activity of [] \<Rightarrow> None | sample # _ \<Rightarrow> Some (sm_observed_at sample))\<rparr>,
              dv_active_operation = ss_last_progress_summary snapshot,
              dv_source_conflicts = (if ss_source_conflict snapshot
                then [''Authoritative runtime and agent sources currently disagree''] else []),
              dv_outcome_uncertain = (ss_state snapshot = Disappeared \<or> ss_state snapshot = Unknown \<or>
                ss_source_conflict snapshot),
              dv_correlation = correlation,
              dv_suggested_checks = suggested_checks snapshot process_activity\<rparr>))"

text \<open>The relations come newest first; collecting them into a map keeps the last binding of a child.\<close>

definition selected_correlations ::
  "sqlite \<Rightarrow> 'j agent_code \<Rightarrow> 'j agent \<Rightarrow> main_session_id \<Rightarrow>
     agent_api_error + (child_session_id \<rightharpoonup> correlation_view)" where
  "selected_correlations fails gc a root =
     map_ok (\<lambda>relations. map_of (rev (map (\<lambda>relation. (rl_child relation,
           \<lparr>cv_basis = rl_basis relation, cv_evidence = os_fingerprint (rl_provenance relation),
            cv_trust = os_trust (rl_provenance relation)\<rparr>))
         (filter rl_selected relations))))
       (map_err ApiStore (relations_for_root fails (gc_foreign gc) (gc_relations gc) (ga_tree a) root
         MAX_TREE_SESSIONS))"

definition get_session ::
  "sqlite \<Rightarrow> 'j agent_code \<Rightarrow> 'j agent \<Rightarrow> wall_time_ms \<Rightarrow> transport_key \<Rightarrow> session_id \<Rightarrow>
     agent_api_error + session_view" where
  "get_session fails gc a now transport session_id =
     and_then (resolve_scoped fails gc a transport session_id) (view_for_record fails gc a now)"

definition list_sessions ::
  "sqlite \<Rightarrow> 'j agent_code \<Rightarrow> 'j agent \<Rightarrow> wall_time_ms \<Rightarrow> transport_key \<Rightarrow> agent_api_error + session_view list" where
  "list_sessions fails gc a now transport =
     and_then (scope_root (ga_scopes a) transport) (\<lambda>root.
     and_then (map_err ApiStore (sessions_for_root fails (gc_foreign gc) (ga_db a) root MAX_TREE_SESSIONS))
       (\<lambda>records. collect_results (map (view_for_record fails gc a now) records)))"

definition session_tree ::
  "sqlite \<Rightarrow> 'j agent_code \<Rightarrow> 'j agent \<Rightarrow> wall_time_ms \<Rightarrow> transport_key \<Rightarrow> agent_api_error + session_tree_view" where
  "session_tree fails gc a now transport =
     and_then (scope_root (ga_scopes a) transport) (\<lambda>root.
     and_then (map_err ApiStore (session_by_id fails (gc_foreign gc) (ga_db a) (main_session root))) (\<lambda>found.
     and_then (ok_or SessionNotFound found) (\<lambda>_.
     and_then (list_sessions fails gc a now transport) (\<lambda>sessions.
     and_then (map_err ApiStore (relations_for_root fails (gc_foreign gc) (gc_relations gc) (ga_tree a) root
         MAX_TREE_SESSIONS)) (\<lambda>relations.
       Inr \<lparr>tv_root = root, tv_sessions = sessions, tv_relations = relations\<rparr>)))))"

section \<open>The event inbox\<close>

text \<open>
  The loop of \<open>list_events\<close> over the events of a page: the views of a subject are assembled once.
\<close>

fun event_views ::
  "sqlite \<Rightarrow> 'j agent_code \<Rightarrow> 'j agent \<Rightarrow> wall_time_ms \<Rightarrow> (child_session_id \<rightharpoonup> correlation_view) \<Rightarrow>
     (session_id \<rightharpoonup> session_view \<times> diagnostic_view) \<Rightarrow> domain_event list \<Rightarrow> agent_api_error + event_view list" where
  "event_views fails gc a now correlations views [] = Inr []"
| "event_views fails gc a now correlations views (event # events) =
     (let subject = identity_session_id (ev_subject event) in
      and_then (case views subject of
          Some cached \<Rightarrow> Inr cached
        | None \<Rightarrow>
            and_then (map_err ApiStore (session_by_id fails (gc_foreign gc) (ga_db a) subject)) (\<lambda>found.
            and_then (ok_or SessionNotFound found) (\<lambda>rec.
            and_then (view_for_record fails gc a now rec) (\<lambda>session.
            and_then (diagnostics_for fails gc a rec (sv_snapshot session)
                (case st_session rec of
                   MainIdentity _ \<Rightarrow> None
                 | ChildIdentity child \<Rightarrow> correlations child)) (\<lambda>diagnostics.
              Inr (session, diagnostics)))))) (\<lambda>(session, diagnostics).
        map_ok ((#) \<lparr>vw_event = event, vw_session = session, vw_diagnostics = diagnostics\<rparr>)
          (event_views fails gc a now correlations (views(subject \<mapsto> (session, diagnostics))) events)))"

definition read_page ::
  "sqlite \<Rightarrow> 'j agent_code \<Rightarrow> 'j agent \<Rightarrow> wall_time_ms \<Rightarrow> transport_key \<Rightarrow> u64 option \<Rightarrow> u32 \<Rightarrow>
     agent_api_error + main_session_id \<times> u64 \<times> event_page" where
  "read_page fails gc a now transport after limit =
     (if limit = 0 \<or> limit > MAX_EVENTS then Inl InvalidLimit
      else
        and_then (scope_root (ga_scopes a) transport) (\<lambda>root.
        and_then (map_err ApiStore (inbox_offset fails (ga_db a) root)) (\<lambda>durable.
          let stored_cursor = (case durable of None \<Rightarrow> 0 | Some offset \<Rightarrow> io_last_event_id offset);
              delivered_cursor = (case durable of None \<Rightarrow> 0 | Some offset \<Rightarrow> io_last_delivered_event_id offset);
              cursor = (case after of
                  None \<Rightarrow> stored_cursor
                | Some confirmed \<Rightarrow> max (min confirmed delivered_cursor) stored_cursor)
          in and_then (map_err ApiStore (events_after fails (gc_foreign gc) (ga_db a) root cursor limit)) (\<lambda>domain_events.
             and_then (selected_correlations fails gc a root) (\<lambda>correlations.
             and_then (event_views fails gc a now correlations Map.empty domain_events) (\<lambda>events.
               Inr (root, delivered_cursor,
                 \<lparr>pg_after = cursor,
                  pg_next_cursor = (if domain_events = [] then cursor else ev_id (last domain_events)),
                  pg_events = events\<rparr>)))))))"

definition list_events ::
  "sqlite \<Rightarrow> 'j agent_code \<Rightarrow> 'j agent \<Rightarrow> wall_time_ms \<Rightarrow> transport_key \<Rightarrow> u64 option \<Rightarrow> u32 \<Rightarrow>
     'j agent \<times> (agent_api_error + event_page)" where
  "list_events fails gc a now transport after limit =
     (case read_page fails gc a now transport after limit of
        Inl e \<Rightarrow> (a, Inl e)
      | Inr (root, delivered_cursor, page) \<Rightarrow>
          (case save_inbox_offset fails (ga_db a)
             \<lparr>io_parent = root, io_last_event_id = pg_after page,
              io_last_delivered_event_id = max delivered_cursor (pg_next_cursor page),
              io_updated_at = now\<rparr> of
             (db, Inl e) \<Rightarrow> (set_ga_db db a, Inl (ApiStore e))
           | (db, Inr _) \<Rightarrow> (set_ga_db db a, Inr page)))"

end
