(* ===== verification/Agent_Api.thy ===== *)
theory Agent_Api
  imports Agent_Views
begin

text \<open>
  The requests of \<open>crates/watchdog-server/src/agent_api.rs\<close> that change state: reports of agents,
  registration of sessions and delegations, discovery, restart markers and timers. A request reads
  and writes the store around one submission of an observation, where it waits for its queue; the
  submission is a run of the task machine of \<open>Admission\<close> under a schedule, any list of its calls, so
  a request meets every interleaving of other submissions. When the schedule ends before the request
  is answered, the request is still waiting and has no result (\<open>None\<close>). Interleavings of scope guards
  are the subject of \<open>Scopes\<close>: here no other task touches the transport while a request waits.
\<close>

section \<open>Requests in sequence\<close>

record request_env =
  rq_number :: nat
  rq_schedule :: "api_call list"
  rq_before :: sqlite
  rq_after :: sqlite
  rq_now :: time_point
  rq_done :: wall_time_ms

type_synonym ('j, 'a) response = "'j agent \<times> (agent_api_error + 'a) option"

definition then_do :: "('j, 'a) response \<Rightarrow> ('j agent \<Rightarrow> 'a \<Rightarrow> ('j, 'b) response) \<Rightarrow> ('j, 'b) response" where
  "then_do m f =
     (case m of
        (a, None) \<Rightarrow> (a, None)
      | (a, Some (Inl e)) \<Rightarrow> (a, Some (Inl e))
      | (a, Some (Inr x)) \<Rightarrow> f a x)"

lemma then_do_simps [simp]:
  "then_do (a, None) f = (a, None)"
  "then_do (a, Some (Inl e)) f = (a, Some (Inl e))"
  "then_do (a, Some (Inr x)) f = f a x"
  by (simp_all add: then_do_def)

definition submit_observation ::
  "'j agent_code \<Rightarrow> request_env \<Rightarrow> 'j agent \<Rightarrow> stored_session_record \<Rightarrow> observation_envelope \<Rightarrow>
     ('j, apply_result) response" where
  "submit_observation gc env a rec observation =
     (if aw_requests (ga_world a) (rq_number env) \<noteq> None then (a, None)
      else
        (let w = fst (run_machine (api_step (gc_foreign gc) (gc_observation gc)) (ga_world a)
               (Arrive (rq_number env) rec observation # rq_schedule env))
         in (a\<lparr>ga_world := w\<rparr>,
             case aw_requests w (rq_number env) of Some (Answered r) \<Rightarrow> Some r | _ \<Rightarrow> None)))"

section \<open>Reports\<close>

definition submit_payload ::
  "'j agent_code \<Rightarrow> request_env \<Rightarrow> 'j agent \<Rightarrow> stored_session_record \<Rightarrow> string \<Rightarrow> string \<Rightarrow>
     observation_payload \<Rightarrow> ('j, apply_result) response" where
  "submit_payload gc env a rec operation event_key payload =
     then_do (a, Some (mcp_observation gc rec operation event_key payload (rq_now env))) (\<lambda>a observation.
       submit_observation gc env a rec observation)"

definition mutate_scoped ::
  "'j agent_code \<Rightarrow> request_env \<Rightarrow> 'j agent \<Rightarrow> transport_key \<Rightarrow> session_id \<Rightarrow> string \<Rightarrow> string \<Rightarrow>
     observation_payload \<Rightarrow> ('j, session_view) response" where
  "mutate_scoped gc env a transport session_id operation event_key payload =
     then_do (a, Some (resolve_scoped (rq_before env) gc a transport session_id)) (\<lambda>a rec.
     then_do (submit_payload gc env a rec operation event_key payload) (\<lambda>a _.
       (a, Some (view_for_record (rq_after env) gc a (rq_done env) rec))))"

definition report_progress ::
  "'j agent_code \<Rightarrow> request_env \<Rightarrow> 'j agent \<Rightarrow> transport_key \<Rightarrow> session_id \<Rightarrow> string \<Rightarrow> string \<Rightarrow>
     string option \<Rightarrow> ('j, session_view) response" where
  "report_progress gc env a transport session_id event_key summary operation =
     then_do (a, Some (validate_event_key event_key)) (\<lambda>a _.
     then_do (a, Some (progress_text summary operation)) (\<lambda>a summary.
       mutate_scoped gc env a transport session_id ''report_progress'' event_key (Progress summary)))"

fun waiting_payload :: "waiting_kind \<Rightarrow> string \<times> observation_payload" where
  "waiting_payload WaitingAgent = (''report_waiting'', NativeState WaitingForAgent)"
| "waiting_payload WaitingTool = (''report_waiting'', NativeState WaitingForTool)"
| "waiting_payload WaitingUser = (''report_waiting'', NativeState WaitingForUser)"
| "waiting_payload WaitingIntentional = (''report_intentional_wait'', IntentionalWait)"

definition report_waiting ::
  "'j agent_code \<Rightarrow> request_env \<Rightarrow> 'j agent \<Rightarrow> transport_key \<Rightarrow> session_id \<Rightarrow> string \<Rightarrow> waiting_kind \<Rightarrow>
     ('j, session_view) response" where
  "report_waiting gc env a transport session_id event_key kind =
     then_do (a, Some (validate_event_key event_key)) (\<lambda>a _.
       case waiting_payload kind of
         (operation, payload) \<Rightarrow> mutate_scoped gc env a transport session_id operation event_key payload)"

fun outcome_state :: "completion_outcome \<Rightarrow> detailed_state" where
  "outcome_state OutcomeCompleted = Completed"
| "outcome_state OutcomeFailed = Failed"
| "outcome_state OutcomeCancelled = Cancelled"

definition complete_session ::
  "'j agent_code \<Rightarrow> request_env \<Rightarrow> 'j agent \<Rightarrow> transport_key \<Rightarrow> session_id \<Rightarrow> string \<Rightarrow> completion_outcome \<Rightarrow>
     ('j, session_view) response" where
  "complete_session gc env a transport session_id event_key outcome =
     then_do (a, Some (validate_event_key event_key)) (\<lambda>a _.
       mutate_scoped gc env a transport session_id ''complete_session'' event_key
         (NativeState (outcome_state outcome)))"

definition update_deadline ::
  "'j agent_code \<Rightarrow> request_env \<Rightarrow> 'j agent \<Rightarrow> transport_key \<Rightarrow> session_id \<Rightarrow> string \<Rightarrow> deadline_command \<Rightarrow>
     ('j, session_view) response" where
  "update_deadline gc env a transport session_id event_key command =
     then_do (a, Some (validate_event_key event_key)) (\<lambda>a _.
       mutate_scoped gc env a transport session_id ''update_deadline'' event_key (DeadlineFact command))"

section \<open>Delegations\<close>

definition save_api_relation ::
  "sqlite \<Rightarrow> 'j agent_code \<Rightarrow> 'j agent \<Rightarrow> stored_session_record \<Rightarrow> stored_session_record \<Rightarrow> string \<Rightarrow>
     time_point \<Rightarrow> registration_provenance \<Rightarrow> ('j, unit) response" where
  "save_api_relation fails gc a child parent event_key now provenance =
     (case st_session child of
        MainIdentity _ \<Rightarrow> (a, Some (Inl ChildSessionRequired))
      | ChildIdentity child_id \<Rightarrow>
          then_do (a, Some (map_err ApiDomain (registration_source child event_key provenance True)))
            (\<lambda>a source.
               case select_relation fails (gc_foreign gc) (gc_relations gc) (ga_db a) (ga_tree a)
                 \<lparr>rl_child = child_id, rl_parent = st_session parent, rl_root = st_root child,
                  rl_selected = True, rl_basis = provenance_basis provenance, rl_provenance = source,
                  rl_valid_from = wall_time now, rl_valid_until = None\<rparr> of
                 (tree, r) \<Rightarrow>
                   (a\<lparr>ga_tree := tree\<rparr>, Some (map_ok (\<lambda>_. ()) (map_err
                      (\<lambda>e. if e = RelationIdentityConflict then RelationEventConflict else ApiStore e) r)))))"

definition register_delegation ::
  "'j agent_code \<Rightarrow> request_env \<Rightarrow> 'j agent \<Rightarrow> transport_key \<Rightarrow> session_id \<Rightarrow> session_id \<Rightarrow> string \<Rightarrow>
     deadline_command option \<Rightarrow> ('j, session_view) response" where
  "register_delegation gc env a transport parent_id child_id event_key deadline =
     then_do (a, Some (validate_event_key event_key)) (\<lambda>a _.
     then_do (a, Some (resolve_scoped (rq_before env) gc a transport parent_id)) (\<lambda>a parent.
     then_do (a, Some (resolve_scoped (rq_before env) gc a transport child_id)) (\<lambda>a child.
       case st_session child of
         MainIdentity _ \<Rightarrow> (a, Some (Inl ChildSessionRequired))
       | ChildIdentity _ \<Rightarrow>
           then_do (save_api_relation (rq_before env) gc a child parent event_key (rq_now env) McpProvenance)
             (\<lambda>a _. case deadline of
                Some command \<Rightarrow>
                  mutate_scoped gc env a transport child_id ''register_delegation_deadline'' event_key
                    (DeadlineFact command)
              | None \<Rightarrow> (a, Some (view_for_record (rq_after env) gc a (rq_done env) child))))))"

section \<open>Registration\<close>

text \<open>A \<open>ScopeGuard\<close> around a computation: dropped on an error, committed on success.\<close>

definition guarded ::
  "'j agent \<Rightarrow> transport_key \<Rightarrow> main_session_id \<Rightarrow> ('j agent \<Rightarrow> ('j, unit) response) \<Rightarrow> ('j, unit) response" where
  "guarded a transport root body =
     (case begin_registration (ga_scopes a) transport root of
        (reg, Inl e) \<Rightarrow> (a\<lparr>ga_scopes := reg\<rparr>, Some (Inl e))
      | (reg, Inr rv) \<Rightarrow>
          (case body (a\<lparr>ga_scopes := reg\<rparr>) of
             (a, None) \<Rightarrow> (a, None)
           | (a, Some (Inl e)) \<Rightarrow>
               (a\<lparr>ga_scopes := rollback_registration (ga_scopes a) transport root (rv_generation rv)\<rparr>,
                Some (Inl e))
           | (a, Some (Inr _)) \<Rightarrow>
               (case commit_scope_registration (ga_scopes a) transport root (rv_generation rv) of
                  (reg, r) \<Rightarrow> (a\<lparr>ga_scopes := reg\<rparr>, Some r))))"

definition reject_conflicting_identity ::
  "sqlite \<Rightarrow> 'j agent_code \<Rightarrow> 'j agent \<Rightarrow> session_id \<Rightarrow> stored_session_record \<Rightarrow> agent_api_error + unit" where
  "reject_conflicting_identity fails gc a session_id rec =
     and_then (map_err ApiStore (session_by_id fails (gc_foreign gc) (ga_db a) session_id)) (\<lambda>found.
       if is_some_and (\<lambda>existing. existing \<noteq> rec) found then Inl SessionIdentityConflict else Inr ())"

definition commit_registration ::
  "'j agent_code \<Rightarrow> request_env \<Rightarrow> 'j agent \<Rightarrow> stored_session_record \<Rightarrow> string \<Rightarrow>
     registration_provenance \<Rightarrow> stored_session_record option \<Rightarrow> ('j, unit) response" where
  "commit_registration gc env a rec event_key provenance parent =
     then_do (a, Some (registration_observation gc rec event_key (rq_now env) provenance)) (\<lambda>a observation.
     then_do (submit_observation gc env a rec observation) (\<lambda>a _.
       case parent of
         Some parent \<Rightarrow>
           save_api_relation (rq_after env) gc a rec parent event_key (rq_now env) provenance
       | None \<Rightarrow> (a, Some (Inr ()))))"

definition alias_target_accepts_registration ::
  "sqlite \<Rightarrow> 'j agent_code \<Rightarrow> 'j agent \<Rightarrow> session_id \<Rightarrow> agent_api_error + bool" where
  "alias_target_accepts_registration fails gc a canonical =
     and_then (map_err ApiStore (session_by_id fails (gc_foreign gc) (ga_db a) canonical)) (\<lambda>found.
       case found of
         None \<Rightarrow> Inr False
       | Some rec \<Rightarrow>
           (case st_session rec of
              ChildIdentity _ \<Rightarrow> Inr False
            | MainIdentity main \<Rightarrow>
                if main \<noteq> st_root rec then Inr False
                else map_ok (is_some_and (\<lambda>snapshot. \<not> outcome_established (su_state snapshot)))
                  (map_err ApiStore (load_snapshot fails (gc_foreign gc) (ga_db a) (st_session rec)))))"

definition bind_main_record ::
  "sqlite \<Rightarrow> 'j agent_code \<Rightarrow> 'j agent \<Rightarrow> transport_key \<Rightarrow> session_id \<Rightarrow> ('j, stored_session_record) response" where
  "bind_main_record fails gc a transport session_id =
     then_do (a, Some (and_then (map_err ApiStore (session_by_id fails (gc_foreign gc) (ga_db a) session_id))
         (ok_or SessionNotFound))) (\<lambda>a rec.
       case st_session rec of
         ChildIdentity _ \<Rightarrow> (a, Some (Inl MainSessionRequired))
       | MainIdentity main \<Rightarrow>
           if main \<noteq> st_root rec then (a, Some (Inl SessionIdentityConflict))
           else (case bind_committed (ga_scopes a) transport (st_root rec) of
                   (reg, r) \<Rightarrow> (a\<lparr>ga_scopes := reg\<rparr>, Some (map_ok (\<lambda>_. rec) r))))"

definition bind_discovered_main ::
  "'j agent_code \<Rightarrow> request_env \<Rightarrow> 'j agent \<Rightarrow> transport_key \<Rightarrow> session_id \<Rightarrow> ('j, session_view) response" where
  "bind_discovered_main gc env a transport session_id =
     then_do (bind_main_record (rq_before env) gc a transport session_id) (\<lambda>a rec.
       (a, Some (view_for_record (rq_after env) gc a (rq_done env) rec)))"

fun alias_target_conflict :: "agent_api_error \<Rightarrow> agent_api_error" where
  "alias_target_conflict SessionNotFound = SessionIdentityConflict"
| "alias_target_conflict MainSessionRequired = SessionIdentityConflict"
| "alias_target_conflict other = other"

text \<open>The canonical session of an alias, unless it cannot adopt the caller: then the alias is discarded.\<close>

definition usable_alias ::
  "sqlite \<Rightarrow> 'j agent_code \<Rightarrow> 'j agent \<Rightarrow> native_session_key \<Rightarrow> session_id \<Rightarrow> ('j, session_id option) response" where
  "usable_alias fails gc a native session_id =
     then_do (a, Some (map_err ApiStore (discovery_alias fails (ga_db a) (ga_tree a) native))) (\<lambda>a resolution.
       case resolution of
         AmbiguousAlias \<Rightarrow> (a, Some (Inl SessionIdentityConflict))
       | Absent \<Rightarrow> (a, Some (Inr None))
       | Unique canonical \<Rightarrow>
           if canonical = session_id then (a, Some (Inr (Some canonical)))
           else
             then_do (a, Some (alias_target_accepts_registration fails gc a canonical)) (\<lambda>a accepts.
               if accepts then (a, Some (Inr (Some canonical)))
               else (case forget_discovery_alias fails (ga_tree a) native of
                       (tree, r) \<Rightarrow> (a\<lparr>ga_tree := tree\<rparr>, Some (map_ok (\<lambda>_. None) (map_err ApiStore r))))))"

definition map_error :: "(agent_api_error \<Rightarrow> agent_api_error) \<Rightarrow> ('j, 'a) response \<Rightarrow> ('j, 'a) response" where
  "map_error f m = apsnd (map_option (map_err f)) m"

definition register_main ::
  "'j agent_code \<Rightarrow> request_env \<Rightarrow> 'j agent \<Rightarrow> transport_key \<Rightarrow> string \<Rightarrow> registration_provenance \<Rightarrow>
     native_session_key \<Rightarrow> session_id \<Rightarrow> ('j, session_view) response" where
  "register_main gc env a transport event_key provenance native session_id =
     then_do (usable_alias (rq_before env) gc a native session_id) (\<lambda>a canonical.
       case canonical of
         Some canonical \<Rightarrow>
           then_do (map_error alias_target_conflict (bind_main_record (rq_before env) gc a transport canonical))
             (\<lambda>a rec.
           then_do (a, Some (registration_observation gc rec event_key (rq_now env) provenance)) (\<lambda>a observation.
           then_do (submit_observation gc env a rec observation) (\<lambda>a _.
             (a, Some (view_for_record (rq_after env) gc a (rq_done env) rec)))))
       | None \<Rightarrow>
           (let root = MainSessionId session_id;
                rec = \<lparr>st_session = MainIdentity root, st_root = root, st_native = native\<rparr> in
            then_do (a, Some (reject_conflicting_identity (rq_before env) gc a session_id rec)) (\<lambda>a _.
            then_do (guarded a transport root (\<lambda>a. commit_registration gc env a rec event_key provenance None))
              (\<lambda>a _. (a, Some (view_for_record (rq_after env) gc a (rq_done env) rec))))))"

definition register_child ::
  "'j agent_code \<Rightarrow> request_env \<Rightarrow> 'j agent \<Rightarrow> transport_key \<Rightarrow> session_id option \<Rightarrow> string \<Rightarrow>
     registration_provenance \<Rightarrow> native_session_key \<Rightarrow> session_id \<Rightarrow> ('j, session_view) response" where
  "register_child gc env a transport parent_id event_key provenance native session_id =
     then_do (a, Some (ok_or MissingParent parent_id)) (\<lambda>a parent_id.
     then_do (a, Some (resolve_child_parent (rq_before env) gc a transport parent_id)) (\<lambda>a parent.
       let rec = \<lparr>st_session = ChildIdentity (ChildSessionId session_id), st_root = st_root parent,
                  st_native = native\<rparr> in
       then_do (a, Some (reject_conflicting_identity (rq_before env) gc a session_id rec)) (\<lambda>a _.
       then_do (guarded a transport (st_root parent)
           (\<lambda>a. commit_registration gc env a rec event_key provenance (Some parent))) (\<lambda>a _.
         (a, Some (view_for_record (rq_after env) gc a (rq_done env) rec))))))"

definition register_session_with_provenance ::
  "'j agent_code \<Rightarrow> request_env \<Rightarrow> 'j agent \<Rightarrow> transport_key \<Rightarrow> register_request \<Rightarrow>
     registration_provenance \<Rightarrow> ('j, session_view) response" where
  "register_session_with_provenance gc env a transport request provenance =
     then_do (a, Some (validate_event_key (rs_event_key request))) (\<lambda>a _.
     then_do (a, Some (map_err ApiDomain (native_session_key_new (rs_runtime request) (rs_native_id request))))
       (\<lambda>a native.
       let session_id = session_id_from_native (xf_new_v5 (gc_foreign gc)) (xf_namespace_url (gc_foreign gc)) native in
       case rs_kind request of
         MainKind \<Rightarrow> register_main gc env a transport (rs_event_key request) provenance native session_id
       | ChildKind \<Rightarrow>
           register_child gc env a transport (rs_parent request) (rs_event_key request) provenance native
             session_id))"

definition register_session ::
  "'j agent_code \<Rightarrow> request_env \<Rightarrow> 'j agent \<Rightarrow> transport_key \<Rightarrow> register_request \<Rightarrow> ('j, session_view) response" where
  "register_session gc env a transport request =
     register_session_with_provenance gc env a transport request McpProvenance"

section \<open>Discovery\<close>

record discovered_session =
  ds_runtime :: runtime_kind
  ds_native_id :: string
  ds_kind :: session_kind
  ds_parent :: "session_id option"
  ds_event_key :: string
  ds_adapter_version :: string
  ds_evidence_source :: string
  ds_title :: "string option"
  ds_startup_directory :: "string option"

record repository_metadata =
  rm_remote :: "string option"
  rm_branch :: "string option"
  rm_pull_request_number :: "u64 option"
  rm_pull_request_url :: "string option"
  rm_replace_pull_request :: bool

definition option_or :: "'a option \<Rightarrow> 'a option \<Rightarrow> 'a option" where
  "option_or v w = (case v of Some x \<Rightarrow> Some x | None \<Rightarrow> w)"

definition discovery_transport :: "'j agent_code \<Rightarrow> main_session_id \<Rightarrow> domain_input_error + transport_key" where
  "discovery_transport gc root = transport_key_new (''autodiscovery:'' @ gc_show gc (main_session root))"

definition discovery_root ::
  "sqlite \<Rightarrow> 'j agent_code \<Rightarrow> 'j agent \<Rightarrow> discovered_session \<Rightarrow> session_id \<Rightarrow> agent_api_error + main_session_id" where
  "discovery_root fails gc a request session_id =
     (case ds_kind request of
        MainKind \<Rightarrow> Inr (MainSessionId session_id)
      | ChildKind \<Rightarrow>
          and_then (ok_or MissingParent (ds_parent request)) (\<lambda>parent_id.
          and_then (map_err ApiStore (session_by_id fails (gc_foreign gc) (ga_db a) parent_id)) (\<lambda>found.
            map_ok st_root (ok_or SessionNotFound found))))"

text \<open>Reading, merging and saving the metadata of a session.\<close>

definition save_merged_metadata ::
  "sqlite \<Rightarrow> 'j agent \<Rightarrow> domain_input_error + session_metadata_record \<Rightarrow> ('j, unit) response" where
  "save_merged_metadata fails a metadata =
     then_do (a, Some (map_err ApiDomain metadata)) (\<lambda>a metadata.
       case save_session_metadata fails (ga_db a) (ga_records a) metadata of
         ((db, rd), r) \<Rightarrow> ((set_ga_db db a)\<lparr>ga_records := rd\<rparr>, Some (map_err ApiStore r)))"

definition load_metadata ::
  "sqlite \<Rightarrow> 'j agent \<Rightarrow> session_identity \<Rightarrow> agent_api_error + session_metadata_record option" where
  "load_metadata fails a session = map_err ApiStore (session_metadata fails (ga_db a) (ga_records a) session)"

definition discover_session ::
  "'j agent_code \<Rightarrow> request_env \<Rightarrow> 'j agent \<Rightarrow> discovered_session \<Rightarrow> ('j, session_view) response" where
  "discover_session gc env a request =
     then_do (a, Some (map_err ApiDomain (native_session_key_new (ds_runtime request) (ds_native_id request))))
       (\<lambda>a native.
     then_do (a, Some (discovery_root (rq_before env) gc a request
         (session_id_from_native (xf_new_v5 (gc_foreign gc)) (xf_namespace_url (gc_foreign gc)) native)))
       (\<lambda>a root.
     then_do (a, Some (map_err ApiDomain (discovery_transport gc root))) (\<lambda>a transport.
     then_do (register_session_with_provenance gc env a transport
         \<lparr>rs_runtime = ds_runtime request, rs_native_id = ds_native_id request, rs_kind = ds_kind request,
          rs_parent = ds_parent request, rs_event_key = ds_event_key request\<rparr>
         (NativeProvenance (ds_adapter_version request) (ds_evidence_source request))) (\<lambda>a view.
     then_do (a, Some (load_metadata (rq_after env) a (sv_session view))) (\<lambda>a existing.
     then_do (save_merged_metadata (rq_after env) a (session_metadata_record_new (sv_session view)
         (option_or (ds_title request) (Option.bind existing mt_title))
         (option_or (ds_startup_directory request) (Option.bind existing mt_startup_directory))
         (Option.bind existing mt_repository_remote) (Option.bind existing mt_branch)
         (Option.bind existing mt_pull_request_number) (Option.bind existing mt_pull_request_url)
         (rq_done env))) (\<lambda>a _.
       (a, Some (Inr view))))))))"

definition enrich_repository_metadata ::
  "sqlite \<Rightarrow> 'j agent \<Rightarrow> wall_time_ms \<Rightarrow> session_identity \<Rightarrow> repository_metadata \<Rightarrow> ('j, unit) response" where
  "enrich_repository_metadata fails a now session repository =
     then_do (a, Some (and_then (load_metadata fails a session) (ok_or SessionNotFound))) (\<lambda>a existing.
       save_merged_metadata fails a (session_metadata_record_new session
         (mt_title existing) (mt_startup_directory existing)
         (option_or (rm_remote repository) (mt_repository_remote existing))
         (option_or (rm_branch repository) (mt_branch existing))
         (if rm_replace_pull_request repository then rm_pull_request_number repository
          else option_or (rm_pull_request_number repository) (mt_pull_request_number existing))
         (if rm_replace_pull_request repository then rm_pull_request_url repository
          else option_or (rm_pull_request_url repository) (mt_pull_request_url existing)) now))"

definition ingest_native_observation ::
  "'j agent_code \<Rightarrow> request_env \<Rightarrow> 'j agent \<Rightarrow> observation_envelope \<Rightarrow> ('j, session_view) response" where
  "ingest_native_observation gc env a observation =
     (let session_id = session_id_from_native (xf_new_v5 (gc_foreign gc)) (xf_namespace_url (gc_foreign gc))
            (oe_subject observation) in
      then_do (a, Some (and_then (map_err ApiStore
          (session_by_id (rq_before env) (gc_foreign gc) (ga_db a) session_id)) (ok_or SessionNotFound)))
        (\<lambda>a rec.
         if st_native rec \<noteq> oe_subject observation then (a, Some (Inl SessionIdentityConflict))
         else
           then_do (submit_observation gc env a rec observation) (\<lambda>a _.
             (a, Some (view_for_record (rq_after env) gc a (rq_done env) rec)))))"

section \<open>Restart markers and timers\<close>

text \<open>\<open>lane\<close> and one locked call of its coordinator, outside the queue.\<close>

definition with_lane ::
  "sqlite \<Rightarrow> 'j agent_code \<Rightarrow> 'j agent \<Rightarrow> stored_session_record \<Rightarrow> time_point \<Rightarrow> lane_op \<Rightarrow>
     'j agent \<times> (agent_api_error + apply_result)" where
  "with_lane fails gc a rec now op =
     (let w = ga_world a in
      case (case aw_lanes w (lane_key rec) of
              Some lane \<Rightarrow> Inr lane
            | None \<Rightarrow> build_lane fails (gc_foreign gc) w rec now) of
        Inl e \<Rightarrow> (a, Inl e)
      | Inr lane \<Rightarrow>
          (case lane_call fails (gc_foreign gc) (aw_shared w, sl_coordinator lane) op of
             ((shared, coordinator), r) \<Rightarrow>
               (a\<lparr>ga_world := w\<lparr>aw_shared := shared,
                   aw_lanes := (aw_lanes w)(lane_key rec \<mapsto> lane\<lparr>sl_coordinator := coordinator\<rparr>)\<rparr>\<rparr>,
                map_err ApiCoordinator r)))"

definition retained_sessions ::
  "sqlite \<Rightarrow> 'j agent_code \<Rightarrow> 'j agent \<Rightarrow> agent_api_error + stored_session_record list" where
  "retained_sessions fails gc a =
     map_err ApiStore
       (and_then (sessions_by_kind fails (gc_foreign gc) (ga_db a) MainKind MAX_TREE_SESSIONS) (\<lambda>mains.
          map_ok (append mains) (sessions_by_kind fails (gc_foreign gc) (ga_db a) ChildKind MAX_TREE_SESSIONS)))"

text \<open>
  The loop over the retained sessions: each session's observation is built and given to its lane; the
  first error ends it. It counts the sessions whose call applied something.
\<close>

fun call_each_lane ::
  "sqlite \<Rightarrow> 'j agent_code \<Rightarrow> time_point \<Rightarrow>
     (stored_session_record \<Rightarrow> agent_api_error + observation_envelope) \<Rightarrow> (observation_envelope \<Rightarrow> lane_op) \<Rightarrow>
     'j agent \<Rightarrow> stored_session_record list \<Rightarrow> 'j agent \<times> (agent_api_error + nat)" where
  "call_each_lane fails gc now observe op a [] = (a, Inr 0)"
| "call_each_lane fails gc now observe op a (rec # recs) =
     (case observe rec of
        Inl e \<Rightarrow> (a, Inl e)
      | Inr observation \<Rightarrow>
          (case with_lane fails gc a rec now (op observation) of
             (a, Inl e) \<Rightarrow> (a, Inl e)
           | (a, Inr result) \<Rightarrow>
               (case call_each_lane fails gc now observe op a recs of
                  (a, r) \<Rightarrow> (a, map_ok (\<lambda>n. if result = Applied then Suc n else n) r))))"

definition mark_restarted ::
  "sqlite \<Rightarrow> 'j agent_code \<Rightarrow> time_point \<Rightarrow> 'j agent \<Rightarrow> 'j agent \<times> (agent_api_error + unit)" where
  "mark_restarted fails gc now a =
     (case retained_sessions fails gc a of
        Inl e \<Rightarrow> (a, Inl e)
      | Inr recs \<Rightarrow>
          apsnd (map_ok (\<lambda>_. ()))
            (call_each_lane fails gc now (\<lambda>rec. restart_observation gc rec now) OpRestarted a recs))"

record timer_report =
  tr_evaluated_sessions :: nat
  tr_changed_sessions :: nat

definition reconcile_timers ::
  "sqlite \<Rightarrow> 'j agent_code \<Rightarrow> time_point \<Rightarrow> 'j agent \<Rightarrow> 'j agent \<times> (agent_api_error + timer_report)" where
  "reconcile_timers fails gc now a =
     (case retained_sessions fails gc a of
        Inl e \<Rightarrow> (a, Inl e)
      | Inr recs \<Rightarrow>
          apsnd (map_ok (\<lambda>n. \<lparr>tr_evaluated_sessions = length recs, tr_changed_sessions = n\<rparr>))
            (call_each_lane fails gc now (\<lambda>rec. scheduler_observation gc rec now) OpTick a recs))"

definition mark_native_reconciled ::
  "sqlite \<Rightarrow> 'j agent_code \<Rightarrow> time_point \<Rightarrow> 'j agent \<Rightarrow> session_id \<Rightarrow> string \<Rightarrow> string \<Rightarrow>
     'j agent \<times> (agent_api_error + unit)" where
  "mark_native_reconciled fails gc now a session_id adapter_version evidence_source =
     (case and_then (map_err ApiStore (session_by_id fails (gc_foreign gc) (ga_db a) session_id)) (\<lambda>found.
           and_then (ok_or SessionNotFound found) (\<lambda>rec.
             map_ok (Pair rec) (reconciliation_observation gc rec now adapter_version evidence_source))) of
        Inl e \<Rightarrow> (a, Inl e)
      | Inr (rec, observation) \<Rightarrow>
          apsnd (map_ok (\<lambda>_. ())) (with_lane fails gc a rec now (OpReconciled observation)))"

end
