(* ===== verification/Agent_Guarantees.thy ===== *)
theory Agent_Guarantees
  imports Agent_Api
begin

text \<open>
  What the agent API guarantees: a transport reads and changes only the tree it is bound to, a
  registration binds it to the tree it answers with or leaves it as it was, an event key stands for
  one observation, and the timers cover a bounded part of the retained sessions.
\<close>

section \<open>Scoped access\<close>

datatype agent_request =
    GetSession session_id
  | ReportProgress session_id string string "string option"
  | ReportWaiting session_id string waiting_kind
  | CompleteSession session_id string completion_outcome
  | UpdateDeadline session_id string deadline_command
  | RegisterDelegation session_id session_id string "deadline_command option"

fun serve_request ::
  "'j agent_code \<Rightarrow> request_env \<Rightarrow> 'j agent \<Rightarrow> transport_key \<Rightarrow> agent_request \<Rightarrow> ('j, session_view) response" where
  "serve_request gc env a t (GetSession s) = (a, Some (get_session (rq_after env) gc a (rq_done env) t s))"
| "serve_request gc env a t (ReportProgress s key summary operation) = report_progress gc env a t s key summary operation"
| "serve_request gc env a t (ReportWaiting s key kind) = report_waiting gc env a t s key kind"
| "serve_request gc env a t (CompleteSession s key result) = complete_session gc env a t s key result"
| "serve_request gc env a t (UpdateDeadline s key command) = update_deadline gc env a t s key command"
| "serve_request gc env a t (RegisterDelegation parent child key deadline) =
     register_delegation gc env a t parent child key deadline"

text \<open>The sessions a request names, the one it answers with last.\<close>

fun request_targets :: "agent_request \<Rightarrow> session_id list" where
  "request_targets (GetSession s) = [s]"
| "request_targets (ReportProgress s key summary operation) = [s]"
| "request_targets (ReportWaiting s key kind) = [s]"
| "request_targets (CompleteSession s key result) = [s]"
| "request_targets (UpdateDeadline s key command) = [s]"
| "request_targets (RegisterDelegation parent child key deadline) = [parent, child]"

definition in_scope :: "'j agent \<Rightarrow> transport_key \<Rightarrow> session_id \<Rightarrow> bool" where
  "in_scope a t s \<longleftrightarrow> (\<exists>root row. scope_root (ga_scopes a) t = Inr root \<and>
     map_of (db_sessions (ga_db a)) s = Some row \<and> sr_root row = main_session root)"

lemma then_do_answered:
  assumes "then_do m f = (a', Some (Inr y))"
  obtains a x where "m = (a, Some (Inr x))" "f a x = (a', Some (Inr y))"
  using assms by (cases m; cases "snd m"; cases "the (snd m)") (auto simp: then_do_def)

lemma session_by_id_root:
  assumes "session_by_id fails fc db s = Inr (Some rec)"
  shows "\<exists>row. map_of (db_sessions db) s = Some row \<and> st_root rec = MainSessionId (sr_root row) \<and>
    identity_session_id (st_session rec) = s"
  using assms by (auto simp: session_by_id_def transpose_option_def decode_session_row_def result_elims Let_def
      split: option.splits if_splits)

lemma resolve_scoped_in_scope:
  assumes "resolve_scoped fails gc a t s = Inr rec"
  shows "in_scope a t s \<and> scope_root (ga_scopes a) t = Inr (st_root rec) \<and> identity_session_id (st_session rec) = s"
  using assms session_by_id_root [of fails "gc_foreign gc" "ga_db a" s]
  by (fastforce simp: resolve_scoped_def result_elims in_scope_def split: if_splits)

lemma resolve_scoped_refused:
  assumes "\<not> in_scope a t s"
  shows "\<exists>e. resolve_scoped fails gc a t s = Inl e"
  using resolve_scoped_in_scope [of fails gc a t s] assms by (cases "resolve_scoped fails gc a t s") auto

text \<open>A computation that gives up before it changed anything.\<close>

definition refused :: "'j agent \<Rightarrow> ('j, 'a) response \<Rightarrow> bool" where
  "refused a m \<longleftrightarrow> (\<exists>e. m = (a, Some (Inl e)))"

lemma refused_pure: "(\<And>x. r = Inr x \<Longrightarrow> refused a (f a x)) \<Longrightarrow> refused a (then_do (a, Some r) f)"
  by (cases r) (auto simp: refused_def)

lemma mutate_scoped_refused: "\<not> in_scope a t s \<Longrightarrow> refused a (mutate_scoped gc env a t s operation key payload)"
  using resolve_scoped_refused [of a t s "rq_before env" gc] by (auto simp: mutate_scoped_def refused_def)

text \<open>
  C12. A transport cannot reach outside its tree: a request that names any session outside the tree its
  transport is bound to, or comes over an unbound transport, is answered with an error and changes
  nothing at all, whatever its arguments and however the store behaves.
\<close>
theorem foreign_requests_inert:
  assumes "s \<in> set (request_targets r)" and "\<not> in_scope a t s"
  shows "\<exists>e. serve_request gc env a t r = (a, Some (Inl e))"
proof -
  have "refused a (serve_request gc env a t r)"
  proof (cases r)
    case (RegisterDelegation parent child key deadline)
    show ?thesis
    proof (cases "in_scope a t parent")
      case True
      then have "\<not> in_scope a t child"
        using assms by (auto simp: RegisterDelegation)
      then show ?thesis
        using resolve_scoped_refused [of a t child "rq_before env" gc]
        by (auto simp: RegisterDelegation register_delegation_def refused_def intro!: refused_pure [unfolded refused_def])
    next
      case False
      then show ?thesis
        using resolve_scoped_refused [of a t parent "rq_before env" gc]
        by (auto simp: RegisterDelegation register_delegation_def refused_def intro!: refused_pure [unfolded refused_def])
    qed
  next
    case (GetSession s')
    then show ?thesis
      using assms resolve_scoped_refused [of a t s' "rq_after env" gc] by (auto simp: get_session_def refused_def)
  next
    case (ReportWaiting s' key kind)
    then show ?thesis
      using assms by (cases kind) (auto simp: report_waiting_def intro!: refused_pure mutate_scoped_refused)
  qed (use assms in \<open>auto simp: report_progress_def complete_session_def update_deadline_def
      intro!: refused_pure mutate_scoped_refused\<close>)
  then show ?thesis
    by (simp add: refused_def)
qed

lemma view_for_record_record:
  "view_for_record fails gc a now rec = Inr view \<Longrightarrow>
     sv_root view = st_root rec \<and> sv_session view = st_session rec"
  by (auto simp: view_for_record_def result_elims split: option.splits)

lemma mutate_scoped_answer:
  assumes "mutate_scoped gc env a t s operation key payload = (a', Some (Inr view))"
  shows "scope_root (ga_scopes a) t = Inr (sv_root view) \<and> identity_session_id (sv_session view) = s"
  using assms resolve_scoped_in_scope [of "rq_before env" gc a t s] unfolding mutate_scoped_def
  by (auto elim!: then_do_answered dest!: view_for_record_record)

lemma pure_scopes: "(a, Some r) = (a', Some (Inr x)) \<longleftrightarrow> a' = a \<and> r = Inr x"
  by auto

lemma submit_unchanged:
  assumes "submit_observation gc env a rec observation = (a', r)"
  shows "ga_scopes a' = ga_scopes a \<and> ga_tree a' = ga_tree a \<and> ga_records a' = ga_records a"
  using assms by (auto simp: submit_observation_def Let_def split: if_splits)

lemma save_api_relation_unchanged:
  assumes "save_api_relation fails gc a child parent key now provenance = (a', r)"
  shows "ga_scopes a' = ga_scopes a \<and> ga_world a' = ga_world a \<and> ga_records a' = ga_records a"
  using assms by (auto simp: save_api_relation_def then_do_def split: session_identity.splits sum.splits prod.splits)

lemma sessions_for_root_root:
  assumes "sessions_for_root fails fc db root limit = Inr recs" and "rec \<in> set recs"
  shows "st_root rec = root"
proof -
  let ?rows = "ordered_sessions limit (filter (\<lambda>(_, row). sr_root row = main_session root) (db_sessions db))"
  have "map (\<lambda>row. decode_session_row fc row None) ?rows = map Inr recs"
    using assms(1) by (auto simp: sessions_for_root_def result_elims)
  then have "Inr rec \<in> (\<lambda>row. decode_session_row fc row None) ` set ?rows"
    using assms(2) by (metis image_eqI list.set_map)
  then obtain k row where "sr_root row = main_session root" "decode_session_row fc (k, row) None = Inr rec"
    by (force simp: ordered_sessions_def dest!: in_set_takeD)
  then show ?thesis
    by (auto simp: decode_session_row_def result_elims Let_def split: if_splits)
qed

lemma list_sessions_root:
  assumes "list_sessions fails gc a now t = Inr views"
  shows "\<exists>root. scope_root (ga_scopes a) t = Inr root \<and> (\<forall>view \<in> set views. sv_root view = root)"
proof -
  obtain root recs where root: "scope_root (ga_scopes a) t = Inr root"
    and recs: "sessions_for_root fails (gc_foreign gc) (ga_db a) root MAX_TREE_SESSIONS = Inr recs"
    and views: "map (view_for_record fails gc a now) recs = map Inr views"
    using assms by (auto simp: list_sessions_def result_elims)
  have "sv_root view = root" if "view \<in> set views" for view
  proof -
    have "Inr view \<in> set (map (view_for_record fails gc a now) recs)"
      unfolding views using that by simp
    then obtain rec where "rec \<in> set recs" "view_for_record fails gc a now rec = Inr view"
      by force
    then show ?thesis
      using sessions_for_root_root [OF recs] view_for_record_record by fastforce
  qed
  then show ?thesis
    using root by blast
qed

lemma serve_request_answer:
  assumes "serve_request gc env a t r = (a', Some (Inr view))"
  shows "scope_root (ga_scopes a) t = Inr (sv_root view) \<and>
    identity_session_id (sv_session view) = last (request_targets r)"
proof (cases r)
  case (GetSession s)
  then show ?thesis
    using assms resolve_scoped_in_scope [of "rq_after env" gc a t s]
    by (auto simp: get_session_def result_elims dest!: view_for_record_record)
next
  case (ReportWaiting s key kind)
  then show ?thesis
    using assms by (cases kind) (auto simp: report_waiting_def elim!: then_do_answered dest!: mutate_scoped_answer)
next
  case (RegisterDelegation parent child key deadline)
  then obtain parent_rec rec a1 where child: "resolve_scoped (rq_before env) gc a t child = Inr rec"
    and saved: "save_api_relation (rq_before env) gc a rec parent_rec key (rq_now env) McpProvenance = (a1, Some (Inr ()))"
    and answer: "(case deadline of
           Some command \<Rightarrow> mutate_scoped gc env a1 t child ''register_delegation_deadline'' key (DeadlineFact command)
         | None \<Rightarrow> (a1, Some (view_for_record (rq_after env) gc a1 (rq_done env) rec))) = (a', Some (Inr view))"
    using assms by (auto simp: register_delegation_def elim!: then_do_answered split: session_identity.splits)
  then show ?thesis
    using resolve_scoped_in_scope [OF child] save_api_relation_unchanged [OF saved]
    by (auto simp: RegisterDelegation split: option.splits dest!: mutate_scoped_answer view_for_record_record)
qed (use assms in \<open>auto simp: report_progress_def complete_session_def update_deadline_def
    elim!: then_do_answered dest!: mutate_scoped_answer\<close>)

text \<open>
  C13. Whatever a transport is shown belongs to its tree: the view a request answers with is of the
  session it named, in the tree the transport is bound to, and so is every view of a session list or
  a session tree.
\<close>
theorem scoped_views_in_tree:
  "(serve_request gc env a t r = (a', Some (Inr view)) \<longrightarrow>
      scope_root (ga_scopes a) t = Inr (sv_root view) \<and>
      identity_session_id (sv_session view) = last (request_targets r)) \<and>
   (list_sessions fails gc a now t = Inr views \<longrightarrow>
      (\<forall>v \<in> set views. scope_root (ga_scopes a) t = Inr (sv_root v))) \<and>
   (session_tree fails gc a now t = Inr tree \<longrightarrow>
      scope_root (ga_scopes a) t = Inr (tv_root tree) \<and>
      (\<forall>v \<in> set (tv_sessions tree). sv_root v = tv_root tree))"
  using serve_request_answer list_sessions_root by (fastforce simp: session_tree_def result_elims)

section \<open>Registrations\<close>

    
lemma commit_scope_registration_root:
  "commit_scope_registration reg t root n = (reg', Inr u) \<Longrightarrow> scope_root reg' t = Inr root"
  by (auto simp: commit_scope_registration_def scope_root_def insert_binding_def split: option.splits if_splits)

lemma bind_committed_root: "bind_committed reg t root = (reg', Inr u) \<Longrightarrow> scope_root reg' t = Inr root"
  by (auto simp: bind_committed_def scope_root_def insert_binding_def split: option.splits if_splits prod.splits sum.splits)

lemma guarded_root:
  assumes "guarded a t root body = (a', Some (Inr u))"
  shows "scope_root (ga_scopes a') t = Inr root"
  using assms commit_scope_registration_root
  by (auto simp: guarded_def split: prod.splits sum.splits option.splits)





lemma map_error_answered: "map_error f m = (a, Some (Inr x)) \<longleftrightarrow> m = (a, Some (Inr x))"
  by (cases m; cases "snd m"; cases "the (snd m)") (auto simp: map_error_def)

lemma bind_main_record_root:
  assumes "bind_main_record fails gc a t s = (a', Some (Inr rec))"
  shows "scope_root (ga_scopes a') t = Inr (st_root rec)"
  using assms bind_committed_root
  by (fastforce simp: bind_main_record_def result_elims elim!: then_do_answered
      split: session_identity.splits if_splits prod.splits)

lemma register_main_answer:
  assumes "register_main gc env a t key provenance native s = (a', Some (Inr view))"
  shows "scope_root (ga_scopes a') t = Inr (sv_root view)"
proof -
  obtain a1 found where rest: "(case found of
         Some canonical \<Rightarrow>
           then_do (map_error alias_target_conflict (bind_main_record (rq_before env) gc a1 t canonical))
             (\<lambda>a rec.
           then_do (a, Some (registration_observation gc rec key (rq_now env) provenance)) (\<lambda>a observation.
           then_do (submit_observation gc env a rec observation) (\<lambda>a _.
             (a, Some (view_for_record (rq_after env) gc a (rq_done env) rec)))))
       | None \<Rightarrow>
           (let root = MainSessionId s;
                rec = \<lparr>st_session = MainIdentity root, st_root = root, st_native = native\<rparr> in
            then_do (a1, Some (reject_conflicting_identity (rq_before env) gc a1 s rec)) (\<lambda>a _.
            then_do (guarded a t root (\<lambda>a. commit_registration gc env a rec key provenance None))
              (\<lambda>a _. (a, Some (view_for_record (rq_after env) gc a (rq_done env) rec))))))
      = (a', Some (Inr view))"
    using assms unfolding register_main_def by (rule then_do_answered)
  show ?thesis
  proof (cases found)
    case None
    then show ?thesis
      using rest guarded_root by (fastforce simp: Let_def elim!: then_do_answered dest!: view_for_record_record)
  next
    case (Some canonical)
    then obtain a2 a3 rec observation x where bound: "bind_main_record (rq_before env) gc a1 t canonical = (a2, Some (Inr rec))"
      and submitted: "submit_observation gc env a2 rec observation = (a3, Some (Inr x))"
      and view: "view_for_record (rq_after env) gc a3 (rq_done env) rec = Inr view" "a' = a3"
      using rest by (auto simp: map_error_answered elim!: then_do_answered)
    then show ?thesis
      using bind_main_record_root [OF bound] submit_unchanged [OF submitted] view_for_record_record [OF view(1)] by simp
  qed
qed

lemma register_child_answer:
  assumes "register_child gc env a t parent key provenance native s = (a', Some (Inr view))"
  shows "scope_root (ga_scopes a') t = Inr (sv_root view)"
  using assms guarded_root
  by (fastforce simp: register_child_def Let_def elim!: then_do_answered dest!: view_for_record_record)

text \<open>
  A registration that succeeds has bound the transport to the tree it answers with: whichever
  session it registers, redirects to or is refused, a successful answer shows a session of the tree
  every later request of this transport is confined to.
\<close>
theorem registration_binds_view:
  assumes "register_session_with_provenance gc env a t request provenance = (a', Some (Inr view))"
  shows "scope_root (ga_scopes a') t = Inr (sv_root view)"
  using assms register_main_answer register_child_answer
  by (fastforce simp: register_session_with_provenance_def Let_def elim!: then_do_answered split: session_kind.splits)





section \<open>The reach of the timers\<close>

lemma sorted_prefix_counts:
  assumes "sorted (map f xs)" and "x \<in> set (take n xs)"
  shows "length (filter (\<lambda>y. f y < f x) xs) < n"
proof -
  obtain i where i: "i < n" "i < length xs" "xs ! i = x"
    using assms(2) by (auto simp: in_set_conv_nth)
  have "\<not> f y < f x" if y: "y \<in> set (drop i xs)" for y
  proof -
    obtain m where "m < length xs - i" "y = xs ! (i + m)"
      using y i(2) by (auto simp: in_set_conv_nth)
    then obtain j where "i \<le> j" "j < length xs" "y = xs ! j"
      using i(2) by (intro that [of "i + m"]) simp_all
    then show ?thesis
      using sorted_nth_mono [OF assms(1), of i j] i by (simp add: not_less)
  qed
  then have "filter (\<lambda>y. f y < f x) (drop i xs) = []"
    by (simp add: filter_empty_conv)
  then have "filter (\<lambda>y. f y < f x) xs = filter (\<lambda>y. f y < f x) (take i xs)"
    by (metis append_Nil2 append_take_drop_id filter_append)
  then have "length (filter (\<lambda>y. f y < f x) xs) \<le> i"
    by (metis length_filter_le length_take min.cobounded2 order_trans)
  then show ?thesis
    using i(1) by simp
qed

lemma length_filter_sort_key: "length (filter P (sort_key f xs)) = length (filter P xs)"
  by (metis mset_filter mset_sort size_mset)

lemma ordered_sessions_oldest:
  assumes "r \<in> set (ordered_sessions limit rows)"
  shows "length (filter (\<lambda>r'. sr_created_at (snd r') < sr_created_at (snd r)) rows) < unat limit"
proof -
  let ?f = "\<lambda>(_, row). sr_created_at row" and ?xs = "sort_key (\<lambda>(_, row). sr_created_at row) (sort_key fst rows)"
  have "length (filter (\<lambda>y. ?f y < ?f r) ?xs) < unat limit"
    by (rule sorted_prefix_counts) (use assms in \<open>simp_all add: ordered_sessions_def\<close>)
  then show ?thesis
    by (simp add: length_filter_sort_key case_prod_beta)
qed

lemma sessions_by_kind_oldest:
  assumes "sessions_by_kind fails fc db kind limit = Inr recs" and "rec \<in> set recs"
  shows "\<exists>row. (lane_key rec, row) \<in> set (db_sessions db) \<and> sr_kind row = kind_name kind \<and>
    length (filter (\<lambda>(_, r). sr_kind r = kind_name kind \<and> sr_created_at r < sr_created_at row) (db_sessions db)) <
      unat limit"
proof -
  let ?rows = "filter (\<lambda>(_, row). sr_kind row = kind_name kind) (db_sessions db)"
  have "map (\<lambda>row. decode_session_row fc row None) (ordered_sessions limit ?rows) = map Inr recs"
    using assms(1) by (auto simp: sessions_by_kind_def result_elims)
  then have "Inr rec \<in> (\<lambda>row. decode_session_row fc row None) ` set (ordered_sessions limit ?rows)"
    using assms(2) by (metis image_eqI list.set_map)
  then obtain k row where row: "(k, row) \<in> set (ordered_sessions limit ?rows)" "decode_session_row fc (k, row) None = Inr rec"
    by force
  moreover have "lane_key rec = k"
    using row(2) by (auto simp: lane_key_def decode_session_row_def result_elims Let_def split: if_splits)
  moreover have "(k, row) \<in> set ?rows"
    using row(1) by (force simp: ordered_sessions_def dest!: in_set_takeD)
  ultimately show ?thesis
    using ordered_sessions_oldest [OF row(1)] unfolding case_prod_beta
    by (intro exI [of _ row]) (simp add: conj_commute)
qed

lemma call_each_lane_others:
  assumes "call_each_lane fails gc now observe op a recs = (a', r)" and "k \<notin> lane_key ` set recs"
  shows "aw_lanes (ga_world a') k = aw_lanes (ga_world a) k"
  using assms
proof (induction recs arbitrary: a a' r)
  case (Cons rec recs)
  have one: "aw_lanes (ga_world b') k = aw_lanes (ga_world b) k" if "with_lane fails gc b rec now oper = (b', q)" for b b' oper q
    using that Cons.prems(2) by (auto simp: with_lane_def Let_def split: option.splits sum.splits prod.splits)
  show ?case
    using Cons.prems Cons.IH one by (fastforce split: sum.splits prod.splits)
qed simp

text \<open>
  C16. The timers and the restart marker cover the oldest thousand sessions of each kind and no others:
  once a thousand sessions of a kind are stored, the lane of a session created later is neither opened
  nor called by either pass, so its restart is never marked, it never becomes suspect or stalled, and no
  alert is ever raised for it. Nothing but a full wipe removes a session.
\<close>
theorem newest_sessions_unsupervised:
  assumes "distinct (map fst (db_sessions (ga_db a)))" and "(k, row) \<in> set (db_sessions (ga_db a))"
    and "1000 \<le> length (filter (\<lambda>(_, r). sr_kind r = sr_kind row \<and> sr_created_at r < sr_created_at row)
      (db_sessions (ga_db a)))"
  shows "aw_lanes (ga_world (fst (mark_restarted fails gc now a))) k = aw_lanes (ga_world a) k \<and>
    aw_lanes (ga_world (fst (reconcile_timers fails gc now a))) k = aw_lanes (ga_world a) k"
proof (cases "retained_sessions fails gc a")
  case (Inr recs)
  have "k \<noteq> lane_key rec" if rec: "rec \<in> set recs" for rec
  proof
    assume k: "k = lane_key rec"
    obtain kind recs' where "sessions_by_kind fails (gc_foreign gc) (ga_db a) kind MAX_TREE_SESSIONS = Inr recs'"
        "rec \<in> set recs'"
      using Inr rec by (auto simp: retained_sessions_def result_elims)
    from sessions_by_kind_oldest [OF this] obtain row' where row': "(k, row') \<in> set (db_sessions (ga_db a))"
        "sr_kind row' = kind_name kind"
        "length (filter (\<lambda>(_, r). sr_kind r = kind_name kind \<and> sr_created_at r < sr_created_at row')
          (db_sessions (ga_db a))) < 1000"
      by (auto simp: k MAX_TREE_SESSIONS_def)
    moreover have "row' = row"
      using assms(1,2) row'(1) by (metis map_of_is_SomeI option.inject)
    ultimately show False
      using assms(3) by simp
  qed
  then have "k \<notin> lane_key ` set recs"
    by blast
  then have "aw_lanes (ga_world (fst (call_each_lane fails gc now observe op a recs))) k = aw_lanes (ga_world a) k"
    for observe op
    by (intro call_each_lane_others [OF prod.collapse [symmetric]])
  then show ?thesis
    by (simp add: mark_restarted_def reconcile_timers_def Inr)
qed (simp add: mark_restarted_def reconcile_timers_def)

section \<open>Event keys\<close>











section \<open>Concrete requests\<close>

definition sample_agent_code :: "document agent_code" where
  "sample_agent_code = \<lparr>gc_foreign = sample_code,
     gc_relations = \<lparr>rx_to_vec = \<lambda>_. None, rx_from_slice = \<lambda>_. None\<rparr>,
     gc_records = \<lparr>rk_watch_to_vec = \<lambda>_. None, rk_watch_from_slice = \<lambda>_. None, rk_activity_to_vec = \<lambda>_. None,
       rk_activity_from_slice = \<lambda>_. None, rk_cursor_to_vec = \<lambda>_. None, rk_cursor_from_slice = \<lambda>_. None,
       rk_deadline_to_vec = \<lambda>_. None, rk_deadline_from_slice = \<lambda>_. None, rk_health_to_vec = \<lambda>_. None,
       rk_health_from_slice = \<lambda>_. None, rk_health_set_version = \<lambda>_ j. j, rk_attempt_to_vec = \<lambda>_. None,
       rk_attempt_from_slice = \<lambda>_. None\<rparr>,
     gc_observation = observation_of_doc, gc_show = \<lambda>_. ''id''\<rparr>"

definition sample_agent :: "document agent" where
  "sample_agent = \<lparr>ga_world = sample_api, ga_tree = empty_tree, ga_records = empty_records,
     ga_scopes = default_scope_registry\<rparr>"

definition sample_register :: register_request where
  "sample_register = \<lparr>rs_runtime = CodexCli, rs_native_id = ''a'', rs_kind = MainKind, rs_parent = None,
     rs_event_key = ''k''\<rparr>"

definition sample_env :: request_env where
  "sample_env = \<lparr>rq_number = 1, rq_schedule = [LookUpLane (\<lambda>_. False) 1, InsertLane 1, Admit 1,
       PopNext stored_session, ApplyNext (\<lambda>_. False) stored_session, StartReconcile stored_session,
       ReopenAdmission stored_session],
     rq_before = \<lambda>_. False, rq_after = \<lambda>_. False, rq_now = stored_time 5, rq_done = 5\<rparr>"

definition sample_main_session :: session_identity where
  "sample_main_session = MainIdentity (MainSessionId stored_session)"

definition registered_snapshot :: "observation_id \<Rightarrow> session_snapshot" where
  "registered_snapshot i = (session_snapshot_new sample_main_session (MainSessionId stored_session) (stored_time 5))
     \<lparr>ss_revision := 1, ss_last_observation_id := Some i, ss_last_observation_ms := Some 5,
      ss_last_progress_summary := Some ''Session registered with Agent Watchdog''\<rparr>"

definition sample_registration :: "observation_id \<Rightarrow> observation_envelope" where
  "sample_registration i = \<lparr>oe_observation_id = i, oe_subject = stored_key, oe_observed_at = stored_time 5,
     oe_source = \<lparr>os_adapter = \<lparr>ai_runtime = CodexCli, ai_version = ''mcp-v1''\<rparr>,
       os_fingerprint = ''mcp:register_session'', os_trust = Authoritative, os_confidence = None\<rparr>,
     oe_payload = Progress ''Session registered with Agent Watchdog''\<rparr>"

lemma registration_built:
  "\<exists>i. registration_observation sample_agent_code \<lparr>st_session = sample_main_session,
     st_root = MainSessionId stored_session, st_native = stored_key\<rparr> ''k'' (stored_time 5) McpProvenance =
     Inr (sample_registration i)"
  by (simp add: registration_observation_def registration_source_def api_source_def adapter_identity_new_def
     bounded_text_new_def MAX_ADAPTER_VERSION_BYTES_def observation_source_new_def MAX_SOURCE_FINGERPRINT_BYTES_def
     build_observation_def observation_id_from_native_def MAX_OBSERVATION_PART_BYTES_def show_record_def
     sample_agent_code_def stored_key_def observation_envelope_new_def sample_registration_def Let_def)

lemma registration_fields [simp]:
  "oe_payload (sample_registration i) = Progress ''Session registered with Agent Watchdog''"
  "oe_observed_at (sample_registration i) = stored_time 5" "oe_observation_id (sample_registration i) = i"
  by (simp_all add: sample_registration_def)

lemma sample_folded:
  "session_id_from_native (xf_new_v5 sample_code) (xf_namespace_url sample_code) stored_key = stored_session"
  "nk_runtime stored_key = CodexCli" "nk_native_id stored_key = ''a''"
  "oe_subject (sample_registration i) = stored_key"
  "identity_session_id sample_main_session = stored_session" "session_kind_name sample_main_session = ''main''"
  "wall_time (stored_time 5) = 5" "monotonic_ms (stored_time 5) = 5"
  "xf_json_len sample_code j = 200" "xf_observation_to_vec sample_code obs = Some (ObservationDoc obs)"
  "xf_snapshot_to_vec sample_code u = Some (SnapshotDoc u)"
  "xf_snapshot_from_slice sample_code (SnapshotDoc u) = Some u"
  by (simp_all add: stored_session_def stored_key_def sample_registration_def sample_main_session_def stored_time_def
      sample_code_def)

lemma registration_reduced:
  "reduce (session_snapshot_new sample_main_session (MainSessionId stored_session) (stored_time 5))
     (Observation (sample_registration i)) default_reducer_policy =
     \<lparr>ro_snapshot = registered_snapshot i, ro_events = []\<rparr>"
  by (simp add: reduce_eval session_snapshot_new_def sample_registration_def apply_progress_def record_activity_def
      stored_time_def saturating_add_def registered_snapshot_def)

definition registered_lane :: "observation_id \<Rightarrow> document shared \<times> lane" where
  "registered_lane i = fst (coordinator_apply_observation (\<lambda>_. False) sample_code
     (\<lparr>sh_db = empty_db, sh_next_event = 1\<rparr>,
      lane_new (session_snapshot_new sample_main_session (MainSessionId stored_session) (stored_time 5))
        default_reducer_policy [ParentInbox, Sse]) (sample_registration i))"

definition registered_update :: "observation_id \<Rightarrow> snapshot_update" where
  "registered_update i = \<lparr>su_session = sample_main_session, su_root = MainSessionId stored_session, su_revision = 1,
     su_state = Starting, su_updated_at = 5, su_reducer_snapshot = Some (registered_snapshot i)\<rparr>"

lemma registered_fields [simp]:
  "ss_session (registered_snapshot i) = sample_main_session"
  "ss_root (registered_snapshot i) = MainSessionId stored_session" "ss_revision (registered_snapshot i) = 1"
  "ss_state (registered_snapshot i) = Starting" "ss_updated_at (registered_snapshot i) = stored_time 5"
  "ss_last_observation_id (registered_snapshot i) = Some i"
  by (simp_all add: registered_snapshot_def session_snapshot_new_def)

lemma registration_applied:
  "coordinator_apply_observation (\<lambda>_. False) sample_code
     (\<lparr>sh_db = empty_db, sh_next_event = 1\<rparr>,
      lane_new (session_snapshot_new sample_main_session (MainSessionId stored_session) (stored_time 5))
        default_reducer_policy [ParentInbox, Sse]) (sample_registration i) = (registered_lane i, Inr Applied)"
   "db_snapshots (sh_db (fst (registered_lane i))) = [(stored_session, snapshot_row_of (registered_update i) (SnapshotDoc (registered_update i)))]"
   "db_observations (sh_db (fst (registered_lane i))) = [(i, observation_row_of (sample_registration i) (ObservationDoc (sample_registration i)))]"
   "db_sessions (sh_db (fst (registered_lane i))) = [(stored_session, \<lparr>sr_kind = ''main'', sr_root = stored_session,
      sr_runtime = ''codex_cli'', sr_native_id = ''a'', sr_created_at = 5, sr_updated_at = 5\<rparr>)]"
   "snd (registered_lane i) = lane_new (registered_snapshot i) default_reducer_policy [ParentInbox, Sse]"
proof -
  have from_reducer: "from_reducer (registered_snapshot i) = Inr (registered_update i)"
    by (simp add: from_reducer_Inr_iff stored_time_def i64_max_def registered_update_def)
  have applied: "coordinator_apply_observation (\<lambda>_. False) sample_code
     (\<lparr>sh_db = empty_db, sh_next_event = 1\<rparr>,
      lane_new (session_snapshot_new sample_main_session (MainSessionId stored_session) (stored_time 5))
        default_reducer_policy [ParentInbox, Sse]) (sample_registration i) =
     ((\<lparr>sh_db = empty_db
          \<lparr>db_observations := [(i, observation_row_of (sample_registration i) (ObservationDoc (sample_registration i)))],
           db_sessions := [(stored_session, \<lparr>sr_kind = ''main'', sr_root = stored_session, sr_runtime = ''codex_cli'',
             sr_native_id = ''a'', sr_created_at = 5, sr_updated_at = 5\<rparr>)],
           db_snapshots := [(stored_session, snapshot_row_of (registered_update i) (SnapshotDoc (registered_update i)))]\<rparr>,
        sh_next_event = 1\<rparr>,
       lane_new (registered_snapshot i) default_reducer_policy [ParentInbox, Sse]), Inr Applied)"
    by (simp add: lane_new_def coordinator_apply_observation_def apply_input_def Let_def registration_reduced from_reducer)
      (simp add: store_eval sample_folded registered_update_def observation_row_of_def snapshot_row_of_def
        registration_reduced)
  show "coordinator_apply_observation (\<lambda>_. False) sample_code
     (\<lparr>sh_db = empty_db, sh_next_event = 1\<rparr>,
      lane_new (session_snapshot_new sample_main_session (MainSessionId stored_session) (stored_time 5))
        default_reducer_policy [ParentInbox, Sse]) (sample_registration i) = (registered_lane i, Inr Applied)"
   "db_snapshots (sh_db (fst (registered_lane i))) = [(stored_session, snapshot_row_of (registered_update i) (SnapshotDoc (registered_update i)))]"
   "db_observations (sh_db (fst (registered_lane i))) = [(i, observation_row_of (sample_registration i) (ObservationDoc (sample_registration i)))]"
   "db_sessions (sh_db (fst (registered_lane i))) = [(stored_session, \<lparr>sr_kind = ''main'', sr_root = stored_session,
      sr_runtime = ''codex_cli'', sr_native_id = ''a'', sr_created_at = 5, sr_updated_at = 5\<rparr>)]"
   "snd (registered_lane i) = lane_new (registered_snapshot i) default_reducer_policy [ParentInbox, Sse]"
    unfolding registered_lane_def applied by simp_all
qed

lemma sample_empty [simp]: "db_snapshots (empty_db :: document db) = []" "db_observations (empty_db :: document db) = []"
  "db_sessions (empty_db :: document db) = []"
  by (simp_all add: empty_db_def)

lemma sample_submitted:
  assumes "ga_world a = sample_api"
  shows "\<exists>a'. submit_observation sample_agent_code sample_env a
     \<lparr>st_session = sample_main_session, st_root = MainSessionId stored_session, st_native = stored_key\<rparr>
     (sample_registration i) = (a', Some (Inr Applied)) \<and> aw_shared (ga_world a') = fst (registered_lane i)"
proof -
  obtain shared lane where rl: "registered_lane i = (shared, lane)"
    by fastforce
  note registration_applied(1) [of i, unfolded rl, simp]
  show ?thesis
    by (simp add: submit_observation_def assms sample_env_def sample_api_def look_up_lane_def insert_lane_def
        build_lane_def load_snapshot_def run_sql_def load_optional_json_def session_admission_new_def
        session_queue_new_def OBSERVATION_QUEUE_CAPACITY_def Let_def admit_def admission_push_def try_push_replacing_def
        pop_next_def apply_next_def set_admission_def set_drainer_def admission_pop_def queue_pop_def
        apply_queued_observation_def load_observation_def lane_key_def sample_folded sample_agent_code_def rl
        start_reconcile_def reopen_admission_def admission_reconcile_rejected_def complete_def answer_def)
qed

lemma sample_registered:
  "\<exists>a' view. register_session_with_provenance sample_agent_code sample_env sample_agent ''t'' sample_register McpProvenance =
     (a', Some (Inr view)) \<and> sv_session view = sample_main_session \<and> sv_root view = MainSessionId stored_session"
proof -
  obtain i where i: "registration_observation sample_agent_code \<lparr>st_session = sample_main_session,
     st_root = MainSessionId stored_session, st_native = stored_key\<rparr> ''k'' (stored_time 5) McpProvenance =
     Inr (sample_registration i)"
    using registration_built by blast
  have native: "native_session_key_new CodexCli ''a'' = Inr stored_key"
    by (simp add: native_session_key_new_Inr_iff stored_key_def native_key_wf_def MAX_NATIVE_ID_BYTES_def)
  have key: "validate_event_key ''k'' = Inr ()"
    by (simp add: validate_event_key_def bounded_text_new_def)
  obtain reg rv where reg: "begin_registration default_scope_registry ''t'' (MainSessionId stored_session) = (reg, Inr rv)"
      "sr_roots reg ''t'' = Some \<lparr>sb_root = MainSessionId stored_session, sb_generation = rv_generation rv, sb_pending = 1,
         sb_committed = False\<rparr>"
    by (simp add: begin_registration_def default_scope_registry_def next_generation_def checked_add_def insert_binding_def)
  obtain a' where sub: "submit_observation sample_agent_code sample_env (sample_agent\<lparr>ga_scopes := reg\<rparr>)
     \<lparr>st_session = sample_main_session, st_root = MainSessionId stored_session, st_native = stored_key\<rparr>
     (sample_registration i) = (a', Some (Inr Applied))" and shared: "aw_shared (ga_world a') = fst (registered_lane i)"
    using sample_submitted [of "sample_agent\<lparr>ga_scopes := reg\<rparr>" i] by (auto simp: sample_agent_def)
  have scopes: "ga_scopes a' = reg"
    using submit_unchanged [OF sub] by simp
  have parts: "ga_db sample_agent = empty_db" "ga_tree sample_agent = empty_tree" "ga_scopes sample_agent = default_scope_registry"
      "gc_foreign sample_agent_code = sample_code" "rs_kind sample_register = MainKind" "rs_event_key sample_register = ''k''"
      "rs_runtime sample_register = CodexCli" "rs_native_id sample_register = ''a''"
      "rq_before sample_env = (\<lambda>_. False)" "rq_after sample_env = (\<lambda>_. False)" "rq_now sample_env = stored_time 5"
      "rq_done sample_env = 5" "gc_observation sample_agent_code = observation_of_doc"
    by (simp_all add: ga_db_def sample_agent_def sample_api_def sample_agent_code_def sample_register_def sample_env_def)
  have db: "ga_db b = sh_db (aw_shared (ga_world b))" for b :: "document agent"
    by (simp add: ga_db_def)
  have update: "snapshot_update_deserialize (registered_update i) = Some (registered_update i)"
    by (rule from_reducer_deserialize [of "registered_snapshot i"])
      (simp add: from_reducer_Inr_iff stored_time_def i64_max_def registered_update_def)
  have inner: "su_reducer_snapshot (registered_update i) = Some (registered_snapshot i)"
    by (simp add: registered_update_def)
  have view: "\<exists>view. view_for_record (\<lambda>_. False) sample_agent_code (a'\<lparr>ga_scopes := reg'\<rparr>) 5 \<lparr>st_session = sample_main_session,
     st_root = MainSessionId stored_session, st_native = stored_key\<rparr> = Inr view \<and> sv_session view = sample_main_session \<and>
     sv_root view = MainSessionId stored_session" for reg'
    by (simp add: view_for_record_def parts db shared load_snapshot_def run_sql_def load_optional_json_def sample_folded
        registration_applied inner snapshot_row_of_def decode_json_def MAX_RECORD_BYTES_def update
        load_observation_def observation_row_of_def)
  show ?thesis
    using view
    by (simp add: register_session_with_provenance_def parts key native sample_folded Let_def register_main_def usable_alias_def
        discovery_alias_def run_sql_def alias_candidates_def exact_sessions_def empty_tree_def
        reject_conflicting_identity_def session_by_id_def transpose_option_def guarded_def reg commit_registration_def
        i [unfolded sample_main_session_def] sub [unfolded sample_main_session_def] scopes commit_scope_registration_def
        sample_main_session_def)
qed

theorem registration_binds_view_witness:
  "\<exists>a' view. register_session sample_agent_code sample_env sample_agent ''t'' sample_register = (a', Some (Inr view)) \<and>
     scope_root (ga_scopes a') ''t'' = Inr (sv_root view) \<and> sv_root view = MainSessionId stored_session"
  using sample_registered registration_binds_view unfolding register_session_def by blast

definition bound_to :: "transport_key \<Rightarrow> main_session_id \<Rightarrow> scope_registry" where
  "bound_to t root = fst (bind_committed default_scope_registry t root)"

lemma bound_to_root [simp]: "scope_root (bound_to t root) t = Inr root"
  by (simp add: bound_to_def bind_committed_def default_scope_registry_def next_generation_def checked_add_def
      insert_binding_def scope_root_def)

lemma ga_scopes_set [simp]: "ga_scopes (set_ga_db db a) = ga_scopes a"
  by (simp add: set_ga_db_def)

text \<open>A report on a session of tree 9 over a transport bound to tree 7.\<close>

theorem foreign_requests_inert_witness:
  "\<exists>e. serve_request sample_agent_code sample_env
     (set_ga_db sample_db (sample_agent\<lparr>ga_scopes := bound_to ''t'' (MainSessionId (SessionId 7))\<rparr>)) ''t''
     (CompleteSession stored_session ''k'' OutcomeCompleted) =
    (set_ga_db sample_db (sample_agent\<lparr>ga_scopes := bound_to ''t'' (MainSessionId (SessionId 7))\<rparr>), Some (Inl e))"
proof (rule foreign_requests_inert)
  have "map_option sr_root (map_of (db_sessions sample_db) stored_session) = Some (SessionId 9)"
    by (simp add: sample_db_def store_eval sample_eval stored_session_def session_id_from_native_def)
  then show "\<not> in_scope (set_ga_db sample_db (sample_agent\<lparr>ga_scopes := bound_to ''t'' (MainSessionId (SessionId 7))\<rparr>))
      ''t'' stored_session"
    by (auto simp: in_scope_def)
qed simp

definition registered_agent :: "observation_id \<Rightarrow> document agent" where
  "registered_agent i = set_ga_db (sh_db (fst (registered_lane i)))
     (sample_agent\<lparr>ga_scopes := bound_to ''t'' (MainSessionId stored_session)\<rparr>)"

lemma registered_session_by_id:
  "session_by_id (\<lambda>_. False) sample_code (ga_db (registered_agent i)) stored_session =
     Inr (Some \<lparr>st_session = sample_main_session, st_root = MainSessionId stored_session, st_native = stored_key\<rparr>)"
proof -
  have "native_session_key_new CodexCli ''a'' = Inr stored_key"
    by (simp add: native_session_key_new_Inr_iff stored_key_def native_key_wf_def MAX_NATIVE_ID_BYTES_def)
  then show ?thesis
    by (simp add: session_by_id_def run_sql_def registered_agent_def registration_applied transpose_option_def
        decode_session_row_def runtime_from_str.simps sample_folded Let_def sample_main_session_def)
qed

lemma registered_view:
  "\<exists>view. view_for_record (\<lambda>_. False) sample_agent_code (registered_agent i) 5
     \<lparr>st_session = sample_main_session, st_root = MainSessionId stored_session, st_native = stored_key\<rparr> = Inr view"
proof -
  have update: "snapshot_update_deserialize (registered_update i) = Some (registered_update i)"
    by (rule from_reducer_deserialize [of "registered_snapshot i"])
      (simp add: from_reducer_Inr_iff stored_time_def i64_max_def registered_update_def)
  have "su_reducer_snapshot (registered_update i) = Some (registered_snapshot i)"
    by (simp add: registered_update_def)
  then show ?thesis
    by (simp add: view_for_record_def registered_agent_def sample_agent_code_def load_snapshot_def run_sql_def
        load_optional_json_def sample_folded registration_applied snapshot_row_of_def decode_json_def
        MAX_RECORD_BYTES_def update load_observation_def observation_row_of_def)
qed

theorem scoped_views_in_tree_witness:
  "\<exists>view. serve_request sample_agent_code sample_env (registered_agent (ObservationId 3)) ''t'' (GetSession stored_session) =
      (registered_agent (ObservationId 3), Some (Inr view)) \<and>
    scope_root (ga_scopes (registered_agent (ObservationId 3))) ''t'' = Inr (sv_root view) \<and>
    identity_session_id (sv_session view) = stored_session"
proof -
  let ?a = "registered_agent (ObservationId 3)"
  have scopes: "ga_scopes ?a = bound_to ''t'' (MainSessionId stored_session)"
    by (simp add: registered_agent_def set_ga_db_def)
  have parts: "rq_after sample_env = (\<lambda>_. False)" "rq_done sample_env = 5" "gc_foreign sample_agent_code = sample_code"
    by (simp_all add: sample_env_def sample_agent_code_def)
  obtain view where "serve_request sample_agent_code sample_env ?a ''t'' (GetSession stored_session) = (?a, Some (Inr view))"
    using registered_view [of "ObservationId 3"]
    by (auto simp: get_session_def resolve_scoped_def scopes parts registered_session_by_id)
  then show ?thesis
    using scoped_views_in_tree [of sample_agent_code sample_env ?a "''t''" "GetSession stored_session" ?a view] by simp
qed



text \<open>A thousand and one main sessions, the one under key 0 the youngest.\<close>

definition crowded_sessions :: "(session_id \<times> session_row) list" where
  "crowded_sessions = map (\<lambda>i. (SessionId (of_nat i), \<lparr>sr_kind = ''main'', sr_root = SessionId (of_nat i),
     sr_runtime = ''codex_cli'', sr_native_id = print_nat i, sr_created_at = (if i = 0 then 5 else 0),
     sr_updated_at = 5\<rparr>)) [0..<1001]"

definition crowded_agent :: "document agent" where
  "crowded_agent = set_ga_db (empty_db\<lparr>db_sessions := crowded_sessions\<rparr>) sample_agent"

theorem newest_sessions_unsupervised_witness:
  "aw_lanes (ga_world (fst (mark_restarted (\<lambda>_. False) sample_agent_code (stored_time 9) crowded_agent))) (SessionId 0) = None \<and>
   aw_lanes (ga_world (fst (reconcile_timers (\<lambda>_. False) sample_agent_code (stored_time 9) crowded_agent))) (SessionId 0) = None"
proof -
  let ?row = "\<lparr>sr_kind = ''main'', sr_root = SessionId 0, sr_runtime = ''codex_cli'', sr_native_id = print_nat 0,
     sr_created_at = 5, sr_updated_at = 5\<rparr>"
  have distinct: "distinct (map fst crowded_sessions)"
    by (auto simp: crowded_sessions_def distinct_map inj_on_def word_unat_eq_iff unat_of_nat)
  have mem: "(SessionId 0, ?row) \<in> set crowded_sessions"
    by (force simp: crowded_sessions_def)
  have split: "[0..<1001] = 0 # [Suc 0..<1001]"
    by (rule upt_conv_Cons) simp
  have "filter (\<lambda>(_, r). sr_kind r = ''main'' \<and> sr_created_at r < 5) crowded_sessions = tl crowded_sessions"
    unfolding crowded_sessions_def split by (auto simp: filter_map filter_id_conv o_def)
  moreover have "length (tl crowded_sessions) = 1000"
    by (simp add: crowded_sessions_def)
  ultimately show ?thesis
    using newest_sessions_unsupervised [of crowded_agent "SessionId 0" ?row "\<lambda>_. False" sample_agent_code "stored_time 9"]
      distinct mem
    by (simp add: crowded_agent_def set_ga_db_def sample_agent_def sample_api_def)
      (simp add: ga_db_def)
qed



end
