(* ===== verification/Inbox.thy ===== *)
theory Inbox
  imports Agent_Guarantees
begin

text \<open>
  The event inbox of a tree under a client that follows the protocol of \<open>list_events\<close>: it confirms the
  cursor of the last page it got when it asks for the next one. Its requests are interleaved with the
  calls of the lanes that write the events, and a page may get lost on the way.
\<close>

section \<open>The log of a tree\<close>

type_synonym 'j log_row = "i64 \<times> 'j transition_row"

definition log_of :: "main_session_id \<Rightarrow> 'j db \<Rightarrow> 'j log_row list" where
  "log_of root db = filter (\<lambda>(e, row). tr_root row = main_session root) (db_transitions db)"

definition acknowledged :: "'j db \<Rightarrow> main_session_id \<Rightarrow> i64" where
  "acknowledged db root = (case map_of (db_inbox db) (main_session root) of None \<Rightarrow> 0 | Some row \<Rightarrow> in_last_event_id row)"

definition delivered :: "'j db \<Rightarrow> main_session_id \<Rightarrow> i64" where
  "delivered db root =
     (case map_of (db_inbox db) (main_session root) of None \<Rightarrow> 0 | Some row \<Rightarrow> in_last_delivered_event_id row)"

text \<open>Every stored event decodes, if at all, to an event with the identifier of its row.\<close>

definition log_decodes :: "'j foreign_code \<Rightarrow> 'j db \<Rightarrow> bool" where
  "log_decodes fc db \<longleftrightarrow> (\<forall>(e, row) \<in> set (db_transitions db). \<forall>event.
     xf_event_from_slice fc (tr_json row) = Some event \<longrightarrow> uint (ev_id event) = e)"

definition event_code_ok :: "'j foreign_code \<Rightarrow> bool" where
  "event_code_ok fc \<longleftrightarrow> (\<forall>event j. xf_event_to_vec fc event = Some j \<longrightarrow> xf_event_from_slice fc j = Some event)"

text \<open>Two ordered maps with the same lookups are the same list, so adding larger keys is appending.\<close>

lemma btree_list: "btree_wf m \<Longrightarrow> m = map (\<lambda>k. (k, the (map_of m k))) (map fst m)"
  by (auto simp: btree_wf_def comp_def map_of_eq_Some_iff intro!: map_idI [symmetric])

lemma btree_unique:
  assumes "btree_wf m" and "btree_wf m'" and "map_of m = map_of m'"
  shows "m = m'"
proof -
  have "set (map fst m) = set (map fst m')"
    using arg_cong [OF assms(3), of dom] by (simp add: dom_map_of_conv_image_fst)
  then have "map fst m = map fst m'"
    using assms(1,2) by (simp add: btree_wf_def sorted_distinct_set_unique)
  then show ?thesis
    using btree_list [OF assms(1)] btree_list [OF assms(2)] assms(3) by simp
qed

lemma btree_append:
  assumes "btree_wf m" and "btree_wf m'" and "map_of m' = map_of m ++ map_of new"
    and "sorted_wrt (<) (map fst new)" and "\<forall>k \<in> fst ` set m. \<forall>k' \<in> fst ` set new. k < k'"
  shows "m' = m @ new"
proof (rule btree_unique [OF assms(2)])
  have "sorted_wrt (<) (map fst m @ map fst new)"
    using assms(1,4,5) by (auto simp: btree_wf_def strict_sorted_iff [symmetric] sorted_wrt_append)
  then show "btree_wf (m @ new)"
    by (simp add: btree_wf_def strict_sorted_iff)
  have "dom (map_of m) \<inter> dom (map_of new) = {}"
    using assms(5) by (force simp: dom_map_of_conv_image_fst)
  then show "map_of m' = map_of (m @ new)"
    using assms(3) map_add_comm [of "map_of m" "map_of new"] by simp
qed

text \<open>One call of a lane appends its events to the log.\<close>

lemma committed_log:
  assumes "committed fc (shared, lane) obs i (shared', lane')" and "event_code_ok fc"
    and "\<forall>e \<in> fst ` set (db_transitions (sh_db shared)). e < uint (sh_next_event shared)"
    and "btree_wf (db_transitions (sh_db shared))" and "btree_wf (db_transitions (sh_db shared'))"
    and "log_decodes fc (sh_db shared)"
  shows "\<exists>new. db_transitions (sh_db shared') = db_transitions (sh_db shared) @ new \<and>
      (\<forall>e \<in> fst ` set new. uint (sh_next_event shared) \<le> e) \<and> log_decodes fc (sh_db shared') \<and>
      db_inbox (sh_db shared') = db_inbox (sh_db shared)"
proof -
  obtain update events where c: "applied_spec fc \<lparr>ap_observation = obs, ap_snapshot = update, ap_events = events\<rparr>
        (sh_db shared) (sh_db shared')"
      and ids: "map (\<lambda>r. uint (ev_id (re_event r))) events =
        [uint (sh_next_event shared)..uint (sh_next_event shared') - 1]"
    using assms(1) by (auto simp: committed_def Let_def)
  let ?new = "event_rows fc events"
  have keys: "map fst ?new = [uint (sh_next_event shared)..uint (sh_next_event shared') - 1]"
    unfolding ids [symmetric] by (simp add: event_rows_def)
  have written: "events_written fc events (sh_db shared) (sh_db shared')"
      "db_inbox (sh_db shared') = db_inbox (sh_db shared)"
    using c by (simp_all add: applied_spec_def Let_def)
  have above: "\<forall>e \<in> fst ` set ?new. uint (sh_next_event shared) \<le> e"
    using arg_cong [OF keys, of set] by auto
  have append: "db_transitions (sh_db shared') = db_transitions (sh_db shared) @ ?new"
  proof (rule btree_append [OF assms(4,5)])
    show "map_of (db_transitions (sh_db shared')) = map_of (db_transitions (sh_db shared)) ++ map_of ?new"
      using written(1) by (simp add: events_written_def)
    show "sorted_wrt (<) (map fst ?new)"
      unfolding keys by (simp add: strict_sorted_iff)
    show "\<forall>k \<in> fst ` set (db_transitions (sh_db shared)). \<forall>k' \<in> fst ` set ?new. k < k'"
      using assms(3) above by fastforce
  qed
  have "uint (ev_id event) = e" if row: "(e, row) \<in> set ?new" "xf_event_from_slice fc (tr_json row) = Some event" for e row event
  proof -
    obtain r where r: "r \<in> set events" "e = uint (ev_id (re_event r))"
        "row = transition_row_of (re_event r) (the (xf_event_to_vec fc (re_event r)))"
      using row(1) by (auto simp: event_rows_def)
    obtain j where j: "xf_event_to_vec fc (re_event r) = Some j"
      using written(1) r(1) by (auto simp: events_written_def list_all_iff)
    then have "xf_event_from_slice fc j = Some (re_event r)"
      using assms(2) by (simp add: event_code_ok_def)
    then show ?thesis
      using row(2) r(2,3) j by (simp add: transition_row_of_def)
  qed
  then have "log_decodes fc (sh_db shared')"
    using assms(6) unfolding log_decodes_def append by auto
  then show ?thesis
    using append above written(2) by blast
qed

section \<open>One page\<close>

lemma event_views_events:
  "event_views fails gc a now correlations views events = Inr vs \<Longrightarrow> map vw_event vs = events"
  by (induction fails gc a now correlations views events arbitrary: vs rule: event_views.induct)
    (auto simp: Let_def result_elims split: option.splits)

lemma inbox_offset_values:
  assumes "inbox_offset fails db root = Inr found" and "db_inv db"
  shows "acknowledged db root = (case found of None \<Rightarrow> 0 | Some offset \<Rightarrow> uint (io_last_event_id offset)) \<and>
    delivered db root = (case found of None \<Rightarrow> 0 | Some offset \<Rightarrow> uint (io_last_delivered_event_id offset))"
proof -
  have small: "uint (word_of_int v :: u64) = v" if "0 \<le> v" "v \<le> i64_max" for v
    using that by (simp add: i64_max_def uint_word_of_int)
  show ?thesis
  proof (cases "map_of (db_inbox db) (main_session root)")
    case (Some row)
    then have "0 \<le> in_last_event_id row" "in_last_event_id row \<le> in_last_delivered_event_id row"
        "in_last_delivered_event_id row \<le> i64_max"
      using assms(2) by (auto simp: db_inv_def inbox_inv_def)
    then show ?thesis
      using assms(1) Some small
      by (auto simp: inbox_offset_def acknowledged_def delivered_def result_elims u64_of_i64_def ok_or_def split: if_splits)
  qed (use assms(1) in \<open>auto simp: inbox_offset_def acknowledged_def delivered_def result_elims\<close>)
qed

text \<open>The rows a page lists: at most \<open>limit\<close> of those after the cursor, oldest first.\<close>

definition page_rows :: "main_session_id \<Rightarrow> 'j db \<Rightarrow> i64 \<Rightarrow> u32 \<Rightarrow> 'j log_row list" where
  "page_rows root db after limit = take (unat limit) (filter (\<lambda>(e, row). after < e) (log_of root db))"

lemma read_page_Inr:
  assumes "read_page fails gc a now transport after limit = Inr (root, dlv, page)"
    and "log_decodes (gc_foreign gc) (ga_db a)" and "db_inv (ga_db a)"
  shows "scope_root (ga_scopes a) transport = Inr root \<and> 0 < unat limit \<and> uint dlv = delivered (ga_db a) root \<and>
    uint (pg_after page) = (case after of None \<Rightarrow> acknowledged (ga_db a) root
      | Some c \<Rightarrow> max (min (uint c) (delivered (ga_db a) root)) (acknowledged (ga_db a) root)) \<and>
    map (Some \<circ> vw_event) (pg_events page) =
      map (xf_event_from_slice (gc_foreign gc) \<circ> tr_json \<circ> snd) (page_rows root (ga_db a) (uint (pg_after page)) limit) \<and>
    uint (pg_next_cursor page) = (let rows = page_rows root (ga_db a) (uint (pg_after page)) limit
      in if rows = [] then uint (pg_after page) else fst (last rows))"
proof -
  obtain durable events where scope: "scope_root (ga_scopes a) transport = Inr root"
    and offset: "inbox_offset fails (ga_db a) root = Inr durable"
    and dlv: "dlv = (case durable of None \<Rightarrow> 0 | Some offset \<Rightarrow> io_last_delivered_event_id offset)"
    and after: "pg_after page = (let stored = (case durable of None \<Rightarrow> 0 | Some offset \<Rightarrow> io_last_event_id offset)
       in case after of None \<Rightarrow> stored | Some confirmed \<Rightarrow> max (min confirmed dlv) stored)"
    and events: "events_after fails (gc_foreign gc) (ga_db a) root (pg_after page) limit = Inr events"
    and views: "map vw_event (pg_events page) = events"
    and cursor: "pg_next_cursor page = (if events = [] then pg_after page else ev_id (last events))"
    and limit: "limit \<noteq> 0"
    using assms(1) by (auto simp: read_page_def Let_def result_elims event_views_events split: if_splits)
  note offsets = inbox_offset_values [OF offset assms(3)]
  let ?rows = "page_rows root (ga_db a) (uint (pg_after page)) limit"
  have filtered: "filter (\<lambda>(e, row). tr_root row = main_session root \<and> uint (pg_after page) < e) (db_transitions (ga_db a)) =
      filter (\<lambda>(e, row). uint (pg_after page) < e) (log_of root (ga_db a))"
    by (auto simp: log_of_def intro!: filter_cong)
  have decoded: "map (decode_json (gc_foreign gc) (xf_event_from_slice (gc_foreign gc)) \<circ> (tr_json \<circ> snd)) ?rows = map Inr events"
    using events by (auto simp: events_after_def result_elims filtered page_rows_def take_map split: if_splits)
  have each: "list_all2 (\<lambda>event row. xf_event_from_slice (gc_foreign gc) (tr_json (snd row)) = Some event) events ?rows"
    using decoded [symmetric] unfolding list_all2_conv_all_nth
    by (auto simp: decode_json_def ok_or_def list_eq_iff_nth_eq split: if_splits option.splits)
  have some: "map Some events = map (xf_event_from_slice (gc_foreign gc) \<circ> tr_json \<circ> snd) ?rows"
    using each by (auto simp: list_all2_conv_all_nth list_eq_iff_nth_eq)
  have last: "uint (ev_id (last events)) = fst (last ?rows)" if "?rows \<noteq> []"
  proof -
    have "events \<noteq> []"
      using that list_all2_lengthD [OF each] by auto
    then have "xf_event_from_slice (gc_foreign gc) (tr_json (snd (last ?rows))) = Some (last events)"
      using each that by (simp add: list_all2_conv_all_nth last_conv_nth)
    moreover have "last ?rows \<in> set (db_transitions (ga_db a))"
      using last_in_set [OF that] by (auto simp: page_rows_def log_of_def dest: in_set_takeD)
    ultimately show ?thesis
      using assms(2) by (cases "last ?rows") (auto simp: log_decodes_def)
  qed
  have "uint (pg_after page) = (case after of None \<Rightarrow> acknowledged (ga_db a) root
      | Some c \<Rightarrow> max (min (uint c) (delivered (ga_db a) root)) (acknowledged (ga_db a) root))"
    unfolding after using offsets
    by (auto simp: Let_def dlv max_def min_def word_le_def split: option.splits)
  moreover have "uint dlv = delivered (ga_db a) root"
    using offsets by (auto simp: dlv split: option.splits)
  moreover have "0 < unat limit"
    using limit by (simp add: unat_gt_0)
  moreover have "events = [] \<longleftrightarrow> ?rows = []"
    using list_all2_lengthD [OF each] by auto
  ultimately show ?thesis
    using scope some last views cursor by (auto simp: Let_def map_map [symmetric] simp del: map_map)
qed

lemma list_events_outcome:
  assumes "list_events fails gc a now transport after limit = (a', r)"
    and "log_decodes (gc_foreign gc) (ga_db a)" and "db_inv (ga_db a)"
  obtains db where "a' = set_ga_db db a" "db_transitions db = db_transitions (ga_db a)"
      "db_snapshots db = db_snapshots (ga_db a)" "db_inv db" "\<And>e. r = Inl e \<Longrightarrow> db = ga_db a"
      "\<And>page. r = Inr page \<Longrightarrow> \<exists>root dlv. read_page fails gc a now transport after limit = Inr (root, dlv, page) \<and>
         acknowledged db root = uint (pg_after page) \<and>
         delivered db root = max (delivered (ga_db a) root) (uint (pg_next_cursor page))"
proof (cases "read_page fails gc a now transport after limit")
  case (Inl e)
  then show thesis
    using that [of "ga_db a"] assms(1,3) by (auto simp: list_events_def)
next
  case (Inr answer)
  then obtain root dlv page where read: "read_page fails gc a now transport after limit = Inr (root, dlv, page)"
    by (metis surj_pair)
  note facts = read_page_Inr [OF read assms(2,3)]
  obtain db saved where save: "save_inbox_offset fails (ga_db a) \<lparr>io_parent = root, io_last_event_id = pg_after page,
      io_last_delivered_event_id = max dlv (pg_next_cursor page), io_updated_at = now\<rparr> = (db, saved)"
    by fastforce
  have inv: "db_inv db"
    using save_inbox_offset_advances [OF save] assms(3) by (auto simp: db_advances_def)
  have same: "db_transitions db = db_transitions (ga_db a) \<and> db_snapshots db = db_snapshots (ga_db a) \<and>
      (\<forall>e. saved = Inl e \<longrightarrow> db = ga_db a)"
    using save by (auto simp: save_inbox_offset_def Let_def split: sum.splits option.splits prod.splits if_splits)
  have larger: "uint (max dlv (pg_next_cursor page)) = max (delivered (ga_db a) root) (uint (pg_next_cursor page))"
    using facts by (auto simp: max_def word_le_def)
  have "acknowledged (ga_db a) root \<le> uint (pg_after page)"
    using facts by (auto split: option.splits)
  then have moved: "acknowledged db root = uint (pg_after page) \<and>
      delivered db root = max (delivered (ga_db a) root) (uint (pg_next_cursor page))" if "saved = Inr b" for b
    using save that larger unfolding save_inbox_offset_def acknowledged_def delivered_def
    by (auto simp: result_elims Let_def update_conv' max_def split: sum.splits option.splits prod.splits if_splits)
  show thesis
    using that [of db] assms(1) same inv moved by (auto simp: list_events_def read save split: sum.splits)
qed

section \<open>Polls and lanes\<close>

text \<open>
  \<open>Poll\<close>: the client asks for the events after the last cursor it got; the answer may get lost.
  \<open>Serve\<close>: a lane serves a call. The machine emits the pages that arrive.
\<close>

record 'j inbox_world =
  iw_agent :: "'j agent"
  iw_lanes :: "lane list"
  iw_cursor :: "u64 option"

datatype inbox_op = Poll sqlite u32 wall_time_ms bool | Serve sqlite nat lane_op

fun inbox_step ::
  "'j agent_code \<Rightarrow> transport_key \<Rightarrow> 'j inbox_world \<Rightarrow> inbox_op \<Rightarrow> 'j inbox_world \<times> event_page list" where
  "inbox_step gc transport w (Poll fails limit now arrives) =
     (case list_events fails gc (iw_agent w) now transport (iw_cursor w) limit of
        (a, Inr page) \<Rightarrow>
          if arrives then (w\<lparr>iw_agent := a, iw_cursor := Some (pg_next_cursor page)\<rparr>, [page])
          else (w\<lparr>iw_agent := a\<rparr>, [])
      | (a, Inl e) \<Rightarrow> (w\<lparr>iw_agent := a\<rparr>, []))"
| "inbox_step gc transport w (Serve fails i op) =
     (case lanes_step (gc_foreign gc) (aw_shared (ga_world (iw_agent w)), iw_lanes w) (fails, i, op) of
        ((shared, lanes), _) \<Rightarrow>
          (w\<lparr>iw_agent := (iw_agent w)\<lparr>ga_world := (ga_world (iw_agent w))\<lparr>aw_shared := shared\<rparr>\<rparr>,
             iw_lanes := lanes\<rparr>, []))"

definition received :: "event_page list \<Rightarrow> domain_event list" where
  "received pages = concat (map (map vw_event \<circ> pg_events) pages)"

definition log_between :: "main_session_id \<Rightarrow> 'j db \<Rightarrow> i64 \<Rightarrow> i64 \<Rightarrow> 'j log_row list" where
  "log_between root db lower upper = filter (\<lambda>(e, row). lower < e \<and> e \<le> upper) (log_of root db)"

definition decoded :: "'j foreign_code \<Rightarrow> 'j log_row list \<Rightarrow> domain_event option list" where
  "decoded fc rows = map (xf_event_from_slice fc \<circ> tr_json \<circ> snd) rows"

definition inbox_ready :: "'j agent_code \<Rightarrow> transport_key \<Rightarrow> main_session_id \<Rightarrow> 'j inbox_world \<Rightarrow> bool" where
  "inbox_ready gc transport root w \<longleftrightarrow>
     lanes_inv (gc_foreign gc) (aw_shared (ga_world (iw_agent w)), iw_lanes w) \<and>
     log_decodes (gc_foreign gc) (ga_db (iw_agent w)) \<and> scope_root (ga_scopes (iw_agent w)) transport = Inr root \<and>
     delivered (ga_db (iw_agent w)) root < uint (sh_next_event (aw_shared (ga_world (iw_agent w))))"

definition client_inv ::
  "'j agent_code \<Rightarrow> transport_key \<Rightarrow> main_session_id \<Rightarrow> i64 \<Rightarrow> 'j inbox_world \<Rightarrow> event_page list \<Rightarrow> bool" where
  "client_inv gc transport root start w pages \<longleftrightarrow> inbox_ready gc transport root w \<and>
     (let db = ga_db (iw_agent w) in
      case iw_cursor w of
        None \<Rightarrow> pages = [] \<and> acknowledged db root = start
      | Some c \<Rightarrow> start \<le> uint c \<and> acknowledged db root \<le> uint c \<and> uint c \<le> delivered db root \<and>
          map Some (received pages) = decoded (gc_foreign gc) (log_between root db start (uint c)))"

lemma page_extends_range:
  assumes "sorted_wrt (<) (map fst xs)" and "start \<le> c" and "0 < n"
  shows "filter (\<lambda>(e, row). start < e \<and> e \<le> c) xs @ take n (filter (\<lambda>(e, row). c < e) xs) =
    filter (\<lambda>(e, row). start < e \<and> e \<le> (if filter (\<lambda>(e, row). c < e) xs = [] then c
       else fst (last (take n (filter (\<lambda>(e, row). c < e) xs))))) (xs :: (int \<times> 'b) list)"
  using assms
proof (induction xs arbitrary: n)
  case (Cons x xs)
  obtain e row where x: "x = (e, row)" by fastforce
  have rest: "sorted_wrt (<) (map fst xs)" and above: "\<forall>y \<in> set xs. e < fst y"
    using Cons.prems(1) by (auto simp: x)
  show ?case
  proof (cases "c < e")
    case False
    have "e < fst (last (take n (filter (\<lambda>(e, row). c < e) xs)))" if "filter (\<lambda>(e, row). c < e) xs \<noteq> []"
    proof -
      have "take n (filter (\<lambda>(e, row). c < e) xs) \<noteq> []"
        using that Cons.prems(3) by simp
      from last_in_set [OF this] show ?thesis
        using above by (auto dest!: in_set_takeD)
    qed
    then show ?thesis
      using Cons.IH [OF rest Cons.prems(2,3)] Cons.prems False by (auto simp: x)
  next
    case True
    then have all: "filter (\<lambda>(e, row). c < e) xs = xs" "filter (\<lambda>(e, row). start < e \<and> e \<le> c) xs = []"
      using above by (force simp: filter_id_conv filter_empty_conv)+
    obtain k where n: "n = Suc k"
      using Cons.prems(3) by (cases n) auto
    show ?thesis
    proof (cases "take k xs = []")
      case True
      then have "filter (\<lambda>(e', row). start < e' \<and> e' \<le> e) xs = []"
        using above by (force simp: filter_empty_conv)
      then show ?thesis
        using \<open>c < e\<close> Cons.prems(2) all True n by (auto simp: x)
    next
      case False
      then have k: "0 < k" "xs \<noteq> []"
        by auto
      have "fst (last (take k xs)) \<in> fst ` set xs"
        using last_in_set [OF False] by (auto dest: in_set_takeD)
      then have "e < fst (last (take k xs))"
        using above by auto
      then show ?thesis
        using Cons.IH [OF rest Cons.prems(2) k(1)] k(2) \<open>c < e\<close> Cons.prems(2) all n False by (auto simp: x)
    qed
  qed
qed simp

lemma log_sorted:
  assumes "btree_wf (db_transitions db)"
  shows "sorted_wrt (<) (map fst (log_of root db))"
proof -
  have "sorted_wrt (<) (map fst (db_transitions db))"
    using assms by (simp add: btree_wf_def strict_sorted_iff)
  then show ?thesis
    unfolding log_of_def sorted_wrt_map by (rule sorted_wrt_filter)
qed

lemma log_between_page:
  assumes "btree_wf (db_transitions db)" and "start \<le> c" and "0 < unat limit"
  shows "log_between root db start c @ page_rows root db c limit = log_between root db start
    (let rows = page_rows root db c limit in if rows = [] then c else fst (last rows))"
  using page_extends_range [OF log_sorted [OF assms(1)] assms(2,3), of root] assms(3)
  by (auto simp: log_between_def page_rows_def Let_def)

lemma page_rows_below:
  assumes "\<forall>e \<in> fst ` set (db_transitions db). e < bound" and "c < bound"
  shows "c \<le> (let rows = page_rows root db c limit in if rows = [] then c else fst (last rows)) \<and>
    (let rows = page_rows root db c limit in if rows = [] then c else fst (last rows)) < bound"
proof (cases "page_rows root db c limit = []")
  case False
  from last_in_set [OF this] have "c < fst (last (page_rows root db c limit))"
      "last (page_rows root db c limit) \<in> set (db_transitions db)"
    by (auto simp: page_rows_def log_of_def dest!: in_set_takeD)
  then show ?thesis
    using assms(1) False by (auto simp: Let_def)
qed (use assms(2) in simp)

lemma poll_keeps_inv:
  assumes inv: "client_inv gc transport root start w pages"
  shows "client_inv gc transport root start (fst (inbox_step gc transport w (Poll fails limit now arrives)))
    (pages @ snd (inbox_step gc transport w (Poll fails limit now arrives)))"
proof -
  let ?a = "iw_agent w"
  let ?db = "ga_db ?a"
  note ready = inv [unfolded client_inv_def inbox_ready_def lanes_inv_def fst_conv snd_conv, folded ga_db_def]
  have db: "log_decodes (gc_foreign gc) ?db" "db_inv ?db" "btree_wf (db_transitions ?db)"
    using ready by (auto simp: db_inv_def transitions_inv_def)
  obtain a' r where poll: "list_events fails gc ?a now transport (iw_cursor w) limit = (a', r)"
    by fastforce
  obtain db' where a': "a' = set_ga_db db' ?a" and kept: "db_transitions db' = db_transitions ?db"
      "db_snapshots db' = db_snapshots ?db" "db_inv db'" "\<And>e. r = Inl e \<Longrightarrow> db' = ?db"
    and answered: "\<And>page. r = Inr page \<Longrightarrow> \<exists>root dlv. read_page fails gc ?a now transport (iw_cursor w) limit =
         Inr (root, dlv, page) \<and> acknowledged db' root = uint (pg_after page) \<and>
         delivered db' root = max (delivered ?db root) (uint (pg_next_cursor page))"
    using list_events_outcome [OF poll db(1,2)] by metis
  have base: "ga_db a' = db'" "aw_shared (ga_world a') = (aw_shared (ga_world ?a))\<lparr>sh_db := db'\<rparr>" "ga_scopes a' = ga_scopes ?a"
    by (simp_all add: a' ga_db_def set_ga_db_def)
  have steady: "lanes_inv (gc_foreign gc) (aw_shared (ga_world a'), iw_lanes w) \<and> log_decodes (gc_foreign gc) (ga_db a') \<and>
      scope_root (ga_scopes a') transport = Inr root"
    using ready kept by (simp add: base lanes_inv_def in_step_def log_decodes_def)
  show ?thesis
  proof (cases r)
    case (Inl e)
    then show ?thesis
      using inv steady kept(4) base by (simp add: poll client_inv_def inbox_ready_def ga_db_def)
  next
    case (Inr page)
    obtain dlv where read: "read_page fails gc ?a now transport (iw_cursor w) limit = Inr (root, dlv, page)"
      and ack: "acknowledged db' root = uint (pg_after page)"
      and del: "delivered db' root = max (delivered ?db root) (uint (pg_next_cursor page))"
    proof -
      obtain root' dlv where *: "read_page fails gc ?a now transport (iw_cursor w) limit = Inr (root', dlv, page)"
          "acknowledged db' root' = uint (pg_after page)"
          "delivered db' root' = max (delivered ?db root') (uint (pg_next_cursor page))"
        using answered [OF Inr] by blast
      moreover have "root' = root"
        using read_page_Inr [OF *(1) db(1,2)] ready by simp
      ultimately show thesis
        using that by simp
    qed
    note page = read_page_Inr [OF read db(1,2)]
    let ?next = "uint (sh_next_event (aw_shared (ga_world ?a)))"
    have below: "\<forall>e \<in> fst ` set (db_transitions ?db). e < ?next" "delivered ?db root < ?next"
      using ready by simp_all
    have offsets: "acknowledged ?db root \<le> delivered ?db root"
      using db(2) by (auto simp: db_inv_def inbox_inv_def acknowledged_def delivered_def split: option.splits)
    have after: "uint (pg_after page) = (case iw_cursor w of None \<Rightarrow> start | Some c \<Rightarrow> uint c)"
      using page inv by (auto simp: client_inv_def Let_def split: option.splits)
    have "uint (pg_after page) < ?next"
      using after inv below(2) offsets by (auto simp: client_inv_def Let_def split: option.splits)
    from page_rows_below [OF below(1) this, of root limit] have cursor:
        "uint (pg_after page) \<le> uint (pg_next_cursor page)" "uint (pg_next_cursor page) < ?next"
      using page by simp_all
    have ready': "inbox_ready gc transport root (w\<lparr>iw_agent := a'\<rparr>)"
      using steady below(2) cursor(2) by (simp add: inbox_ready_def base del)
    have start: "start \<le> uint (pg_after page)"
      using after inv by (auto simp: client_inv_def Let_def split: option.splits)
    have rows: "log_between root db' = log_between root ?db"
      by (simp add: log_between_def log_of_def kept(1) fun_eq_iff)
    have before: "map Some (received pages) = decoded (gc_foreign gc) (log_between root ?db start (uint (pg_after page)))"
      using after inv by (auto simp: client_inv_def Let_def received_def decoded_def log_between_def
          filter_empty_conv split: option.splits)
    have "map Some (received (pages @ [page])) =
        decoded (gc_foreign gc) (log_between root ?db start (uint (pg_after page)) @ page_rows root ?db (uint (pg_after page)) limit)"
      using before page by (simp add: received_def decoded_def comp_def)
    also have "log_between root ?db start (uint (pg_after page)) @ page_rows root ?db (uint (pg_after page)) limit =
        log_between root ?db start (uint (pg_next_cursor page))"
      using log_between_page [OF db(3) start] page by simp
    finally show ?thesis
      using ready' cursor start ack del inv after
      by (auto simp: poll Inr client_inv_def Let_def base rows inbox_ready_def split: option.splits)
  qed
qed

lemma serve_keeps_inv:
  assumes inv: "client_inv gc transport root start w pages" and code: "event_code_ok (gc_foreign gc)"
  shows "client_inv gc transport root start (fst (inbox_step gc transport w (Serve fails i op)))
    (pages @ snd (inbox_step gc transport w (Serve fails i op)))"
proof -
  let ?a = "iw_agent w"
  let ?shared = "aw_shared (ga_world ?a)"
  note ready = inv [unfolded client_inv_def inbox_ready_def]
  obtain shared' lanes' out where step: "lanes_step (gc_foreign gc) (?shared, iw_lanes w) (fails, i, op) = ((shared', lanes'), out)"
    by (metis surj_pair)
  have lanes: "lanes_inv (gc_foreign gc) (?shared, iw_lanes w)"
    using ready by simp
  have lanes': "lanes_inv (gc_foreign gc) (shared', lanes')" "sh_next_event ?shared \<le> sh_next_event shared'"
    using lanes_step_inv [OF lanes, of "(fails, i, op)", unfolded step lanes_extend_def] by simp_all
  let ?t = "db_transitions (sh_db ?shared)"
  have old: "\<forall>e \<in> fst ` set ?t. e < uint (sh_next_event ?shared)" "btree_wf ?t" "db_inv (sh_db ?shared)"
    using lanes by (auto simp: lanes_inv_def db_inv_def transitions_inv_def)
  have wf': "btree_wf (db_transitions (sh_db shared'))"
    using lanes'(1) by (auto simp: lanes_inv_def db_inv_def transitions_inv_def)
  have decodes: "log_decodes (gc_foreign gc) (sh_db ?shared)"
    using ready by (simp add: ga_db_def)
  have "\<exists>new. db_transitions (sh_db shared') = ?t @ new \<and> (\<forall>e \<in> fst ` set new. uint (sh_next_event ?shared) \<le> e) \<and>
      log_decodes (gc_foreign gc) (sh_db shared') \<and> db_inbox (sh_db shared') = db_inbox (sh_db ?shared)"
  proof (cases "i < length (iw_lanes w)")
    case True
    obtain lane' r where call: "lane_call fails (gc_foreign gc) (?shared, iw_lanes w ! i) op = ((shared', lane'), r)"
      using step True by (auto split: prod.splits)
    have "if r = Inr Applied
        then committed (gc_foreign gc) (?shared, iw_lanes w ! i) (op_observation op) (op_input op) (shared', lane')
        else sh_db shared' = sh_db ?shared"
      using lane_call_outcome [OF old(3) call] by auto
    then show ?thesis
      using committed_log [OF _ code old(1,2) wf' decodes] decodes by (auto split: if_splits)
  next
    case False
    then show ?thesis
      using step decodes by simp
  qed
  then obtain new where log: "db_transitions (sh_db shared') = ?t @ new" "\<forall>e \<in> fst ` set new. uint (sh_next_event ?shared) \<le> e"
    and same: "log_decodes (gc_foreign gc) (sh_db shared')" "db_inbox (sh_db shared') = db_inbox (sh_db ?shared)"
    by blast
  have rows: "log_between root (sh_db shared') start c = log_between root (sh_db ?shared) start c"
    if "c < uint (sh_next_event ?shared)" for c
    using log that by (force simp: log_between_def log_of_def filter_empty_conv)
  have "uint (sh_next_event ?shared) \<le> uint (sh_next_event shared')"
    using lanes'(2) by (simp add: word_le_def)
  then show ?thesis
    using inv lanes' same rows
    by (auto simp del: lanes_step.simps simp: step client_inv_def inbox_ready_def ga_db_def Let_def acknowledged_def delivered_def split: option.splits)
qed

interpretation inbox: logged_machine "inbox_step gc transport"
    "\<lambda>w pages. event_code_ok (gc_foreign gc) \<longrightarrow> client_inv gc transport root start w pages"
  for gc :: "'j agent_code" and transport root start
proof unfold_locales
  fix w :: "'j inbox_world" and pages i
  assume "event_code_ok (gc_foreign gc) \<longrightarrow> client_inv gc transport root start w pages"
  then show "event_code_ok (gc_foreign gc) \<longrightarrow>
      client_inv gc transport root start (fst (inbox_step gc transport w i)) (pages @ snd (inbox_step gc transport w i))"
    using poll_keeps_inv serve_keeps_inv by (cases i) blast+
qed

text \<open>
  C10. The inbox loses and repeats nothing: whatever lane calls are interleaved with its polls, whichever
  polls fail or get lost on the way, and however small its pages, the events a client has received are
  exactly those its tree has logged after the acknowledgement it started from and up to its cursor, in
  order and once each; and a page comes back empty only when it has received all that is logged.
\<close>
theorem inbox_pages_exact:
  assumes "event_code_ok (gc_foreign gc)" and "inbox_ready gc transport root w0" and "iw_cursor w0 = None"
    and "run_machine (inbox_step gc transport) w0 ops = (w, pages)"
    and "start = acknowledged (ga_db (iw_agent w0)) root"
  shows "map Some (received pages) = decoded (gc_foreign gc) (log_between root (ga_db (iw_agent w)) start
      (case iw_cursor w of None \<Rightarrow> start | Some c \<Rightarrow> uint c)) \<and>
    (\<forall>fails now limit a page. list_events fails gc (iw_agent w) now transport (iw_cursor w) limit = (a, Inr page) \<and>
       pg_events page = [] \<longrightarrow>
       map Some (received pages) = decoded (gc_foreign gc) (filter (\<lambda>(e, row). start < e) (log_of root (ga_db (iw_agent w)))))"
proof -
  have "client_inv gc transport root start w0 []"
    using assms(2,3,5) by (simp add: client_inv_def)
  then have inv: "client_inv gc transport root start w pages"
    using inbox.run_log [of gc transport root start w0 "[]" ops] assms(1,4) by simp
  let ?db = "ga_db (iw_agent w)" and ?c = "case iw_cursor w of None \<Rightarrow> start | Some c \<Rightarrow> uint c"
  have exact: "map Some (received pages) = decoded (gc_foreign gc) (log_between root ?db start ?c)"
    using inv by (auto simp: client_inv_def Let_def received_def decoded_def log_between_def filter_empty_conv
        split: option.splits)
  have db: "log_decodes (gc_foreign gc) ?db" "db_inv ?db"
    using inv by (auto simp: client_inv_def inbox_ready_def lanes_inv_def ga_db_def)
  have "log_between root ?db start ?c = filter (\<lambda>(e, row). start < e) (log_of root ?db)"
    if poll: "list_events fails gc (iw_agent w) now transport (iw_cursor w) limit = (a, Inr page)" "pg_events page = []"
    for fails now limit a page
  proof -
    obtain root' dlv where read: "read_page fails gc (iw_agent w) now transport (iw_cursor w) limit = Inr (root', dlv, page)"
      using list_events_outcome [OF poll(1) db] by metis
    note page = read_page_Inr [OF read db]
    have "root' = root"
      using page inv by (simp add: client_inv_def inbox_ready_def)
    have after: "uint (pg_after page) = ?c"
      using page inv \<open>root' = root\<close> by (auto simp: client_inv_def Let_def split: option.splits)
    have "filter (\<lambda>(e, row). uint (pg_after page) < e) (log_of root ?db) = []"
    proof -
      have "map (Some \<circ> vw_event) (pg_events page) = map (xf_event_from_slice (gc_foreign gc) \<circ> tr_json \<circ> snd)
          (page_rows root' ?db (uint (pg_after page)) limit)" "0 < unat limit"
        using page by blast+
      then show ?thesis
        by (simp add: poll(2) \<open>root' = root\<close> page_rows_def)
    qed
    then have "filter (\<lambda>(e, row). ?c < e) (log_of root ?db) = []"
      unfolding after .
    then show ?thesis
      unfolding log_between_def by (intro filter_cong) (auto simp: filter_empty_conv not_less)
  qed
  then show ?thesis
    using exact by metis
qed

section \<open>A concrete client\<close>

definition main_start :: session_snapshot where
  "main_start = session_snapshot_new sample_main_session (MainSessionId stored_session) (stored_time 1)"

definition main_running :: session_snapshot where
  "main_running = main_start\<lparr>ss_revision := 1, ss_state := Running, ss_updated_at := stored_time 5,
     ss_last_activity := stored_time 5, ss_last_trusted_transition := Some (stored_time 5),
     ss_last_observation_id := Some (ObservationId 1), ss_last_observation_ms := Some 5\<rparr>"

definition main_observation :: observation_envelope where
  "main_observation = stored_observation 1 5 (NativeState Running)"

definition main_event :: domain_event where
  "main_event = \<lparr>ev_id = 2, ev_root = MainSessionId stored_session, ev_subject = sample_main_session,
     ev_occurred_at = 5, ev_kind = StateChanged Starting Running\<rparr>"

definition main_update :: snapshot_update where
  "main_update = \<lparr>su_session = sample_main_session, su_root = MainSessionId stored_session, su_revision = 1,
     su_state = Running, su_updated_at = 5, su_reducer_snapshot = Some main_running\<rparr>"

definition main_world :: "document shared \<times> lane" where
  "main_world = fst (lane_call (\<lambda>_. False) sample_code
     (\<lparr>sh_db = empty_db, sh_next_event = 2\<rparr>, lane_new main_start default_reducer_policy [ParentInbox, Sse])
     (OpObservation main_observation))"

lemma main_fields [simp]:
  "ss_session main_running = sample_main_session" "ss_root main_running = MainSessionId stored_session"
  "ss_session main_start = sample_main_session" "ss_revision main_start = 0" "ss_revision main_running = 1" "ss_state main_running = Running"
  "ss_updated_at main_running = stored_time 5" "ss_last_observation_id main_running = Some (ObservationId 1)"
  "oe_subject main_observation = stored_key" "oe_observation_id main_observation = ObservationId 1"
  "oe_observed_at main_observation = stored_time 5" "oe_payload main_observation = NativeState Running"
  by (simp_all add: main_running_def main_start_def session_snapshot_new_def main_observation_def stored_observation_def)

lemma main_reduced:
  "reduce main_start (Observation main_observation) default_reducer_policy =
     \<lparr>ro_snapshot = main_running, ro_events = [StateChanged Starting Running]\<rparr>"
  by (simp add: reduce_eval main_start_def session_snapshot_new_def main_observation_def stored_observation_def
      stored_time_def saturating_add_def main_running_def)

lemma main_projected: "from_reducer main_running = Inr main_update"
  by (simp add: from_reducer_Inr_iff stored_time_def i64_max_def main_update_def)

lemma main_applied:
  "lane_call (\<lambda>_. False) sample_code
     (\<lparr>sh_db = empty_db, sh_next_event = 2\<rparr>, lane_new main_start default_reducer_policy [ParentInbox, Sse])
     (OpObservation main_observation) = (main_world, Inr Applied)"
  "sh_next_event (fst main_world) = 3" "db_inbox (sh_db (fst main_world)) = []"
  "db_outbox_seq (sh_db (fst main_world)) = 2" "map ob_event_id (db_outbox (sh_db (fst main_world))) = [2, 2]"
  "db_transitions (sh_db (fst main_world)) = [(2, transition_row_of main_event (EventDoc main_event))]"
  "db_snapshots (sh_db (fst main_world)) = [(stored_session, snapshot_row_of main_update (SnapshotDoc main_update))]"
  "db_observations (sh_db (fst main_world)) = [(ObservationId 1, observation_row_of main_observation (ObservationDoc main_observation))]"
  "db_sessions (sh_db (fst main_world)) = [(stored_session, \<lparr>sr_kind = ''main'', sr_root = stored_session,
      sr_runtime = ''codex_cli'', sr_native_id = ''a'', sr_created_at = 5, sr_updated_at = 5\<rparr>)]"
proof -
  have event: "\<lparr>ev_id = 2, ev_root = MainSessionId stored_session, ev_subject = sample_main_session,
     ev_occurred_at = 5, ev_kind = StateChanged Starting Running\<rparr> = main_event"
    by (simp add: main_event_def)
  have fields: "ev_id main_event = 2" "ev_subject main_event = sample_main_session" "ev_root main_event = MainSessionId stored_session"
      "ev_kind main_event = StateChanged Starting Running" "ev_occurred_at main_event = 5"
    by (simp_all add: main_event_def)
  have route: "route_events (MainSessionId stored_session) sample_main_session 5 [ParentInbox, Sse] 2 [StateChanged Starting Running] =
      (3, Inr [\<lparr>re_event = main_event, re_destinations = [ParentInbox, Sse]\<rparr>])"
    by (simp add: allocate_def checked_add_def event delivery_destinations_def human_event_def fields sample_main_session_def
        less_eq_outbox_destination_def)
  have codes: "xf_event_to_vec sample_code e = Some (EventDoc e)" for e
    by (simp add: sample_code_def)
  obtain db where store: "store_apply_observation (\<lambda>_. False) sample_code empty_db
      \<lparr>ap_observation = main_observation, ap_snapshot = main_update,
       ap_events = [\<lparr>re_event = main_event, re_destinations = [ParentInbox, Sse]\<rparr>]\<rparr> = (db, Inr Applied)"
    and db: "db_inbox db = []" "db_outbox_seq db = 2" "map ob_event_id (db_outbox db) = [2, 2]" "db_transitions db = [(2, transition_row_of main_event (EventDoc main_event))]"
      "db_snapshots db = [(stored_session, snapshot_row_of main_update (SnapshotDoc main_update))]"
      "db_observations db = [(ObservationId 1, observation_row_of main_observation (ObservationDoc main_observation))]"
      "db_sessions db = [(stored_session, \<lparr>sr_kind = ''main'', sr_root = stored_session,
        sr_runtime = ''codex_cli'', sr_native_id = ''a'', sr_created_at = 5, sr_updated_at = 5\<rparr>)]"
    by (simp add: store_eval sample_folded codes fields main_update_def observation_row_of_def snapshot_row_of_def
        transition_row_of_def)
  have "lane_call (\<lambda>_. False) sample_code
     (\<lparr>sh_db = empty_db, sh_next_event = 2\<rparr>, lane_new main_start default_reducer_policy [ParentInbox, Sse])
     (OpObservation main_observation) =
     ((\<lparr>sh_db = db, sh_next_event = 3\<rparr>, lane_new main_running default_reducer_policy [ParentInbox, Sse]), Inr Applied)"
    by (simp del: route_events.simps add: lane_new_def coordinator_apply_observation_def apply_input_def Let_def main_reduced main_projected
        sample_folded route store)
  then show "lane_call (\<lambda>_. False) sample_code
     (\<lparr>sh_db = empty_db, sh_next_event = 2\<rparr>, lane_new main_start default_reducer_policy [ParentInbox, Sse])
     (OpObservation main_observation) = (main_world, Inr Applied)"
   "sh_next_event (fst main_world) = 3" "db_inbox (sh_db (fst main_world)) = []"
   "db_outbox_seq (sh_db (fst main_world)) = 2" "map ob_event_id (db_outbox (sh_db (fst main_world))) = [2, 2]"
   "db_transitions (sh_db (fst main_world)) = [(2, transition_row_of main_event (EventDoc main_event))]"
   "db_snapshots (sh_db (fst main_world)) = [(stored_session, snapshot_row_of main_update (SnapshotDoc main_update))]"
   "db_observations (sh_db (fst main_world)) = [(ObservationId 1, observation_row_of main_observation (ObservationDoc main_observation))]"
   "db_sessions (sh_db (fst main_world)) = [(stored_session, \<lparr>sr_kind = ''main'', sr_root = stored_session,
      sr_runtime = ''codex_cli'', sr_native_id = ''a'', sr_created_at = 5, sr_updated_at = 5\<rparr>)]"
    by (simp_all add: main_world_def db)
qed

text \<open>
  A client of an empty server, and its tree's main session starting to run; the first identifier of the
  sequence is taken.
\<close>

definition inbox_start :: "document inbox_world" where
  "inbox_start = \<lparr>iw_agent = sample_agent\<lparr>ga_scopes := bound_to ''t'' (MainSessionId stored_session),
       ga_world := sample_api\<lparr>aw_shared := \<lparr>sh_db = empty_db, sh_next_event = 2\<rparr>\<rparr>\<rparr>,
     iw_lanes = [lane_new main_start default_reducer_policy [ParentInbox, Sse]], iw_cursor = None\<rparr>"

definition main_agent :: "document agent" where
  "main_agent = set_ga_db (sh_db (fst main_world))
     (sample_agent\<lparr>ga_scopes := bound_to ''t'' (MainSessionId stored_session),
        ga_world := sample_api\<lparr>aw_shared := fst main_world\<rparr>\<rparr>)"

lemma main_agent_parts [simp]:
  "ga_db main_agent = sh_db (fst main_world)" "ga_scopes main_agent = bound_to ''t'' (MainSessionId stored_session)"
  "ga_tree main_agent = empty_tree" "ga_records main_agent = empty_records"
  by (simp_all add: main_agent_def set_ga_db_def sample_agent_def ga_db_def)

lemma main_view:
  "\<exists>view. view_for_record (\<lambda>_. False) sample_agent_code main_agent 7
     \<lparr>st_session = sample_main_session, st_root = MainSessionId stored_session, st_native = stored_key\<rparr> = Inr view \<and>
     sv_snapshot view = main_running"
proof -
  have update: "snapshot_update_deserialize main_update = Some main_update"
    by (rule from_reducer_deserialize [OF main_projected])
  have "su_reducer_snapshot main_update = Some main_running"
    by (simp add: main_update_def)
  then show ?thesis
    by (simp add: view_for_record_def sample_agent_code_def load_snapshot_def run_sql_def
        load_optional_json_def sample_folded main_applied snapshot_row_of_def decode_json_def
        MAX_RECORD_BYTES_def update load_observation_def observation_row_of_def)
qed

lemma main_diagnostics:
  "\<exists>view. diagnostics_for (\<lambda>_. False) sample_agent_code main_agent
     \<lparr>st_session = sample_main_session, st_root = MainSessionId stored_session, st_native = stored_key\<rparr>
     main_running None = Inr view"
  by (simp add: diagnostics_for_def recent_activity_def validate_limit_def DIAGNOSTIC_ACTIVITY_SAMPLES_def run_sql_def
      empty_records_def)

lemma main_page:
  "\<exists>page. read_page (\<lambda>_. False) sample_agent_code main_agent 7 ''t'' None 10 =
     Inr (MainSessionId stored_session, 0, page) \<and> map vw_event (pg_events page) = [main_event] \<and>
     pg_after page = 0 \<and> pg_next_cursor page = 2"
proof -
  have native: "native_session_key_new CodexCli ''a'' = Inr stored_key"
    by (simp add: native_session_key_new_Inr_iff stored_key_def native_key_wf_def MAX_NATIVE_ID_BYTES_def)
  have found: "session_by_id (\<lambda>_. False) sample_code (sh_db (fst main_world)) stored_session =
     Inr (Some \<lparr>st_session = sample_main_session, st_root = MainSessionId stored_session, st_native = stored_key\<rparr>)"
    by (simp add: session_by_id_def run_sql_def main_applied transpose_option_def native
        decode_session_row_def runtime_from_str.simps sample_folded Let_def sample_main_session_def)
  have fields: "ev_id main_event = 2" "ev_subject main_event = sample_main_session"
    by (simp_all add: main_event_def)
  have code: "gc_foreign sample_agent_code = sample_code" "xf_event_from_slice sample_code (EventDoc e) = Some e" for e
    by (simp_all add: sample_agent_code_def sample_code_def)
  have events: "events_after (\<lambda>_. False) sample_code (sh_db (fst main_world)) (MainSessionId stored_session) 0 10 = Inr [main_event]"
    by (simp add: events_after_def sqlite_integer_def i64_of_u64_def i64_max_def run_sql_def main_applied
        transition_row_of_def main_event_def decode_json_def sample_folded MAX_RECORD_BYTES_def code)
  have correlations: "selected_correlations (\<lambda>_. False) sample_agent_code main_agent (MainSessionId stored_session) = Inr Map.empty"
    by (simp add: selected_correlations_def relations_for_root_def validate_limit_def MAX_TREE_SESSIONS_def run_sql_def
        empty_tree_def newest_first_def)
  obtain view where view: "view_for_record (\<lambda>_. False) sample_agent_code main_agent 7
     \<lparr>st_session = sample_main_session, st_root = MainSessionId stored_session, st_native = stored_key\<rparr> = Inr view"
      "sv_snapshot view = main_running"
    using main_view by blast
  obtain dv where dv: "diagnostics_for (\<lambda>_. False) sample_agent_code main_agent
     \<lparr>st_session = sample_main_session, st_root = MainSessionId stored_session, st_native = stored_key\<rparr>
     main_running None = Inr dv"
    using main_diagnostics by blast
  have main: "(case sample_main_session of MainIdentity m \<Rightarrow> x | ChildIdentity c \<Rightarrow> f c) = x"
    for x :: "correlation_view option" and f
    by (simp add: sample_main_session_def)
  have offset: "inbox_offset (\<lambda>_. False) (sh_db (fst main_world)) (MainSessionId stored_session) = Inr None"
    by (simp add: inbox_offset_def run_sql_def main_applied)
  show ?thesis
    by (simp add: read_page_def MAX_EVENTS_def code offset events correlations fields sample_folded found view dv main Let_def)
qed

theorem inbox_pages_exact_witness:
  "\<exists>w page. run_machine (inbox_step sample_agent_code ''t'') inbox_start
       [Serve (\<lambda>_. False) 0 (OpObservation main_observation), Poll (\<lambda>_. False) 10 7 True] = (w, [page]) \<and>
     map vw_event (pg_events page) = [main_event] \<and>
     map Some (received [page]) = decoded sample_code (log_between (MainSessionId stored_session) (ga_db (iw_agent w)) 0 2)"
proof -
  let ?root = "MainSessionId stored_session"
  have parts: "ga_scopes (iw_agent inbox_start) = bound_to ''t'' ?root" "iw_cursor inbox_start = None"
      "aw_shared (ga_world (iw_agent inbox_start)) = \<lparr>sh_db = empty_db, sh_next_event = 2\<rparr>"
      "ga_db (iw_agent inbox_start) = empty_db"
      "iw_lanes inbox_start = [lane_new main_start default_reducer_policy [ParentInbox, Sse]]"
      "gc_foreign sample_agent_code = sample_code"
    by (simp_all add: inbox_start_def sample_agent_def sample_api_def ga_db_def sample_agent_code_def)
  have ready: "inbox_ready sample_agent_code ''t'' ?root inbox_start"
    by (simp add: inbox_ready_def parts lanes_inv_def in_step_def lane_new_def log_decodes_def delivered_def empty_db_def
        db_inv_empty [unfolded empty_db_def])
  have code: "event_code_ok (gc_foreign sample_agent_code)"
    by (simp add: event_code_ok_def parts sample_code_def)
  have start: "0 = acknowledged (ga_db (iw_agent inbox_start)) ?root"
    by (simp add: parts acknowledged_def empty_db_def)
  have stepped: "lanes_step sample_code (\<lparr>sh_db = empty_db, sh_next_event = 2\<rparr>,
        [lane_new main_start default_reducer_policy [ParentInbox, Sse]]) (\<lambda>_. False, 0, OpObservation main_observation) =
      ((fst main_world, [snd main_world]), [Inr Applied])"
    by (simp add: main_applied(1) case_prod_beta del: lane_call.simps)
  have agent: "(iw_agent inbox_start)\<lparr>ga_world := (ga_world (iw_agent inbox_start))\<lparr>aw_shared := fst main_world\<rparr>\<rparr> = main_agent"
    by (simp add: inbox_start_def main_agent_def sample_agent_def set_ga_db_def)
  have served: "inbox_step sample_agent_code ''t'' inbox_start (Serve (\<lambda>_. False) 0 (OpObservation main_observation)) =
      (inbox_start\<lparr>iw_agent := main_agent, iw_lanes := [snd main_world]\<rparr>, [])"
    by (simp only: inbox_step.simps parts stepped prod.case agent)
  obtain page where page: "read_page (\<lambda>_. False) sample_agent_code main_agent 7 ''t'' None 10 = Inr (?root, 0, page)"
      "map vw_event (pg_events page) = [main_event]" "pg_after page = 0" "pg_next_cursor page = 2"
    using main_page by meson
  obtain db where saved: "save_inbox_offset (\<lambda>_. False) (sh_db (fst main_world)) \<lparr>io_parent = ?root, io_last_event_id = 0,
      io_last_delivered_event_id = 2, io_updated_at = 7\<rparr> = (db, Inr True)"
    by (simp add: save_inbox_offset_def sqlite_integer_def i64_of_u64_def i64_max_def run_sql_def main_applied)
  obtain w where run: "run_machine (inbox_step sample_agent_code ''t'') inbox_start
       [Serve (\<lambda>_. False) 0 (OpObservation main_observation), Poll (\<lambda>_. False) 10 7 True] = (w, [page])"
      and cursor: "iw_cursor w = Some 2"
    by (simp add: prod_eq_iff served list_events_def page saved parts del: inbox_step.simps(2))
  show ?thesis
    using inbox_pages_exact [OF code ready parts(2) run start] run page(2) cursor by (auto simp: parts)
qed

end
