(* ===== verification/Reservations.thy ===== *)
theory Reservations
  imports Inbox
begin

text \<open>
  The coordinator's calls at a finer grain than \<open>Coordinator\<close>: the wait for the store between the allocation
  of event identifiers and their commit is a point where other lanes and readers run. A reader of the inbox
  can then pass an identifier that is committed only later.
\<close>

section \<open>Reservations\<close>

text \<open>
  \<open>apply_input\<close> takes the identifiers of its events from the shared sequence and then waits for the store:
  \<open>reserve\<close> is the part before the wait, \<open>commit_reserved\<close> the transaction and what follows it. The lane's
  mutex is held over both, so a lane has at most one reservation; other lanes and readers run in between.
\<close>

record reservation =
  rz_unit :: observation_unit
  rz_snapshot :: session_snapshot

definition reserve ::
  "'j shared \<times> lane \<Rightarrow> observation_envelope \<Rightarrow> reducer_input \<Rightarrow>
     'j shared \<times> ((coordinator_error + apply_result) + reservation)" where
  "reserve world observation input =
     (let (shared, lane) = world;
          output = reduce (ln_snapshot lane) input (ln_policy lane);
          snapshot = ro_snapshot output
      in if transient_noop_allowed input \<and> snapshot = ln_snapshot lane \<and> ro_events output = []
         then (shared, Inl (Inr NoChange))
         else
           (let (current, routed) =
                  route_events (ss_root snapshot) (ss_session snapshot)
                    (wall_time (oe_observed_at observation)) (ln_destinations lane)
                    (sh_next_event shared) (ro_events output);
                shared = shared\<lparr>sh_next_event := current\<rparr>
            in case routed of
                 Inl e \<Rightarrow> (shared, Inl (Inl e))
               | Inr events \<Rightarrow>
                   (case from_reducer snapshot of
                      Inl e \<Rightarrow> (shared, Inl (Inl (StoreFailure (InputError e))))
                    | Inr snapshot_update \<Rightarrow>
                        (shared, Inr \<lparr>rz_unit = \<lparr>ap_observation = observation, ap_snapshot = snapshot_update,
                           ap_events = events\<rparr>, rz_snapshot = snapshot\<rparr>))))"

definition commit_reserved ::
  "sqlite \<Rightarrow> 'j foreign_code \<Rightarrow> 'j shared \<times> lane \<Rightarrow> reservation \<Rightarrow>
     ('j shared \<times> lane) \<times> (coordinator_error + apply_result)" where
  "commit_reserved fails fc world reservation =
     (let (shared, lane) = world;
          (db, result) = store_apply_observation fails fc (sh_db shared) (rz_unit reservation);
          shared = shared\<lparr>sh_db := db\<rparr>
      in case result of
           Inl e \<Rightarrow> ((shared, lane), Inl (StoreFailure e))
         | Inr result \<Rightarrow>
             ((shared, if result = Applied then lane\<lparr>ln_snapshot := rz_snapshot reservation\<rparr> else lane),
              Inr result))"

lemma apply_input_split:
  "apply_input fails fc (shared, lane) observation input =
     (case reserve (shared, lane) observation input of
        (shared, Inl r) \<Rightarrow> ((shared, lane), r)
      | (shared, Inr reservation) \<Rightarrow> commit_reserved fails fc (shared, lane) reservation)"
  by (simp add: apply_input_def reserve_def commit_reserved_def Let_def split: prod.splits sum.splits)

text \<open>
  The machine with both parts as steps of their own, for observations; a lane with a reservation starts
  nothing else.
\<close>

record 'j split_world =
  sp_inbox :: "'j inbox_world"
  sp_reserved :: "nat \<rightharpoonup> reservation"

datatype split_op = SplitPoll sqlite u32 wall_time_ms bool | SplitReserve nat observation_envelope | SplitCommit sqlite nat

definition set_shared :: "'j shared \<Rightarrow> lane list \<Rightarrow> 'j inbox_world \<Rightarrow> 'j inbox_world" where
  "set_shared shared lanes w =
     w\<lparr>iw_agent := (iw_agent w)\<lparr>ga_world := (ga_world (iw_agent w))\<lparr>aw_shared := shared\<rparr>\<rparr>, iw_lanes := lanes\<rparr>"

fun split_step ::
  "'j agent_code \<Rightarrow> transport_key \<Rightarrow> 'j split_world \<Rightarrow> split_op \<Rightarrow> 'j split_world \<times> event_page list" where
  "split_step gc transport w (SplitPoll fails limit now arrives) =
     (case inbox_step gc transport (sp_inbox w) (Poll fails limit now arrives) of
        (inbox, pages) \<Rightarrow> (w\<lparr>sp_inbox := inbox\<rparr>, pages))"
| "split_step gc transport w (SplitReserve i observation) =
     (let v = sp_inbox w in
      if i < length (iw_lanes v) \<and> sp_reserved w i = None \<and> oe_payload observation \<noteq> SchedulerTick
      then (case reserve (aw_shared (ga_world (iw_agent v)), iw_lanes v ! i) observation (Observation observation) of
              (shared, Inl r) \<Rightarrow> (w\<lparr>sp_inbox := set_shared shared (iw_lanes v) v\<rparr>, [])
            | (shared, Inr reservation) \<Rightarrow>
                (\<lparr>sp_inbox = set_shared shared (iw_lanes v) v, sp_reserved = (sp_reserved w)(i \<mapsto> reservation)\<rparr>, []))
      else (w, []))"
| "split_step gc transport w (SplitCommit fails i) =
     (let v = sp_inbox w in
      case sp_reserved w i of
        None \<Rightarrow> (w, [])
      | Some reservation \<Rightarrow>
          (case commit_reserved fails (gc_foreign gc) (aw_shared (ga_world (iw_agent v)), iw_lanes v ! i) reservation of
             ((shared, lane), _) \<Rightarrow>
               (\<lparr>sp_inbox = set_shared shared ((iw_lanes v)[i := lane]) v, sp_reserved = (sp_reserved w)(i := None)\<rparr>, [])))"

text \<open>What a client whose cursor is at \<open>c\<close> can still get: only events after \<open>c\<close>.\<close>

definition past :: "'j agent_code \<Rightarrow> transport_key \<Rightarrow> main_session_id \<Rightarrow> int \<Rightarrow> 'j split_world \<Rightarrow> event_page list \<Rightarrow> bool" where
  "past gc transport root c w pages \<longleftrightarrow>
     (let a = iw_agent (sp_inbox w) in
      db_inv (ga_db a) \<and> log_decodes (gc_foreign gc) (ga_db a) \<and> scope_root (ga_scopes a) transport = Inr root \<and>
      (\<exists>cursor. iw_cursor (sp_inbox w) = Some cursor \<and> c \<le> uint cursor \<and> uint cursor \<le> delivered (ga_db a) root) \<and>
      (\<forall>event \<in> set (received pages). c < uint (ev_id event)))"

lemma page_events_after:
  assumes "read_page fails gc a now transport after limit = Inr (root, dlv, page)"
    and "log_decodes (gc_foreign gc) (ga_db a)" and "db_inv (ga_db a)" and "event \<in> vw_event ` set (pg_events page)"
  shows "uint (pg_after page) < uint (ev_id event)"
proof -
  let ?rows = "page_rows root (ga_db a) (uint (pg_after page)) limit"
  have "map (Some \<circ> vw_event) (pg_events page) = map (xf_event_from_slice (gc_foreign gc) \<circ> tr_json \<circ> snd) ?rows"
    using read_page_Inr [OF assms(1-3)] by blast
  moreover have "Some event \<in> set (map (Some \<circ> vw_event) (pg_events page))"
    using assms(4) by auto
  ultimately have "Some event \<in> set (map (xf_event_from_slice (gc_foreign gc) \<circ> tr_json \<circ> snd) ?rows)"
    by simp
  then obtain e row where row: "(e, row) \<in> set ?rows" "xf_event_from_slice (gc_foreign gc) (tr_json row) = Some event"
    by auto
  then have "uint (pg_after page) < e" "(e, row) \<in> set (db_transitions (ga_db a))"
    by (auto simp: page_rows_def log_of_def dest!: in_set_takeD)
  then show ?thesis
    using assms(2) row(2) by (auto simp: log_decodes_def)
qed

lemma store_apply_decodes:
  assumes "store_apply_observation fails fc db unit = (db', r)" and "db_inv db" and "event_code_ok fc"
    and "log_decodes fc db"
  shows "db_inv db' \<and> log_decodes fc db' \<and> db_inbox db' = db_inbox db"
proof -
  have inv: "db_inv db'"
    using store_apply_observation_advances [OF assms(1)] assms(2) by (auto simp: db_advances_def)
  show ?thesis
  proof (cases "r = Inr Applied")
    case True
    have written: "events_written fc (ap_events unit) db db'" "db_inbox db' = db_inbox db"
      using store_apply_outcome [OF assms(2,1)] True by (auto simp: applied_spec_def Let_def)
    have "uint (ev_id event) = e"
      if row: "(e, row) \<in> set (db_transitions db')" "xf_event_from_slice fc (tr_json row) = Some event" for e row event
    proof -
      have "map_of (db_transitions db') e = Some row"
        using inv row(1) by (simp add: db_inv_def transitions_inv_def btree_wf_def)
      then have "(e, row) \<in> set (db_transitions db) \<or> (e, row) \<in> set (event_rows fc (ap_events unit))"
        using written(1) by (auto simp: events_written_def map_add_Some_iff dest: map_of_SomeD)
      then show ?thesis
      proof
        assume "(e, row) \<in> set (event_rows fc (ap_events unit))"
        then obtain r where r: "r \<in> set (ap_events unit)" "e = uint (ev_id (re_event r))"
            "row = transition_row_of (re_event r) (the (xf_event_to_vec fc (re_event r)))"
          by (auto simp: event_rows_def)
        obtain j where j: "xf_event_to_vec fc (re_event r) = Some j"
          using written(1) r(1) by (auto simp: events_written_def list_all_iff)
        then have "xf_event_from_slice fc j = Some (re_event r)"
          using assms(3) by (simp add: event_code_ok_def)
        then show ?thesis
          using row(2) r(2,3) j by (simp add: transition_row_of_def)
      qed (use assms(4) row(2) in \<open>auto simp: log_decodes_def\<close>)
    qed
    then show ?thesis
      using inv written(2) by (auto simp: log_decodes_def)
  next
    case False
    then show ?thesis
      using store_apply_outcome [OF assms(2,1)] assms(2,4) by (auto split: if_splits)
  qed
qed

lemma set_shared_parts [simp]:
  "iw_agent (set_shared shared lanes w) = (iw_agent w)\<lparr>ga_world := (ga_world (iw_agent w))\<lparr>aw_shared := shared\<rparr>\<rparr>"
  "iw_lanes (set_shared shared lanes w) = lanes" "iw_cursor (set_shared shared lanes w) = iw_cursor w"
  by (simp_all add: set_shared_def)

lemma reserve_shared: "reserve (shared, lane) observation input = (shared', r) \<Longrightarrow> sh_db shared' = sh_db shared"
  by (auto simp: reserve_def Let_def split: if_splits prod.splits sum.splits)

lemma past_step:
  assumes "past gc transport root c w pages" and "event_code_ok (gc_foreign gc)"
  shows "past gc transport root c (fst (split_step gc transport w i)) (pages @ snd (split_step gc transport w i))"
proof (cases i)
  case (SplitPoll fails limit now arrives)
  let ?a = "iw_agent (sp_inbox w)"
  note known = assms(1) [unfolded past_def Let_def]
  have db: "log_decodes (gc_foreign gc) (ga_db ?a)" "db_inv (ga_db ?a)"
    using known by blast+
  obtain a' r where poll: "list_events fails gc ?a now transport (iw_cursor (sp_inbox w)) limit = (a', r)"
    by fastforce
  obtain db' where a': "a' = set_ga_db db' ?a" and kept: "db_transitions db' = db_transitions (ga_db ?a)" "db_inv db'"
      "\<And>e. r = Inl e \<Longrightarrow> db' = ga_db ?a"
    and answered: "\<And>page. r = Inr page \<Longrightarrow> \<exists>root dlv. read_page fails gc ?a now transport (iw_cursor (sp_inbox w)) limit =
         Inr (root, dlv, page) \<and> acknowledged db' root = uint (pg_after page) \<and>
         delivered db' root = max (delivered (ga_db ?a) root) (uint (pg_next_cursor page))"
    using list_events_outcome [OF poll db] by metis
  have base: "ga_db a' = db'" "ga_scopes a' = ga_scopes ?a"
    by (simp_all add: a' ga_db_def set_ga_db_def)
  have decodes: "log_decodes (gc_foreign gc) db'"
    using db(1) kept(1) by (simp add: log_decodes_def)
  show ?thesis
  proof (cases r)
    case (Inl e)
    then show ?thesis
      using known kept decodes by (simp add: SplitPoll poll past_def base)
  next
    case (Inr page)
    obtain root' dlv where read: "read_page fails gc ?a now transport (iw_cursor (sp_inbox w)) limit = Inr (root', dlv, page)"
      and del: "delivered db' root' = max (delivered (ga_db ?a) root') (uint (pg_next_cursor page))"
      using answered [OF Inr] by blast
    note page = read_page_Inr [OF read db]
    have root: "root' = root"
      using page known by simp
    obtain cursor where cursor: "iw_cursor (sp_inbox w) = Some cursor" "c \<le> uint cursor"
        "uint cursor \<le> delivered (ga_db ?a) root"
      using known by blast
    have after: "uint cursor \<le> uint (pg_after page)"
      using page cursor root by simp
    have "uint (pg_after page) \<le> uint (pg_next_cursor page)"
    proof (cases "page_rows root' (ga_db ?a) (uint (pg_after page)) limit = []")
      case False
      from last_in_set [OF this] show ?thesis
        using page by (auto simp: Let_def page_rows_def dest!: in_set_takeD)
    qed (use page in simp)
    moreover have "\<forall>event \<in> vw_event ` set (pg_events page). c < uint (ev_id event)"
      using page_events_after [OF read db] after cursor(2) by fastforce
    moreover have "split_step gc transport w i = (w\<lparr>sp_inbox := (sp_inbox w)\<lparr>iw_agent := a',
        iw_cursor := (if arrives then Some (pg_next_cursor page) else Some cursor)\<rparr>\<rparr>, if arrives then [page] else [])"
    proof -
      have "(sp_inbox w)\<lparr>iw_agent := a', iw_cursor := Some cursor\<rparr> = (sp_inbox w)\<lparr>iw_agent := a'\<rparr>"
        using cursor(1) by (cases "sp_inbox w") simp
      then show ?thesis
        by (simp add: SplitPoll poll [unfolded cursor(1)] cursor(1) Inr)
    qed
    ultimately show ?thesis
      using known kept decodes after cursor del root by (auto simp: past_def base received_def)
  qed
next
  case (SplitReserve j observation)
  let ?shared = "aw_shared (ga_world (iw_agent (sp_inbox w)))"
  obtain shared' r where reserved: "reserve (?shared, iw_lanes (sp_inbox w) ! j) observation (Observation observation) = (shared', r)"
    by fastforce
  then have "sh_db shared' = sh_db ?shared"
    by (rule reserve_shared)
  then show ?thesis
    using assms(1) by (auto simp: SplitReserve reserved past_def Let_def ga_db_def split: sum.splits)
next
  case (SplitCommit fails j)
  show ?thesis
  proof (cases "sp_reserved w j")
    case None
    then show ?thesis
      using assms(1) by (simp add: SplitCommit)
  next
    case (Some reservation)
    let ?shared = "aw_shared (ga_world (iw_agent (sp_inbox w)))"
    obtain db r where store: "store_apply_observation fails (gc_foreign gc) (sh_db ?shared) (rz_unit reservation) = (db, r)"
      by fastforce
    have "db_inv db \<and> log_decodes (gc_foreign gc) db \<and> db_inbox db = db_inbox (sh_db ?shared)"
      using store_apply_decodes [OF store _ assms(2)] assms(1) by (simp add: past_def Let_def ga_db_def)
    then show ?thesis
      using assms(1) Some
      by (auto simp: SplitCommit commit_reserved_def store past_def Let_def ga_db_def delivered_def split: sum.splits)
  qed
qed

interpretation split: logged_machine "split_step gc transport"
    "\<lambda>w pages. event_code_ok (gc_foreign gc) \<longrightarrow> past gc transport root c w pages"
  for gc :: "'j agent_code" and transport root c
  by unfold_locales (blast intro: past_step)

text \<open>
  C11. An event committed late is lost: when the client's cursor has passed the identifier that a waiting
  lane has reserved, the lane's commit still logs the event, and no later request of the client, whatever
  happens in between, gets it.
\<close>
theorem late_event_never_delivered:
  assumes "event_code_ok (gc_foreign gc)" and "past gc transport root c w []"
    and "sp_reserved w i = Some reservation" and "event \<in> re_event ` set (ap_events (rz_unit reservation))"
    and "uint (ev_id event) \<le> c"
    and "commit_reserved fails (gc_foreign gc) (aw_shared (ga_world (iw_agent (sp_inbox w))), iw_lanes (sp_inbox w) ! i)
      reservation = (after, Inr Applied)"
    and "run_machine (split_step gc transport) w (SplitCommit fails i # ops) = (w', pages)"
  shows "map_of (db_transitions (sh_db (fst after))) (uint (ev_id event)) \<noteq> None \<and> event \<notin> set (received pages)"
proof -
  have "past gc transport root c w' pages"
    using split.run_log [of gc transport root c w "[]" "SplitCommit fails i # ops"] assms(1,2,7) by simp
  then have "event \<notin> set (received pages)"
    using assms(5) by (fastforce simp: past_def Let_def)
  moreover have "map_of (db_transitions (sh_db (fst after))) (uint (ev_id event)) \<noteq> None"
  proof -
    let ?shared = "aw_shared (ga_world (iw_agent (sp_inbox w)))"
    obtain db where store: "store_apply_observation fails (gc_foreign gc) (sh_db ?shared) (rz_unit reservation) = (db, Inr Applied)"
        "db = sh_db (fst after)"
      using assms(6) by (auto simp: commit_reserved_def Let_def split: prod.splits sum.splits if_splits)
    have "db_inv (sh_db ?shared)"
      using assms(2) by (simp add: past_def Let_def ga_db_def)
    from store_apply_outcome [OF this store(1)]
    have written: "events_written (gc_foreign gc) (ap_events (rz_unit reservation)) (sh_db ?shared) db"
      by (simp add: applied_spec_def Let_def)
    have "uint (ev_id event) \<in> fst ` set (event_rows (gc_foreign gc) (ap_events (rz_unit reservation)))"
      using assms(4) by (force simp: event_rows_def)
    then show ?thesis
      using written store(2) by (auto simp: events_written_def map_add_None map_of_eq_None_iff)
  qed
  ultimately show ?thesis
    by blast
qed

section \<open>A concrete overtaking\<close>

text \<open>
  Its child reserves the first identifier and waits; the main session's event, the second, is committed
  and read before the child's.
\<close>

definition child_key :: native_session_key where
  "child_key = \<lparr>nk_runtime = CodexCli, nk_native_id = ''bb''\<rparr>"

definition child_session :: session_id where
  "child_session = session_id_from_native (xf_new_v5 sample_code) (xf_namespace_url sample_code) child_key"

definition child_identity :: session_identity where
  "child_identity = ChildIdentity (ChildSessionId child_session)"

definition child_start :: session_snapshot where
  "child_start = session_snapshot_new child_identity (MainSessionId stored_session) (stored_time 1)"

definition child_running :: session_snapshot where
  "child_running = child_start\<lparr>ss_revision := 1, ss_state := Running, ss_updated_at := stored_time 5,
     ss_last_activity := stored_time 5, ss_last_trusted_transition := Some (stored_time 5),
     ss_last_observation_id := Some (ObservationId 2), ss_last_observation_ms := Some 5\<rparr>"

definition child_observation :: observation_envelope where
  "child_observation = (stored_observation 2 5 (NativeState Running))\<lparr>oe_subject := child_key\<rparr>"

definition child_event :: domain_event where
  "child_event = \<lparr>ev_id = 1, ev_root = MainSessionId stored_session, ev_subject = child_identity,
     ev_occurred_at = 5, ev_kind = StateChanged Starting Running\<rparr>"

definition child_update :: snapshot_update where
  "child_update = \<lparr>su_session = child_identity, su_root = MainSessionId stored_session, su_revision = 1,
     su_state = Running, su_updated_at = 5, su_reducer_snapshot = Some child_running\<rparr>"

definition child_reservation :: reservation where
  "child_reservation = \<lparr>rz_unit = \<lparr>ap_observation = child_observation, ap_snapshot = child_update,
     ap_events = [\<lparr>re_event = child_event, re_destinations = [ParentInbox, Sse]\<rparr>]\<rparr>, rz_snapshot = child_running\<rparr>"

definition main_reservation :: reservation where
  "main_reservation = \<lparr>rz_unit = \<lparr>ap_observation = main_observation, ap_snapshot = main_update,
     ap_events = [\<lparr>re_event = main_event, re_destinations = [ParentInbox, Sse]\<rparr>]\<rparr>, rz_snapshot = main_running\<rparr>"

abbreviation main_lane :: lane where
  "main_lane \<equiv> lane_new main_start default_reducer_policy [ParentInbox, Sse]"

abbreviation child_lane :: lane where
  "child_lane \<equiv> lane_new child_start default_reducer_policy [ParentInbox, Sse]"

lemma child_fields [simp]:
  "ss_session child_running = child_identity" "ss_root child_running = MainSessionId stored_session"
  "ss_revision child_running = 1" "ss_state child_running = Running" "ss_updated_at child_running = stored_time 5"
  "oe_subject child_observation = child_key" "oe_observation_id child_observation = ObservationId 2"
  "oe_observed_at child_observation = stored_time 5" "oe_payload child_observation = NativeState Running"
  "identity_session_id child_identity = child_session" "session_kind_name child_identity = ''child''"
  "ev_id child_event = 1" "ev_subject child_event = child_identity" "ev_root child_event = MainSessionId stored_session"
  by (simp_all add: child_running_def child_start_def session_snapshot_new_def child_observation_def
      stored_observation_def child_identity_def child_event_def)

lemma child_other: "child_session \<noteq> stored_session"
  by (simp add: child_session_def stored_session_def session_id_from_native_def sample_code_def child_key_def stored_key_def
      native_parts_def uuid_v5_parts_def)

lemma child_folded:
  "session_id_from_native (xf_new_v5 sample_code) (xf_namespace_url sample_code) child_key = child_session"
  "nk_runtime child_key = CodexCli" "nk_native_id child_key = ''bb''" "xf_event_to_vec sample_code e = Some (EventDoc e)"
  by (simp_all add: child_session_def child_key_def sample_code_def)

lemma child_reserved:
  "reserve (\<lparr>sh_db = empty_db, sh_next_event = 1\<rparr>, child_lane) child_observation (Observation child_observation) =
     (\<lparr>sh_db = empty_db, sh_next_event = 2\<rparr>, Inr child_reservation)"
proof -
  have reduced: "reduce child_start (Observation child_observation) default_reducer_policy =
     \<lparr>ro_snapshot = child_running, ro_events = [StateChanged Starting Running]\<rparr>"
    by (simp add: reduce_eval child_start_def session_snapshot_new_def child_observation_def stored_observation_def
        stored_time_def saturating_add_def child_running_def)
  have projected: "from_reducer child_running = Inr child_update"
    by (simp add: from_reducer_Inr_iff stored_time_def i64_max_def child_update_def)
  have "\<lparr>ev_id = 1, ev_root = MainSessionId stored_session, ev_subject = child_identity,
     ev_occurred_at = 5, ev_kind = StateChanged Starting Running\<rparr> = child_event"
    by (simp add: child_event_def)
  then have "route_events (MainSessionId stored_session) child_identity 5 [ParentInbox, Sse] 1 [StateChanged Starting Running] =
      (2, Inr [\<lparr>re_event = child_event, re_destinations = [ParentInbox, Sse]\<rparr>])"
    by (simp add: allocate_def checked_add_def delivery_destinations_def human_event_def child_identity_def
        less_eq_outbox_destination_def)
  then show ?thesis
    by (simp del: route_events.simps add: reserve_def Let_def lane_new_def reduced projected sample_folded child_reservation_def)
qed

lemma main_reserved:
  "reserve (\<lparr>sh_db = empty_db, sh_next_event = 2\<rparr>, main_lane) main_observation (Observation main_observation) =
     (\<lparr>sh_db = empty_db, sh_next_event = 3\<rparr>, Inr main_reservation)"
proof -
  have "\<lparr>ev_id = 2, ev_root = MainSessionId stored_session, ev_subject = sample_main_session,
     ev_occurred_at = 5, ev_kind = StateChanged Starting Running\<rparr> = main_event"
    by (simp add: main_event_def)
  moreover have "ev_subject main_event = sample_main_session" "ev_kind main_event = StateChanged Starting Running"
    by (simp_all add: main_event_def)
  ultimately have "route_events (MainSessionId stored_session) sample_main_session 5 [ParentInbox, Sse] 2 [StateChanged Starting Running] =
      (3, Inr [\<lparr>re_event = main_event, re_destinations = [ParentInbox, Sse]\<rparr>])"
    by (simp add: allocate_def checked_add_def delivery_destinations_def human_event_def sample_main_session_def
        less_eq_outbox_destination_def)
  then show ?thesis
    by (simp del: route_events.simps add: reserve_def Let_def lane_new_def main_reduced main_projected sample_folded
        main_reservation_def)
qed

lemma main_committed:
  "commit_reserved (\<lambda>_. False) sample_code (\<lparr>sh_db = empty_db, sh_next_event = 3\<rparr>, main_lane) main_reservation =
     (main_world, Inr Applied)"
proof -
  have "apply_input (\<lambda>_. False) sample_code (\<lparr>sh_db = empty_db, sh_next_event = 2\<rparr>, main_lane) main_observation
      (Observation main_observation) = (main_world, Inr Applied)"
    using main_applied(1) by (simp add: coordinator_apply_observation_def)
  then show ?thesis
    by (simp add: apply_input_split main_reserved)
qed

lemma child_committed:
  assumes "db_observations db = db_observations (sh_db (fst main_world))" "db_sessions db = db_sessions (sh_db (fst main_world))"
    and "db_snapshots db = db_snapshots (sh_db (fst main_world))" "db_transitions db = db_transitions (sh_db (fst main_world))"
    and "db_outbox db = db_outbox (sh_db (fst main_world))" "db_outbox_seq db = db_outbox_seq (sh_db (fst main_world))"
  shows "\<exists>after. commit_reserved (\<lambda>_. False) sample_code (\<lparr>sh_db = db, sh_next_event = n\<rparr>, child_lane) child_reservation =
     (after, Inr Applied)"
proof -
  have "set (map ob_event_id (db_outbox (sh_db (fst main_world)))) = {2}"
    by (simp only: main_applied) simp
  then have "ob_event_id row = 2" if "row \<in> set (db_outbox (sh_db (fst main_world)))" for row
    using imageI [OF that, of ob_event_id] by simp
  then have "\<not> list_ex (\<lambda>row. ob_event_id row = 1 \<and> ob_destination row = d) (db_outbox (sh_db (fst main_world)))" for d
    by (auto simp: list_ex_iff)
  then have "snd (store_apply_observation (\<lambda>_. False) sample_code db (rz_unit child_reservation)) = Inr Applied"
    using assms child_other
    by (simp add: child_reservation_def store_eval main_applied sample_folded child_folded child_update_def)
  then show ?thesis
    by (cases "store_apply_observation (\<lambda>_. False) sample_code db (rz_unit child_reservation)")
      (simp add: commit_reserved_def)
qed

definition split_start :: "document split_world" where
  "split_start = \<lparr>sp_inbox = \<lparr>iw_agent = sample_agent\<lparr>ga_scopes := bound_to ''t'' (MainSessionId stored_session)\<rparr>,
     iw_lanes = [main_lane, child_lane], iw_cursor = None\<rparr>, sp_reserved = Map.empty\<rparr>"

definition overtaking :: "split_op list" where
  "overtaking = [SplitReserve 1 child_observation, SplitReserve 0 main_observation, SplitCommit (\<lambda>_. False) 0,
     SplitPoll (\<lambda>_. False) 10 7 True]"

lemma overtaken:
  "\<exists>w page db. run_machine (split_step sample_agent_code ''t'') split_start overtaking = (w, [page]) \<and>
     map vw_event (pg_events page) = [main_event] \<and> past sample_agent_code ''t'' (MainSessionId stored_session) 2 w [] \<and>
     sp_reserved w = [1 \<mapsto> child_reservation] \<and> iw_lanes (sp_inbox w) ! 1 = child_lane \<and>
     aw_shared (ga_world (iw_agent (sp_inbox w))) = \<lparr>sh_db = db, sh_next_event = 3\<rparr> \<and>
     db_observations db = db_observations (sh_db (fst main_world)) \<and> db_sessions db = db_sessions (sh_db (fst main_world)) \<and>
     db_snapshots db = db_snapshots (sh_db (fst main_world)) \<and> db_transitions db = db_transitions (sh_db (fst main_world)) \<and>
     db_outbox db = db_outbox (sh_db (fst main_world)) \<and> db_outbox_seq db = db_outbox_seq (sh_db (fst main_world))"
proof -
  let ?root = "MainSessionId stored_session"
  have code: "gc_foreign sample_agent_code = sample_code" "xf_event_from_slice sample_code (EventDoc e) = Some e" for e
    by (simp_all add: sample_agent_code_def sample_code_def)
  define shared where "shared = fst main_world"
  define lane where "lane = snd main_world"
  have world: "main_world = (shared, lane)"
    by (simp add: shared_def lane_def)
  let ?agent = "sample_agent\<lparr>ga_scopes := bound_to ''t'' ?root\<rparr>"
  have start: "split_start = \<lparr>sp_inbox = \<lparr>iw_agent = ?agent, iw_lanes = [main_lane, child_lane], iw_cursor = None\<rparr>,
      sp_reserved = Map.empty\<rparr>" "aw_shared (ga_world sample_agent) = \<lparr>sh_db = empty_db, sh_next_event = 1\<rparr>"
    by (simp_all add: split_start_def sample_agent_def sample_api_def)
  have agent: "?agent\<lparr>ga_world := (ga_world ?agent)\<lparr>aw_shared := shared\<rparr>\<rparr> = main_agent"
    by (simp add: main_agent_def sample_agent_def set_ga_db_def shared_def)
  have plain: "oe_payload child_observation \<noteq> SchedulerTick" "oe_payload main_observation \<noteq> SchedulerTick"
    by simp_all
  let ?w3 = "\<lparr>sp_inbox = \<lparr>iw_agent = main_agent, iw_lanes = [lane, child_lane], iw_cursor = None\<rparr>,
      sp_reserved = [1 \<mapsto> child_reservation]\<rparr>"
  have before: "run_machine (split_step sample_agent_code ''t'') split_start
      [SplitReserve 1 child_observation, SplitReserve 0 main_observation, SplitCommit (\<lambda>_. False) 0] = (?w3, [])"
    using agent
    by (simp add: prod_eq_iff start Let_def set_shared_def child_reserved main_reserved main_committed world code fun_upd_twist)
  obtain page where page: "read_page (\<lambda>_. False) sample_agent_code main_agent 7 ''t'' None 10 = Inr (?root, 0, page)"
      "map vw_event (pg_events page) = [main_event]" "pg_after page = 0" "pg_next_cursor page = 2"
    using main_page by meson
  let ?row = "\<lparr>in_last_event_id = 0, in_last_delivered_event_id = 2, in_updated_at = 7\<rparr>"
  let ?db = "(sh_db (fst main_world))\<lparr>db_inbox := [(stored_session, ?row)]\<rparr>"
  have saved: "save_inbox_offset (\<lambda>_. False) (sh_db (fst main_world)) \<lparr>io_parent = ?root, io_last_event_id = 0,
      io_last_delivered_event_id = 2, io_updated_at = 7\<rparr> = (?db, Inr True)"
    by (simp add: save_inbox_offset_def sqlite_integer_def i64_of_u64_def i64_max_def run_sql_def main_applied)
  have polled: "list_events (\<lambda>_. False) sample_agent_code main_agent 7 ''t'' None 10 = (set_ga_db ?db main_agent, Inr page)"
    by (simp add: list_events_def page saved)
  let ?w = "\<lparr>sp_inbox = \<lparr>iw_agent = set_ga_db ?db main_agent, iw_lanes = [lane, child_lane], iw_cursor = Some 2\<rparr>,
      sp_reserved = [1 \<mapsto> child_reservation]\<rparr>"
  have step: "split_step sample_agent_code ''t'' ?w3 (SplitPoll (\<lambda>_. False) 10 7 True) = (?w, [page])"
    by (simp add: polled page)
  have order: "overtaking = [SplitReserve 1 child_observation, SplitReserve 0 main_observation, SplitCommit (\<lambda>_. False) 0] @
      [SplitPoll (\<lambda>_. False) 10 7 True]"
    by (simp add: overtaking_def)
  have run: "run_machine (split_step sample_agent_code ''t'') split_start overtaking = (?w, [page])"
    unfolding order run_machine_append before by (simp only: prod.case Let_def run_machine.simps step append.simps)
  have "db_inv (sh_db (fst main_world))"
    using lane_call_outcome [OF _ main_applied(1) [unfolded world]] by (simp add: db_advances_def shared_def)
  then have inv: "db_inv ?db"
    using save_inbox_offset_advances [OF saved] by (simp add: db_advances_def)
  have past: "past sample_agent_code ''t'' ?root 2 ?w []"
    using inv by (simp add: past_def Let_def log_decodes_def main_applied code transition_row_of_def main_event_def
        delivered_def received_def)
  have shared': "aw_shared (ga_world (set_ga_db ?db main_agent)) = \<lparr>sh_db = ?db, sh_next_event = 3\<rparr>"
    using main_applied(2) by (cases "fst main_world") (simp add: set_ga_db_def main_agent_def)
  show ?thesis
    using run page(2) past shared'
    by (intro exI [of _ ?w] exI [of _ page] exI [of _ ?db]) simp
qed

theorem late_event_never_delivered_witness:
  "\<exists>w page. run_machine (split_step sample_agent_code ''t'') split_start overtaking = (w, [page]) \<and>
     map vw_event (pg_events page) = [main_event] \<and>
     (\<forall>ops w' pages. run_machine (split_step sample_agent_code ''t'') w (SplitCommit (\<lambda>_. False) 1 # ops) = (w', pages) \<longrightarrow>
        child_event \<notin> set (received pages)) \<and>
     (\<exists>after. commit_reserved (\<lambda>_. False) sample_code (aw_shared (ga_world (iw_agent (sp_inbox w))), iw_lanes (sp_inbox w) ! 1)
        child_reservation = (after, Inr Applied) \<and> map_of (db_transitions (sh_db (fst after))) 1 \<noteq> None)"
proof -
  let ?root = "MainSessionId stored_session"
  obtain w page db where run: "run_machine (split_step sample_agent_code ''t'') split_start overtaking = (w, [page])"
      "map vw_event (pg_events page) = [main_event]"
    and past: "past sample_agent_code ''t'' ?root 2 w []" and reserved: "sp_reserved w = [1 \<mapsto> child_reservation]"
    and lane: "iw_lanes (sp_inbox w) ! 1 = child_lane"
    and shared: "aw_shared (ga_world (iw_agent (sp_inbox w))) = \<lparr>sh_db = db, sh_next_event = 3\<rparr>"
    and same: "db_observations db = db_observations (sh_db (fst main_world))" "db_sessions db = db_sessions (sh_db (fst main_world))"
      "db_snapshots db = db_snapshots (sh_db (fst main_world))" "db_transitions db = db_transitions (sh_db (fst main_world))"
      "db_outbox db = db_outbox (sh_db (fst main_world))" "db_outbox_seq db = db_outbox_seq (sh_db (fst main_world))"
    using overtaken by metis
  obtain after where committed: "commit_reserved (\<lambda>_. False) (gc_foreign sample_agent_code)
      (aw_shared (ga_world (iw_agent (sp_inbox w))), iw_lanes (sp_inbox w) ! 1) child_reservation = (after, Inr Applied)"
    using child_committed [OF same, of 3] unfolding shared lane by (auto simp: sample_agent_code_def)
  have code: "event_code_ok (gc_foreign sample_agent_code)"
    by (simp add: event_code_ok_def sample_agent_code_def sample_code_def)
  have late: "map_of (db_transitions (sh_db (fst after))) 1 \<noteq> None \<and> child_event \<notin> set (received pages)"
    if "run_machine (split_step sample_agent_code ''t'') w (SplitCommit (\<lambda>_. False) 1 # ops) = (w', pages)" for ops w' pages
    using late_event_never_delivered [OF code past _ _ _ committed that, of child_event] reserved
    by (simp add: child_reservation_def)
  have "gc_foreign sample_agent_code = sample_code"
    by (simp add: sample_agent_code_def)
  then show ?thesis
    using run late committed surj_pair [of "run_machine (split_step sample_agent_code ''t'') w [SplitCommit (\<lambda>_. False) 1]"]
    by metis
qed

end
