(* ===== verification/Notifier.thy ===== *)
theory Notifier
  imports Records
begin

text \<open>
  The human notifications of \<open>notifications.rs\<close>: the validated endpoints, the one-attempt HTTP delivery
  with its durable audit record, and the dispatcher that drains the two webhook channels of the outbox.
  The URL parser and the answers of the HTTP client are parameters.
\<close>

section \<open>Model\<close>

record human_notification =
  hn_issue :: string
  hn_title :: string
  hn_startup_directory :: string

definition human_notification_new ::
  "string \<Rightarrow> string \<Rightarrow> string \<Rightarrow> domain_input_error + human_notification" where
  "human_notification_new issue title startup_directory =
     and_then (bounded_text_new 128 ''notification_issue'' issue) (\<lambda>issue.
     and_then (bounded_text_new 512 ''notification_title'' title) (\<lambda>title.
     and_then (bounded_text_new 4096 ''notification_startup_directory'' startup_directory) (\<lambda>startup_directory.
       if issue = [] then Inl (EmptyField ''notification_issue'')
       else if title = [] then Inl (EmptyField ''notification_title'')
       else if startup_directory = [] then Inl (EmptyField ''notification_startup_directory'')
       else Inr \<lparr>hn_issue = issue, hn_title = title, hn_startup_directory = startup_directory\<rparr>)))"

text \<open>The crate \<open>url\<close>.\<close>

record 'u url_code =
  uc_parse :: "string \<Rightarrow> 'u option"
  uc_scheme :: "'u \<Rightarrow> string"
  uc_host :: "'u \<Rightarrow> string option"
  uc_username :: "'u \<Rightarrow> string"
  uc_password :: "'u \<Rightarrow> string option"

datatype notification_config_error =
    EmptyEndpoint | EndpointTooLong | InvalidEndpoint | UnsupportedEndpoint | EndpointUserinfo | ClientInitialization

definition MAX_WEBHOOK_URL_BYTES :: nat where
  "MAX_WEBHOOK_URL_BYTES = 4096"

definition webhook_endpoint_new :: "'u url_code \<Rightarrow> string \<Rightarrow> notification_config_error + 'u" where
  "webhook_endpoint_new uc v =
     (if v = [] then Inl EmptyEndpoint
      else if length v > MAX_WEBHOOK_URL_BYTES then Inl EndpointTooLong
      else and_then (ok_or InvalidEndpoint (uc_parse uc v)) (\<lambda>url.
        if uc_scheme uc url \<notin> {''http'', ''https''} \<or> uc_host uc url = None then Inl UnsupportedEndpoint
        else if uc_username uc url \<noteq> [] \<or> uc_password uc url \<noteq> None then Inl EndpointUserinfo
        else Inr url))"

record 'u notification_endpoints =
  ne_home_assistant :: "'u option"
  ne_webhook :: "'u option"

fun endpoint_of :: "'u notification_endpoints \<Rightarrow> notification_channel \<Rightarrow> 'u option" where
  "endpoint_of endpoints HomeAssistantChannel = ne_home_assistant endpoints"
| "endpoint_of endpoints WebhookChannel = ne_webhook endpoints"
| "endpoint_of endpoints BrowserChannel = None"

datatype notification_error =
    NotifyInput domain_input_error | NotifyStore store_error | InvalidOutboxPayload | MissingMainSession

text \<open>What the HTTP client comes back with.\<close>

datatype http_reply = HttpStatus nat | HttpTimeout | HttpError

fun attempt_outcome :: "http_reply \<Rightarrow> notification_outcome \<times> string option" where
  "attempt_outcome (HttpStatus code) =
     (if 200 \<le> code \<and> code < 300 then (NotificationDelivered, None)
      else (NotificationFailed, Some (''Webhook returned HTTP '' @ print_nat code)))"
| "attempt_outcome HttpTimeout = (NotificationTimedOut, Some ''Webhook attempt timed out'')"
| "attempt_outcome HttpError = (NotificationFailed, Some ''Webhook request failed'')"

text \<open>
  What surrounds one delivery: the SQLite failures of its statements, the reply of the client, the clock
  at its attempt and at its acknowledgement.
\<close>

record delivery_env =
  de_fails :: sqlite
  de_reply :: http_reply
  de_attempted_at :: wall_time_ms
  de_acknowledged_at :: wall_time_ms

record 'j notifier =
  nf_db :: "'j db"
  nf_records :: "'j records_db"

record 'j notifier_code =
  nc_foreign :: "'j foreign_code"
  nc_records :: "'j records_code"

text \<open>
  A request that went out: to which channel, for which event, and whether its outcome was recorded. A step
  returns the state, the requests it sent, and its result.
\<close>

record sent_request =
  rq_event :: event_id
  rq_channel :: notification_channel
  rq_recorded :: bool

type_synonym ('j, 'a) delivery = "'j notifier \<times> sent_request list \<times> (notification_error + 'a)"

definition after_delivery :: "('j, 'a) delivery \<Rightarrow> ('j notifier \<Rightarrow> 'a \<Rightarrow> ('j, 'b) delivery) \<Rightarrow> ('j, 'b) delivery" where
  "after_delivery d f =
     (case d of
        (w, sent, Inl e) \<Rightarrow> (w, sent, Inl e)
      | (w, sent, Inr x) \<Rightarrow> (case f w x of (w', sent', r) \<Rightarrow> (w', sent @ sent', r)))"

definition deliver_channel ::
  "'j notifier_code \<Rightarrow> 'u notification_endpoints \<Rightarrow> delivery_env \<Rightarrow> 'j notifier \<Rightarrow> event_id \<Rightarrow> notification_channel \<Rightarrow>
     human_notification \<Rightarrow> ('j, (notification_channel \<times> notification_outcome) option) delivery" where
  "deliver_channel nc endpoints env w event_id channel notification =
     (case endpoint_of endpoints channel of
        None \<Rightarrow> (w, [], Inr None)
      | Some _ \<Rightarrow>
          (let (outcome, message) = attempt_outcome (de_reply env) in
           case transpose_option (map_option (bounded_text_new 2048 ''notification_result'') message) of
             Inl e \<Rightarrow> (w, [\<lparr>rq_event = event_id, rq_channel = channel, rq_recorded = False\<rparr>], Inl (NotifyInput e))
           | Inr message \<Rightarrow>
               (case record_notification_attempt (de_fails env) (nc_foreign nc) (nc_records nc) (nf_db w) (nf_records w)
                  \<lparr>na_event_id = event_id, na_channel = channel, na_attempted_at = de_attempted_at env,
                   na_outcome = outcome, na_message = message\<rparr> of
                  (rd, Inl e) \<Rightarrow> (w\<lparr>nf_records := rd\<rparr>, [\<lparr>rq_event = event_id, rq_channel = channel, rq_recorded = False\<rparr>],
                    Inl (NotifyStore e))
                | (rd, Inr _) \<Rightarrow> (w\<lparr>nf_records := rd\<rparr>, [\<lparr>rq_event = event_id, rq_channel = channel, rq_recorded = True\<rparr>],
                    Inr (Some (channel, outcome))))))"

text \<open>\<open>HumanNotifier::deliver\<close>: both channels in turn.\<close>

definition deliver_both ::
  "'j notifier_code \<Rightarrow> 'u notification_endpoints \<Rightarrow> (notification_channel \<Rightarrow> delivery_env) \<Rightarrow> 'j notifier \<Rightarrow> event_id \<Rightarrow>
     human_notification \<Rightarrow> ('j, (notification_channel \<times> notification_outcome) list) delivery" where
  "deliver_both nc endpoints env w event_id notification =
     after_delivery (deliver_channel nc endpoints (env HomeAssistantChannel) w event_id HomeAssistantChannel notification)
       (\<lambda>w first. after_delivery (deliver_channel nc endpoints (env WebhookChannel) w event_id WebhookChannel notification)
         (\<lambda>w second. (w, [], Inr (List.map_filter id [first, second]))))"

fun notification_issue :: "domain_event_kind \<Rightarrow> string" where
  "notification_issue (StateChanged from to) =
     (if to = Completed then ''Session completed''
      else if to = WaitingForUser then ''Session is waiting for user'' else ''Session status changed'')"
| "notification_issue AlertDue = ''Session requires attention''"
| "notification_issue ReminderDue = ''Session still requires attention''"
| "notification_issue (TerminationChanged stage outcome) =
     (if stage = WarningGrace then ''Sub-agent termination warning'' else ''Session status changed'')"
| "notification_issue _ = ''Session status changed''"

definition fallback_title :: "string \<Rightarrow> string \<Rightarrow> string" where
  "fallback_title startup_directory native_id =
     (case file_name startup_directory of Some name \<Rightarrow> (if name \<noteq> [] then name else native_id) | None \<Rightarrow> native_id)"

definition notification_for ::
  "sqlite \<Rightarrow> 'j notifier_code \<Rightarrow> 'j notifier \<Rightarrow> domain_event \<Rightarrow> notification_error + human_notification" where
  "notification_for fails nc w event =
     (let session = MainIdentity (ev_root event) in
      and_then (map_err NotifyStore (stored_session_of fails (nc_foreign nc) (nf_db w) session)) (\<lambda>found.
      and_then (ok_or MissingMainSession found) (\<lambda>rec.
      and_then (map_err NotifyStore (session_metadata fails (nf_db w) (nf_records w) session)) (\<lambda>metadata.
        let startup_directory = unwrap_or ''(unknown startup directory)'' (Option.bind metadata mt_startup_directory);
            title = (case Option.bind metadata mt_title of
                       None \<Rightarrow> fallback_title startup_directory (nk_native_id (st_native rec))
                     | Some title \<Rightarrow> title)
        in map_err NotifyInput (human_notification_new (notification_issue (ev_kind event)) title startup_directory)))))"

definition ATTEMPT_LOOKBACK :: u32 where
  "ATTEMPT_LOOKBACK = 100"

definition deliver_entry ::
  "'j notifier_code \<Rightarrow> 'u notification_endpoints \<Rightarrow> delivery_env \<Rightarrow> 'j notifier \<Rightarrow> 'j pending_outbox_entry \<Rightarrow>
     notification_channel \<Rightarrow> ('j, unit) delivery" where
  "deliver_entry nc endpoints env w entry channel =
     (case map_err NotifyStore (notification_attempts (de_fails env) (nc_foreign nc) (nc_records nc) (nf_records w)
             (pe_event_id entry) ATTEMPT_LOOKBACK) of
        Inl e \<Rightarrow> (w, [], Inl e)
      | Inr attempts \<Rightarrow>
          if list_ex (\<lambda>attempt. na_channel attempt = channel) attempts then (w, [], Inr ())
          else
            (case and_then (ok_or InvalidOutboxPayload (xf_event_from_slice (nc_foreign nc) (pe_payload entry)))
                    (notification_for (de_fails env) nc w) of
               Inl e \<Rightarrow> (w, [], Inl e)
             | Inr notification \<Rightarrow>
                 after_delivery (deliver_channel nc endpoints env w (pe_event_id entry) channel notification)
                   (\<lambda>w _. (w, [], Inr ()))))"

text \<open>The loop over the entries of one channel, and the loop over the channels.\<close>

fun deliver_entries ::
  "'j notifier_code \<Rightarrow> 'u notification_endpoints \<Rightarrow> (i64 \<Rightarrow> delivery_env) \<Rightarrow> notification_channel \<Rightarrow> 'j notifier \<Rightarrow>
     'j pending_outbox_entry list \<Rightarrow> ('j, nat) delivery" where
  "deliver_entries nc endpoints env channel w [] = (w, [], Inr 0)"
| "deliver_entries nc endpoints env channel w (entry # entries) =
     after_delivery (deliver_entry nc endpoints (env (pe_outbox_id entry)) w entry channel) (\<lambda>w _.
       case acknowledge_outbox (de_fails (env (pe_outbox_id entry))) (nf_db w) (pe_outbox_id entry)
              (de_acknowledged_at (env (pe_outbox_id entry))) of
         (db, Inl e) \<Rightarrow> (w\<lparr>nf_db := db\<rparr>, [], Inl (NotifyStore e))
       | (db, Inr acknowledged) \<Rightarrow>
           after_delivery (deliver_entries nc endpoints env channel (w\<lparr>nf_db := db\<rparr>) entries)
             (\<lambda>w delivered. (w, [], Inr (if acknowledged then Suc delivered else delivered))))"

definition deliver_destination ::
  "'j notifier_code \<Rightarrow> 'u notification_endpoints \<Rightarrow> sqlite \<Rightarrow> (i64 \<Rightarrow> delivery_env) \<Rightarrow> u32 \<Rightarrow> 'j notifier \<Rightarrow>
     outbox_destination \<Rightarrow> notification_channel \<Rightarrow> ('j, nat) delivery" where
  "deliver_destination nc endpoints fails env limit w destination channel =
     (case pending_outbox_matching fails (nf_db w) (Some destination) limit of
        Inl e \<Rightarrow> (w, [], Inl (NotifyStore e))
      | Inr entries \<Rightarrow> deliver_entries nc endpoints env channel w entries)"

record pass_env =
  ps_list_home_assistant :: sqlite
  ps_list_webhook :: sqlite
  ps_entry :: "notification_channel \<Rightarrow> i64 \<Rightarrow> delivery_env"

definition deliver_pending ::
  "'j notifier_code \<Rightarrow> 'u notification_endpoints \<Rightarrow> pass_env \<Rightarrow> u32 \<Rightarrow> 'j notifier \<Rightarrow> ('j, nat) delivery" where
  "deliver_pending nc endpoints env limit w =
     after_delivery (deliver_destination nc endpoints (ps_list_home_assistant env) (ps_entry env HomeAssistantChannel)
         limit w HomeAssistant HomeAssistantChannel) (\<lambda>w first.
     after_delivery (deliver_destination nc endpoints (ps_list_webhook env) (ps_entry env WebhookChannel)
         limit w Webhook WebhookChannel) (\<lambda>w second. (w, [], Inr (first + second))))"

section \<open>Every event has a notification\<close>

lemma stored_metadata_bounds:
  assumes "session_metadata fails db rd session = Inr (Some rec)"
  shows "(\<forall>t. mt_title rec = Some t \<longrightarrow> t \<noteq> [] \<and> length t \<le> 512) \<and>
    (\<forall>d. mt_startup_directory rec = Some d \<longrightarrow> d \<noteq> [] \<and> length d \<le> 4096)"
proof -
  obtain row :: session_row where "decode_session_metadata (metadata_of rd (identity_session_id session)) (sr_updated_at row) session = Inr rec"
    using assms by (auto simp: session_metadata_def transpose_option_def result_elims split: option.splits sum.splits)
  then obtain title directory number remote branch url at where
      "session_metadata_record_new session title directory remote branch number url at = Inr rec"
    by (auto simp: decode_session_metadata_def result_elims)
  then obtain t d where "optional_bounded 512 ''session_title'' title = Inr t" "mt_title rec = t"
      "optional_bounded 4096 ''startup_directory'' directory = Inr d" "mt_startup_directory rec = d"
    by (auto simp: session_metadata_record_new_def result_elims)
  then show ?thesis
    by (auto simp: optional_bounded_def transpose_option_def bounded_text_new_def split: option.splits if_splits sum.splits)
qed

lemma stored_native_bounds:
  assumes "stored_session_of fails fc db session = Inr (Some rec)"
  shows "nk_native_id (st_native rec) \<noteq> [] \<and> length (nk_native_id (st_native rec)) \<le> 512"
proof -
  obtain k row where "decode_session_row fc (k, row) (Some session) = Inr rec"
    using assms by (auto simp: stored_session_of_def transpose_option_def result_elims split: option.splits sum.splits)
  then have "native_key_wf (st_native rec)"
    by (auto simp: decode_session_row_def Let_def result_elims native_session_key_new_Inr_iff split: if_splits)
  then show ?thesis
    by (simp add: native_key_wf_def MAX_NATIVE_ID_BYTES_def)
qed

lemma issue_bounds: "notification_issue kind \<noteq> [] \<and> length (notification_issue kind) \<le> 128"
  by (cases kind) simp_all

text \<open>
  Every event of a stored main session has a notification: whatever metadata the store returns, the
  title and the startup directory it puts in are non-empty and within the channel's bounds, provided no
  path component of the directory is longer than a title may be; so no entry of the outbox can be one whose
  notification is refused.
\<close>
theorem notification_always_builds:
  assumes "stored_session_of fails (nc_foreign nc) (nf_db w) (MainIdentity (ev_root event)) = Inr (Some rec)"
    and "session_metadata fails (nf_db w) (nf_records w) (MainIdentity (ev_root event)) = Inr metadata"
    and "\<forall>name. file_name (unwrap_or [] (Option.bind metadata mt_startup_directory)) = Some name \<longrightarrow> length name \<le> 512"
  shows "\<exists>n. notification_for fails nc w event = Inr n \<and> hn_issue n = notification_issue (ev_kind event) \<and>
    (\<forall>m t. metadata = Some m \<and> mt_title m = Some t \<longrightarrow> hn_title n = t) \<and>
    (\<forall>m d. metadata = Some m \<and> mt_startup_directory m = Some d \<longrightarrow> hn_startup_directory n = d)"
proof -
  let ?directory = "unwrap_or ''(unknown startup directory)'' (Option.bind metadata mt_startup_directory)"
  let ?title = "case Option.bind metadata mt_title of None \<Rightarrow> fallback_title ?directory (nk_native_id (st_native rec))
    | Some title \<Rightarrow> title"
  have directory: "?directory \<noteq> [] \<and> length ?directory \<le> 4096"
    using stored_metadata_bounds [of fails "nf_db w" "nf_records w" "MainIdentity (ev_root event)"] assms(2)
    by (cases metadata) (auto simp: unwrap_or_def split: option.splits)
  have "file_name ''(unknown startup directory)'' = Some ''(unknown startup directory)''"
    by (simp add: file_name_def path_components_def List.map_filter_def)
  then have "\<forall>name. file_name ?directory = Some name \<longrightarrow> length name \<le> 512"
    using assms(3) by (auto simp: unwrap_or_def split: option.splits)
  then have "?title \<noteq> [] \<and> length ?title \<le> 512"
    using stored_metadata_bounds [of fails "nf_db w" "nf_records w" "MainIdentity (ev_root event)"] assms(2)
      stored_native_bounds [OF assms(1)]
    by (cases metadata) (auto simp: fallback_title_def split: option.splits)
  then show ?thesis
    using assms(1,2) directory issue_bounds [of "ev_kind event"]
    by (auto simp: notification_for_def Let_def human_notification_new_def bounded_text_new_def unwrap_or_def
        split: option.splits)
qed

section \<open>One request per event and channel\<close>

text \<open>\<open>serde_json\<close> reads back the attempts it wrote.\<close>

definition attempt_code_ok :: "'j notifier_code \<Rightarrow> bool" where
  "attempt_code_ok nc \<longleftrightarrow> (\<forall>rec j. rk_attempt_to_vec (nc_records nc) rec = Some j \<longrightarrow>
     rk_attempt_from_slice (nc_records nc) j = Some rec)"

text \<open>
  The dispatcher's passes, interleaved with every other task of the process: these write what they like,
  except that the audit table is the dispatcher's own.
\<close>

datatype 'j notifier_op = Pass pass_env u32 | Others "'j db" "'j records_db"

fun notifier_step ::
  "'j notifier_code \<Rightarrow> 'u notification_endpoints \<Rightarrow> 'j notifier \<Rightarrow> 'j notifier_op \<Rightarrow> 'j notifier \<times> sent_request list" where
  "notifier_step nc endpoints w (Pass env limit) =
     (case deliver_pending nc endpoints env limit w of (w, sent, _) \<Rightarrow> (w, sent))"
| "notifier_step nc endpoints w (Others db rd) =
     (\<lparr>nf_db = db, nf_records = rd\<lparr>rd_attempts := rd_attempts (nf_records w),
         rd_attempt_seq := rd_attempt_seq (nf_records w)\<rparr>\<rparr>, [])"

definition attempts_for :: "'j notifier_code \<Rightarrow> 'j notifier \<Rightarrow> i64 \<Rightarrow> notification_channel option list" where
  "attempts_for nc w e = map (\<lambda>row. map_option na_channel (rk_attempt_from_slice (nc_records nc) (at_json row)))
     (filter (\<lambda>row. at_event_id row = e) (rd_attempts (nf_records w)))"

definition one_shot :: "'j notifier_code \<Rightarrow> 'j notifier \<Rightarrow> sent_request list \<Rightarrow> bool" where
  "one_shot nc w sent \<longleftrightarrow>
     (\<forall>e. distinct (attempts_for nc w e)) \<and>
     (\<forall>r \<in> set sent. rq_recorded r \<longrightarrow> Some (rq_channel r) \<in> set (attempts_for nc w (uint (rq_event r)))) \<and>
     sorted_wrt (\<lambda>r s. rq_recorded r \<longrightarrow> (rq_event s, rq_channel s) \<noteq> (rq_event r, rq_channel r)) sent"

lemma one_shot_db [simp]: "one_shot nc (w\<lparr>nf_db := db\<rparr>) sent = one_shot nc w sent"
  by (simp add: one_shot_def attempts_for_def)

lemma few_channels:
  assumes "distinct (cs :: notification_channel option list)"
  shows "length cs \<le> 4"
proof -
  have "set cs \<subseteq> {None, Some HomeAssistantChannel, Some WebhookChannel, Some BrowserChannel}"
  proof
    fix c
    assume "c \<in> set cs"
    show "c \<in> {None, Some HomeAssistantChannel, Some WebhookChannel, Some BrowserChannel}"
    proof (cases c)
      case (Some channel)
      then show ?thesis
        by (cases channel) simp_all
    qed simp
  qed
  then have "card (set cs) \<le> card {None, Some HomeAssistantChannel, Some WebhookChannel, Some BrowserChannel}"
    by (rule card_mono [rotated]) simp
  then show ?thesis
    using assms by (simp add: distinct_card)
qed

lemma decoded_rows:
  "map (\<lambda>row. decode_json fc from_slice (json row)) rows = map Inr xs \<Longrightarrow> map (from_slice \<circ> json) rows = map Some xs"
  by (induction rows arbitrary: xs) (auto simp: decode_json_def ok_or_def split: if_splits option.splits)

lemma notification_attempts_rows:
  assumes "notification_attempts fails (nc_foreign nc) (nc_records nc) (nf_records w) event_id limit = Inr attempts"
  shows "map (Some \<circ> na_channel) attempts =
    map (\<lambda>row. map_option na_channel (rk_attempt_from_slice (nc_records nc) (at_json row)))
      (take (unat limit) (sort_key (\<lambda>row. - at_attempt_id row)
        (filter (\<lambda>row. at_event_id row = uint event_id) (rd_attempts (nf_records w)))))" (is "_ = map _ ?rows")
proof -
  have "map (rk_attempt_from_slice (nc_records nc) \<circ> at_json) ?rows = map Some attempts"
    using assms by (intro decoded_rows) (auto simp: notification_attempts_def result_elims)
  from arg_cong [OF this, of "map (map_option na_channel)"] show ?thesis
    by (simp add: comp_def)
qed

lemma notification_attempts_all:
  assumes "notification_attempts fails (nc_foreign nc) (nc_records nc) (nf_records w) event_id ATTEMPT_LOOKBACK = Inr attempts"
    and "distinct (attempts_for nc w (uint event_id))"
  shows "set (map (Some \<circ> na_channel) attempts) = set (attempts_for nc w (uint event_id))"
proof -
  have "length (filter (\<lambda>row. at_event_id row = uint event_id) (rd_attempts (nf_records w))) \<le> 4"
    using few_channels [OF assms(2)] by (simp add: attempts_for_def)
  then show ?thesis
    unfolding notification_attempts_rows [OF assms(1)] by (simp add: ATTEMPT_LOOKBACK_def attempts_for_def)
qed

lemma notification_attempts_some:
  assumes "notification_attempts fails (nc_foreign nc) (nc_records nc) (nf_records w) event_id limit = Inr attempts"
  shows "set (map (Some \<circ> na_channel) attempts) \<subseteq> set (attempts_for nc w (uint event_id))"
  unfolding notification_attempts_rows [OF assms] by (auto simp: attempts_for_def dest!: in_set_takeD)

lemma after_delivery_keeps:
  assumes "after_delivery d f = (w2, s2, r2)" and "d = (w1, s1, r1)" and "P w1 (log @ s1)"
    and "\<And>x w' s' r'. f w1 x = (w', s', r') \<Longrightarrow> P w' ((log @ s1) @ s')"
  shows "P w2 (log @ s2)"
  using assms by (cases r1) (force simp: after_delivery_def split: prod.splits)+

lemma deliver_channel_cases:
  assumes "deliver_channel nc endpoints env w event_id channel notification = (w', s', r)"
  obtains (silent) "w' = w" "s' = []" "endpoint_of endpoints channel = None"
    | (lost) e where "s' = [\<lparr>rq_event = event_id, rq_channel = channel, rq_recorded = False\<rparr>]"
        "w' = w" "r = Inl e"
    | (recorded) rec j rd where "s' = [\<lparr>rq_event = event_id, rq_channel = channel, rq_recorded = True\<rparr>]"
        "rk_attempt_to_vec (nc_records nc) rec = Some j" "na_channel rec = channel" "w' = w\<lparr>nf_records := rd\<rparr>"
        "rd_attempts rd = rd_attempts (nf_records w) @
           [\<lparr>at_attempt_id = rd_attempt_seq (nf_records w) + 1, at_event_id = uint event_id, at_json = j\<rparr>]"
proof -
  obtain outcome message where out: "attempt_outcome (de_reply env) = (outcome, message)"
    by fastforce
  show thesis
  proof (cases "endpoint_of endpoints channel = None \<or>
      (\<exists>e. transpose_option (map_option (bounded_text_new 2048 ''notification_result'') message) = Inl e)")
    case True
    then have "w' = w \<and> s' = [] \<and> endpoint_of endpoints channel = None \<or>
        w' = w \<and> s' = [\<lparr>rq_event = event_id, rq_channel = channel, rq_recorded = False\<rparr>] \<and> (\<exists>e. r = Inl e)"
      using assms(1) by (auto simp: deliver_channel_def out split: option.splits sum.splits)
    then show thesis
      by (elim disjE conjE exE) (rule silent lost; assumption)+
  next
    case False
    then obtain bounded where bounded: "transpose_option (map_option (bounded_text_new 2048 ''notification_result'') message) = Inr bounded"
      by (cases "transpose_option (map_option (bounded_text_new 2048 ''notification_result'') message)") auto
    let ?rec = "\<lparr>na_event_id = event_id, na_channel = channel, na_attempted_at = de_attempted_at env,
        na_outcome = outcome, na_message = bounded\<rparr>"
    obtain rd res where save: "record_notification_attempt (de_fails env) (nc_foreign nc) (nc_records nc) (nf_db w) (nf_records w) ?rec =
        (rd, res)"
      by fastforce
    have w': "w' = w\<lparr>nf_records := rd\<rparr>"
        "s' = [\<lparr>rq_event = event_id, rq_channel = channel, rq_recorded = (\<exists>i. res = Inr i)\<rparr>]"
        "\<And>e. res = Inl e \<Longrightarrow> r = Inl (NotifyStore e)"
      using assms(1) False bounded save by (auto simp: deliver_channel_def out split: option.splits sum.splits)
    show thesis
    proof (cases res)
      case (Inl e)
      then have "rd = nf_records w"
        using save by (auto simp: record_notification_attempt_def split: sum.splits)
      then show thesis
        using lost w' Inl by simp
    next
      case (Inr i)
      then obtain j where "rk_attempt_to_vec (nc_records nc) ?rec = Some j"
          "rd_attempts rd = rd_attempts (nf_records w) @
            [\<lparr>at_attempt_id = rd_attempt_seq (nf_records w) + 1, at_event_id = uint event_id, at_json = j\<rparr>]"
        using save by (auto simp: record_notification_attempt_def bounded_json_def result_elims split: sum.splits if_splits)
      then show thesis
        using recorded [of ?rec j rd] w' Inr by simp
    qed
  qed
qed

lemma attempts_for_recorded:
  assumes "attempt_code_ok nc" and "rk_attempt_to_vec (nc_records nc) rec = Some j"
    and "rd_attempts rd = rd_attempts (nf_records w) @
      [\<lparr>at_attempt_id = i, at_event_id = event, at_json = j\<rparr>]"
  shows "attempts_for nc (w\<lparr>nf_records := rd\<rparr>) e = attempts_for nc w e @ (if e = event then [Some (na_channel rec)] else [])"
  using assms by (simp add: attempts_for_def attempt_code_ok_def)

lemma deliver_channel_keeps:
  assumes "deliver_channel nc endpoints env w event_id channel notification = (w', s', r)"
    and "one_shot nc w sent" and "attempt_code_ok nc" and "Some channel \<notin> set (attempts_for nc w (uint event_id))"
  shows "one_shot nc w' (sent @ s')"
proof -
  have fresh: "rq_recorded r \<longrightarrow> (event_id, channel) \<noteq> (rq_event r, rq_channel r)" if "r \<in> set sent" for r
    using assms(2,4) that by (auto simp: one_shot_def)
  from assms(1) show ?thesis
  proof (cases rule: deliver_channel_cases)
    case silent
    then show ?thesis
      using assms(2) by simp
  next
    case lost
    then show ?thesis
      using assms(2) fresh by (auto simp: one_shot_def sorted_wrt_append)
  next
    case recorded
    then show ?thesis
      using assms(2,4) fresh attempts_for_recorded [OF assms(3) recorded(2,5)] by (auto simp: one_shot_def sorted_wrt_append)
  qed
qed

lemma deliver_entry_keeps:
  assumes "deliver_entry nc endpoints env w entry channel = (w', s', r)"
    and "one_shot nc w sent" and "attempt_code_ok nc"
  shows "one_shot nc w' (sent @ s')"
proof (cases "w' = w \<and> s' = []")
  case False
  then obtain attempts notification where read: "notification_attempts (de_fails env) (nc_foreign nc) (nc_records nc) (nf_records w)
        (pe_event_id entry) ATTEMPT_LOOKBACK = Inr attempts"
      "\<not> list_ex (\<lambda>attempt. na_channel attempt = channel) attempts"
    and delivered: "after_delivery (deliver_channel nc endpoints env w (pe_event_id entry) channel notification)
        (\<lambda>w _. (w, [], Inr ())) = (w', s', r)"
    using assms(1) by (auto simp: deliver_entry_def map_err_def split: sum.splits if_splits)
  have "set (map (Some \<circ> na_channel) attempts) = set (attempts_for nc w (uint (pe_event_id entry)))"
    using notification_attempts_all [OF read(1)] assms(2) by (simp add: one_shot_def)
  moreover have "Some channel \<notin> set (map (Some \<circ> na_channel) attempts)"
    using read(2) by (auto simp: list_ex_iff)
  ultimately have fresh: "Some channel \<notin> set (attempts_for nc w (uint (pe_event_id entry)))"
    by simp
  obtain w1 s1 r1 where first: "deliver_channel nc endpoints env w (pe_event_id entry) channel notification = (w1, s1, r1)"
    by (metis surj_pair)
  show ?thesis
    by (rule after_delivery_keeps [where P = "one_shot nc", OF delivered first])
      (use deliver_channel_keeps [OF first assms(2,3) fresh] in auto)
qed (use assms(2) in simp)

lemma deliver_entries_keeps:
  assumes "deliver_entries nc endpoints env channel w entries = (w', s', r)"
    and "one_shot nc w sent" and "attempt_code_ok nc"
  shows "one_shot nc w' (sent @ s')"
  using assms(1,2)
proof (induction entries arbitrary: w w' s' r sent)
  case (Cons entry entries)
  let ?env = "env (pe_outbox_id entry)"
  obtain w1 s1 r1 where first: "deliver_entry nc endpoints ?env w entry channel = (w1, s1, r1)"
    by (metis surj_pair)
  show ?case
  proof (rule after_delivery_keeps [where P = "one_shot nc", OF _ first])
    show "one_shot nc w1 (sent @ s1)"
      using deliver_entry_keeps [OF first Cons.prems(2) assms(3)] .
    then have rest: "one_shot nc w2 ((sent @ s1) @ s2)"
      if "deliver_entries nc endpoints env channel (w1\<lparr>nf_db := db\<rparr>) entries = (w2, s2, r2)" for db w2 s2 r2
      using Cons.IH [OF that, of "sent @ s1"] by simp
    fix w2 s2 r2
    assume "(case acknowledge_outbox (de_fails ?env) (nf_db w1) (pe_outbox_id entry) (de_acknowledged_at ?env) of
         (db, Inl e) \<Rightarrow> (w1\<lparr>nf_db := db\<rparr>, [], Inl (NotifyStore e))
       | (db, Inr acknowledged) \<Rightarrow>
           after_delivery (deliver_entries nc endpoints env channel (w1\<lparr>nf_db := db\<rparr>) entries)
             (\<lambda>w delivered. (w, [], Inr (if acknowledged then Suc delivered else delivered)))) = (w2, s2, r2)"
    then show "one_shot nc w2 ((sent @ s1) @ s2)"
      using \<open>one_shot nc w1 (sent @ s1)\<close> rest
      by (force simp: after_delivery_def split: prod.splits sum.splits)
  qed (use Cons.prems(1) in simp)
qed simp

lemma deliver_pending_keeps:
  assumes "deliver_pending nc endpoints env limit w = (w', s', r)"
    and "one_shot nc w sent" and "attempt_code_ok nc"
  shows "one_shot nc w' (sent @ s')"
proof -
  have destination: "one_shot nc w2 (log @ s2)"
    if "deliver_destination nc endpoints fails penv limit w1 d channel = (w2, s2, r2)" "one_shot nc w1 log"
    for fails penv w1 d channel w2 s2 and r2 :: "notification_error + nat" and log
    using that deliver_entries_keeps [OF _ that(2) assms(3)] by (auto simp: deliver_destination_def split: sum.splits)
  obtain w1 s1 r1 where first: "deliver_destination nc endpoints (ps_list_home_assistant env) (ps_entry env HomeAssistantChannel)
      limit w HomeAssistant HomeAssistantChannel = (w1, s1, r1)"
    by (metis surj_pair)
  show ?thesis
  proof (rule after_delivery_keeps [where P = "one_shot nc", OF assms(1) [unfolded deliver_pending_def] first])
    show kept: "one_shot nc w1 (sent @ s1)"
      using destination [OF first assms(2)] .
    fix x w2 s2 r2
    assume second: "after_delivery (deliver_destination nc endpoints (ps_list_webhook env) (ps_entry env WebhookChannel) limit w1
        Webhook WebhookChannel) (\<lambda>w second. (w, [], Inr (x + second))) = (w2, s2, r2)"
    obtain w3 s3 r3 where third: "deliver_destination nc endpoints (ps_list_webhook env) (ps_entry env WebhookChannel) limit w1
        Webhook WebhookChannel = (w3, s3, r3)"
      by (metis surj_pair)
    show "one_shot nc w2 ((sent @ s1) @ s2)"
      by (rule after_delivery_keeps [where P = "one_shot nc", OF second third])
        (use destination [OF third kept] in auto)
  qed
qed

interpretation notifier: logged_machine "notifier_step nc endpoints" "\<lambda>w sent. attempt_code_ok nc \<longrightarrow> one_shot nc w sent"
  for nc :: "'j notifier_code" and endpoints :: "'u notification_endpoints"
proof unfold_locales
  fix w :: "'j notifier" and sent op
  assume "attempt_code_ok nc \<longrightarrow> one_shot nc w sent"
  then show "attempt_code_ok nc \<longrightarrow>
      one_shot nc (fst (notifier_step nc endpoints w op)) (sent @ snd (notifier_step nc endpoints w op))"
  proof (cases op)
    case (Pass env limit)
    obtain w' s' r where "deliver_pending nc endpoints env limit w = (w', s', r)"
      by (metis surj_pair)
    then show ?thesis
      using deliver_pending_keeps [of nc endpoints env limit w w' s' r sent] Pass
        \<open>attempt_code_ok nc \<longrightarrow> one_shot nc w sent\<close> by simp
  qed (simp add: one_shot_def attempts_for_def)
qed

text \<open>
  C17. Webhooks are one-shot: over any number of passes of the dispatcher, whatever the other tasks write in
  between, whatever the endpoints answer and whichever statements fail, no request goes out for an event on
  a channel after the outcome of an earlier one for the same event and channel was recorded; restarts
  included, as nothing but the audit table is remembered.
\<close>
theorem webhooks_one_shot:
  assumes "attempt_code_ok nc" and "rd_attempts (nf_records w0) = []"
    and "run_machine (notifier_step nc endpoints) w0 ops = (w, sent)"
  shows "sorted_wrt (\<lambda>earlier later. rq_recorded earlier \<longrightarrow>
    (rq_event later, rq_channel later) \<noteq> (rq_event earlier, rq_channel earlier)) sent"
proof -
  have "one_shot nc w0 []"
    using assms(2) by (simp add: one_shot_def attempts_for_def)
  then have "one_shot nc w sent"
    using notifier.run_log [of nc w0 "[]" endpoints ops] assms(1,3) by simp
  then show ?thesis
    by (simp add: one_shot_def)
qed


section \<open>Acknowledged means attempted\<close>

text \<open>
  What a pass may do to the state: it adds attempts, and it acknowledges only entries whose channel is not
  configured or has a recorded attempt.
\<close>

definition row_settled :: "'j notifier_code \<Rightarrow> 'u notification_endpoints \<Rightarrow> 'j notifier \<Rightarrow> 'j outbox_row \<Rightarrow> bool" where
  "row_settled nc endpoints w row \<longleftrightarrow> (\<forall>channel. endpoint_of endpoints channel \<noteq> None \<and>
     ob_destination row = channel_name channel \<longrightarrow> Some channel \<in> set (attempts_for nc w (ob_event_id row)))"

definition settles :: "'j notifier_code \<Rightarrow> 'u notification_endpoints \<Rightarrow> 'j notifier \<Rightarrow> 'j notifier \<Rightarrow> bool" where
  "settles nc endpoints w w' \<longleftrightarrow>
     (\<exists>new. rd_attempts (nf_records w') = rd_attempts (nf_records w) @ new) \<and>
     list_all2 (\<lambda>row row'. row' = row \<or>
         (\<exists>t. row' = row\<lparr>ob_delivered_at := Some t\<rparr>) \<and> row_settled nc endpoints w' row)
       (db_outbox (nf_db w)) (db_outbox (nf_db w'))"

lemma settles_refl [simp, intro]: "settles nc endpoints w w"
  by (auto simp: settles_def intro: list_all2_refl)

lemma row_settled_mono:
  assumes "row_settled nc endpoints w row" and "rd_attempts (nf_records w') = rd_attempts (nf_records w) @ new"
  shows "row_settled nc endpoints w' row"
  using assms by (auto simp: row_settled_def attempts_for_def)

lemma row_settled_delivered [simp]: "row_settled nc endpoints w (row\<lparr>ob_delivered_at := t\<rparr>) = row_settled nc endpoints w row"
  by (simp add: row_settled_def)

lemma settles_trans:
  assumes "settles nc endpoints w w'" and "settles nc endpoints w' w''"
  shows "settles nc endpoints w w''"
proof -
  obtain new where new: "rd_attempts (nf_records w'') = rd_attempts (nf_records w') @ new"
    using assms(2) by (auto simp: settles_def)
  have "list_all2 (\<lambda>row row'. row' = row \<or>
         (\<exists>t. row' = row\<lparr>ob_delivered_at := Some t\<rparr>) \<and> row_settled nc endpoints w'' row)
       (db_outbox (nf_db w)) (db_outbox (nf_db w''))"
    by (rule list_all2_trans [OF _ conjunct2 [OF assms(1) [unfolded settles_def]] conjunct2 [OF assms(2) [unfolded settles_def]]])
      (auto dest: row_settled_mono [OF _ new])
  then show ?thesis
    using assms by (auto simp: settles_def)
qed

lemma settles_keys:
  assumes "settles nc endpoints w w'"
  shows "map (\<lambda>row. (ob_outbox_id row, ob_event_id row, ob_destination row)) (db_outbox (nf_db w')) =
    map (\<lambda>row. (ob_outbox_id row, ob_event_id row, ob_destination row)) (db_outbox (nf_db w))"
  using conjunct2 [OF assms [unfolded settles_def]] by (induction rule: list_all2_induct) auto

lemma deliver_channel_settles:
  assumes "deliver_channel nc endpoints env w event_id channel notification = (w', s', r)" and "attempt_code_ok nc"
  shows "nf_db w' = nf_db w \<and> (\<exists>new. rd_attempts (nf_records w') = rd_attempts (nf_records w) @ new) \<and>
    (\<forall>x. r = Inr x \<and> endpoint_of endpoints channel \<noteq> None \<longrightarrow> Some channel \<in> set (attempts_for nc w' (uint event_id)))"
  using assms(1)
proof (cases rule: deliver_channel_cases)
  case recorded
  then show ?thesis
    using attempts_for_recorded [OF assms(2) recorded(2,5)] by auto
qed auto

lemma deliver_entry_settles:
  assumes "deliver_entry nc endpoints env w entry channel = (w', s', r)" and "attempt_code_ok nc"
  shows "nf_db w' = nf_db w \<and> (\<exists>new. rd_attempts (nf_records w') = rd_attempts (nf_records w) @ new) \<and>
    (\<forall>x. r = Inr x \<and> endpoint_of endpoints channel \<noteq> None \<longrightarrow>
       Some channel \<in> set (attempts_for nc w' (uint (pe_event_id entry))))"
proof (cases "notification_attempts (de_fails env) (nc_foreign nc) (nc_records nc) (nf_records w) (pe_event_id entry) ATTEMPT_LOOKBACK")
  case (Inl e)
  then show ?thesis
    using assms(1) by (auto simp: deliver_entry_def map_err_def)
next
  case (Inr attempts)
  note known = notification_attempts_some [OF Inr]
  show ?thesis
  proof (cases "list_ex (\<lambda>attempt. na_channel attempt = channel) attempts")
    case True
    then have "Some channel \<in> set (map (Some \<circ> na_channel) attempts)"
      by (force simp: list_ex_iff)
    then have "Some channel \<in> set (attempts_for nc w (uint (pe_event_id entry)))"
      using known by blast
    then show ?thesis
      using assms(1) Inr True by (auto simp: deliver_entry_def map_err_def)
  next
    case False
    show ?thesis
    proof (cases "and_then (ok_or InvalidOutboxPayload (xf_event_from_slice (nc_foreign nc) (pe_payload entry)))
        (notification_for (de_fails env) nc w)")
      case (Inl e)
      then show ?thesis
        using assms(1) Inr False \<open>notification_attempts _ _ _ _ _ _ = Inr attempts\<close> by (auto simp: deliver_entry_def map_err_def)
    next
      case (Inr notification)
      obtain w1 s1 r1 where first: "deliver_channel nc endpoints env w (pe_event_id entry) channel notification = (w1, s1, r1)"
        by (metis surj_pair)
      have "w' = w1 \<and> (\<forall>x. r = Inr x \<longrightarrow> (\<exists>y. r1 = Inr y))"
        using assms(1) Inr False first \<open>notification_attempts _ _ _ _ _ _ = Inr attempts\<close>
        by (auto simp: deliver_entry_def map_err_def after_delivery_def split: sum.splits)
      then show ?thesis
        using deliver_channel_settles [OF first assms(2)] by auto
    qed
  qed
qed

text \<open>The entries of a pass name rows of the outbox.\<close>

definition names_row :: "'j db \<Rightarrow> string \<Rightarrow> 'j pending_outbox_entry \<Rightarrow> bool" where
  "names_row db destination entry \<longleftrightarrow> (\<forall>row \<in> set (db_outbox db). ob_outbox_id row = pe_outbox_id entry \<longrightarrow>
     ob_event_id row = uint (pe_event_id entry) \<and> ob_destination row = destination)"

lemma names_row_keys:
  "names_row db destination entry \<longleftrightarrow>
     (\<forall>(i, e, d) \<in> set (map (\<lambda>row. (ob_outbox_id row, ob_event_id row, ob_destination row)) (db_outbox db)).
        i = pe_outbox_id entry \<longrightarrow> e = uint (pe_event_id entry) \<and> d = destination)"
  by (auto simp: names_row_def)

lemma names_row_settles: "settles nc endpoints w w' \<Longrightarrow> names_row (nf_db w') d entry = names_row (nf_db w) d entry"
  unfolding names_row_keys by (simp add: settles_keys)

lemma acknowledge_settles:
  assumes "acknowledge_outbox fails (nf_db w) (pe_outbox_id entry) at = (db, r)"
    and "names_row (nf_db w) (channel_name channel) entry"
    and "endpoint_of endpoints channel \<noteq> None \<Longrightarrow> Some channel \<in> set (attempts_for nc w (uint (pe_event_id entry)))"
  shows "settles nc endpoints w (w\<lparr>nf_db := db\<rparr>)"
proof -
  have name: "channel_name c = channel_name d \<longleftrightarrow> c = d" for c d
    by (cases c; cases d) simp_all
  have "row_settled nc endpoints (w\<lparr>nf_db := db\<rparr>) row"
    if "row \<in> set (db_outbox (nf_db w))" "ob_outbox_id row = pe_outbox_id entry" for row
    using assms(2,3) that by (auto simp: row_settled_def names_row_def attempts_for_def name)
  then show ?thesis
    using assms(1) by (auto simp: settles_def acknowledge_outbox_def Let_def list_all2_map2 list_all2_same split: sum.splits)
qed

lemma deliver_entries_settles:
  assumes "deliver_entries nc endpoints env channel w entries = (w', s', r)" and "attempt_code_ok nc"
    and "\<forall>entry \<in> set entries. names_row (nf_db w) (channel_name channel) entry"
  shows "settles nc endpoints w w' \<and> (db_inv (nf_db w) \<longrightarrow> db_inv (nf_db w'))"
  using assms(1,3)
proof (induction entries arbitrary: w w' s' r)
  case (Cons entry entries)
  let ?env = "env (pe_outbox_id entry)"
  obtain w1 s1 r1 where first: "deliver_entry nc endpoints ?env w entry channel = (w1, s1, r1)"
    by (metis surj_pair)
  note one = deliver_entry_settles [OF first assms(2)]
  have step: "settles nc endpoints w w1"
    using one by (auto simp: settles_def intro: list_all2_refl)
  show ?case
  proof (cases r1)
    case (Inl e)
    then show ?thesis
      using Cons.prems(1) first step one by (simp add: after_delivery_def)
  next
    case (Inr u)
    obtain db a where ack: "acknowledge_outbox (de_fails ?env) (nf_db w1) (pe_outbox_id entry) (de_acknowledged_at ?env) = (db, a)"
      by fastforce
    have acked: "settles nc endpoints w1 (w1\<lparr>nf_db := db\<rparr>)"
    proof (rule acknowledge_settles [OF ack])
      show "names_row (nf_db w1) (channel_name channel) entry"
        using Cons.prems(2) one by simp
    qed (use one Inr in auto)
    note so_far = settles_trans [OF step acked]
    have inv: "db_inv (nf_db w) \<longrightarrow> db_inv db"
      using acknowledge_outbox_advances [OF ack] one by (auto simp: db_advances_def)
    show ?thesis
    proof (cases a)
      case (Inl e)
      then show ?thesis
        using Cons.prems(1) first Inr ack so_far inv \<open>r1 = Inr u\<close> by (auto simp: after_delivery_def)
    next
      case (Inr b)
      obtain w2 s2 r2 where rest: "deliver_entries nc endpoints env channel (w1\<lparr>nf_db := db\<rparr>) entries = (w2, s2, r2)"
        by (metis surj_pair)
      have "settles nc endpoints (w1\<lparr>nf_db := db\<rparr>) w2 \<and> (db_inv db \<longrightarrow> db_inv (nf_db w2))"
        using Cons.IH [OF rest] Cons.prems(2) names_row_settles [OF so_far] by simp
      moreover have "w' = w2"
        using Cons.prems(1) first ack rest Inr \<open>r1 = Inr u\<close> by (auto simp: after_delivery_def split: sum.splits)
      ultimately show ?thesis
        using settles_trans [OF so_far] inv by simp
    qed
  qed
qed simp

lemma pending_names_rows:
  assumes "pending_outbox_matching fails db (Some destination) limit = Inr entries" and "db_inv db"
    and "entry \<in> set entries"
  shows "names_row db (destination_as_str destination) entry"
proof -
  let ?rows = "take (unat limit) (filter (\<lambda>row. ob_delivered_at row = None \<and>
      ob_destination row = destination_as_str destination) (db_outbox db))"
  let ?entry = "\<lambda>row. map_ok (\<lambda>event_id. \<lparr>pe_outbox_id = ob_outbox_id row, pe_event_id = event_id,
      pe_destination = ob_destination row, pe_payload = ob_payload row\<rparr>)
    (ok_or (CorruptValue ''negative event ID'') (u64_of_i64 (ob_event_id row)))"
  have "map ?entry ?rows = map Inr entries"
    using assms(1) by (auto simp: pending_outbox_matching_def result_elims split: if_splits)
  moreover have "Inr entry \<in> set (map Inr entries :: (store_error + 'a pending_outbox_entry) list)"
    using assms(3) by simp
  ultimately have "Inr entry \<in> set (map ?entry ?rows)"
    by metis
  then obtain row where "row \<in> set ?rows" "Inr entry = ?entry row"
    by auto
  then have row: "row \<in> set (db_outbox db)" "ob_destination row = destination_as_str destination"
      "ob_outbox_id row = pe_outbox_id entry" "0 \<le> ob_event_id row" "pe_event_id entry = word_of_int (ob_event_id row)"
    by (auto simp: u64_of_i64_def ok_or_def map_ok_def dest!: in_set_takeD split: if_splits option.splits)
  have "ob_event_id row \<in> fst ` set (db_transitions db)"
    using assms(2) row(1) by (auto simp: db_inv_def outbox_inv_def)
  then have "ob_event_id row \<le> i64_max"
    using assms(2) by (auto simp: db_inv_def transitions_inv_def)
  then have "uint (pe_event_id entry) = ob_event_id row"
    using row(4,5) by (simp add: i64_max_def uint_word_of_int)
  moreover have "row' = row" if "row' \<in> set (db_outbox db)" "ob_outbox_id row' = pe_outbox_id entry" for row'
  proof -
    have "distinct (map ob_outbox_id (db_outbox db))"
      using assms(2) by (auto simp: db_inv_def outbox_inv_def strict_sorted_iff)
    then show ?thesis
      using that row(1,3) by (metis distinct_map inj_onD)
  qed
  ultimately show ?thesis
    using row(2) by (auto simp: names_row_def)
qed

text \<open>
  C18. Nothing is acknowledged unattempted: whatever fails and whatever the endpoints answer in a pass, an
  entry of the outbox that the pass marks as delivered belongs to a channel without an endpoint, or the
  outcome of a request for its event on its channel is in the audit table; every other entry is untouched,
  and no attempt is ever removed.
\<close>
theorem acknowledged_means_attempted:
  assumes "deliver_pending nc endpoints env limit w = (w', sent, r)" and "attempt_code_ok nc" and "db_inv (nf_db w)"
  shows "settles nc endpoints w w'"
proof -
  have destination: "settles nc endpoints w1 w2 \<and> db_inv (nf_db w2)"
    if "deliver_destination nc endpoints fails penv limit w1 d channel = (w2, s2, r2)" "db_inv (nf_db w1)"
      "destination_as_str d = channel_name channel"
    for fails penv w1 d channel w2 s2 and r2 :: "notification_error + nat"
  proof (cases "pending_outbox_matching fails (nf_db w1) (Some d) limit")
    case (Inr entries)
    then have "deliver_entries nc endpoints penv channel w1 entries = (w2, s2, r2)"
      using that(1) by (simp add: deliver_destination_def)
    then show ?thesis
      using deliver_entries_settles [OF _ assms(2)] pending_names_rows [OF Inr that(2)] that(2,3) by fastforce
  qed (use that in \<open>auto simp: deliver_destination_def\<close>)
  obtain w1 s1 r1 where first: "deliver_destination nc endpoints (ps_list_home_assistant env) (ps_entry env HomeAssistantChannel)
      limit w HomeAssistant HomeAssistantChannel = (w1, s1, r1)"
    by (metis surj_pair)
  obtain w2 s2 r2 where second: "deliver_destination nc endpoints (ps_list_webhook env) (ps_entry env WebhookChannel)
      limit w1 Webhook WebhookChannel = (w2, s2, r2)"
    by (metis surj_pair)
  have one: "settles nc endpoints w w1 \<and> db_inv (nf_db w1)"
    using destination [OF first assms(3)] by simp
  then have two: "settles nc endpoints w1 w2"
    using destination [OF second] by simp
  have "w' = w1 \<or> w' = w2"
    using assms(1) first second
    by (auto simp: deliver_pending_def after_delivery_def split: sum.splits prod.splits)
  then show ?thesis
    using one settles_trans [OF _ two] by blast
qed

section \<open>A concrete dispatcher\<close>

datatype notify_doc = EventJson domain_event | AttemptJson notification_attempt_record

fun event_of_json :: "notify_doc \<Rightarrow> domain_event option" where
  "event_of_json (EventJson event) = Some event"
| "event_of_json (AttemptJson _) = None"

fun attempt_of_json :: "notify_doc \<Rightarrow> notification_attempt_record option" where
  "attempt_of_json (AttemptJson rec) = Some rec"
| "attempt_of_json (EventJson _) = None"

definition notify_code :: "notify_doc notifier_code" where
  "notify_code = \<lparr>nc_foreign = \<lparr>xf_new_v5 = \<lambda>_ _. 7, xf_namespace_url = 0, xf_json_len = \<lambda>_. 200,
       xf_observation_to_vec = \<lambda>_. None, xf_snapshot_to_vec = \<lambda>_. None, xf_event_to_vec = Some \<circ> EventJson,
       xf_saga_to_vec = \<lambda>_. None, xf_snapshot_from_slice = \<lambda>_. None, xf_event_from_slice = event_of_json,
       xf_saga_from_slice = \<lambda>_. None\<rparr>,
     nc_records = \<lparr>rk_watch_to_vec = \<lambda>_. None, rk_watch_from_slice = \<lambda>_. None, rk_activity_to_vec = \<lambda>_. None,
       rk_activity_from_slice = \<lambda>_. None, rk_cursor_to_vec = \<lambda>_. None, rk_cursor_from_slice = \<lambda>_. None,
       rk_deadline_to_vec = \<lambda>_. None, rk_deadline_from_slice = \<lambda>_. None, rk_health_to_vec = \<lambda>_. None,
       rk_health_from_slice = \<lambda>_. None, rk_health_set_version = \<lambda>_ j. j, rk_attempt_to_vec = Some \<circ> AttemptJson,
       rk_attempt_from_slice = attempt_of_json\<rparr>\<rparr>"

definition alert_event :: domain_event where
  "alert_event = \<lparr>ev_id = 1, ev_root = MainSessionId (SessionId 7), ev_subject = MainIdentity (MainSessionId (SessionId 7)),
     ev_occurred_at = 5, ev_kind = AlertDue\<rparr>"

definition alert_row :: "notify_doc outbox_row" where
  "alert_row = \<lparr>ob_outbox_id = 1, ob_event_id = 1, ob_destination = ''webhook'', ob_payload = EventJson alert_event,
     ob_delivered_at = None\<rparr>"

definition alert_db :: "notify_doc db" where
  "alert_db = empty_db\<lparr>db_sessions := [(SessionId 7, \<lparr>sr_kind = ''main'', sr_root = SessionId 7, sr_runtime = ''codex_cli'',
       sr_native_id = ''a'', sr_created_at = 5, sr_updated_at = 5\<rparr>)],
     db_transitions := [(1, \<lparr>tr_root = SessionId 7, tr_subject = SessionId 7, tr_occurred_at = 5, tr_json = EventJson alert_event\<rparr>)],
     db_outbox_seq := 1, db_outbox := [alert_row]\<rparr>"

definition alert_notifier :: "notify_doc notifier" where
  "alert_notifier = \<lparr>nf_db = alert_db, nf_records = empty_records\<rparr>"

definition only_webhook :: "unit notification_endpoints" where
  "only_webhook = \<lparr>ne_home_assistant = None, ne_webhook = Some ()\<rparr>"

definition pass_with :: "sqlite \<Rightarrow> pass_env" where
  "pass_with fails = \<lparr>ps_list_home_assistant = \<lambda>_. False, ps_list_webhook = \<lambda>_. False,
     ps_entry = \<lambda>_ _. \<lparr>de_fails = fails, de_reply = HttpStatus 204, de_attempted_at = 6, de_acknowledged_at = 7\<rparr>\<rparr>"

definition audited :: "notify_doc records_db" where
  "audited = empty_records\<lparr>rd_attempt_seq := 1, rd_attempts := [\<lparr>at_attempt_id = 1, at_event_id = 1,
     at_json = AttemptJson \<lparr>na_event_id = 1, na_channel = WebhookChannel, na_attempted_at = 6,
       na_outcome = NotificationDelivered, na_message = None\<rparr>\<rparr>]\<rparr>"

lemma alert_session: "stored_session_of fails (nc_foreign notify_code) alert_db (MainIdentity (MainSessionId (SessionId 7))) =
  (if fails (Statement ''select session'') then Inl Sqlx
   else Inr (Some \<lparr>st_session = MainIdentity (MainSessionId (SessionId 7)), st_root = MainSessionId (SessionId 7),
     st_native = \<lparr>nk_runtime = CodexCli, nk_native_id = ''a''\<rparr>\<rparr>))"
proof -
  have "native_session_key_new CodexCli ''a'' = Inr \<lparr>nk_runtime = CodexCli, nk_native_id = ''a''\<rparr>"
    by (simp add: native_session_key_new_Inr_iff native_key_wf_def MAX_NATIVE_ID_BYTES_def)
  then show ?thesis
    by (simp add: stored_session_of_def run_sql_def alert_db_def transpose_option_def decode_session_row_def
        runtime_from_str.simps Let_def session_id_from_native_def uuid_v5_parts_def notify_code_def)
qed

lemma alert_metadata: "session_metadata fails alert_db empty_records (MainIdentity (MainSessionId (SessionId 7))) =
  (if fails (Statement ''select metadata'') then Inl Sqlx
   else Inr (Some \<lparr>mt_session = MainIdentity (MainSessionId (SessionId 7)), mt_title = None, mt_startup_directory = None,
     mt_repository_remote = None, mt_branch = None, mt_pull_request_number = None, mt_pull_request_url = None, mt_updated_at = 5\<rparr>))"
  by (simp add: session_metadata_def run_sql_def alert_db_def transpose_option_def decode_session_metadata_def metadata_of_def
      empty_records_def null_metadata_def session_metadata_record_new_def optional_bounded_def)

lemma alert_notification:
  assumes "\<not> fails (Statement ''select session'')" "\<not> fails (Statement ''select metadata'')"
  shows "\<exists>n. notification_for fails notify_code alert_notifier alert_event = Inr n"
  using assms by (simp add: notification_for_def alert_notifier_def alert_event_def alert_session alert_metadata Let_def
      human_notification_new_def bounded_text_new_def fallback_title_def file_name_def path_components_def List.map_filter_def)

theorem notification_always_builds_witness:
  "\<exists>n. notification_for (\<lambda>_. False) notify_code alert_notifier alert_event = Inr n \<and>
     hn_issue n = ''Session requires attention''"
proof -
  let ?session = "MainIdentity (MainSessionId (SessionId 7))"
  have stored: "stored_session_of (\<lambda>_. False) (nc_foreign notify_code) (nf_db alert_notifier) (MainIdentity (ev_root alert_event)) =
      Inr (Some \<lparr>st_session = ?session, st_root = MainSessionId (SessionId 7), st_native = \<lparr>nk_runtime = CodexCli, nk_native_id = ''a''\<rparr>\<rparr>)"
    by (simp add: alert_notifier_def alert_event_def alert_session)
  have metadata: "session_metadata (\<lambda>_. False) (nf_db alert_notifier) (nf_records alert_notifier) (MainIdentity (ev_root alert_event)) =
      Inr (Some \<lparr>mt_session = ?session, mt_title = None, mt_startup_directory = None,
        mt_repository_remote = None, mt_branch = None, mt_pull_request_number = None, mt_pull_request_url = None, mt_updated_at = 5\<rparr>)"
    by (simp add: alert_notifier_def alert_event_def alert_metadata)
  show ?thesis
    using notification_always_builds [OF stored metadata] by (auto simp: file_name_def path_components_def List.map_filter_def alert_event_def)
qed

lemma alert_pass:
  assumes "\<not> fails (Statement ''select session'')" "\<not> fails (Statement ''select metadata'')"
    "\<not> fails (Statement ''select attempts'')" "\<not> fails (Statement ''insert attempt'')"
  shows "deliver_pending notify_code only_webhook (pass_with fails) 10 alert_notifier =
    (if fails UpdateOutbox then (\<lparr>nf_db = alert_db, nf_records = audited\<rparr>,
       [\<lparr>rq_event = 1, rq_channel = WebhookChannel, rq_recorded = True\<rparr>], Inl (NotifyStore Sqlx))
     else (\<lparr>nf_db = alert_db\<lparr>db_outbox := [alert_row\<lparr>ob_delivered_at := Some 7\<rparr>]\<rparr>, nf_records = audited\<rparr>,
       [\<lparr>rq_event = 1, rq_channel = WebhookChannel, rq_recorded = True\<rparr>], Inr 1))"
proof -
  obtain n where n: "notification_for fails notify_code alert_notifier alert_event = Inr n"
    using alert_notification [OF assms(1,2)] by blast
  have listed: "pending_outbox_matching (\<lambda>_. False) alert_db (Some HomeAssistant) 10 = Inr []"
    "pending_outbox_matching (\<lambda>_. False) alert_db (Some Webhook) 10 = Inr [\<lparr>pe_outbox_id = 1, pe_event_id = 1,
       pe_destination = ''webhook'', pe_payload = EventJson alert_event\<rparr>]"
    by (simp_all add: pending_outbox_matching_def run_sql_def alert_db_def alert_row_def u64_of_i64_def)
  have none: "notification_attempts fails (nc_foreign notify_code) (nc_records notify_code) empty_records 1 ATTEMPT_LOOKBACK = Inr []"
    using assms(3) by (simp add: notification_attempts_def validate_limit_def ATTEMPT_LOOKBACK_def sqlite_integer_def
        i64_of_u64_def i64_max_def run_sql_def empty_records_def)
  have recorded: "record_notification_attempt fails (nc_foreign notify_code) (nc_records notify_code) alert_db empty_records
      \<lparr>na_event_id = 1, na_channel = WebhookChannel, na_attempted_at = 6, na_outcome = NotificationDelivered, na_message = None\<rparr> =
      (audited, Inr 1)"
    using assms(4) by (simp add: record_notification_attempt_def bounded_json_def notify_code_def MAX_RECORD_BYTES_def
        sqlite_integer_def i64_of_u64_def i64_max_def run_sql_def empty_records_def alert_db_def audited_def)
  have decoded: "xf_event_from_slice (nc_foreign notify_code) (EventJson alert_event) = Some alert_event"
    by (simp add: notify_code_def)
  have parts: "nf_db alert_notifier = alert_db" "nf_records alert_notifier = empty_records"
    by (simp_all add: alert_notifier_def)
  show ?thesis
    using n
    by (simp add: deliver_pending_def deliver_destination_def pass_with_def parts listed after_delivery_def deliver_entry_def
        none decoded deliver_channel_def only_webhook_def recorded transpose_option_def)
      (simp add: alert_notifier_def acknowledge_outbox_def run_sql_def alert_db_def alert_row_def)
qed

theorem webhooks_one_shot_witness:
  "\<exists>w. run_machine (notifier_step notify_code only_webhook) alert_notifier
       [Pass (pass_with (\<lambda>st. st = UpdateOutbox)) 10, Pass (pass_with (\<lambda>_. False)) 10] =
     (w, [\<lparr>rq_event = 1, rq_channel = WebhookChannel, rq_recorded = True\<rparr>]) \<and>
   sorted_wrt (\<lambda>earlier later. rq_recorded earlier \<longrightarrow>
     (rq_event later, rq_channel later) \<noteq> (rq_event earlier, rq_channel earlier))
     (snd (run_machine (notifier_step notify_code only_webhook) alert_notifier
       [Pass (pass_with (\<lambda>st. st = UpdateOutbox)) 10, Pass (pass_with (\<lambda>_. False)) 10]))"
proof -
  let ?ops = "[Pass (pass_with (\<lambda>st. st = UpdateOutbox)) 10, Pass (pass_with (\<lambda>_. False)) 10]"
  let ?w1 = "\<lparr>nf_db = alert_db, nf_records = audited\<rparr>"
  have code: "attempt_code_ok notify_code"
    by (simp add: attempt_code_ok_def notify_code_def)
  have start: "rd_attempts (nf_records alert_notifier) = []"
    by (simp add: alert_notifier_def empty_records_def)
  have listed: "pending_outbox_matching (\<lambda>_. False) alert_db (Some HomeAssistant) 10 = Inr []"
    "pending_outbox_matching (\<lambda>_. False) alert_db (Some Webhook) 10 = Inr [\<lparr>pe_outbox_id = 1, pe_event_id = 1,
       pe_destination = ''webhook'', pe_payload = EventJson alert_event\<rparr>]"
    by (simp_all add: pending_outbox_matching_def run_sql_def alert_db_def alert_row_def u64_of_i64_def)
  have known: "notification_attempts (\<lambda>_. False) (nc_foreign notify_code) (nc_records notify_code) audited 1 ATTEMPT_LOOKBACK =
      Inr [\<lparr>na_event_id = 1, na_channel = WebhookChannel, na_attempted_at = 6, na_outcome = NotificationDelivered, na_message = None\<rparr>]"
    by (simp add: notification_attempts_def validate_limit_def ATTEMPT_LOOKBACK_def sqlite_integer_def
        i64_of_u64_def i64_max_def run_sql_def audited_def decode_json_def MAX_RECORD_BYTES_def notify_code_def)
  have first: "deliver_pending notify_code only_webhook (pass_with (\<lambda>st. st = UpdateOutbox)) 10 alert_notifier =
      (?w1, [\<lparr>rq_event = 1, rq_channel = WebhookChannel, rq_recorded = True\<rparr>], Inl (NotifyStore Sqlx))"
    by (simp add: alert_pass)
  obtain w r where second: "deliver_pending notify_code only_webhook (pass_with (\<lambda>_. False)) 10 ?w1 = (w, [], r)"
    by (simp add: deliver_pending_def deliver_destination_def pass_with_def listed after_delivery_def deliver_entry_def
        known acknowledge_outbox_def run_sql_def Let_def)
  have run: "run_machine (notifier_step notify_code only_webhook) alert_notifier ?ops =
      (w, [\<lparr>rq_event = 1, rq_channel = WebhookChannel, rq_recorded = True\<rparr>])"
    by (simp add: prod_eq_iff first second)
  show ?thesis
    using webhooks_one_shot [OF code start run] run by auto
qed

theorem acknowledged_means_attempted_witness:
  "settles notify_code only_webhook alert_notifier
     \<lparr>nf_db = alert_db\<lparr>db_outbox := [alert_row\<lparr>ob_delivered_at := Some 7\<rparr>]\<rparr>, nf_records = audited\<rparr>"
proof -
  have "deliver_pending notify_code only_webhook (pass_with (\<lambda>_. False)) 10 alert_notifier =
      (\<lparr>nf_db = alert_db\<lparr>db_outbox := [alert_row\<lparr>ob_delivered_at := Some 7\<rparr>]\<rparr>, nf_records = audited\<rparr>,
       [\<lparr>rq_event = 1, rq_channel = WebhookChannel, rq_recorded = True\<rparr>], Inr 1)"
    by (simp add: alert_pass)
  moreover have "attempt_code_ok notify_code"
    by (simp add: attempt_code_ok_def notify_code_def)
  moreover have "db_inv (nf_db alert_notifier)"
    by (simp add: alert_notifier_def alert_db_def alert_row_def db_inv_defs empty_db_def btree_wf_def i64_max_def)
  ultimately show ?thesis
    by (rule acknowledged_means_attempted)
qed

end
