(* ===== verification/Process_Monitor.thy ===== *)
theory Process_Monitor
  imports Agent_Guarantees Procfs
begin

text \<open>
  The process monitor of \<open>crates/watchdog-server/src/process_monitor.rs\<close>: it samples the process tree of
  every session with a known process identity, compares it with the tree of the previous pass, and submits
  what grew as progress of the session. The trait \<open>ProcessTreeSampler\<close> is a function from roots to trees;
  its implementation is the sampler of \<open>Procfs\<close>.
\<close>

section \<open>Model\<close>

definition MAX_SESSIONS_PER_KIND :: u32 where
  "MAX_SESSIONS_PER_KIND = 1000"

definition PROCESS_ADAPTER_VERSION :: string where
  "PROCESS_ADAPTER_VERSION = ''linux-procfs-v1''"

type_synonym sampled_trees = "(process_id, unit + process_tree_snapshot) btree_map"

type_synonym tree_sampler = "process_identity list \<Rightarrow> unit + sampled_trees"

definition procfs_trees ::
  "linux_process_sampler \<Rightarrow> procfs \<Rightarrow> (process_identity \<Rightarrow> procfs) \<Rightarrow> (process_identity \<Rightarrow> procfs) \<Rightarrow> tree_sampler" where
  "procfs_trees sampler fs_table fs_root fs roots =
     map_err (\<lambda>_. ()) (map_ok (map (\<lambda>(pid, tree). (pid, map_err (\<lambda>_. ()) tree)))
       (sample_trees sampler fs_table fs_root fs roots))"

record process_monitor_report =
  mr_monitored_sessions :: u32
  mr_progressed_sessions :: u32
  mr_warning_count :: u32

definition empty_report :: process_monitor_report where
  "empty_report = \<lparr>mr_monitored_sessions = 0, mr_progressed_sessions = 0, mr_warning_count = 0\<rparr>"

definition count_monitored :: "process_monitor_report \<Rightarrow> process_monitor_report" where
  "count_monitored report = report\<lparr>mr_monitored_sessions := saturating_add (mr_monitored_sessions report) 1\<rparr>"

definition count_progressed :: "process_monitor_report \<Rightarrow> process_monitor_report" where
  "count_progressed report = report\<lparr>mr_progressed_sessions := saturating_add (mr_progressed_sessions report) 1\<rparr>"

definition count_warning :: "process_monitor_report \<Rightarrow> process_monitor_report" where
  "count_warning report = report\<lparr>mr_warning_count := saturating_add (mr_warning_count report) 1\<rparr>"

datatype process_monitor_error =
    MonitorSampler | SamplerTask | MonitorDomain domain_input_error | MonitorObservation observation_error
  | MonitorStore store_error | MonitorAgentApi agent_api_error

record 'j process_monitor =
  pn_agent :: "'j agent"
  pn_previous :: "session_id \<rightharpoonup> process_tree_snapshot"

fun activity_summary :: "activity_strength \<Rightarrow> string option" where
  "activity_summary StrongCpu = Some ''All four CPU times grew versus the previous process snapshot''"
| "activity_summary ActivityEvidence = Some ''Correlated process CPU, I/O, or child-process activity advanced''"
| "activity_summary Neutral = None"

definition process_event_key :: "'j agent_code \<Rightarrow> native_session_key \<Rightarrow> time_point \<Rightarrow> process_activity \<Rightarrow> string" where
  "process_event_key gc native observed_at activity =
     gc_show gc (session_id_from_native (xf_new_v5 (gc_foreign gc)) (xf_namespace_url (gc_foreign gc)) native) @ '':'' @
     print_int (wall_time observed_at) @ '':'' @ print_nat (unat (monotonic_ms observed_at)) @ '':'' @
     print_nat (unat (user_ticks (pa_cpu activity))) @ '':'' @ print_nat (unat (system_ticks (pa_cpu activity))) @ '':'' @
     print_nat (unat (children_user_ticks (pa_cpu activity))) @ '':'' @
     print_nat (unat (children_system_ticks (pa_cpu activity))) @ '':'' @
     print_nat (unat (pa_new_processes activity))"

definition process_observation ::
  "'j agent_code \<Rightarrow> native_session_key \<Rightarrow> time_point \<Rightarrow> process_activity \<Rightarrow> string \<Rightarrow>
     process_monitor_error + observation_envelope" where
  "process_observation gc native observed_at activity summary =
     and_then (map_err MonitorDomain (adapter_identity_new (nk_runtime native) PROCESS_ADAPTER_VERSION)) (\<lambda>adapter.
     and_then (map_err MonitorDomain (observation_source_new adapter ''process:tree-delta'' Corroborating None)) (\<lambda>source.
     and_then (map_err MonitorDomain (observation_id_from_native (xf_new_v5 (gc_foreign gc))
         (xf_namespace_url (gc_foreign gc)) (nk_runtime native) ''process-tree''
         (process_event_key gc native observed_at activity))) (\<lambda>oid.
     and_then (map_err MonitorDomain (bounded_text_new 2048 ''progress'' summary)) (\<lambda>summary.
       map_err MonitorObservation (observation_envelope_new oid native observed_at source (Progress summary))))))"

definition replace_previous ::
  "'j process_monitor \<Rightarrow> session_id \<Rightarrow> process_tree_snapshot \<Rightarrow> 'j process_monitor \<times> process_activity option" where
  "replace_previous m session current =
     (m\<lparr>pn_previous := (pn_previous m)(session \<mapsto> current)\<rparr>,
      case pn_previous m session of
        None \<Rightarrow> None
      | Some before \<Rightarrow> if pts_root before = pts_root current then Some (activity_since current before) else None)"

definition remove_previous :: "'j process_monitor \<Rightarrow> session_id \<Rightarrow> 'j process_monitor" where
  "remove_previous m session = m\<lparr>pn_previous := (pn_previous m)(session := None)\<rparr>"

definition save_diagnostic ::
  "sqlite \<Rightarrow> 'j agent_code \<Rightarrow> 'j agent \<Rightarrow> session_identity \<Rightarrow> process_activity \<Rightarrow> wall_time_ms \<Rightarrow>
     'j agent \<times> (store_error + unit)" where
  "save_diagnostic fails gc a session activity now =
     (case save_latest_activity fails (gc_foreign gc) (gc_records gc) (ga_db a) (ga_records a)
        \<lparr>sm_session = session, sm_observed_at = now,
         sm_evidence = ProcessCpu (user_ticks (pa_cpu activity)) (system_ticks (pa_cpu activity))
           (children_user_ticks (pa_cpu activity)) (children_system_ticks (pa_cpu activity))\<rparr> of
        (rd, r) \<Rightarrow> (a\<lparr>ga_records := rd\<rparr>, r))"

text \<open>
  What surrounds a pass: the SQLite failures of its readings, the sampler and whether its blocking task
  was joined, and for each session the failures and instants of its part of the loop. A pass returns its
  state, the sessions it credited with activity, and its result, \<open>None\<close> while a submission is waiting.
\<close>

record credit_env =
  ce_fails :: sqlite
  ce_sampled_at :: wall_time_ms
  ce_request :: request_env

record monitor_pass =
  mp_list :: sqlite
  mp_snapshot :: "session_identity \<Rightarrow> sqlite"
  mp_sampler :: tree_sampler
  mp_joined :: bool
  mp_credit :: "session_id \<Rightarrow> credit_env"

type_synonym credit = "stored_session_record \<times> process_activity"

type_synonym ('j, 'a) monitored = "'j process_monitor \<times> credit list \<times> (process_monitor_error + 'a) option"

text \<open>The first loop: the sessions with a process identity.\<close>

fun monitored_sessions ::
  "(session_identity \<Rightarrow> sqlite) \<Rightarrow> 'j agent_code \<Rightarrow> 'j agent \<Rightarrow> process_monitor_report \<Rightarrow> stored_session_record list \<Rightarrow>
     process_monitor_error + process_monitor_report \<times> (stored_session_record \<times> process_identity) list" where
  "monitored_sessions fails gc a report [] = Inr (report, [])"
| "monitored_sessions fails gc a report (rec # recs) =
     and_then (map_err MonitorStore (load_snapshot (fails (st_session rec)) (gc_foreign gc) (ga_db a) (st_session rec)))
       (\<lambda>stored. case Option.bind stored su_reducer_snapshot of
          None \<Rightarrow> monitored_sessions fails gc a (count_warning report) recs
        | Some reducer \<Rightarrow>
            (case ss_process_identity reducer of
               None \<Rightarrow> monitored_sessions fails gc a report recs
             | Some identity \<Rightarrow>
                 map_ok (apsnd ((#) (rec, identity))) (monitored_sessions fails gc a (count_monitored report) recs)))"

text \<open>The second loop, for one session.\<close>

definition monitor_session ::
  "'j agent_code \<Rightarrow> credit_env \<Rightarrow> sampled_trees \<Rightarrow> 'j process_monitor \<Rightarrow> process_monitor_report \<Rightarrow>
     stored_session_record \<times> process_identity \<Rightarrow> ('j, process_monitor_report) monitored" where
  "monitor_session gc env trees m report entry =
     (let (rec, identity) = entry; session = identity_session_id (st_session rec) in
      case map_of trees (pi_pid identity) of
        Some (Inr current) \<Rightarrow>
          (case replace_previous m session current of
             (m, None) \<Rightarrow> (m, [], Some (Inr report))
           | (m, Some activity) \<Rightarrow>
               if pa_uncertainties activity \<noteq> {} then (m, [], Some (Inr (count_warning report)))
               else
                 (case save_diagnostic (ce_fails env) gc (pn_agent m) (st_session rec) activity (ce_sampled_at env) of
                    (a, Inl e) \<Rightarrow> (m\<lparr>pn_agent := a\<rparr>, [], Some (Inr (count_warning report)))
                  | (a, Inr _) \<Rightarrow>
                      (case activity_summary (pa_strength activity) of
                         None \<Rightarrow> (m\<lparr>pn_agent := a\<rparr>, [], Some (Inr report))
                       | Some summary \<Rightarrow>
                           (case process_observation gc (st_native rec) (rq_now (ce_request env)) activity summary of
                              Inl e \<Rightarrow> (m\<lparr>pn_agent := a\<rparr>, [], Some (Inl e))
                            | Inr observation \<Rightarrow>
                                (case ingest_native_observation gc (ce_request env) a observation of
                                   (a, None) \<Rightarrow> (m\<lparr>pn_agent := a\<rparr>, [(rec, activity)], None)
                                 | (a, Some (Inl e)) \<Rightarrow> (m\<lparr>pn_agent := a\<rparr>, [(rec, activity)], Some (Inr (count_warning report)))
                                 | (a, Some (Inr _)) \<Rightarrow> (m\<lparr>pn_agent := a\<rparr>, [(rec, activity)], Some (Inr (count_progressed report))))))))
      | _ \<Rightarrow> (remove_previous m session, [], Some (Inr (count_warning report))))"

fun monitor_sessions ::
  "'j agent_code \<Rightarrow> (session_id \<Rightarrow> credit_env) \<Rightarrow> sampled_trees \<Rightarrow> 'j process_monitor \<Rightarrow> process_monitor_report \<Rightarrow>
     (stored_session_record \<times> process_identity) list \<Rightarrow> ('j, process_monitor_report) monitored" where
  "monitor_sessions gc env trees m report [] = (m, [], Some (Inr report))"
| "monitor_sessions gc env trees m report (entry # entries) =
     (case monitor_session gc (env (identity_session_id (st_session (fst entry)))) trees m report entry of
        (m, credits, Some (Inr report)) \<Rightarrow>
          (case monitor_sessions gc env trees m report entries of (m, credits', r) \<Rightarrow> (m, credits @ credits', r))
      | stopped \<Rightarrow> stopped)"

definition listed_sessions :: "sqlite \<Rightarrow> 'j agent_code \<Rightarrow> 'j agent \<Rightarrow> store_error + stored_session_record list" where
  "listed_sessions fails gc a =
     and_then (sessions_by_kind fails (gc_foreign gc) (ga_db a) MainKind MAX_SESSIONS_PER_KIND) (\<lambda>mains.
       map_ok (append mains) (sessions_by_kind fails (gc_foreign gc) (ga_db a) ChildKind MAX_SESSIONS_PER_KIND))"

definition monitor_reconcile_processes ::
  "'j agent_code \<Rightarrow> monitor_pass \<Rightarrow> 'j process_monitor \<Rightarrow> ('j, process_monitor_report) monitored" where
  "monitor_reconcile_processes gc env m =
     (case and_then (map_err MonitorStore (listed_sessions (mp_list env) gc (pn_agent m)))
        (monitored_sessions (mp_snapshot env) gc (pn_agent m) empty_report) of
        Inl e \<Rightarrow> (m, [], Some (Inl e))
      | Inr (report, entries) \<Rightarrow>
          if entries = [] then (m, [], Some (Inr report))
          else if \<not> mp_joined env then (m, [], Some (Inl SamplerTask))
          else (case mp_sampler env (map snd entries) of
                  Inl _ \<Rightarrow> (m, [], Some (Inl MonitorSampler))
                | Inr trees \<Rightarrow> monitor_sessions gc (mp_credit env) trees m report entries))"

section \<open>What a pass credits\<close>

text \<open>The process identity a session has in the store.\<close>

definition stored_process :: "'j agent_code \<Rightarrow> 'j agent \<Rightarrow> stored_session_record \<Rightarrow> process_identity \<Rightarrow> bool" where
  "stored_process gc a rec identity \<longleftrightarrow> (\<exists>fails stored reducer.
     load_snapshot fails (gc_foreign gc) (ga_db a) (st_session rec) = Inr (Some stored) \<and>
     su_reducer_snapshot stored = Some reducer \<and> ss_process_identity reducer = Some identity)"

lemma decoded_keys:
  assumes "map (\<lambda>row. decode_session_row fc row None) rows = map Inr recs"
  shows "map lane_key recs = map fst rows"
proof -
  have "lane_key rec = fst row" if "decode_session_row fc row None = Inr rec" for row rec
    using that by (cases row) (auto simp: lane_key_def decode_session_row_def result_elims Let_def split: if_splits)
  then show ?thesis
    using assms by (induction rows arbitrary: recs) (auto simp: Cons_eq_map_conv)
qed

lemma sessions_by_kind_keys:
  assumes "sessions_by_kind fails fc db kind limit = Inr recs" and "distinct (map fst (db_sessions db))"
  shows "distinct (map lane_key recs) \<and>
    (\<forall>k \<in> set (map lane_key recs). \<exists>row. (k, row) \<in> set (db_sessions db) \<and> sr_kind row = kind_name kind)"
proof -
  let ?rows = "filter (\<lambda>(_, row). sr_kind row = kind_name kind) (db_sessions db)"
  have "map (\<lambda>row. decode_session_row fc row None) (ordered_sessions limit ?rows) = map Inr recs"
    using assms(1) by (auto simp: sessions_by_kind_def result_elims)
  then have keys: "map lane_key recs = map fst (ordered_sessions limit ?rows)"
    by (rule decoded_keys)
  have same_keys: "mset (map fst (sort_key g (sort_key h rows))) = mset (map fst rows)"
    for g :: "session_id \<times> session_row \<Rightarrow> int" and h :: "session_id \<times> session_row \<Rightarrow> session_id" and rows
    by simp
  have "distinct (map fst ?rows)"
    by (rule distinct_map_filter) (rule assms(2))
  then have "distinct (map fst (sort_key (\<lambda>(_, row). sr_created_at row) (sort_key fst ?rows)))"
    by (simp only: mset_eq_imp_distinct_iff [OF same_keys])
  then have "distinct (map fst (ordered_sessions limit ?rows))"
    by (auto simp: ordered_sessions_def take_map [symmetric])
  then show ?thesis
    unfolding keys by (force simp: ordered_sessions_def dest!: in_set_takeD)
qed

lemma listed_sessions_distinct:
  assumes "listed_sessions fails gc a = Inr recs" and "distinct (map fst (db_sessions (ga_db a)))"
  shows "distinct (map lane_key recs)"
proof -
  obtain mains children where recs: "recs = mains @ children"
    and main: "sessions_by_kind fails (gc_foreign gc) (ga_db a) MainKind MAX_SESSIONS_PER_KIND = Inr mains"
    and child: "sessions_by_kind fails (gc_foreign gc) (ga_db a) ChildKind MAX_SESSIONS_PER_KIND = Inr children"
    using assms(1) by (auto simp: listed_sessions_def result_elims)
  have "lane_key ` set mains \<inter> lane_key ` set children = {}"
    using sessions_by_kind_keys [OF main assms(2)] sessions_by_kind_keys [OF child assms(2)] assms(2)
      eq_key_imp_eq_value [OF assms(2)]
    by (fastforce simp: kind_name.simps)
  then show ?thesis
    using sessions_by_kind_keys [OF main assms(2)] sessions_by_kind_keys [OF child assms(2)] by (simp add: recs)
qed

lemma monitored_sessions_entries:
  assumes "monitored_sessions fails gc a report recs = Inr (report', entries)" and "distinct (map lane_key recs)"
  shows "distinct (map (lane_key \<circ> fst) entries) \<and> fst ` set entries \<subseteq> set recs \<and>
    (\<forall>(rec, identity) \<in> set entries. stored_process gc a rec identity)"
  using assms
proof (induction recs arbitrary: report report' entries)
  case (Cons rec recs)
  obtain stored where stored: "load_snapshot (fails (st_session rec)) (gc_foreign gc) (ga_db a) (st_session rec) = Inr stored"
    using Cons.prems(1) by (auto simp: result_elims)
  show ?case
  proof (cases "Option.bind (Option.bind stored su_reducer_snapshot) ss_process_identity")
    case None
    then have "\<exists>report. monitored_sessions fails gc a report recs = Inr (report', entries)"
      using Cons.prems(1) stored by (cases "Option.bind stored su_reducer_snapshot") auto
    then show ?thesis
      using Cons.IH Cons.prems(2) by fastforce
  next
    case (Some identity)
    then obtain entries' where entries: "entries = (rec, identity) # entries'"
      "monitored_sessions fails gc a (count_monitored report) recs = Inr (report', entries')"
      using Cons.prems(1) stored by (auto simp: result_elims bind_eq_Some_conv)
    moreover have "stored_process gc a rec identity"
      using Some stored by (auto simp: stored_process_def bind_eq_Some_conv)
    ultimately show ?thesis
      using Cons.IH [OF entries(2)] Cons.prems(2) by (auto simp: image_iff subset_iff)
  qed
qed simp

text \<open>What a session is credited with: the growth between two trees of one root.\<close>

definition grown_tree ::
  "'j process_monitor \<Rightarrow> sampled_trees \<Rightarrow> stored_session_record \<Rightarrow> process_identity \<Rightarrow> process_activity \<Rightarrow> bool" where
  "grown_tree m trees rec identity activity \<longleftrightarrow> (\<exists>before current.
     pn_previous m (lane_key rec) = Some before \<and> map_of trees (pi_pid identity) = Some (Inr current) \<and>
     pts_root before = pts_root current \<and> activity = activity_since current before \<and>
     pa_uncertainties activity = {} \<and> pa_strength activity \<noteq> Neutral)"

lemma monitor_session_cases:
  assumes "monitor_session gc env trees m report (rec, identity) = (m', credits, r)"
  shows "(\<forall>k. k \<noteq> lane_key rec \<longrightarrow> pn_previous m' k = pn_previous m k) \<and>
    (credits = [] \<or> (\<exists>activity. credits = [(rec, activity)] \<and> grown_tree m trees rec identity activity))"
proof (cases "map_of trees (pi_pid identity)")
  case None
  then show ?thesis
    using assms by (auto simp: monitor_session_def remove_previous_def lane_key_def)
next
  case (Some tree)
  show ?thesis
  proof (cases tree)
    case (Inl e)
    then show ?thesis
      using assms Some by (auto simp: monitor_session_def remove_previous_def lane_key_def)
  next
    case (Inr current)
    obtain m1 found where step: "replace_previous m (lane_key rec) current = (m1, found)"
      by fastforce
    then have m1: "pn_previous m1 = (pn_previous m)(lane_key rec \<mapsto> current)"
      and found: "found = Some activity \<Longrightarrow> \<exists>before. pn_previous m (lane_key rec) = Some before \<and>
        pts_root before = pts_root current \<and> activity = activity_since current before" for activity
      by (auto simp: replace_previous_def split: option.splits if_splits)
    show ?thesis
    proof (cases found)
      case None
      then show ?thesis
        using assms step m1 by (auto simp: monitor_session_def \<open>map_of trees _ = _\<close> Inr lane_key_def [symmetric])
    next
      case activity: (Some activity)
      have "pn_previous m' = pn_previous m1 \<and> (credits = [] \<or> credits = [(rec, activity)] \<and>
          pa_uncertainties activity = {} \<and> activity_summary (pa_strength activity) \<noteq> None)"
        using assms step
        by (auto simp: monitor_session_def Some Inr activity lane_key_def [symmetric] Let_def
            split: if_splits prod.splits sum.splits option.splits)
      then show ?thesis
        using m1 found [OF activity] Some Inr by (auto simp: grown_tree_def)
    qed
  qed
qed

lemma grown_tree_other:
  "pn_previous m' (lane_key rec) = pn_previous m (lane_key rec) \<Longrightarrow>
     grown_tree m' trees rec identity activity = grown_tree m trees rec identity activity"
  by (simp add: grown_tree_def)

lemma monitor_sessions_credits:
  assumes "monitor_sessions gc env trees m report entries = (m', credits, r)"
    and "distinct (map (lane_key \<circ> fst) entries)" and "(rec, activity) \<in> set credits"
  shows "\<exists>identity. (rec, identity) \<in> set entries \<and> grown_tree m trees rec identity activity"
  using assms
proof (induction entries arbitrary: m report credits)
  case (Cons entry entries)
  obtain first identity where entry: "entry = (first, identity)"
    by fastforce
  obtain m1 c1 r1 where step: "monitor_session gc (env (lane_key first)) trees m report (first, identity) = (m1, c1, r1)"
    by (metis surj_pair)
  note one = monitor_session_cases [OF step]
  show ?case
  proof (cases "\<exists>report. r1 = Some (Inr report)")
    case True
    then obtain report1 where r1: "r1 = Some (Inr report1)"
      by blast
    obtain m2 c2 r2 where more: "monitor_sessions gc env trees m1 report1 entries = (m2, c2, r2)"
      by (metis surj_pair)
    have credits: "credits = c1 @ c2" "m' = m2" "r = r2"
      using Cons.prems(1) step more by (auto simp: entry r1 lane_key_def)
    show ?thesis
    proof (cases "(rec, activity) \<in> set c1")
      case True
      then show ?thesis
        using one by (auto simp: entry)
    next
      case False
      then obtain identity' where found: "(rec, identity') \<in> set entries" "grown_tree m1 trees rec identity' activity"
        using Cons.IH [of m1 report1 c2] more Cons.prems(2,3) credits by auto
      moreover have "lane_key rec \<noteq> lane_key first"
        using Cons.prems(2) found(1) by (force simp: entry)
      ultimately show ?thesis
        using one grown_tree_other by (metis list.set_intros(2))
    qed
  next
    case False
    then have "credits = c1"
      using Cons.prems(1) step by (auto simp: entry lane_key_def split: option.splits sum.splits)
    then show ?thesis
      using one Cons.prems(3) by (auto simp: entry)
  qed
qed simp

text \<open>The trees of procfs: of the roots with one process identifier the last decides.\<close>

lemma fold_btree_insert:
  "btree_wf m \<Longrightarrow> map_of (fold (\<lambda>root m. btree_insert (pi_pid root) (g root) m) roots m) pid =
     (case List.find (\<lambda>root. pi_pid root = pid) (rev roots) of Some root \<Rightarrow> Some (g root) | None \<Rightarrow> map_of m pid) \<and>
   btree_wf (fold (\<lambda>root m. btree_insert (pi_pid root) (g root) m) roots m)"
  by (induction roots rule: rev_induct) auto

lemma find_result: "List.find P xs = Some x \<Longrightarrow> P x \<and> x \<in> set xs"
  by (auto simp: find_Some_iff)

lemma procfs_trees_lookup:
  assumes "procfs_trees sampler fs_table fs_root fs roots = Inr trees"
  shows "\<exists>stats uncertainties. enumerate_stats sampler fs_table = Inr (stats, uncertainties) \<and>
    map_of trees pid = map_option (\<lambda>root. map_err (\<lambda>_. ()) (sample_tree_from_stats (fs_root root) (fs root) root stats uncertainties))
      (List.find (\<lambda>root. pi_pid root = pid) (rev roots))"
proof -
  obtain sampled where sampled: "sample_trees sampler fs_table fs_root fs roots = Inr sampled"
    and trees: "trees = map (\<lambda>(pid, tree). (pid, map_err (\<lambda>_. ()) tree)) sampled"
    using assms by (auto simp: procfs_trees_def result_elims)
  then obtain stats uncertainties where stats: "enumerate_stats sampler fs_table = Inr (stats, uncertainties)"
    and fold: "sampled = fold (\<lambda>root m. btree_insert (pi_pid root)
       (sample_tree_from_stats (fs_root root) (fs root) root stats uncertainties) m) roots []"
    by (auto simp: sample_trees_def result_elims)
  have "map_of trees pid = map_option (map_err (\<lambda>_. ())) (map_of sampled pid)"
    by (simp add: trees map_of_map)
  then show ?thesis
    using stats by (auto simp: fold fold_btree_insert split: option.splits)
qed

text \<open>
  C19. Activity is never credited across processes: in any pass over procfs, whatever fails in it, a session
  is credited only with the growth between the tree remembered from the previous pass and the one sampled in
  this pass, both of one root process, with no counter in doubt; the root was freshly read from procfs as
  exactly the process identity some monitored session has in the store, and it has the process identifier
  of the credited session's own process. It is that session's process unless another monitored session has
  a process of the same identifier.
\<close>
theorem credited_growth_verified:
  assumes "monitor_reconcile_processes gc env m = (m', credits, r)" and "(rec, activity) \<in> set credits"
    and "mp_sampler env = procfs_trees sampler fs_table fs_root fs"
    and "distinct (map fst (db_sessions (ga_db (pn_agent m))))"
  shows "\<exists>identity before current. stored_process gc (pn_agent m) rec identity \<and>
    pn_previous m (identity_session_id (st_session rec)) = Some before \<and> pts_root before = pts_root current \<and>
    activity = activity_since current before \<and> pa_uncertainties activity = {} \<and> pa_strength activity \<noteq> Neutral \<and>
    read_identity (fs_root (pts_root current)) (pi_pid identity) = Inr (pts_root current) \<and>
    (pts_root current = identity \<or>
     (\<exists>other. st_session other \<noteq> st_session rec \<and> stored_process gc (pn_agent m) other (pts_root current) \<and>
        pi_pid (pts_root current) = pi_pid identity))"
proof -
  obtain recs report entries where
    recs: "listed_sessions (mp_list env) gc (pn_agent m) = Inr recs"
    and entries: "monitored_sessions (mp_snapshot env) gc (pn_agent m) empty_report recs = Inr (report, entries)"
    using assms(1,2) by (auto simp: monitor_reconcile_processes_def result_elims split: sum.splits)
  obtain trees where trees: "procfs_trees sampler fs_table fs_root fs (map snd entries) = Inr trees"
    and pass: "monitor_sessions gc (mp_credit env) trees m report entries = (m', credits, r)"
    using assms(1-3) recs entries
    by (auto simp: monitor_reconcile_processes_def split: if_splits sum.splits)
  note known = monitored_sessions_entries [OF entries listed_sessions_distinct [OF recs assms(4)]]
  obtain identity before current where entry: "(rec, identity) \<in> set entries"
    and grown: "pn_previous m (lane_key rec) = Some before" "map_of trees (pi_pid identity) = Some (Inr current)"
      "pts_root before = pts_root current" "activity = activity_since current before" "pa_uncertainties activity = {}"
      "pa_strength activity \<noteq> Neutral"
    using monitor_sessions_credits [OF pass _ assms(2)] known by (auto simp: grown_tree_def)
  obtain stats unc root where root: "List.find (\<lambda>root. pi_pid root = pi_pid identity) (rev (map snd entries)) = Some root"
    and tree: "sample_tree_from_stats (fs_root root) (fs root) root stats unc = Inr current"
    using procfs_trees_lookup [OF trees, of "pi_pid identity"] grown(2) by (fastforce simp: map_option_case result_elims split: option.splits)
  have pid: "pi_pid root = pi_pid identity" and "root \<in> snd ` set entries"
    using find_result [OF root] by auto
  then obtain other where other: "(other, root) \<in> set entries"
    by auto
  have "read_identity (fs_root root) (pi_pid root) = Inr root" "pts_root current = root"
    using tree process_tree_snapshot_new_Inr(1) by (auto simp: sample_tree_from_stats_def result_elims split: if_splits)
  moreover have "root = identity" if "st_session other = st_session rec"
    using known entry other that by (force simp: lane_key_def distinct_map inj_on_def)
  moreover have "stored_process gc (pn_agent m) rec identity" "stored_process gc (pn_agent m) other root"
    using known entry other by auto
  ultimately show ?thesis
    using grown pid unfolding lane_key_def
    by (intro exI [of _ identity] exI [of _ before] exI [of _ current]) auto
qed

text \<open>
  C20. A process identifier that is used again makes the monitor credit the wrong session: when two monitored
  sessions have processes of one identifier, the tree of the one listed last stands for both. So a session
  whose own process has gone remembers the tree of the other session's process, and in the pass after that it
  is credited with what the other process does: an observation of progress is submitted for it, although
  procfs no longer shows its process.
\<close>
theorem reused_pid_credits_other:
  assumes "procfs_trees sampler fs_table fs_root fs (earlier @ live # later) = Inr trees"
    and "enumerate_stats sampler fs_table = Inr (stats, uncertainties)"
    and "sample_tree_from_stats (fs_root live) (fs live) live stats uncertainties = Inr tree"
    and "\<forall>root \<in> set later. pi_pid root \<noteq> pi_pid live"
    and "gone \<noteq> live" and "pi_pid gone = pi_pid live"
    and "monitor_session gc env trees m report (rec, gone) = (m', credits, r)"
  shows "read_identity (fs_root live) (pi_pid gone) \<noteq> Inr gone \<and>
    pn_previous m' (identity_session_id (st_session rec)) = Some tree \<and> pts_root tree = live \<and>
    (\<forall>before a observation. pn_previous m (identity_session_id (st_session rec)) = Some before \<and> pts_root before = live \<and>
       pa_uncertainties (activity_since tree before) = {} \<and>
       save_diagnostic (ce_fails env) gc (pn_agent m) (st_session rec) (activity_since tree before) (ce_sampled_at env) =
         (a, Inr ()) \<and>
       (\<exists>summary. activity_summary (pa_strength (activity_since tree before)) = Some summary \<and>
          process_observation gc (st_native rec) (rq_now (ce_request env)) (activity_since tree before) summary =
            Inr observation) \<longrightarrow>
       credits = [(rec, activity_since tree before)])"
proof -
  have "List.find (\<lambda>root. pi_pid root = pi_pid live) (rev (earlier @ live # later)) = Some live"
    using assms(4) by (induction later rule: rev_induct) auto
  then have lookup: "map_of trees (pi_pid gone) = Some (Inr tree)"
    using procfs_trees_lookup [OF assms(1), of "pi_pid live"] assms(2,3,6) by auto
  have root: "read_identity (fs_root live) (pi_pid live) = Inr live" "pts_root tree = live"
    using assms(3) process_tree_snapshot_new_Inr(1) by (auto simp: sample_tree_from_stats_def result_elims split: if_splits)
  have previous: "pn_previous m' (identity_session_id (st_session rec)) = Some tree"
    using assms(7) lookup
    by (auto simp: monitor_session_def Let_def replace_previous_def split: if_splits option.splits prod.splits sum.splits)
  moreover have "credits = [(rec, activity_since tree before)]"
    if "pn_previous m (identity_session_id (st_session rec)) = Some before" "pts_root before = live"
      "pa_uncertainties (activity_since tree before) = {}"
      "save_diagnostic (ce_fails env) gc (pn_agent m) (st_session rec) (activity_since tree before) (ce_sampled_at env) = (a, Inr ())"
      "activity_summary (pa_strength (activity_since tree before)) = Some summary"
      "process_observation gc (st_native rec) (rq_now (ce_request env)) (activity_since tree before) summary = Inr observation"
    for before a summary observation
    using assms(7) lookup that root(2)
    by (auto simp: monitor_session_def Let_def replace_previous_def split: option.splits prod.splits sum.splits)
  ultimately show ?thesis
    using root assms(5,6) by auto
qed

section \<open>A concrete monitor\<close>

text \<open>
  A store with one session, whose process was process 10, and a procfs that shows a process 10.
\<close>

datatype monitor_doc = SnapshotJson snapshot_update | SampleJson activity_sample_record

fun snapshot_of_json :: "monitor_doc \<Rightarrow> snapshot_update option" where
  "snapshot_of_json (SnapshotJson u) = Some u"
| "snapshot_of_json _ = None"

definition monitor_code :: "monitor_doc agent_code" where
  "monitor_code = \<lparr>gc_foreign = \<lparr>xf_new_v5 = xf_new_v5 sample_code, xf_namespace_url = xf_namespace_url sample_code,
       xf_json_len = \<lambda>_. 200, xf_observation_to_vec = \<lambda>_. None, xf_snapshot_to_vec = Some \<circ> SnapshotJson,
       xf_event_to_vec = \<lambda>_. None, xf_saga_to_vec = \<lambda>_. None, xf_snapshot_from_slice = snapshot_of_json,
       xf_event_from_slice = \<lambda>_. None, xf_saga_from_slice = \<lambda>_. None\<rparr>,
     gc_relations = \<lparr>rx_to_vec = \<lambda>_. None, rx_from_slice = \<lambda>_. None\<rparr>,
     gc_records = \<lparr>rk_watch_to_vec = \<lambda>_. None, rk_watch_from_slice = \<lambda>_. None, rk_activity_to_vec = Some \<circ> SampleJson,
       rk_activity_from_slice = \<lambda>_. None, rk_cursor_to_vec = \<lambda>_. None, rk_cursor_from_slice = \<lambda>_. None,
       rk_deadline_to_vec = \<lambda>_. None, rk_deadline_from_slice = \<lambda>_. None, rk_health_to_vec = \<lambda>_. None,
       rk_health_from_slice = \<lambda>_. None, rk_health_set_version = \<lambda>_ j. j, rk_attempt_to_vec = \<lambda>_. None,
       rk_attempt_from_slice = \<lambda>_. None\<rparr>,
     gc_observation = \<lambda>_. None, gc_show = \<lambda>_. ''id''\<rparr>"

definition watched_record :: stored_session_record where
  "watched_record = \<lparr>st_session = sample_main_session, st_root = MainSessionId stored_session, st_native = stored_key\<rparr>"

definition watched_snapshot :: session_snapshot where
  "watched_snapshot = (session_snapshot_new sample_main_session (MainSessionId stored_session) (stored_time 5))
     \<lparr>ss_revision := 1, ss_process_identity := Some sample_identity\<rparr>"

definition watched_update :: snapshot_update where
  "watched_update = \<lparr>su_session = sample_main_session, su_root = MainSessionId stored_session, su_revision = 1,
     su_state = Starting, su_updated_at = 5, su_reducer_snapshot = Some watched_snapshot\<rparr>"

definition watched_db :: "monitor_doc db" where
  "watched_db = empty_db
     \<lparr>db_sessions := [(stored_session, \<lparr>sr_kind = ''main'', sr_root = stored_session, sr_runtime = ''codex_cli'',
        sr_native_id = ''a'', sr_created_at = 5, sr_updated_at = 5\<rparr>)],
      db_snapshots := [(stored_session, snapshot_row_of watched_update (SnapshotJson watched_update))]\<rparr>"

definition watched_agent :: "monitor_doc agent" where
  "watched_agent = \<lparr>ga_world = \<lparr>aw_shared = \<lparr>sh_db = watched_db, sh_next_event = 1\<rparr>, aw_policy = default_reducer_policy,
       aw_rejections = no_rejections, aw_uncertain = {}, aw_health = None, aw_lanes = Map.empty, aw_requests = Map.empty,
       aw_drainers = Map.empty, aw_admission_lock = Map.empty, aw_transition_lock = None\<rparr>,
     ga_tree = empty_tree, ga_records = empty_records, ga_scopes = default_scope_registry\<rparr>"

definition watched_procfs :: procfs where
  "watched_procfs = sample_procfs\<lparr>pf_dir := Inr [Inr ''10''],
     pf_file := (\<lambda>path. if path = ''/proc/10/io'' then Inr (''read_bytes: 1'' @ [CHR 0x0A] @ ''write_bytes: 2'')
       else pf_file sample_procfs path)\<rparr>"

definition watched_sample :: process_sample where
  "watched_sample = \<lparr>smp_identity = sample_identity, smp_parent_pid = Some (ProcessId 1), smp_state = Sleeping,
     smp_cpu = ps_cpu sample_stat, smp_io = Some \<lparr>read_bytes = 1, write_bytes = 2\<rparr>,
     smp_command = from_redacted_cmdline (as_bytes (print_stat 10 ''codex'' sample_columns)) False\<rparr>"

definition watched_tree :: process_tree_snapshot where
  "watched_tree = \<lparr>pts_root = sample_identity, pts_processes = [(ProcessId 10, watched_sample)], pts_uncertainties = {}\<rparr>"

definition older_tree :: process_tree_snapshot where
  "older_tree = watched_tree\<lparr>pts_processes := [(ProcessId 10, watched_sample\<lparr>smp_cpu := cpu_zero\<rparr>)]\<rparr>"

lemma watched_paths:
  "proc_path (ProcessId 10) ''io'' = ''/proc/10/io''" "proc_path (ProcessId 10) ''stat'' \<noteq> ''/proc/10/io''"
  "proc_path (ProcessId 10) ''cmdline'' \<noteq> ''/proc/10/io''"
  by (simp_all add: proc_path_def print_nat_samples)

lemma watched_read_stat: "read_stat watched_procfs (ProcessId 10) = Inr sample_stat"
  using sample_read_stat watched_paths(2)
  by (simp add: read_stat_def read_bounded_def read_bounded_bytes_def watched_procfs_def sample_stat_def)

lemma watched_executable: "read_executable watched_procfs (ProcessId 10) = Inr ''/usr/bin/codex''"
  by (simp add: read_executable_def watched_procfs_def sample_procfs_def bounded_text_new_def byte_in_def)

lemma watched_identity: "read_identity watched_procfs (ProcessId 10) = Inr sample_identity"
  by (simp add: read_identity_def watched_read_stat watched_executable sample_stat_def sample_identity_def)

lemma watched_io: "ok (read_bounded watched_procfs (proc_path (ProcessId 10) ''io'') MAX_IO_BYTES) =
    Some (''read_bytes: 1'' @ [CHR 0x0A] @ ''write_bytes: 2'')"
  by (simp add: read_bounded_def read_bounded_bytes_def watched_paths watched_procfs_def MAX_IO_BYTES_def byte_in_def)

lemma watched_io_parsed: "io_counters_parse (''read_bytes: 1'' @ [CHR 0x0A] @ ''write_bytes: 2'') =
    Inr \<lparr>read_bytes = 1, write_bytes = 2\<rparr>"
  by (simp add: io_counters_parse_def text_lines_def split_by.simps Let_def parse_io_def parse_unsigned_def digit_value_def
      strip_cr_def split_once.simps trim_def trim_start_def trim_end_def is_whitespace_def)

lemma watched_process: "sample_process watched_procfs sample_stat = Inr watched_sample"
proof -
  have "read_bounded_bytes watched_procfs (proc_path (ProcessId 10) ''cmdline'') MAX_COMMAND_BYTES =
      Inr (print_stat 10 ''codex'' sample_columns, False)"
    using watched_paths(3) by (simp add: read_bounded_bytes_def watched_procfs_def sample_procfs_def sample_stat_record
        MAX_COMMAND_BYTES_def)
  then show ?thesis
    by (simp add: sample_process_def watched_sample_def sample_stat_def watched_executable watched_io watched_io_parsed
        sample_identity_def del: append.simps)
qed

lemma watched_enumerated:
  "enumerate_stats \<lparr>lps_max_processes = 5\<rparr> watched_procfs = Inr ([(ProcessId 10, sample_stat)], {})"
proof -
  have "entry_pid ''10'' = Some (ProcessId 10)"
    by (simp add: entry_pid_def byte_in_def parse_unsigned_def digit_value_def process_id_new_def)
  then show ?thesis
    by (simp add: enumerate_stats_def watched_read_stat) (simp add: watched_procfs_def watched_read_stat [unfolded watched_procfs_def])
qed

lemma watched_sampled:
  "sample_tree_from_stats watched_procfs watched_procfs sample_identity [(ProcessId 10, sample_stat)] {} = Inr watched_tree"
proof -
  have "descendant_ids (ProcessId 10) [(ProcessId 10, sample_stat)] = [ProcessId 10]"
    by (simp add: descendant_ids_def sample_stat_def)
  then show ?thesis
    using watched_identity watched_process
    by (simp add: sample_tree_from_stats_def sample_identity_def process_tree_snapshot_new_def watched_tree_def
        watched_sample_def)
qed

lemma watched_trees:
  "procfs_trees \<lparr>lps_max_processes = 5\<rparr> watched_procfs (\<lambda>_. watched_procfs) (\<lambda>_. watched_procfs) [sample_identity] =
     Inr [(ProcessId 10, Inr watched_tree)]"
  by (simp add: procfs_trees_def sample_trees_def watched_enumerated watched_sampled)
    (simp add: sample_identity_def)

lemma watched_growth:
  "activity_since watched_tree older_tree = \<lparr>pa_strength = StrongCpu, pa_cpu = ps_cpu sample_stat, pa_io = io_zero,
     pa_new_processes = 0, pa_uncertainties = {}\<rparr>"
  by (simp add: activity_since_def Let_def watched_tree_def older_tree_def compare_process_def note_cpu_def note_io_def
      watched_sample_def sample_stat_def cpu_checked_delta_def cpu_checked_add_def cpu_zip_def cpu_zero_def checked_sub_def
      checked_add_def io_checked_delta_def io_checked_add_def io_zero_def cpu_all_four_grew_def)

definition watched_env :: credit_env where
  "watched_env = \<lparr>ce_fails = \<lambda>_. False, ce_sampled_at = 6, ce_request = \<lparr>rq_number = 1, rq_schedule = [],
     rq_before = \<lambda>_. False, rq_after = \<lambda>_. False, rq_now = stored_time 5, rq_done = 6\<rparr>\<rparr>"

definition watched_pass :: monitor_pass where
  "watched_pass = \<lparr>mp_list = \<lambda>_. False, mp_snapshot = \<lambda>_ _. False,
     mp_sampler = procfs_trees \<lparr>lps_max_processes = 5\<rparr> watched_procfs (\<lambda>_. watched_procfs) (\<lambda>_. watched_procfs),
     mp_joined = True, mp_credit = \<lambda>_. watched_env\<rparr>"

definition watched_monitor :: "monitor_doc process_monitor" where
  "watched_monitor = \<lparr>pn_agent = watched_agent, pn_previous = [stored_session \<mapsto> older_tree]\<rparr>"

definition growth :: process_activity where
  "growth = activity_since watched_tree older_tree"

lemma growth_fields [simp]:
  "pa_strength growth = StrongCpu" "pa_cpu growth = ps_cpu sample_stat" "pa_uncertainties growth = {}"
  "pa_new_processes growth = 0"
  by (simp_all add: growth_def watched_growth)

lemma monitor_code_parts [simp]:
  "xf_new_v5 (gc_foreign monitor_code) = xf_new_v5 sample_code"
  "xf_namespace_url (gc_foreign monitor_code) = xf_namespace_url sample_code"
  "xf_json_len (gc_foreign monitor_code) j = 200" "xf_snapshot_from_slice (gc_foreign monitor_code) = snapshot_of_json"
  "rk_activity_to_vec (gc_records monitor_code) rec = Some (SampleJson rec)" "gc_show monitor_code s = ''id''"
  by (simp_all add: monitor_code_def)

lemma watched_tables [simp]:
  "ga_db (watched_agent\<lparr>ga_records := rd\<rparr>) = watched_db" "ga_db watched_agent = watched_db"
  "ga_records watched_agent = empty_records" "aw_requests (ga_world watched_agent) = Map.empty"
  "db_sessions watched_db = [(stored_session, \<lparr>sr_kind = ''main'', sr_root = stored_session, sr_runtime = ''codex_cli'',
     sr_native_id = ''a'', sr_created_at = 5, sr_updated_at = 5\<rparr>)]"
  "db_snapshots watched_db = [(stored_session, snapshot_row_of watched_update (SnapshotJson watched_update))]"
  by (simp_all add: watched_agent_def ga_db_def watched_db_def)

lemma watched_decoded:
  "decode_session_row (gc_foreign monitor_code) (stored_session, \<lparr>sr_kind = ''main'', sr_root = stored_session,
     sr_runtime = ''codex_cli'', sr_native_id = ''a'', sr_created_at = 5, sr_updated_at = 5\<rparr>) expected =
   decode_session_row sample_code (stored_session, \<lparr>sr_kind = ''main'', sr_root = stored_session,
     sr_runtime = ''codex_cli'', sr_native_id = ''a'', sr_created_at = 5, sr_updated_at = 5\<rparr>) expected"
  by (simp add: decode_session_row_def)

lemma watched_row:
  "decode_session_row (gc_foreign monitor_code) (stored_session, \<lparr>sr_kind = ''main'', sr_root = stored_session,
     sr_runtime = ''codex_cli'', sr_native_id = ''a'', sr_created_at = 5, sr_updated_at = 5\<rparr>) None = Inr watched_record"
proof -
  have "native_session_key_new CodexCli ''a'' = Inr stored_key"
    by (simp add: native_session_key_new_Inr_iff stored_key_def native_key_wf_def MAX_NATIVE_ID_BYTES_def)
  then show ?thesis
    by (simp add: decode_session_row_def runtime_from_str.simps sample_folded Let_def sample_main_session_def
        watched_record_def)
qed

lemma watched_found: "session_by_id (\<lambda>_. False) (gc_foreign monitor_code) watched_db stored_session = Inr (Some watched_record)"
  by (simp add: session_by_id_def run_sql_def transpose_option_def watched_row)

lemma watched_observation:
  "\<exists>observation. process_observation monitor_code stored_key (stored_time 5) growth summary = Inr observation \<and>
     oe_subject observation = stored_key" if "length summary \<le> 2048" "utf8_valid summary"
  using that
  by (simp add: process_observation_def adapter_identity_new_def bounded_text_new_def MAX_ADAPTER_VERSION_BYTES_def
      PROCESS_ADAPTER_VERSION_def observation_source_new_def MAX_SOURCE_FINGERPRINT_BYTES_def observation_id_from_native_def
      MAX_OBSERVATION_PART_BYTES_def stored_key_def observation_envelope_new_def Let_def process_event_key_def
      stored_time_def sample_stat_def print_int_def print_nat.simps)

lemma watched_credit:
  assumes "pi_pid identity = ProcessId 10"
  shows "\<exists>m' r. monitor_session monitor_code watched_env [(ProcessId 10, Inr watched_tree)] watched_monitor report
     (watched_record, identity) = (m', [(watched_record, growth)], r) \<and> r = None"
proof -
  let ?m = "watched_monitor\<lparr>pn_previous := [stored_session \<mapsto> watched_tree]\<rparr>"
  let ?summary = "''All four CPU times grew versus the previous process snapshot''"
  have parts: "ce_fails watched_env = (\<lambda>_. False)" "ce_sampled_at watched_env = 6"
      "rq_now (ce_request watched_env) = stored_time 5" "rq_before (ce_request watched_env) = (\<lambda>_. False)"
      "rq_number (ce_request watched_env) = 1" "rq_schedule (ce_request watched_env) = []" "pn_agent ?m = watched_agent"
      "identity_session_id (st_session watched_record) = stored_session" "st_session watched_record = sample_main_session"
      "st_native watched_record = stored_key"
    by (simp_all add: watched_env_def watched_monitor_def watched_record_def sample_folded)
  have replaced: "replace_previous watched_monitor stored_session watched_tree = (?m, Some growth)"
    by (simp add: replace_previous_def watched_monitor_def growth_def older_tree_def)
  have "\<exists>rd. save_latest_activity (\<lambda>_. False) (gc_foreign monitor_code) (gc_records monitor_code) watched_db empty_records
      \<lparr>sm_session = sample_main_session, sm_observed_at = 6, sm_evidence = e\<rparr> = (rd, Inr ())" for e
    by (simp add: save_latest_activity_def bounded_json_def MAX_RECORD_BYTES_def in_transaction_def run_sql_def
        insert_activity_def known_session_def sample_folded empty_records_def i64_max_def)
  then obtain rd where saved: "save_diagnostic (\<lambda>_. False) monitor_code watched_agent sample_main_session growth 6 =
      (watched_agent\<lparr>ga_records := rd\<rparr>, Inr ())"
    by (simp add: save_diagnostic_def) (metis (no_types, lifting) case_prod_conv)
  obtain observation where observation: "process_observation monitor_code stored_key (stored_time 5) growth ?summary = Inr observation"
      "oe_subject observation = stored_key"
    using watched_observation [of ?summary] by (auto simp: byte_in_def)
  have ingested: "\<exists>a. ingest_native_observation monitor_code (ce_request watched_env) (watched_agent\<lparr>ga_records := rd\<rparr>) observation = (a, None)"
    by (simp add: ingest_native_observation_def observation(2) sample_folded parts watched_found submit_observation_def)
  show ?thesis
    using ingested by (auto simp: monitor_session_def Let_def assms parts sample_folded replaced saved observation)
qed

lemma watched_loaded:
  "load_snapshot fails (gc_foreign monitor_code) watched_db sample_main_session = Inr (Some watched_update)"
  if "fails = (\<lambda>_. False)"
proof -
  have "snapshot_update_deserialize watched_update = Some watched_update"
    by (rule from_reducer_deserialize [of watched_snapshot])
      (simp add: from_reducer_Inr_iff stored_time_def i64_max_def watched_update_def watched_snapshot_def session_snapshot_new_def)
  then show ?thesis
    by (simp add: that load_snapshot_def run_sql_def load_optional_json_def decode_json_def MAX_RECORD_BYTES_def
        sample_folded snapshot_row_of_def)
qed

lemma watched_listed: "listed_sessions (\<lambda>_. False) monitor_code watched_agent = Inr [watched_record]"
  by (simp add: listed_sessions_def sessions_by_kind_def validate_limit_def MAX_SESSIONS_PER_KIND_def run_sql_def
      ordered_sessions_def kind_name.simps watched_row)

lemma watched_reconciled:
  "\<exists>m'. monitor_reconcile_processes monitor_code watched_pass watched_monitor = (m', [(watched_record, growth)], None)"
proof -
  have agent: "pn_agent watched_monitor = watched_agent" "st_session watched_record = sample_main_session"
      "su_reducer_snapshot watched_update = Some watched_snapshot" "ss_process_identity watched_snapshot = Some sample_identity"
      "pi_pid sample_identity = ProcessId 10"
    by (simp_all add: watched_monitor_def watched_record_def watched_update_def watched_snapshot_def sample_identity_def)
  obtain m' where "monitor_session monitor_code watched_env [(ProcessId 10, Inr watched_tree)] watched_monitor
      (count_monitored empty_report) (watched_record, sample_identity) = (m', [(watched_record, growth)], None)"
    using watched_credit [OF agent(5)] by blast
  then show ?thesis
    by (simp add: monitor_reconcile_processes_def watched_pass_def agent watched_listed watched_loaded watched_trees)
qed

theorem credited_growth_verified_witness:
  "\<exists>m' (current :: process_tree_snapshot). monitor_reconcile_processes monitor_code watched_pass watched_monitor = (m', [(watched_record, growth)], None) \<and>
     read_identity watched_procfs (pi_pid (pts_root current)) = Inr (pts_root current) \<and>
     pts_root current = sample_identity"
proof -
  obtain m' where run: "monitor_reconcile_processes monitor_code watched_pass watched_monitor =
      (m', [(watched_record, growth)], None)"
    using watched_reconciled by blast
  have agent: "pn_agent watched_monitor = watched_agent"
    by (simp add: watched_monitor_def)
  have sampler: "mp_sampler watched_pass = procfs_trees \<lparr>lps_max_processes = 5\<rparr> watched_procfs (\<lambda>_. watched_procfs) (\<lambda>_. watched_procfs)"
    by (simp add: watched_pass_def)
  have "\<exists>(identity :: process_identity) before (current :: process_tree_snapshot). pn_previous watched_monitor (identity_session_id (st_session watched_record)) = Some before \<and>
      pts_root before = pts_root current \<and> read_identity watched_procfs (pi_pid identity) = Inr (pts_root current)"
    using credited_growth_verified [OF run _ sampler, of watched_record growth] by (simp add: agent) blast
  then obtain identity :: process_identity and before and current :: process_tree_snapshot where
      "pn_previous watched_monitor (identity_session_id (st_session watched_record)) = Some before"
      "pts_root before = pts_root current"
      "read_identity watched_procfs (pi_pid identity) = Inr (pts_root current)"
    by blast
  moreover from this have "pts_root current = sample_identity"
    by (auto simp: watched_monitor_def watched_record_def sample_folded older_tree_def watched_tree_def)
  ultimately show ?thesis
    using run watched_identity by (intro exI [of _ m'] exI [of _ current]) (simp add: sample_identity_def)
qed

text \<open>The process of the session started at tick 3 and is gone; process 10 is now one that started at tick 99.\<close>

definition gone_identity :: process_identity where
  "gone_identity = sample_identity\<lparr>pi_start_time_ticks := 3\<rparr>"

theorem reused_pid_credits_other_witness:
  "\<exists>m'. monitor_session monitor_code watched_env [(ProcessId 10, Inr watched_tree)] watched_monitor empty_report
       (watched_record, gone_identity) = (m', [(watched_record, growth)], None) \<and>
     read_identity watched_procfs (pi_pid gone_identity) \<noteq> Inr gone_identity \<and>
     pn_previous m' stored_session = Some watched_tree"
proof -
  have gone: "gone_identity \<noteq> sample_identity" "pi_pid gone_identity = pi_pid sample_identity"
    by (simp_all add: gone_identity_def sample_identity_def)
  have "\<exists>e. sample_tree_from_stats watched_procfs watched_procfs gone_identity [(ProcessId 10, sample_stat)] {} = Inl e"
    using watched_identity by (simp add: sample_tree_from_stats_def gone_identity_def sample_identity_def)
  then have trees: "procfs_trees \<lparr>lps_max_processes = 5\<rparr> watched_procfs (\<lambda>_. watched_procfs) (\<lambda>_. watched_procfs)
      ([gone_identity] @ sample_identity # []) = Inr [(ProcessId 10, Inr watched_tree)]"
    by (auto simp: procfs_trees_def sample_trees_def watched_enumerated watched_sampled)
      (simp_all add: gone_identity_def sample_identity_def)
  obtain m' where run: "monitor_session monitor_code watched_env [(ProcessId 10, Inr watched_tree)] watched_monitor
      empty_report (watched_record, gone_identity) = (m', [(watched_record, growth)], None)"
    using watched_credit [of gone_identity empty_report] by (auto simp: gone_identity_def sample_identity_def)
  show ?thesis
    using reused_pid_credits_other [OF trees watched_enumerated watched_sampled _ gone run] run
    by (auto simp: watched_record_def sample_folded)
qed

end
