(* ===== verification/Path_Mapping.thy ===== *)
theory Path_Mapping
  imports Rust_Std
begin

text \<open>
  The projection of host paths to container paths of \<open>crates/watchdog-server/src/path_mapping.rs\<close>. A path is
  the sequence of its components, which is what the equality, the order and the prefix tests of \<open>PathBuf\<close> look
  at; the file system (\<open>canonicalize\<close>, \<open>is_dir\<close>) is a parameter. The theory shows that a projection never
  leaves the mounted root.
\<close>

section \<open>Paths\<close>

text \<open>The derived order of \<open>Component\<close>.\<close>

fun component_rank :: "path_component \<Rightarrow> nat" where
  "component_rank RootDir = 0"
| "component_rank CurDir = 1"
| "component_rank ParentDir = 2"
| "component_rank (NormalComp name) = 3"

fun component_name_of :: "path_component \<Rightarrow> string" where
  "component_name_of (NormalComp name) = name"
| "component_name_of _ = []"

instantiation path_component :: linorder
begin

definition less_eq_path_component :: "path_component \<Rightarrow> path_component \<Rightarrow> bool" where
  "less_eq_path_component a b \<longleftrightarrow> component_rank a < component_rank b \<or>
     component_rank a = component_rank b \<and> component_name_of a \<le> component_name_of b"

definition less_path_component :: "path_component \<Rightarrow> path_component \<Rightarrow> bool" where
  "less_path_component a b \<longleftrightarrow> component_rank a < component_rank b \<or>
     component_rank a = component_rank b \<and> component_name_of a < component_name_of b"

instance
proof
  fix a b :: path_component
  show "a \<le> b \<Longrightarrow> b \<le> a \<Longrightarrow> a = b"
    by (cases a; cases b) (auto simp: less_eq_path_component_def)
qed (auto simp: less_eq_path_component_def less_path_component_def)

end

type_synonym path = "path_component list"

definition starts_with :: "path \<Rightarrow> path \<Rightarrow> bool" where
  "starts_with path base \<longleftrightarrow> take (length base) path = base"

definition strip_prefix :: "path \<Rightarrow> path \<Rightarrow> path option" where
  "strip_prefix path base = (if starts_with path base then Some (drop (length base) path) else None)"

lemma strip_prefix_iff [simp]: "strip_prefix path base = Some rest \<longleftrightarrow> path = base @ rest"
proof
  assume "strip_prefix path base = Some rest"
  then show "path = base @ rest"
    by (auto simp: strip_prefix_def starts_with_def split: if_splits) (metis append_take_drop_id)
qed (simp add: strip_prefix_def starts_with_def)

lemma starts_with_append [simp]: "starts_with (base @ rest) base"
  by (simp add: starts_with_def)

text \<open>The text of a path in normal form.\<close>

fun component_text :: "path_component \<Rightarrow> string" where
  "component_text RootDir = []"
| "component_text CurDir = ''.''"
| "component_text ParentDir = ''..''"
| "component_text (NormalComp name) = name"

fun path_text :: "path \<Rightarrow> string" where
  "path_text [] = []"
| "path_text [RootDir] = ''/''"
| "path_text [c] = component_text c"
| "path_text (c # d # cs) = component_text c @ ''/'' @ path_text (d # cs)"

record file_system =
  fy_canonicalize :: "path \<Rightarrow> path option"
  fy_is_dir :: "path \<Rightarrow> bool"

section \<open>Mappings\<close>

datatype path_mapping_error = InvalidNativeRoot | InvalidMountedRoot

record worktree_path_mapping =
  wm_native_root :: path
  wm_mounted_root :: path

fun is_normal :: "path_component \<Rightarrow> bool" where
  "is_normal (NormalComp name) = True"
| "is_normal _ = False"

definition is_concrete_absolute :: "path \<Rightarrow> bool" where
  "is_concrete_absolute path \<longleftrightarrow> path \<noteq> [] \<and> hd path = RootDir \<and> path \<noteq> [RootDir] \<and>
     list_all (\<lambda>component. component = RootDir \<or> is_normal component) path"

definition worktree_path_mapping_new ::
  "file_system \<Rightarrow> path \<Rightarrow> path \<Rightarrow> path_mapping_error + worktree_path_mapping" where
  "worktree_path_mapping_new fs native_root mounted_root =
     (if \<not> is_concrete_absolute native_root then Inl InvalidNativeRoot
      else and_then (ok_or InvalidMountedRoot (fy_canonicalize fs mounted_root)) (\<lambda>mounted_root.
        if mounted_root = [RootDir] \<or> \<not> fy_is_dir fs mounted_root then Inl InvalidMountedRoot
        else Inr \<lparr>wm_native_root = native_root, wm_mounted_root = mounted_root\<rparr>))"

definition project_relative :: "file_system \<Rightarrow> worktree_path_mapping \<Rightarrow> path \<Rightarrow> path option" where
  "project_relative fs m relative =
     (if list_ex (\<lambda>component. \<not> is_normal component) relative then None
      else Option.bind (fy_canonicalize fs (wm_mounted_root m @ relative)) (\<lambda>projected.
        if \<not> starts_with projected (wm_mounted_root m) then None else Some projected))"

definition project_native_path :: "file_system \<Rightarrow> worktree_path_mapping \<Rightarrow> path \<Rightarrow> path option" where
  "project_native_path fs m candidate = Option.bind (strip_prefix candidate (wm_native_root m)) (project_relative fs m)"

definition validate_native_path :: "file_system \<Rightarrow> worktree_path_mapping \<Rightarrow> path \<Rightarrow> string option" where
  "validate_native_path fs m candidate =
     Option.bind (strip_prefix candidate (wm_native_root m)) (\<lambda>relative.
     Option.bind (project_relative fs m relative) (\<lambda>_.
       let native = path_text (wm_native_root m @ relative) in if utf8_valid native then Some native else None))"

definition project_native_directory :: "file_system \<Rightarrow> worktree_path_mapping \<Rightarrow> path \<Rightarrow> (string \<times> path) option" where
  "project_native_directory fs m candidate =
     Option.bind (validate_native_path fs m candidate) (\<lambda>native.
     Option.bind (project_native_path fs m candidate) (\<lambda>mounted.
       if fy_is_dir fs mounted then Some (native, mounted) else None))"

section \<open>A projection stays in its root\<close>

text \<open>
  A host path is only ever projected into the mounted root of its mapping, whatever symbolic links the file
  system resolves: the result is the canonical form of the mounted root followed by what comes after the native
  root, it lies in the mounted root, and the part after the native root has no parent or root component.
\<close>
theorem projection_contained:
  assumes "worktree_path_mapping_new fs native mounted = Inr m" and "project_native_path fs m candidate = Some projected"
  shows "starts_with projected (wm_mounted_root m) \<and>
    (\<exists>relative. candidate = native @ relative \<and> list_all is_normal relative \<and>
       fy_canonicalize fs (wm_mounted_root m @ relative) = Some projected)"
  using assms
  by (auto simp: worktree_path_mapping_new_def project_native_path_def project_relative_def result_elims bind_eq_Some_conv
      list_ex_iff list_all_iff split: if_splits)

end
