(* ===== verification/Health_Service.thy ===== *)
theory Health_Service
  imports Health "HOL-Library.List_Lexorder"
begin

text \<open>
  The health service of \<open>crates/watchdog-server/src/health.rs\<close>: the registry of \<open>Health\<close> with the messages of
  the global reports and the warning of a rejected configuration, and the snapshot the endpoint answers with.
\<close>

section \<open>Model\<close>

definition MAX_HEALTH_MESSAGE_BYTES :: nat where
  "MAX_HEALTH_MESSAGE_BYTES = 1024"

datatype health_level = LevelHealthy | LevelDegraded | LevelFailed

record health_component_view =
  hv_component :: string
  hv_status :: health_level
  hv_critical :: bool
  hv_updated_at :: wall_time_ms
  hv_message :: "string option"

record health_snapshot =
  hs_status :: health_level
  hs_ready :: bool
  hs_components :: "health_component_view list"
  hs_configuration_warning :: "string option"

record health_entry =
  he_updated_at :: wall_time_ms
  he_message :: "string option"

text \<open>The derived order of the components: declaration order, adapters by runtime.\<close>

fun component_id_rank :: "component_id \<Rightarrow> nat" where
  "component_id_rank (AdapterId ClaudeCode) = 0"
| "component_id_rank (AdapterId CodexCli) = 1"
| "component_id_rank (AdapterId CodexCompanion) = 2"
| "component_id_rank (AdapterId OpenCode) = 3"
| "component_id_rank ProcessSampler = 4"
| "component_id_rank StoreId = 5"
| "component_id_rank ReducerId = 6"
| "component_id_rank Authorization = 7"
| "component_id_rank WatcherId = 8"
| "component_id_rank FilesystemReconciliation = 9"
| "component_id_rank ObservationQueue = 10"
| "component_id_rank DashboardDelivery = 11"
| "component_id_rank Notifications = 12"
| "component_id_rank TerminationAutomation = 13"

definition component_order :: "component_id list" where
  "component_order = [AdapterId ClaudeCode, AdapterId CodexCli, AdapterId CodexCompanion, AdapterId OpenCode,
     ProcessSampler, StoreId, ReducerId, Authorization, WatcherId, FilesystemReconciliation, ObservationQueue,
     DashboardDelivery, Notifications, TerminationAutomation]"

lemma component_order_rank: "component_order ! component_id_rank c = c"
  by (cases c rule: component_id_rank.cases) (simp_all add: component_order_def)

instantiation component_id :: linorder
begin

definition less_eq_component_id :: "component_id \<Rightarrow> component_id \<Rightarrow> bool" where
  "less_eq_component_id a b \<longleftrightarrow> component_id_rank a \<le> component_id_rank b"

definition less_component_id :: "component_id \<Rightarrow> component_id \<Rightarrow> bool" where
  "less_component_id a b \<longleftrightarrow> component_id_rank a < component_id_rank b"

instance
proof
  fix a b :: component_id
  show "a \<le> b \<Longrightarrow> b \<le> a \<Longrightarrow> a = b"
    unfolding less_eq_component_id_def by (metis component_order_rank order_antisym)
qed (auto simp: less_eq_component_id_def less_component_id_def)

end

record health_service =
  hw_registry :: health_registry
  hw_global_components :: "(component_id, health_entry) btree_map"
  hw_configuration_warning :: "string option"

definition health_service_new :: health_service where
  "health_service_new = \<lparr>hw_registry = [], hw_global_components = [], hw_configuration_warning = None\<rparr>"

text \<open>A message that does not fit is replaced by a fixed one.\<close>

definition bounded_message :: "string \<Rightarrow> string \<Rightarrow> string \<Rightarrow> string option" where
  "bounded_message field fallback message =
     (case ok (bounded_text_new MAX_HEALTH_MESSAGE_BYTES field message) of
        Some bounded \<Rightarrow> Some bounded
      | None \<Rightarrow> ok (bounded_text_new MAX_HEALTH_MESSAGE_BYTES field fallback))"

definition record_scoped ::
  "health_service \<Rightarrow> wall_time_ms \<Rightarrow> component_id \<Rightarrow> component_status \<Rightarrow> health_scope \<Rightarrow> string option \<Rightarrow> health_service" where
  "record_scoped service now component status scope message =
     (let message = Option.bind message
            (bounded_message ''health_message'' ''Component error exceeded the reporting limit'');
          service = service\<lparr>hw_registry := health_record (hw_registry service)
            \<lparr>ch_component = component, ch_status = status, ch_scope = scope\<rparr>\<rparr>
      in if scope = Global
         then service\<lparr>hw_global_components := btree_insert component
                \<lparr>he_updated_at = now, he_message = message\<rparr> (hw_global_components service)\<rparr>
         else service)"

definition record_global ::
  "health_service \<Rightarrow> wall_time_ms \<Rightarrow> component_id \<Rightarrow> component_status \<Rightarrow> string option \<Rightarrow> health_service" where
  "record_global service now component status message = record_scoped service now component status Global message"

definition service_component_status :: "health_service \<Rightarrow> component_id \<Rightarrow> component_status option" where
  "service_component_status service component = health_status (hw_registry service) component Global"

definition record_configuration_warning :: "health_service \<Rightarrow> string option \<Rightarrow> health_service" where
  "record_configuration_warning service warning =
     service\<lparr>hw_configuration_warning := Option.bind warning
       (bounded_message ''configuration_warning'' ''Configuration reload failed with an oversized diagnostic'')\<rparr>"

fun level :: "component_status \<Rightarrow> health_level" where
  "level Healthy = LevelHealthy"
| "level DegradedStatus = LevelDegraded"
| "level FailedStatus = LevelFailed"

fun critical :: "component_id \<Rightarrow> bool" where
  "critical ProcessSampler = True"
| "critical StoreId = True"
| "critical ReducerId = True"
| "critical Authorization = True"
| "critical _ = False"

fun component_name :: "component_id \<Rightarrow> string" where
  "component_name (AdapterId runtime) = ''adapter.'' @ runtime_as_str runtime"
| "component_name ProcessSampler = ''process_sampler''"
| "component_name StoreId = ''store''"
| "component_name ReducerId = ''reducer''"
| "component_name Authorization = ''authorization''"
| "component_name WatcherId = ''watcher''"
| "component_name FilesystemReconciliation = ''filesystem_reconciliation''"
| "component_name ObservationQueue = ''observation_queue''"
| "component_name DashboardDelivery = ''dashboard_delivery''"
| "component_name Notifications = ''notifications''"
| "component_name TerminationAutomation = ''termination_automation''"

definition health_snapshot_of :: "health_service \<Rightarrow> health_snapshot" where
  "health_snapshot_of service =
     (let components = map (\<lambda>(component, entry).
            \<lparr>hv_component = component_name component,
             hv_status = level (unwrap_or FailedStatus (health_status (hw_registry service) component Global)),
             hv_critical = critical component, hv_updated_at = he_updated_at entry, hv_message = he_message entry\<rparr>)
            (hw_global_components service);
          ready = is_ready (hw_registry service);
          status = (if \<not> ready then LevelFailed
                    else if hw_configuration_warning service \<noteq> None \<or>
                      list_ex (\<lambda>component. hv_status component \<noteq> LevelHealthy) components then LevelDegraded
                    else LevelHealthy)
      in \<lparr>hs_status = status, hs_ready = ready, hs_components = components,
          hs_configuration_warning = hw_configuration_warning service\<rparr>)"

text \<open>The HTTP status of the endpoint.\<close>

definition health_http_status :: "health_service \<Rightarrow> nat" where
  "health_http_status service = (if hs_ready (health_snapshot_of service) then 200 else 503)"

section \<open>The snapshot shows the latest reports\<close>

datatype health_op = ReportOp wall_time_ms component_health "string option" | WarningOp "string option"

fun health_step :: "health_service \<Rightarrow> health_op \<Rightarrow> health_service" where
  "health_step service (ReportOp now h message) =
     record_scoped service now (ch_component h) (ch_status h) (ch_scope h) message"
| "health_step service (WarningOp warning) = record_configuration_warning service warning"

fun report_of :: "health_op \<Rightarrow> component_health option" where
  "report_of (ReportOp now h message) = Some h"
| "report_of (WarningOp warning) = None"

definition reports_of :: "health_op list \<Rightarrow> component_health list" where
  "reports_of ops = List.map_filter report_of ops"

lemma reports_of_snoc [simp]:
  "reports_of [] = []"
  "reports_of (ops @ [op]) = reports_of ops @ (case report_of op of Some h \<Rightarrow> [h] | None \<Rightarrow> [])"
  by (auto simp: reports_of_def List.map_filter_def split: option.splits)

lemma latest_snoc:
  "latest (hs @ [h]) c s = (if ch_component h = c \<and> ch_scope h = s then Some (ch_status h) else latest hs c s)"
  by (simp add: latest_def)

lemma component_health_eta [simp]:
  "\<lparr>ch_component = ch_component h, ch_status = ch_status h, ch_scope = ch_scope h\<rparr> = h"
  by (cases h) simp

lemma service_state:
  "hw_registry (foldl health_step health_service_new ops) = foldl health_record [] (reports_of ops) \<and>
   btree_wf (hw_global_components (foldl health_step health_service_new ops)) \<and>
   fst ` set (hw_global_components (foldl health_step health_service_new ops)) =
     {c. latest (reports_of ops) c Global \<noteq> None}"
proof (induction ops rule: rev_induct)
  case Nil
  then show ?case
    by (simp add: health_service_new_def latest_def)
next
  case (snoc op ops)
  then show ?case
    by (cases op) (auto simp: record_scoped_def record_configuration_warning_def Let_def latest_snoc split: if_splits)
qed

lemma critical_same: "critical c = is_critical c"
  by (cases c) simp_all

text \<open>
  C23. The health endpoint tells the truth about the latest global reports: after any history of reports and
  configuration warnings, the components it lists are exactly those with a global report, each once, in component
  order, with the level of their latest report; it is ready unless the latest global report of a critical component
  is a failure, and it is healthy exactly when it is ready, no rejected configuration is outstanding and every
  latest global report is healthy.
\<close>
theorem health_snapshot_exact:
  "let service = foldl health_step health_service_new ops; snapshot = health_snapshot_of service in
   (\<exists>cs. sorted_wrt (<) cs \<and> set cs = {c. latest (reports_of ops) c Global \<noteq> None} \<and>
      map (\<lambda>v. (hv_component v, hv_status v, hv_critical v)) (hs_components snapshot) =
        map (\<lambda>c. (component_name c, level (the (latest (reports_of ops) c Global)), is_critical c)) cs) \<and>
   (hs_ready snapshot \<longleftrightarrow> (\<forall>c. \<not> (is_critical c \<and> latest (reports_of ops) c Global = Some FailedStatus))) \<and>
   (hs_status snapshot = LevelFailed \<longleftrightarrow> \<not> hs_ready snapshot) \<and>
   (hs_status snapshot = LevelHealthy \<longleftrightarrow> hs_ready snapshot \<and> hw_configuration_warning service = None \<and>
      (\<forall>c. latest (reports_of ops) c Global \<in> {None, Some Healthy}))"
proof -
  define service where "service = foldl health_step health_service_new ops"
  define cs where "cs = map fst (hw_global_components service)"
  have registry: "health_status (hw_registry service) c Global = latest (reports_of ops) c Global" for c
    using service_state [of ops] health_status_records by (simp add: service_def)
  have keys: "set cs = {c. latest (reports_of ops) c Global \<noteq> None}" and sorted: "sorted_wrt (<) cs"
    using service_state [of ops] by (auto simp: cs_def service_def btree_wf_def strict_sorted_iff)
  have known: "unwrap_or FailedStatus (latest (reports_of ops) c Global) = the (latest (reports_of ops) c Global)"
    if "c \<in> set cs" for c
    using that keys by auto
  have components: "map (\<lambda>v. (hv_component v, hv_status v, hv_critical v)) (hs_components (health_snapshot_of service)) =
      map (\<lambda>c. (component_name c, level (the (latest (reports_of ops) c Global)), is_critical c)) cs"
    using known by (fastforce simp: health_snapshot_of_def Let_def cs_def registry critical_same)
  have ready: "hs_ready (health_snapshot_of service) \<longleftrightarrow>
      (\<forall>c. \<not> (is_critical c \<and> latest (reports_of ops) c Global = Some FailedStatus))"
    using service_state [of ops] readiness_iff_no_critical_failure [of "reports_of ops"]
    by (auto simp: health_snapshot_of_def Let_def service_def)
  have level_healthy: "level st = LevelHealthy \<longleftrightarrow> st = Healthy" for st
    by (cases st) simp_all
  have "map hv_status (hs_components (health_snapshot_of service)) = map (\<lambda>c. level (the (latest (reports_of ops) c Global))) cs"
    using arg_cong [OF components, of "map (fst \<circ> snd)"] by (simp add: o_def)
  then have "hv_status ` set (hs_components (health_snapshot_of service)) =
      (\<lambda>c. level (the (latest (reports_of ops) c Global))) ` set cs"
    by (metis list.set_map)
  then have "list_ex (\<lambda>v. hv_status v \<noteq> LevelHealthy) (hs_components (health_snapshot_of service)) \<longleftrightarrow>
      (\<exists>c \<in> set cs. the (latest (reports_of ops) c Global) \<noteq> Healthy)"
    unfolding list_ex_iff level_healthy [symmetric] by (metis (no_types, lifting) image_iff)
  also have "\<dots> \<longleftrightarrow> \<not> (\<forall>c. latest (reports_of ops) c Global \<in> {None, Some Healthy})"
    using keys by force
  finally have unhealthy: "list_ex (\<lambda>v. hv_status v \<noteq> LevelHealthy) (hs_components (health_snapshot_of service)) \<longleftrightarrow>
      \<not> (\<forall>c. latest (reports_of ops) c Global \<in> {None, Some Healthy})" .
  have status: "hs_status (health_snapshot_of service) =
     (if \<not> hs_ready (health_snapshot_of service) then LevelFailed
      else if hw_configuration_warning service \<noteq> None \<or>
        list_ex (\<lambda>v. hv_status v \<noteq> LevelHealthy) (hs_components (health_snapshot_of service)) then LevelDegraded
      else LevelHealthy)"
    by (simp add: health_snapshot_of_def Let_def)
  show ?thesis
    unfolding Let_def service_def [symmetric] status unhealthy
    using keys sorted components ready by auto
qed

end
