(* ===== verification/Config.thy ===== *)
theory Config
  imports Path_Mapping Health_Service Reducer
begin

text \<open>
  The configuration of \<open>crates/watchdog-server/src/config.rs\<close>: loading and validating a candidate, and the
  manager that swaps it in. The file, the TOML decoder and the file system are parameters. A decoded document is
  a value of \<open>raw_config\<close>, its defaults filled in.
\<close>

section \<open>Decoded documents\<close>

record raw_paths =
  rp_allowed_worktree_roots :: "path list"
  rp_native_worktree_roots :: "path list"
  rp_native_claude_roots :: "path list"
  rp_claude_roots :: "path list"
  rp_native_codex_roots :: "path list"
  rp_codex_roots :: "path list"
  rp_native_companion_roots :: "path list"
  rp_companion_roots :: "path list"
  rp_exclusions :: "path list"

record raw_thresholds =
  rh_suspect_after_seconds :: u64
  rh_stalled_after_seconds :: u64
  rh_reminder_every_seconds :: u64
  rh_terminate_after_stalled_seconds :: u64
  rh_warning_grace_seconds :: u64
  rh_action_grace_seconds :: u64

definition default_raw_thresholds :: raw_thresholds where
  "default_raw_thresholds = \<lparr>rh_suspect_after_seconds = 5 * 60, rh_stalled_after_seconds = 15 * 60,
     rh_reminder_every_seconds = 5 * 60, rh_terminate_after_stalled_seconds = 60 * 60,
     rh_warning_grace_seconds = 10 * 60, rh_action_grace_seconds = 10 * 60\<rparr>"

record adapter_config =
  ac_claude :: bool
  ac_codex :: bool
  ac_companion :: bool

definition default_raw_adapters :: adapter_config where
  "default_raw_adapters = \<lparr>ac_claude = True, ac_codex = True, ac_companion = True\<rparr>"

record raw_termination =
  rt_automation_enabled :: bool
  rt_sigkill_enabled :: bool

definition default_raw_termination :: raw_termination where
  "default_raw_termination = \<lparr>rt_automation_enabled = True, rt_sigkill_enabled = True\<rparr>"

record raw_mcp =
  rx_max_sessions :: u64
  rx_idle_ttl_seconds :: u64
  rx_request_body_timeout_seconds :: u64

text \<open>The bounds of the MCP endpoint, its durations in seconds.\<close>

record mcp_limits =
  ml_max_sessions :: u64
  ml_idle_ttl :: u64
  ml_request_body_timeout :: u64

datatype mcp_limits_error = EmptyCapacity | ZeroIdleTtl | ZeroRequestBodyTimeout

definition mcp_limits_new :: "u64 \<Rightarrow> u64 \<Rightarrow> u64 \<Rightarrow> mcp_limits_error + mcp_limits" where
  "mcp_limits_new max_sessions idle_ttl request_body_timeout =
     (if max_sessions = 0 then Inl EmptyCapacity
      else if idle_ttl = 0 then Inl ZeroIdleTtl
      else if request_body_timeout = 0 then Inl ZeroRequestBodyTimeout
      else Inr \<lparr>ml_max_sessions = max_sessions, ml_idle_ttl = idle_ttl, ml_request_body_timeout = request_body_timeout\<rparr>)"

definition default_mcp_limits :: mcp_limits where
  "default_mcp_limits = \<lparr>ml_max_sessions = 64, ml_idle_ttl = 48 * 3600, ml_request_body_timeout = 30\<rparr>"

definition default_raw_mcp :: raw_mcp where
  "default_raw_mcp = \<lparr>rx_max_sessions = ml_max_sessions default_mcp_limits,
     rx_idle_ttl_seconds = ml_idle_ttl default_mcp_limits,
     rx_request_body_timeout_seconds = ml_request_body_timeout default_mcp_limits\<rparr>"

record raw_config =
  rw_paths :: raw_paths
  rw_thresholds :: raw_thresholds
  rw_adapters :: adapter_config
  rw_github_enabled :: bool
  rw_termination :: raw_termination
  rw_mcp :: raw_mcp

section \<open>Validation\<close>

record runtime_config =
  rc_worktree_mappings :: "worktree_path_mapping list"
  rc_claude_roots :: "path list"
  rc_claude_path_mappings :: "worktree_path_mapping list"
  rc_codex_roots :: "path list"
  rc_codex_path_mappings :: "worktree_path_mapping list"
  rc_companion_roots :: "path list"
  rc_companion_path_mappings :: "worktree_path_mapping list"
  rc_exclusions :: "path list"
  rc_reducer_policy :: reducer_policy
  rc_deadline_policy :: deadline_policy
  rc_adapters :: adapter_config
  rc_github_enabled :: bool
  rc_automation_enabled :: bool
  rc_sigkill_enabled :: bool
  rc_warning_grace :: duration_ms
  rc_action_grace :: duration_ms
  rc_mcp :: mcp_limits

datatype config_error =
    ConfigRead | ConfigTooLarge | ConfigInvalidUtf8 | ConfigInvalidToml | MissingWorktreeRoot | WorktreeMappingCount
  | RuntimeMappingCount | MissingRuntimeRoot | InvalidDirectory | OverbroadDirectory | ExclusionOutsideRoots
  | DurationOverflow | ConfigPathMapping path_mapping_error | ConfigReducerPolicy reducer_policy_error
  | ConfigDeadlinePolicy policy_error | ConfigMcpLimits mcp_limits_error

fun runtime_path_mappings_of :: "runtime_config \<Rightarrow> runtime_kind \<Rightarrow> worktree_path_mapping list" where
  "runtime_path_mappings_of c ClaudeCode = rc_claude_path_mappings c"
| "runtime_path_mappings_of c CodexCli = rc_codex_path_mappings c"
| "runtime_path_mappings_of c CodexCompanion = rc_companion_path_mappings c"
| "runtime_path_mappings_of c OpenCode = []"

text \<open>\<open>sort_unstable\<close> and \<open>dedup\<close>: equal elements are the same.\<close>

definition sort_dedup :: "'a::linorder list \<Rightarrow> 'a list" where
  "sort_dedup xs = remdups_adj (sort xs)"

definition canonical_directory :: "file_system \<Rightarrow> path \<Rightarrow> config_error + path" where
  "canonical_directory fs path =
     and_then (ok_or InvalidDirectory (fy_canonicalize fs path)) (\<lambda>path.
       if \<not> fy_is_dir fs path then Inl InvalidDirectory
       else if path = [RootDir] then Inl OverbroadDirectory
       else Inr path)"

definition canonical_directories :: "file_system \<Rightarrow> path list \<Rightarrow> config_error + path list" where
  "canonical_directories fs paths = map_ok sort_dedup (collect_results (map (canonical_directory fs) paths))"

definition paired_mappings :: "file_system \<Rightarrow> path list \<Rightarrow> path list \<Rightarrow> config_error + worktree_path_mapping list" where
  "paired_mappings fs native_roots mounted_roots =
     collect_results (map (\<lambda>(native, mounted). map_err ConfigPathMapping (worktree_path_mapping_new fs native mounted))
       (zip native_roots mounted_roots))"

definition worktree_mappings :: "file_system \<Rightarrow> path list \<Rightarrow> path list \<Rightarrow> config_error + worktree_path_mapping list" where
  "worktree_mappings fs native_roots mounted_roots =
     (if mounted_roots = [] then Inl MissingWorktreeRoot
      else if list_ex (\<lambda>root. root = [RootDir]) mounted_roots then Inl OverbroadDirectory
      else
        (let native_roots = (if native_roots = [] then mounted_roots else native_roots) in
         if length native_roots \<noteq> length mounted_roots then Inl WorktreeMappingCount
         else map_ok (\<lambda>mappings. remdups_adj (sort_key wm_native_root (sort_key wm_mounted_root mappings)))
                (paired_mappings fs native_roots mounted_roots)))"

definition runtime_path_mappings :: "file_system \<Rightarrow> path list \<Rightarrow> path list \<Rightarrow> config_error + worktree_path_mapping list" where
  "runtime_path_mappings fs native_roots mounted_roots =
     (let native_roots = (if native_roots = [] then mounted_roots else native_roots) in
      if length native_roots \<noteq> length mounted_roots then Inl RuntimeMappingCount
      else paired_mappings fs native_roots mounted_roots)"

definition seconds :: "u64 \<Rightarrow> config_error + duration_ms" where
  "seconds v = (if unat v * 1000 < 2 ^ 64 then Inr (v * 1000) else Inl DurationOverflow)"

definition validate_config :: "file_system \<Rightarrow> raw_config \<Rightarrow> config_error + runtime_config" where
  "validate_config fs raw =
     (let paths = rw_paths raw; thresholds = rw_thresholds raw; adapters = rw_adapters raw in
      and_then (worktree_mappings fs (rp_native_worktree_roots paths) (rp_allowed_worktree_roots paths)) (\<lambda>worktree_mappings.
      let allowed_worktree_roots = sort_dedup (map wm_mounted_root worktree_mappings) in
      if allowed_worktree_roots = [] then Inl MissingWorktreeRoot
      else
      and_then (canonical_directories fs (rp_claude_roots paths)) (\<lambda>claude_roots.
      and_then (canonical_directories fs (rp_codex_roots paths)) (\<lambda>codex_roots.
      and_then (canonical_directories fs (rp_companion_roots paths)) (\<lambda>companion_roots.
      and_then (runtime_path_mappings fs (rp_native_claude_roots paths) claude_roots) (\<lambda>claude_path_mappings.
      and_then (runtime_path_mappings fs (rp_native_codex_roots paths) codex_roots) (\<lambda>codex_path_mappings.
      and_then (runtime_path_mappings fs (rp_native_companion_roots paths) companion_roots) (\<lambda>companion_path_mappings.
      if ac_claude adapters \<and> claude_roots = [] \<or> ac_codex adapters \<and> codex_roots = [] \<or>
         ac_companion adapters \<and> companion_roots = [] then Inl MissingRuntimeRoot
      else
      let capability_roots = allowed_worktree_roots @ claude_roots @ codex_roots @ companion_roots in
      and_then (canonical_directories fs (rp_exclusions paths)) (\<lambda>exclusions.
      if list_ex (\<lambda>exclusion. \<not> list_ex (starts_with exclusion) capability_roots) exclusions then Inl ExclusionOutsideRoots
      else
      and_then (seconds (rh_suspect_after_seconds thresholds)) (\<lambda>suspect_after.
      and_then (seconds (rh_stalled_after_seconds thresholds)) (\<lambda>stalled_after.
      and_then (seconds (rh_reminder_every_seconds thresholds)) (\<lambda>reminder_every.
      and_then (seconds (rh_terminate_after_stalled_seconds thresholds)) (\<lambda>terminate_after_stalled.
      and_then (seconds (rh_warning_grace_seconds thresholds)) (\<lambda>warning_grace.
      and_then (seconds (rh_action_grace_seconds thresholds)) (\<lambda>action_grace.
      and_then (map_err ConfigReducerPolicy (reducer_policy_new suspect_after stalled_after reminder_every)) (\<lambda>reducer_policy.
      and_then (map_err ConfigDeadlinePolicy (deadline_policy_new stalled_after terminate_after_stalled action_grace))
        (\<lambda>deadline_policy.
      and_then (map_err ConfigMcpLimits (mcp_limits_new (rx_max_sessions (rw_mcp raw)) (rx_idle_ttl_seconds (rw_mcp raw))
          (rx_request_body_timeout_seconds (rw_mcp raw)))) (\<lambda>mcp.
        Inr \<lparr>rc_worktree_mappings = worktree_mappings, rc_claude_roots = claude_roots,
             rc_claude_path_mappings = claude_path_mappings, rc_codex_roots = codex_roots,
             rc_codex_path_mappings = codex_path_mappings, rc_companion_roots = companion_roots,
             rc_companion_path_mappings = companion_path_mappings, rc_exclusions = exclusions,
             rc_reducer_policy = reducer_policy, rc_deadline_policy = deadline_policy, rc_adapters = adapters,
             rc_github_enabled = rw_github_enabled raw, rc_automation_enabled = rt_automation_enabled (rw_termination raw),
             rc_sigkill_enabled = rt_sigkill_enabled (rw_termination raw), rc_warning_grace = warning_grace,
             rc_action_grace = action_grace, rc_mcp = mcp\<rparr>))))))))))))))))))"

section \<open>Loading and reloading\<close>

definition MAX_CONFIG_BYTES :: nat where
  "MAX_CONFIG_BYTES = 1024 * 1024"

definition MAX_RELOAD_ERROR_BYTES :: nat where
  "MAX_RELOAD_ERROR_BYTES = 1024"

text \<open>The file system at one load: its tree, the content of the file, and the TOML decoder.\<close>

record config_source =
  cs_files :: file_system
  cs_content :: "string option"
  cs_decode :: "string \<Rightarrow> raw_config option"

definition load_config :: "config_source \<Rightarrow> config_error + runtime_config" where
  "load_config source =
     and_then (ok_or ConfigRead (map_option (take (MAX_CONFIG_BYTES + 1)) (cs_content source))) (\<lambda>bytes.
       if length bytes > MAX_CONFIG_BYTES then Inl ConfigTooLarge
       else if \<not> utf8_valid bytes then Inl ConfigInvalidUtf8
       else and_then (ok_or ConfigInvalidToml (cs_decode source bytes)) (validate_config (cs_files source)))"

text \<open>\<open>Display\<close> of an error.\<close>

fun config_error_text :: "config_error \<Rightarrow> string" where
  "config_error_text ConfigRead = ''Unable to read configuration''"
| "config_error_text ConfigTooLarge = ''Configuration exceeds 1048576 bytes''"
| "config_error_text ConfigInvalidUtf8 = ''Configuration is not valid UTF-8''"
| "config_error_text ConfigInvalidToml = ''Configuration is not valid TOML''"
| "config_error_text MissingWorktreeRoot = ''At least one allowed worktree root is required''"
| "config_error_text WorktreeMappingCount = ''Native and mounted worktree root counts must match''"
| "config_error_text RuntimeMappingCount = ''Native and mounted runtime state root counts must match''"
| "config_error_text MissingRuntimeRoot = ''Every enabled runtime adapter requires at least one state root''"
| "config_error_text InvalidDirectory = ''Configured path is absent or not a directory''"
| "config_error_text OverbroadDirectory = ''Configured path is too broad''"
| "config_error_text ExclusionOutsideRoots = ''Configured exclusion is outside every capability root''"
| "config_error_text DurationOverflow = ''Configured duration is too large''"
| "config_error_text (ConfigPathMapping InvalidNativeRoot) = ''Native worktree prefix is invalid''"
| "config_error_text (ConfigPathMapping InvalidMountedRoot) = ''Mounted worktree root is invalid''"
| "config_error_text (ConfigReducerPolicy SuspectAfterStall) = ''Suspect threshold must not exceed stall threshold''"
| "config_error_text (ConfigReducerPolicy ZeroReminder) = ''Reminder cadence must be positive''"
| "config_error_text (ConfigDeadlinePolicy ZeroStalledTerminationDelay) = ''Stalled termination delay must be positive''"
| "config_error_text (ConfigDeadlinePolicy ZeroGrace) = ''Graceful signal grace must be positive''"
| "config_error_text (ConfigMcpLimits EmptyCapacity) = ''MCP max_sessions must be at least 1''"
| "config_error_text (ConfigMcpLimits ZeroIdleTtl) = ''MCP idle_ttl_seconds must be at least 1''"
| "config_error_text (ConfigMcpLimits ZeroRequestBodyTimeout) = ''MCP request_body_timeout_seconds must be at least 1''"

record config_manager =
  cm_current :: runtime_config
  cm_last_reload_error :: "string option"

definition load_manager :: "config_source \<Rightarrow> config_error + config_manager" where
  "load_manager source = map_ok (\<lambda>config. \<lparr>cm_current = config, cm_last_reload_error = None\<rparr>) (load_config source)"

definition reload :: "config_source \<Rightarrow> config_manager \<Rightarrow> config_manager \<times> (config_error + runtime_config)" where
  "reload source manager =
     (case load_config source of
        Inr candidate \<Rightarrow> (manager\<lparr>cm_current := candidate, cm_last_reload_error := None\<rparr>, Inr candidate)
      | Inl error \<Rightarrow>
          (manager\<lparr>cm_last_reload_error := ok (bounded_text_new MAX_RELOAD_ERROR_BYTES ''reload_error''
              (''configuration reload rejected: '' @ config_error_text error))\<rparr>, Inl error))"

section \<open>The reload worker\<close>

record reload_worker =
  rw_manager :: config_manager
  rw_health :: health_service
  rw_policy :: reducer_policy

definition record_adapter_health :: "wall_time_ms \<Rightarrow> runtime_config \<Rightarrow> health_service \<Rightarrow> health_service" where
  "record_adapter_health now config service =
     foldl (\<lambda>service (enabled, runtime).
         if enabled then record_global service now (AdapterId runtime) DegradedStatus
           (Some ''Adapter discovery is awaiting its first reconciliation'') else service)
       service [(ac_claude (rc_adapters config), ClaudeCode), (ac_codex (rc_adapters config), CodexCli),
         (ac_companion (rc_adapters config), CodexCompanion)]"

definition reload_step :: "wall_time_ms \<Rightarrow> config_source \<Rightarrow> reload_worker \<Rightarrow> reload_worker" where
  "reload_step now source w =
     (case reload source (rw_manager w) of
        (manager, Inr candidate) \<Rightarrow>
          w\<lparr>rw_manager := manager, rw_policy := rc_reducer_policy candidate,
            rw_health := record_configuration_warning (record_adapter_health now candidate (rw_health w)) None\<rparr>
      | (manager, Inl _) \<Rightarrow>
          w\<lparr>rw_manager := manager, rw_health := record_configuration_warning (rw_health w) (cm_last_reload_error manager)\<rparr>)"

section \<open>What an accepted configuration guarantees\<close>

definition root_ok :: "file_system \<Rightarrow> path \<Rightarrow> bool" where
  "root_ok fs root \<longleftrightarrow> root \<noteq> [RootDir] \<and> fy_is_dir fs root \<and> (\<exists>path. fy_canonicalize fs path = Some root)"

definition mapping_ok :: "file_system \<Rightarrow> worktree_path_mapping \<Rightarrow> bool" where
  "mapping_ok fs m \<longleftrightarrow> is_concrete_absolute (wm_native_root m) \<and> root_ok fs (wm_mounted_root m)"

definition config_roots :: "runtime_config \<Rightarrow> path list" where
  "config_roots c = map wm_mounted_root (rc_worktree_mappings c) @ rc_claude_roots c @ rc_codex_roots c @ rc_companion_roots c"

definition config_ok :: "file_system \<Rightarrow> runtime_config \<Rightarrow> bool" where
  "config_ok fs c \<longleftrightarrow>
     rc_worktree_mappings c \<noteq> [] \<and>
     (\<forall>m \<in> set (rc_worktree_mappings c @ rc_claude_path_mappings c @ rc_codex_path_mappings c @
         rc_companion_path_mappings c). mapping_ok fs m) \<and>
     (\<forall>root \<in> set (config_roots c). root_ok fs root) \<and>
     (ac_claude (rc_adapters c) \<longrightarrow> rc_claude_roots c \<noteq> []) \<and> (ac_codex (rc_adapters c) \<longrightarrow> rc_codex_roots c \<noteq> []) \<and>
     (ac_companion (rc_adapters c) \<longrightarrow> rc_companion_roots c \<noteq> []) \<and>
     (\<forall>exclusion \<in> set (rc_exclusions c). root_ok fs exclusion \<and> (\<exists>root \<in> set (config_roots c). starts_with exclusion root)) \<and>
     policy_wf (rc_reducer_policy c) \<and> rp_stall_after (rc_reducer_policy c) = dp_stall_after (rc_deadline_policy c) \<and>
     dp_terminate_after_stalled (rc_deadline_policy c) \<noteq> 0 \<and> dp_graceful_signal_grace (rc_deadline_policy c) \<noteq> 0 \<and>
     ml_max_sessions (rc_mcp c) \<noteq> 0 \<and> ml_idle_ttl (rc_mcp c) \<noteq> 0 \<and> ml_request_body_timeout (rc_mcp c) \<noteq> 0"

lemma set_sort_dedup [simp]: "set (sort_dedup xs) = set xs"
  by (simp add: sort_dedup_def)

lemma sort_dedup_empty [simp]: "sort_dedup xs = [] \<longleftrightarrow> xs = []"
  by (metis set_empty set_sort_dedup)

lemma canonical_directories_ok:
  assumes "canonical_directories fs paths = Inr roots"
  shows "\<forall>root \<in> set roots. root_ok fs root"
proof
  fix root
  obtain found where found: "map (canonical_directory fs) paths = map Inr found" "roots = sort_dedup found"
    using assms by (auto simp: canonical_directories_def result_elims)
  assume "root \<in> set roots"
  then have "(Inr root :: config_error + path) \<in> set (map Inr found)"
    by (simp add: found(2))
  then obtain path where "canonical_directory fs path = Inr root"
    unfolding found(1) [symmetric] by auto
  then show "root_ok fs root"
    by (auto simp: canonical_directory_def root_ok_def result_elims split: if_splits)
qed

lemma paired_mappings_Inr:
  assumes "paired_mappings fs natives mounteds = Inr mappings" and "length natives = length mounteds"
  shows "map wm_native_root mappings = natives \<and> (\<forall>m \<in> set mappings. mapping_ok fs m) \<and>
    map (Some \<circ> wm_mounted_root) mappings = map (fy_canonicalize fs) mounteds"
  using assms(2,1)
proof (induction natives mounteds arbitrary: mappings rule: list_induct2)
  case (Cons native natives mounted mounteds)
  then obtain m rest where "worktree_path_mapping_new fs native mounted = Inr m" "mappings = m # rest"
    "paired_mappings fs natives mounteds = Inr rest"
    by (auto simp: paired_mappings_def result_elims)
  then show ?case
    using Cons.IH [of rest]
    by (auto simp: worktree_path_mapping_new_def mapping_ok_def root_ok_def result_elims split: if_splits)
qed (simp add: paired_mappings_def)

lemma runtime_path_mappings_Inr:
  assumes "runtime_path_mappings fs natives mounteds = Inr mappings"
  shows "map wm_native_root mappings = (if natives = [] then mounteds else natives) \<and> (\<forall>m \<in> set mappings. mapping_ok fs m) \<and>
    map (Some \<circ> wm_mounted_root) mappings = map (fy_canonicalize fs) mounteds"
  using assms paired_mappings_Inr [of fs _ mounteds mappings]
  by (auto simp: runtime_path_mappings_def Let_def split: if_splits)

lemma worktree_mappings_Inr:
  assumes "worktree_mappings fs natives mounteds = Inr mappings"
  shows "mappings \<noteq> [] \<and> (\<forall>m \<in> set mappings. mapping_ok fs m) \<and>
    (\<exists>pairs. set mappings = set pairs \<and> map wm_native_root pairs = (if natives = [] then mounteds else natives) \<and>
       map (Some \<circ> wm_mounted_root) pairs = map (fy_canonicalize fs) mounteds)"
proof -
  let ?natives = "if natives = [] then mounteds else natives"
  obtain pairs where pairs: "paired_mappings fs ?natives mounteds = Inr pairs" "length ?natives = length mounteds"
    "set mappings = set pairs" "mounteds \<noteq> []"
    using assms by (auto simp: worktree_mappings_def Let_def result_elims split: if_splits)
  note mapped = paired_mappings_Inr [OF pairs(1,2)]
  then have "length pairs = length mounteds"
    by (metis length_map)
  then show ?thesis
    using mapped pairs(3,4) by (auto intro!: exI [of _ pairs])
qed

lemma guard_Inr_iff: "(if b then Inl e else r) = Inr c \<longleftrightarrow> \<not> b \<and> r = Inr c"
  by simp

lemma validate_config_Inr:
  assumes "validate_config fs raw = Inr c"
  shows "worktree_mappings fs (rp_native_worktree_roots (rw_paths raw)) (rp_allowed_worktree_roots (rw_paths raw)) =
      Inr (rc_worktree_mappings c)"
    and "canonical_directories fs (rp_claude_roots (rw_paths raw)) = Inr (rc_claude_roots c)"
    and "canonical_directories fs (rp_codex_roots (rw_paths raw)) = Inr (rc_codex_roots c)"
    and "canonical_directories fs (rp_companion_roots (rw_paths raw)) = Inr (rc_companion_roots c)"
    and "runtime_path_mappings fs (rp_native_claude_roots (rw_paths raw)) (rc_claude_roots c) = Inr (rc_claude_path_mappings c)"
    and "runtime_path_mappings fs (rp_native_codex_roots (rw_paths raw)) (rc_codex_roots c) = Inr (rc_codex_path_mappings c)"
    and "runtime_path_mappings fs (rp_native_companion_roots (rw_paths raw)) (rc_companion_roots c) =
      Inr (rc_companion_path_mappings c)"
    and "rc_adapters c = rw_adapters raw"
    and "\<not> (ac_claude (rw_adapters raw) \<and> rc_claude_roots c = [] \<or> ac_codex (rw_adapters raw) \<and> rc_codex_roots c = [] \<or>
      ac_companion (rw_adapters raw) \<and> rc_companion_roots c = [])"
    and "canonical_directories fs (rp_exclusions (rw_paths raw)) = Inr (rc_exclusions c)"
    and "\<not> list_ex (\<lambda>exclusion. \<not> list_ex (starts_with exclusion) (sort_dedup (map wm_mounted_root (rc_worktree_mappings c)) @
      rc_claude_roots c @ rc_codex_roots c @ rc_companion_roots c)) (rc_exclusions c)"
    and "\<exists>suspect stalled reminder. reducer_policy_new suspect stalled reminder = Inr (rc_reducer_policy c) \<and>
      (\<exists>terminate. deadline_policy_new stalled terminate (rc_action_grace c) = Inr (rc_deadline_policy c))"
    and "mcp_limits_new (rx_max_sessions (rw_mcp raw)) (rx_idle_ttl_seconds (rw_mcp raw))
      (rx_request_body_timeout_seconds (rw_mcp raw)) = Inr (rc_mcp c)"
proof -
  obtain wm cl cx co clm cxm com ex su st re te wa ac rp dp ml where steps:
    "worktree_mappings fs (rp_native_worktree_roots (rw_paths raw)) (rp_allowed_worktree_roots (rw_paths raw)) = Inr wm"
    "canonical_directories fs (rp_claude_roots (rw_paths raw)) = Inr cl"
    "canonical_directories fs (rp_codex_roots (rw_paths raw)) = Inr cx"
    "canonical_directories fs (rp_companion_roots (rw_paths raw)) = Inr co"
    "runtime_path_mappings fs (rp_native_claude_roots (rw_paths raw)) cl = Inr clm"
    "runtime_path_mappings fs (rp_native_codex_roots (rw_paths raw)) cx = Inr cxm"
    "runtime_path_mappings fs (rp_native_companion_roots (rw_paths raw)) co = Inr com"
    "\<not> (ac_claude (rw_adapters raw) \<and> cl = [] \<or> ac_codex (rw_adapters raw) \<and> cx = [] \<or>
      ac_companion (rw_adapters raw) \<and> co = [])"
    "canonical_directories fs (rp_exclusions (rw_paths raw)) = Inr ex"
    "\<not> list_ex (\<lambda>exclusion. \<not> list_ex (starts_with exclusion) (sort_dedup (map wm_mounted_root wm) @ cl @ cx @ co)) ex"
    "reducer_policy_new su st re = Inr rp" "deadline_policy_new st te ac = Inr dp"
    "mcp_limits_new (rx_max_sessions (rw_mcp raw)) (rx_idle_ttl_seconds (rw_mcp raw))
      (rx_request_body_timeout_seconds (rw_mcp raw)) = Inr ml"
    and c: "Inr \<lparr>rc_worktree_mappings = wm, rc_claude_roots = cl, rc_claude_path_mappings = clm, rc_codex_roots = cx,
      rc_codex_path_mappings = cxm, rc_companion_roots = co, rc_companion_path_mappings = com, rc_exclusions = ex,
      rc_reducer_policy = rp, rc_deadline_policy = dp, rc_adapters = rw_adapters raw,
      rc_github_enabled = rw_github_enabled raw, rc_automation_enabled = rt_automation_enabled (rw_termination raw),
      rc_sigkill_enabled = rt_sigkill_enabled (rw_termination raw), rc_warning_grace = wa, rc_action_grace = ac,
      rc_mcp = ml\<rparr> = (Inr c :: config_error + runtime_config)"
    using assms unfolding validate_config_def Let_def and_then_Inr_iff guard_Inr_iff map_err_Inr_iff
    by (elim exE conjE) (rule that, assumption+)
  note parts = c [unfolded sum.inject, symmetric]
  show "worktree_mappings fs (rp_native_worktree_roots (rw_paths raw)) (rp_allowed_worktree_roots (rw_paths raw)) =
      Inr (rc_worktree_mappings c)"
    using steps unfolding parts by simp
  show "canonical_directories fs (rp_claude_roots (rw_paths raw)) = Inr (rc_claude_roots c)"
    using steps unfolding parts by simp
  show "canonical_directories fs (rp_codex_roots (rw_paths raw)) = Inr (rc_codex_roots c)"
    using steps unfolding parts by simp
  show "canonical_directories fs (rp_companion_roots (rw_paths raw)) = Inr (rc_companion_roots c)"
    using steps unfolding parts by simp
  show "runtime_path_mappings fs (rp_native_claude_roots (rw_paths raw)) (rc_claude_roots c) = Inr (rc_claude_path_mappings c)"
    using steps unfolding parts by simp
  show "runtime_path_mappings fs (rp_native_codex_roots (rw_paths raw)) (rc_codex_roots c) = Inr (rc_codex_path_mappings c)"
    using steps unfolding parts by simp
  show "runtime_path_mappings fs (rp_native_companion_roots (rw_paths raw)) (rc_companion_roots c) =
      Inr (rc_companion_path_mappings c)"
    using steps unfolding parts by simp
  show "rc_adapters c = rw_adapters raw"
    using steps unfolding parts by simp
  show "\<not> (ac_claude (rw_adapters raw) \<and> rc_claude_roots c = [] \<or> ac_codex (rw_adapters raw) \<and> rc_codex_roots c = [] \<or>
      ac_companion (rw_adapters raw) \<and> rc_companion_roots c = [])"
    using steps unfolding parts by simp
  show "canonical_directories fs (rp_exclusions (rw_paths raw)) = Inr (rc_exclusions c)"
    using steps unfolding parts by simp
  show "\<not> list_ex (\<lambda>exclusion. \<not> list_ex (starts_with exclusion) (sort_dedup (map wm_mounted_root (rc_worktree_mappings c)) @
      rc_claude_roots c @ rc_codex_roots c @ rc_companion_roots c)) (rc_exclusions c)"
    using steps unfolding parts by simp
  show "\<exists>suspect stalled reminder. reducer_policy_new suspect stalled reminder = Inr (rc_reducer_policy c) \<and>
      (\<exists>terminate. deadline_policy_new stalled terminate (rc_action_grace c) = Inr (rc_deadline_policy c))"
    using steps unfolding parts by auto
  show "mcp_limits_new (rx_max_sessions (rw_mcp raw)) (rx_idle_ttl_seconds (rw_mcp raw))
      (rx_request_body_timeout_seconds (rw_mcp raw)) = Inr (rc_mcp c)"
    using steps unfolding parts by simp
qed

lemma accepted_policies:
  "reducer_policy_new suspect stalled reminder = Inr rp \<Longrightarrow> policy_wf rp \<and> rp_stall_after rp = stalled"
  "deadline_policy_new stalled terminate action = Inr dp \<Longrightarrow>
     dp_stall_after dp = stalled \<and> dp_terminate_after_stalled dp \<noteq> 0 \<and> dp_graceful_signal_grace dp \<noteq> 0"
  "mcp_limits_new max_sessions idle body = Inr ml \<Longrightarrow>
     ml_max_sessions ml \<noteq> 0 \<and> ml_idle_ttl ml \<noteq> 0 \<and> ml_request_body_timeout ml \<noteq> 0"
  by (auto simp: reducer_policy_new_def policy_wf_def deadline_policy_new_def mcp_limits_new_def split: if_splits)

text \<open>
  Every configuration that is loaded is usable: it has a worktree mapping and, for each enabled adapter, a state
  root; every mapping leads from a concrete absolute host path to an existing canonical directory that is not the
  file system's root; every exclusion lies in one of the roots; the thresholds form valid policies that agree on
  the stall threshold, and the bounds of the endpoint are positive.
\<close>
lemma loaded_config_ok:
  assumes "load_config source = Inr c"
  shows "config_ok (cs_files source) c"
proof -
  obtain raw where "validate_config (cs_files source) raw = Inr c"
    using assms by (auto simp: load_config_def result_elims split: if_splits)
  note v = validate_config_Inr [OF this]
  have maps: "rc_worktree_mappings c \<noteq> []" "\<forall>m \<in> set (rc_worktree_mappings c). mapping_ok (cs_files source) m"
    using worktree_mappings_Inr [OF v(1)] by simp_all
  have runtime: "\<forall>m \<in> set (rc_claude_path_mappings c @ rc_codex_path_mappings c @ rc_companion_path_mappings c).
      mapping_ok (cs_files source) m"
    using runtime_path_mappings_Inr [OF v(5)] runtime_path_mappings_Inr [OF v(6)] runtime_path_mappings_Inr [OF v(7)]
    by auto
  have roots: "\<forall>root \<in> set (config_roots c). root_ok (cs_files source) root"
    using maps(2) canonical_directories_ok [OF v(2)] canonical_directories_ok [OF v(3)] canonical_directories_ok [OF v(4)]
    by (auto simp: config_roots_def mapping_ok_def)
  have "\<forall>exclusion \<in> set (rc_exclusions c). \<exists>root \<in> set (config_roots c). starts_with exclusion root"
    using v(11) by (auto simp: list_ex_iff config_roots_def)
  moreover have "policy_wf (rc_reducer_policy c)" "rp_stall_after (rc_reducer_policy c) = dp_stall_after (rc_deadline_policy c)"
    "dp_terminate_after_stalled (rc_deadline_policy c) \<noteq> 0" "dp_graceful_signal_grace (rc_deadline_policy c) \<noteq> 0"
    using v(12) accepted_policies(1,2) by fastforce+
  moreover have "ml_max_sessions (rc_mcp c) \<noteq> 0" "ml_idle_ttl (rc_mcp c) \<noteq> 0" "ml_request_body_timeout (rc_mcp c) \<noteq> 0"
    using accepted_policies(3) [OF v(13)] by simp_all
  ultimately show ?thesis
    using maps runtime roots canonical_directories_ok [OF v(10)] v(8,9) by (auto simp: config_ok_def)
qed

section \<open>The last valid configuration stays active\<close>

definition accepted_configs :: "config_source list \<Rightarrow> runtime_config list" where
  "accepted_configs sources = List.map_filter (ok \<circ> load_config) sources"

lemma accepted_configs_snoc [simp]:
  "accepted_configs [] = []"
  "accepted_configs (source # sources) = (case load_config source of Inr c \<Rightarrow> [c] | Inl _ \<Rightarrow> []) @ accepted_configs sources"
  "accepted_configs (sources @ sources') = accepted_configs sources @ accepted_configs sources'"
  by (auto simp: accepted_configs_def List.map_filter_def split: sum.splits)

lemma accepted_configs_loaded:
  "c \<in> set (accepted_configs sources) \<Longrightarrow> \<exists>valid \<in> set sources. load_config valid = Inr c"
  by (induction sources) (auto split: sum.splits)

lemma reload_message: "bounded_text_new MAX_RELOAD_ERROR_BYTES ''reload_error''
    (''configuration reload rejected: '' @ config_error_text e) =
    Inr (''configuration reload rejected: '' @ config_error_text e)"
  by (cases e rule: config_error_text.cases) (simp_all add: bounded_text_new_def MAX_RELOAD_ERROR_BYTES_def byte_in_def)

lemma warning_message: "bounded_message ''configuration_warning'' fallback (''configuration reload rejected: '' @ config_error_text e) =
    Some (''configuration reload rejected: '' @ config_error_text e)"
  by (cases e rule: config_error_text.cases)
    (simp_all add: bounded_message_def bounded_text_new_def MAX_HEALTH_MESSAGE_BYTES_def byte_in_def)

definition run_reloads :: "(wall_time_ms \<times> config_source) list \<Rightarrow> reload_worker \<Rightarrow> reload_worker" where
  "run_reloads events w = foldl (\<lambda>w (now, source). reload_step now source w) w events"

text \<open>
  C21. A rejected reload changes nothing but the reported warning: over any sequence of reloads, whatever the file
  contains at each of them, the active configuration is the last one that was accepted, and it is usable by the
  file system it was loaded from; the thresholds of the reducers are those of the active configuration; and after a
  rejected reload the health endpoint shows the reason and is not healthy, while after an accepted one no warning
  is left.
\<close>
theorem reload_keeps_last_valid:
  assumes "load_manager source = Inr manager" and "rw_manager w0 = manager"
    and "rw_policy w0 = rc_reducer_policy (cm_current manager)" and "w = run_reloads events w0"
  shows "cm_current (rw_manager w) = last (accepted_configs (source # map snd events)) \<and>
    rw_policy w = rc_reducer_policy (cm_current (rw_manager w)) \<and>
    (\<exists>valid \<in> set (source # map snd events). load_config valid = Inr (cm_current (rw_manager w)) \<and>
       config_ok (cs_files valid) (cm_current (rw_manager w))) \<and>
    (\<forall>before now latest. events = before @ [(now, latest)] \<longrightarrow>
       hs_configuration_warning (health_snapshot_of (rw_health w)) =
         (case load_config latest of Inl e \<Rightarrow> Some (''configuration reload rejected: '' @ config_error_text e) | Inr _ \<Rightarrow> None) \<and>
       (hs_configuration_warning (health_snapshot_of (rw_health w)) \<noteq> None \<longrightarrow>
          hs_status (health_snapshot_of (rw_health w)) \<noteq> LevelHealthy))"
proof -
  have start: "load_config source = Inr (cm_current manager)"
    using assms(1) by (auto simp: load_manager_def result_elims)
  have active: "cm_current (rw_manager (run_reloads es w0)) = last (accepted_configs (source # map snd es)) \<and>
      rw_policy (run_reloads es w0) = rc_reducer_policy (cm_current (rw_manager (run_reloads es w0)))" for es
    using start assms(2,3)
    by (induction es rule: rev_induct)
      (auto simp: run_reloads_def reload_step_def reload_def split: sum.splits prod.splits)
  have shown: "hs_configuration_warning (health_snapshot_of service) = hw_configuration_warning service"
    "hw_configuration_warning service \<noteq> None \<Longrightarrow> hs_status (health_snapshot_of service) \<noteq> LevelHealthy" for service
    by (simp_all add: health_snapshot_of_def Let_def)
  have warned: "hw_configuration_warning (rw_health w) =
      (case load_config latest of Inl e \<Rightarrow> Some (''configuration reload rejected: '' @ config_error_text e) | Inr _ \<Rightarrow> None)"
    if "events = before @ [(now, latest)]" for before now latest
    using that assms(4) reload_message warning_message
    by (auto simp: run_reloads_def reload_step_def reload_def record_configuration_warning_def split: sum.splits)
  have "accepted_configs (source # map snd events) \<noteq> []"
    using start by simp
  then have "cm_current (rw_manager w) \<in> set (accepted_configs (source # map snd events))"
    using active [of events] assms(4) last_in_set by metis
  then obtain valid where "valid \<in> set (source # map snd events)" "load_config valid = Inr (cm_current (rw_manager w))"
    using accepted_configs_loaded by blast
  then have "\<exists>valid \<in> set (source # map snd events). load_config valid = Inr (cm_current (rw_manager w)) \<and>
      config_ok (cs_files valid) (cm_current (rw_manager w))"
    using loaded_config_ok by blast
  then show ?thesis
    using active [of events] warned shown unfolding assms(4) by (intro conjI allI impI) simp_all
qed

section \<open>How host roots and mounted roots are paired\<close>

text \<open>Canonical paths are canonical.\<close>

definition canonical_fs :: "file_system \<Rightarrow> bool" where
  "canonical_fs fs \<longleftrightarrow> (\<forall>path canonical. fy_canonicalize fs path = Some canonical \<longrightarrow>
     fy_canonicalize fs canonical = Some canonical)"

definition mapping_pairs :: "worktree_path_mapping list \<Rightarrow> (path \<times> path) list" where
  "mapping_pairs mappings = map (\<lambda>m. (wm_native_root m, wm_mounted_root m)) mappings"

lemma mapping_pairs_zip:
  assumes "map wm_native_root mappings = natives" and "map (Some \<circ> wm_mounted_root) mappings = map f mounteds"
  shows "mapping_pairs mappings = zip natives (map (the \<circ> f) mounteds)"
proof -
  have "map (the \<circ> f) mounteds = map the (map (Some \<circ> wm_mounted_root) mappings)"
    unfolding assms(2) by simp
  then show ?thesis
    unfolding mapping_pairs_def assms(1) [symmetric] by (simp add: zip_map_map zip_same_conv_map)
qed

lemma canonical_directories_Inr:
  assumes "canonical_directories fs paths = Inr roots"
  shows "roots = sort_dedup (map (the \<circ> fy_canonicalize fs) paths)"
proof -
  obtain found where found: "map (canonical_directory fs) paths = map Inr found" "roots = sort_dedup found"
    using assms by (auto simp: canonical_directories_def result_elims)
  have "map (the \<circ> fy_canonicalize fs) paths = found"
    using found(1)
  proof (induction paths arbitrary: found)
    case (Cons path paths)
    then show ?case
      by (cases found) (auto simp: canonical_directory_def result_elims split: if_splits)
  qed simp
  then show ?thesis
    using found(2) by simp
qed

text \<open>
  C22. Host state roots are not paired with the mounted roots they are listed with: in every accepted configuration
  the worktree mappings are the listed pairs, but the mapping of a runtime pairs its host roots, in the order of the
  file, with its mounted roots after these were sorted and freed of duplicates.
\<close>
theorem runtime_roots_paired_sorted:
  assumes "validate_config fs raw = Inr c" and "canonical_fs fs"
    and "rp_native_worktree_roots (rw_paths raw) \<noteq> []" and "rp_native_claude_roots (rw_paths raw) \<noteq> []"
    and "rp_native_codex_roots (rw_paths raw) \<noteq> []" and "rp_native_companion_roots (rw_paths raw) \<noteq> []"
  shows "set (mapping_pairs (rc_worktree_mappings c)) = set (zip (rp_native_worktree_roots (rw_paths raw))
       (map (the \<circ> fy_canonicalize fs) (rp_allowed_worktree_roots (rw_paths raw)))) \<and>
    mapping_pairs (rc_claude_path_mappings c) = zip (rp_native_claude_roots (rw_paths raw))
       (sort_dedup (map (the \<circ> fy_canonicalize fs) (rp_claude_roots (rw_paths raw)))) \<and>
    mapping_pairs (rc_codex_path_mappings c) = zip (rp_native_codex_roots (rw_paths raw))
       (sort_dedup (map (the \<circ> fy_canonicalize fs) (rp_codex_roots (rw_paths raw)))) \<and>
    mapping_pairs (rc_companion_path_mappings c) = zip (rp_native_companion_roots (rw_paths raw))
       (sort_dedup (map (the \<circ> fy_canonicalize fs) (rp_companion_roots (rw_paths raw))))"
proof -
  note v = validate_config_Inr [OF assms(1)]
  have same: "map (the \<circ> fy_canonicalize fs) roots = roots" if "canonical_directories fs paths = Inr roots" for paths roots
  proof (rule map_idI)
    fix root
    assume "root \<in> set roots"
    then show "(the \<circ> fy_canonicalize fs) root = root"
      using canonical_directories_ok [OF that] assms(2) by (auto simp: root_ok_def canonical_fs_def)
  qed
  have runtime: "mapping_pairs mappings = zip natives (sort_dedup (map (the \<circ> fy_canonicalize fs) paths))"
    if "canonical_directories fs paths = Inr roots" "runtime_path_mappings fs natives roots = Inr mappings" "natives \<noteq> []"
    for paths roots natives mappings
  proof -
    have "mapping_pairs mappings = zip natives (map (the \<circ> fy_canonicalize fs) roots)"
      using runtime_path_mappings_Inr [OF that(2)] that(3) by (intro mapping_pairs_zip) simp_all
    then show ?thesis
      using same [OF that(1)] canonical_directories_Inr [OF that(1)] by simp
  qed
  obtain pairs where pairs: "set (rc_worktree_mappings c) = set pairs"
      "map wm_native_root pairs = rp_native_worktree_roots (rw_paths raw)"
      "map (Some \<circ> wm_mounted_root) pairs = map (fy_canonicalize fs) (rp_allowed_worktree_roots (rw_paths raw))"
    using worktree_mappings_Inr [OF v(1)] assms(3) by auto
  have "set (mapping_pairs (rc_worktree_mappings c)) = set (mapping_pairs pairs)"
    by (simp add: mapping_pairs_def pairs(1))
  then have "set (mapping_pairs (rc_worktree_mappings c)) = set (zip (rp_native_worktree_roots (rw_paths raw))
       (map (the \<circ> fy_canonicalize fs) (rp_allowed_worktree_roots (rw_paths raw))))"
    by (simp add: mapping_pairs_zip [OF pairs(2,3)])
  then show ?thesis
    using runtime [OF v(2,5) assms(4)] runtime [OF v(3,6) assms(5)] runtime [OF v(4,7) assms(6)] by blast
qed


section \<open>The shipped example\<close>

text \<open>
  \<open>config/watchdog.example.toml\<close>, decoded, over a file system in which every path is a canonical directory.
\<close>

definition shipped_files :: file_system where
  "shipped_files = \<lparr>fy_canonicalize = Some, fy_is_dir = \<lambda>_. True\<rparr>"

definition shipped_config :: raw_config where
  "shipped_config = \<lparr>rw_paths = \<lparr>
       rp_allowed_worktree_roots = map path_components [''/monitored/worktrees'', ''/monitored/agent-worktrees''],
       rp_native_worktree_roots = map path_components [''/home/example/git'', ''/data/git-worktrees''],
       rp_native_claude_roots = map path_components [''/home/example/.claude/projects'', ''/home/example/.claude/teams'',
         ''/home/example/.claude/tasks'', ''/home/example/.claude/sessions''],
       rp_claude_roots = map path_components [''/monitored/claude/projects'', ''/monitored/claude/teams'',
         ''/monitored/claude/tasks'', ''/monitored/claude/sessions''],
       rp_native_codex_roots = map path_components [''/home/example/.codex'', ''/home/example/.codex/sessions''],
       rp_codex_roots = map path_components [''/monitored/codex/state'', ''/monitored/codex/sessions''],
       rp_native_companion_roots = map path_components [''/home/example/.claude/plugins/data/codex-openai-codex/state''],
       rp_companion_roots = map path_components [''/monitored/companion''], rp_exclusions = []\<rparr>,
     rw_thresholds = \<lparr>rh_suspect_after_seconds = 300, rh_stalled_after_seconds = 900, rh_reminder_every_seconds = 300,
       rh_terminate_after_stalled_seconds = 3600, rh_warning_grace_seconds = 600, rh_action_grace_seconds = 600\<rparr>,
     rw_adapters = default_raw_adapters, rw_github_enabled = True, rw_termination = default_raw_termination,
     rw_mcp = \<lparr>rx_max_sessions = 64, rx_idle_ttl_seconds = 172800, rx_request_body_timeout_seconds = 30\<rparr>\<rparr>"

lemmas path_eval = path_components_def Let_def List.map_filter_def

lemmas order_eval = sort_dedup_def less_eq_path_component_def less_path_component_def list_le_def list_less_def

lemma shipped_claude:
  "sort_dedup (rp_claude_roots (rw_paths shipped_config)) = map path_components [''/monitored/claude/projects'',
     ''/monitored/claude/sessions'', ''/monitored/claude/tasks'', ''/monitored/claude/teams'']"
  by (simp add: shipped_config_def path_eval order_eval)

lemma shipped_codex:
  "sort_dedup (rp_codex_roots (rw_paths shipped_config)) =
     map path_components [''/monitored/codex/sessions'', ''/monitored/codex/state'']"
  by (simp add: shipped_config_def path_eval order_eval)

lemma shipped_companion:
  "sort_dedup (rp_companion_roots (rw_paths shipped_config)) = map path_components [''/monitored/companion'']"
  by (simp add: shipped_config_def order_eval)

lemma shipped_directories:
  "[RootDir] \<notin> set paths \<Longrightarrow> canonical_directories shipped_files paths = Inr (sort_dedup paths)"
proof -
  assume "[RootDir] \<notin> set paths"
  then have "collect_results (map (canonical_directory shipped_files) paths) = Inr paths"
    by (induction paths) (auto simp: canonical_directory_def shipped_files_def)
  then show ?thesis
    by (simp add: canonical_directories_def)
qed

lemma shipped_mappings:
  assumes "length natives = length mounteds" and "list_all is_concrete_absolute natives" and "[RootDir] \<notin> set mounteds"
  shows "\<exists>mappings. paired_mappings shipped_files natives mounteds = Inr mappings \<and> (mounteds \<noteq> [] \<longrightarrow> mappings \<noteq> [])"
  using assms
proof (induction natives mounteds rule: list_induct2)
  case (Cons native natives mounted mounteds)
  then show ?case
    by (auto simp: paired_mappings_def worktree_path_mapping_new_def shipped_files_def result_elims)
qed (simp add: paired_mappings_def)

lemma shipped_validates: "\<exists>c. validate_config shipped_files shipped_config = Inr c"
proof -
  let ?paths = "rw_paths shipped_config"
  note eval = shipped_config_def path_eval is_concrete_absolute_def
  have shape: "length (rp_native_worktree_roots ?paths) = length (rp_allowed_worktree_roots ?paths)"
    "list_all is_concrete_absolute (rp_native_worktree_roots ?paths)" "[RootDir] \<notin> set (rp_allowed_worktree_roots ?paths)"
    "rp_native_worktree_roots ?paths \<noteq> []" "rp_allowed_worktree_roots ?paths \<noteq> []"
    by (simp_all add: eval)
  obtain pairs where "paired_mappings shipped_files (rp_native_worktree_roots ?paths) (rp_allowed_worktree_roots ?paths) = Inr pairs"
      "pairs \<noteq> []"
    using shipped_mappings [OF shape(1-3)] shape(5) by blast
  moreover have "\<not> list_ex (\<lambda>root. root = [RootDir]) (rp_allowed_worktree_roots ?paths)"
    using shape(3) by (auto simp: list_ex_iff)
  moreover have "remdups_adj (sort_key wm_native_root (sort_key wm_mounted_root pairs)) \<noteq> []"
    using \<open>pairs \<noteq> []\<close> by (metis remdups_adj_Nil_iff set_empty set_sort)
  ultimately have "\<exists>mappings. worktree_mappings shipped_files (rp_native_worktree_roots ?paths) (rp_allowed_worktree_roots ?paths) =
      Inr mappings \<and> mappings \<noteq> []"
    using shape by (simp add: worktree_mappings_def Let_def)
  then obtain wm where wm: "worktree_mappings shipped_files (rp_native_worktree_roots ?paths) (rp_allowed_worktree_roots ?paths) =
      Inr wm" "wm \<noteq> []"
    by blast
  have runtime: "\<exists>mappings. runtime_path_mappings shipped_files natives mounteds = Inr mappings"
    if "natives \<noteq> []" "length natives = length mounteds" "list_all is_concrete_absolute natives" "[RootDir] \<notin> set mounteds"
    for natives mounteds
    using shipped_mappings [OF that(2-4)] that by (auto simp: runtime_path_mappings_def)
  obtain cl where cl: "runtime_path_mappings shipped_files (rp_native_claude_roots ?paths)
      (sort_dedup (rp_claude_roots ?paths)) = Inr cl"
    using runtime [of "rp_native_claude_roots ?paths" "sort_dedup (rp_claude_roots ?paths)"]
    unfolding shipped_claude by (auto simp: eval)
  obtain cx where cx: "runtime_path_mappings shipped_files (rp_native_codex_roots ?paths)
      (sort_dedup (rp_codex_roots ?paths)) = Inr cx"
    using runtime [of "rp_native_codex_roots ?paths" "sort_dedup (rp_codex_roots ?paths)"]
    unfolding shipped_codex by (auto simp: eval)
  obtain co where co: "runtime_path_mappings shipped_files (rp_native_companion_roots ?paths)
      (sort_dedup (rp_companion_roots ?paths)) = Inr co"
    using runtime [of "rp_native_companion_roots ?paths" "sort_dedup (rp_companion_roots ?paths)"]
    unfolding shipped_companion by (auto simp: eval)
  have dirs: "canonical_directories shipped_files (rp_claude_roots ?paths) = Inr (sort_dedup (rp_claude_roots ?paths))"
    "canonical_directories shipped_files (rp_codex_roots ?paths) = Inr (sort_dedup (rp_codex_roots ?paths))"
    "canonical_directories shipped_files (rp_companion_roots ?paths) = Inr (sort_dedup (rp_companion_roots ?paths))"
    "canonical_directories shipped_files (rp_exclusions ?paths) = Inr []"
    by (simp_all add: shipped_directories eval)
  have some: "rp_claude_roots ?paths \<noteq> []" "rp_codex_roots ?paths \<noteq> []" "rp_companion_roots ?paths \<noteq> []"
    by (simp_all add: shipped_config_def)
  show ?thesis
    by (simp add: validate_config_def Let_def wm cl cx co dirs some)
      (simp add: shipped_config_def seconds_def reducer_policy_new_def deadline_policy_new_def mcp_limits_new_def)
qed

theorem runtime_roots_paired_sorted_witness:
  "\<exists>c. validate_config shipped_files shipped_config = Inr c \<and>
     mapping_pairs (rc_claude_path_mappings c) = map (map_prod path_components path_components)
       [(''/home/example/.claude/projects'', ''/monitored/claude/projects''),
        (''/home/example/.claude/teams'', ''/monitored/claude/sessions''),
        (''/home/example/.claude/tasks'', ''/monitored/claude/tasks''),
        (''/home/example/.claude/sessions'', ''/monitored/claude/teams'')] \<and>
     mapping_pairs (rc_codex_path_mappings c) = map (map_prod path_components path_components)
       [(''/home/example/.codex'', ''/monitored/codex/sessions''),
        (''/home/example/.codex/sessions'', ''/monitored/codex/state'')]"
proof -
  obtain c where c: "validate_config shipped_files shipped_config = Inr c"
    using shipped_validates by blast
  have canonical: "canonical_fs shipped_files" "the \<circ> fy_canonicalize shipped_files = id"
    by (auto simp: canonical_fs_def shipped_files_def)
  have natives: "rp_native_worktree_roots (rw_paths shipped_config) \<noteq> []" "rp_native_claude_roots (rw_paths shipped_config) \<noteq> []"
    "rp_native_codex_roots (rw_paths shipped_config) \<noteq> []" "rp_native_companion_roots (rw_paths shipped_config) \<noteq> []"
    by (simp_all add: shipped_config_def)
  show ?thesis
    using runtime_roots_paired_sorted [OF c canonical(1) natives] c
    unfolding canonical(2) list.map_id shipped_claude shipped_codex by (simp add: shipped_config_def)
qed

text \<open>A file with this configuration, and one that is not valid UTF-8.\<close>

definition shipped_source :: config_source where
  "shipped_source = \<lparr>cs_files = shipped_files, cs_content = Some ''[paths]'', cs_decode = \<lambda>_. Some shipped_config\<rparr>"

definition broken_source :: config_source where
  "broken_source = shipped_source\<lparr>cs_decode := \<lambda>_. None\<rparr>"

lemma shipped_loads: "\<exists>manager. load_manager shipped_source = Inr manager"
  using shipped_validates
  by (auto simp: load_manager_def load_config_def shipped_source_def MAX_CONFIG_BYTES_def byte_in_def)

theorem reload_keeps_last_valid_witness:
  "\<exists>manager w. load_manager shipped_source = Inr manager \<and>
     w = run_reloads [(5, broken_source)] \<lparr>rw_manager = manager, rw_health = health_service_new,
       rw_policy = rc_reducer_policy (cm_current manager)\<rparr> \<and>
     hs_configuration_warning (health_snapshot_of (rw_health w)) =
       Some ''configuration reload rejected: Configuration is not valid TOML''"
proof -
  obtain manager where manager: "load_manager shipped_source = Inr manager"
    using shipped_loads by blast
  let ?w0 = "\<lparr>rw_manager = manager, rw_health = health_service_new, rw_policy = rc_reducer_policy (cm_current manager)\<rparr>"
  have "load_config broken_source = Inl ConfigInvalidToml"
    by (simp add: load_config_def broken_source_def shipped_source_def MAX_CONFIG_BYTES_def byte_in_def)
  then show ?thesis
    using reload_keeps_last_valid [OF manager, of ?w0 "run_reloads [(5, broken_source)] ?w0" "[(5, broken_source)]"] manager
    by auto
qed

end
