(* ===== verification/Spec2Isabelle.thy ===== *)
theory Spec2Isabelle
  imports Reducer Safety Correlation Session_Queue Health Incremental Worktree Process_Model Procfs Termination Hierarchy Monitor Queue_Health
    Reservations Notifier Process_Monitor Config
begin

text \<open>
  Agent Watchdog supervises the sessions of coding agents: it collects evidence about them, keeps a durable
  state per session, warns people, and, for child sessions only, stops a stalled process. This library models
  the Rust code that decides these things and proves what makes each part, and their composition, correct.

  \<^bold>\<open>How the program works.\<close> Agents report over MCP and discovery reports for them: both become observations
  (\<open>watchdog-domain\<close>). The agent API (\<open>watchdog-server/src/agent_api.rs\<close>) binds each transport to the tree of one
  main session, admits observations into a bounded queue per session, and one drainer per session gives them to the
  lane of the session (\<open>watchdog-runtime/src/coordinator.rs\<close>). A lane reduces an observation to a new snapshot and
  events (\<open>watchdog-domain/src/reducer.rs\<close>) and commits both in one SQLite transaction (\<open>watchdog-store\<close>).
  Clients read the events of their tree from the inbox; the dispatcher sends them to webhooks; the process
  monitor samples \<open>/proc\<close> and submits what grew as further observations; the termination monitor collects facts
  about every child and lets the saga engine warn, cancel, and signal it in stages.

  \<^bold>\<open>Foundations.\<close>
  \<^item> \<open>Prelude\<close>: \<open>Result\<close> and \<open>Option\<close>, integer operations at their width, \<open>BTreeMap\<close> with the locale
    \<open>ordered_map\<close>. \<open>Rust_Std\<close>: strings as bytes, parsing and printing of numbers, path components, comparators
    (locale \<open>comparator\<close>).
  \<^item> \<open>Machines\<close>: the contracts of state machines as locales over a step function: \<open>invariant_machine\<close>,
    \<open>revisioned_machine\<close>, \<open>extending_machine\<close>, \<open>logged_machine\<close>. Each is interpreted on the code's own machines
    in the theory of the component, and the theorems about runs are instances of their lemmas.

  \<^bold>\<open>The domain\<close> (\<open>crates/watchdog-domain/src\<close>).
  \<^item> \<open>Identity\<close>: bounded text and identifiers (\<open>input.rs\<close>, \<open>identity.rs\<close>, \<open>session.rs\<close>, \<open>process.rs\<close>, \<open>time.rs\<close>).
    \<open>Evidence\<close>: states, policies, observations and events (\<open>state.rs\<close>, \<open>policy.rs\<close>, \<open>evidence.rs\<close>, \<open>observation.rs\<close>,
    \<open>event.rs\<close>).
  \<^item> \<open>Reducer\<close> (\<open>reducer.rs\<close>): the snapshot invariant, replay of the emitted events, stall timing, and the pause that
    leaks through a source conflict. \<open>Safety\<close> (\<open>safety.rs\<close>): when a child is eligible for termination.
  \<^item> \<open>Correlation\<close> (\<open>correlation.rs\<close>): which parent a child gets.

  \<^bold>\<open>The runtime and the processes\<close> (\<open>watchdog-runtime\<close>, \<open>watchdog-process\<close>).
  \<^item> \<open>Session_Queue\<close> (\<open>queue.rs\<close>), \<open>Health\<close> (\<open>health.rs\<close>), \<open>Incremental\<close> (\<open>incremental.rs\<close>), \<open>Worktree\<close>
    (\<open>worktree.rs\<close>): durable evidence in order, the gate that fails closed, exact record reading, attribution.
  \<^item> \<open>Process_Model\<close> (\<open>model.rs\<close>) and \<open>Procfs\<close> (\<open>procfs.rs\<close>, \<open>linux.rs\<close>): growth between process trees, the parsers,
    the sampler with the termination of its worklist, and handles that only exist for the verified process.
  \<^item> \<open>Coordinator\<close> (\<open>coordinator.rs\<close>): lanes over one store and one event sequence; in every interleaving of calls a
    lane agrees with its row. \<open>Reservations\<close> splits a call at its wait for the store.

  \<^bold>\<open>The store\<close> (\<open>watchdog-store/src\<close>).
  \<^item> \<open>Store\<close> (\<open>lib.rs\<close> and the snapshot, event, saga, inbox and outbox repositories): tables as lists of rows by primary
    key, transactions as all or nothing, the schema as an invariant of every run, history that only grows.
  \<^item> \<open>Hierarchy\<close>: sessions, relations and discovery aliases. \<open>Records\<close>: metadata, watch paths, activity, file cursors,
    deadlines, adapter health, notification attempts (\<open>records.rs\<close>, \<open>repositories.rs\<close>).

  \<^bold>\<open>The server\<close> (\<open>watchdog-server/src\<close>).
  \<^item> \<open>Scopes\<close>, \<open>Admission\<close>, \<open>Queue_Health\<close>, \<open>Agent_Views\<close>, \<open>Agent_Api\<close> (\<open>agent_api.rs\<close>): transport scopes and their
    guards, the admission tasks at the grain of their locks, the views, and every request. \<open>Agent_Guarantees\<close> holds
    what the requests promise, \<open>Inbox\<close> that a client gets every event once and in order.
  \<^item> \<open>Termination\<close> and \<open>Monitor\<close> (\<open>termination.rs\<close>): the saga engine, refined to the relation \<open>saga_change\<close>, and the
    monitor around it: every \<open>SIGKILL\<close> comes after a \<open>SIGTERM\<close>, a cancellation and a committed warning for the same
    process, each a full grace apart.
  \<^item> \<open>Process_Monitor\<close> (\<open>process_monitor.rs\<close>), \<open>Notifier\<close> (\<open>notifications.rs\<close>), \<open>Path_Mapping\<close> (\<open>path_mapping.rs\<close>),
    \<open>Health_Service\<close> (\<open>health.rs\<close>), \<open>Config\<close> (\<open>config.rs\<close> with the reload worker of \<open>server.rs\<close> and the limits of
    \<open>mcp.rs\<close>): verified growth, webhooks without repetition, projections that stay in their root, the health
    endpoint, and the configuration that stays active when a reload is rejected.

  \<^bold>\<open>Conventions.\<close> A struct is a record, an enum a datatype, an error a value of a sum. Identifiers and counters
  have the width of the code (\<open>u32\<close>, \<open>u64\<close>, \<open>i64\<close> as \<open>int\<close> within its bounds); saturating and checked operations are
  written out. Strings are lists of bytes. A record of the Rust code keeps its field order under a two-letter prefix.
  A lock-protected section is one step; where a task waits, other steps come between: \<open>Admission\<close> has one step per
  critical section, a request of \<open>Agent_Api\<close> carries a schedule of the other tasks' steps, \<open>Coordinator\<close> takes a lane
  call as one step and \<open>Reservations\<close> as two. A request whose schedule ends before it is answered has the result \<open>None\<close>.

  \<^bold>\<open>Parameters.\<close> What is not under \<open>src/\<close> is an argument: the statements of SQLite that fail (\<open>sqlite\<close>), \<open>serde_json\<close> on
  each record type and the UUID functions (\<open>foreign_code\<close>, \<open>relation_code\<close>, \<open>records_code\<close>, \<open>agent_code\<close>,
  \<open>notifier_code\<close>), the content of procfs and the pidfd calls, the canceller, the URL parser and the replies of the
  HTTP client, the file system, the TOML decoder and the clock. Where a theorem needs it, a hypothesis says that a
  decoder reads back what the encoder wrote, or that canonical paths are canonical; each such theorem has a witness
  with concrete functions.

  \<^bold>\<open>Termination.\<close> No definition uses fuel: every recursion is structural or has a measure (the worklist of
  \<open>descend\<close>). The task loops of the program that never end are sequences of their passes.

  \<^bold>\<open>What modelling showed.\<close> The theorems \<open>pause_leaks_through_conflict\<close>, \<open>admission_deadlock_reachable\<close>,
  \<open>reload_misses_lane\<close>, \<open>superseded_relation_still_trusted\<close>, \<open>newest_sessions_unsupervised\<close>, \<open>late_event_never_delivered\<close>,
  \<open>reused_pid_credits_other\<close> and \<open>runtime_roots_paired_sorted\<close> state behaviour of the code that its documents exclude.

  \<^bold>\<open>Not modelled.\<close> Discovery and the adapters of the runtimes (\<open>discovery.rs\<close>, \<open>watchdog-claude\<close>, \<open>watchdog-codex\<close>,
  \<open>watchdog-companion\<close>): decoders of undocumented JSON of other programs and walks over their directories; what they
  find enters the model as discovery requests and observations. The axum, rmcp and SSE wiring (\<open>server.rs\<close>, \<open>mcp.rs\<close>,
  \<open>auth.rs\<close>, \<open>hooks.rs\<close>, \<open>dashboard/\<close>), the GitHub client (\<open>github.rs\<close>), and the file-system capabilities with
  inotify (\<open>watch_paths.rs\<close>, \<open>filesystem_activity.rs\<close>, \<open>scan.rs\<close>, \<open>watcher.rs\<close>, \<open>capability.rs\<close>) are input and output. In
  the agent API, \<open>register_watch_path\<close> and the health view are left out; in the store, the listing of discovery aliases.
\<close>

end
